(* ===== verification/Go_Prelude.thy ===== *)
theory Go_Prelude
  imports Main "HOL-Library.Word" "HOL-Library.Sublist" "HOL-Library.Char_ord"
begin

text \<open>
  Values of the Go language and of its standard library as the modelled packages use them.

  \<^item> A Go \<open>string\<close> (and a \<open>[]byte\<close>) is a list of bytes: \<open>string\<close>, one \<open>char\<close> per byte.
    \<open>TrimSpace\<close> is \<open>strings.TrimSpace\<close> on the UTF-8 bytes; \<open>blank s\<close> is the test
    \<open>strings.TrimSpace(s) == ""\<close> that nearly every validation of the code begins with.
  \<^item> \<open>int\<close> and \<open>int64\<close> are \<open>int\<close> with the wrap-around of \<open>+\<close> written out by \<open>wrap64\<close>;
    \<open>uint64\<close> and \<open>uint32\<close> are words. \<open>float64\<close> is its 64 bits.
  \<^item> A \<open>time.Time\<close> is its instant, the nanoseconds since 0001-01-01T00:00:00Z, so the zero
    value is 0 and \<open>UTC()\<close>, which changes the location only, is the identity. \<open>time.Now()\<close>
    is an argument of the operation that calls it.
  \<^item> A pointer or an optional result is an \<open>option\<close>; \<open>(T, error)\<close> is \<open>'e + 'a\<close> with \<open>Inl\<close>
    for the error; an \<open>error\<close> alone is \<open>'e option\<close> with \<open>None\<close> for \<open>nil\<close>.
  \<^item> A payload given to \<open>json.Marshal\<close> is a \<open>json\<close> tree; \<open>marshal_ok\<close> says whether
    \<open>Marshal\<close> accepts it.
\<close>

named_theorems go_defs "definitions that unfold Go library operations"

unbundle bit_operations_syntax

type_synonym bytes = string
type_synonym int64 = int
type_synonym uint64 = "64 word"
type_synonym float64 = "64 word"
type_synonym gotime = int
type_synonym duration = int

subsection \<open>Results\<close>

text \<open>How a checked call can have succeeded: every guard on the way was passed.\<close>

lemma guard_Inr [simp]:
  "(case e of None \<Rightarrow> r | Some x \<Rightarrow> Inl (f x)) = Inr y \<longleftrightarrow> e = None \<and> r = Inr y"
  by (cases e) simp_all

lemma if_Inl_Inr [simp]: "(if b then Inl x else r) = Inr y \<longleftrightarrow> \<not> b \<and> r = Inr y"
  by simp

lemma bind_Inr [simp]:
  "(case m of Inl x \<Rightarrow> Inl (f x) | Inr z \<Rightarrow> g z) = Inr y \<longleftrightarrow> (\<exists>z. m = Inr z \<and> g z = Inr y)"
  by (cases m) simp_all

lemma first_error_None [simp]:
  "(if b then Some x else r) = None \<longleftrightarrow> \<not> b \<and> r = None"
  "(case e of None \<Rightarrow> r' | Some x \<Rightarrow> Some (f x)) = None \<longleftrightarrow> e = None \<and> r' = None"
  by (cases e; simp)+

text \<open>The first row of a table that satisfies a condition, when rows are appended.\<close>

lemma find_append:
  "List.find P (xs @ ys) = (case List.find P xs of None \<Rightarrow> List.find P ys | Some x \<Rightarrow> Some x)"
  by (induction xs) simp_all

subsection \<open>Integers\<close>

definition max_int64 :: int64 where "max_int64 = 9223372036854775807"
definition min_int64 :: int64 where "min_int64 = - 9223372036854775808"

definition wrap64 :: "int \<Rightarrow> int64" where
  "wrap64 x = (x + 9223372036854775808) mod 18446744073709551616 - 9223372036854775808"

definition in_int64 :: "int \<Rightarrow> bool" where
  "in_int64 x \<longleftrightarrow> min_int64 \<le> x \<and> x \<le> max_int64"

lemma wrap64_id: "in_int64 x \<Longrightarrow> wrap64 x = x"
  by (simp add: wrap64_def in_int64_def min_int64_def max_int64_def)

lemma in_int64_wrap64: "in_int64 (wrap64 x)"
proof -
  have "0 \<le> (x + 9223372036854775808) mod 18446744073709551616"
    by simp
  moreover have "(x + 9223372036854775808) mod 18446744073709551616 < 18446744073709551616"
    by (rule pos_mod_bound) simp
  ultimately show ?thesis
    by (simp add: wrap64_def in_int64_def min_int64_def max_int64_def)
qed

lemma wrap64_Suc: "in_int64 x \<Longrightarrow> x < max_int64 \<Longrightarrow> wrap64 (x + 1) = x + 1"
  by (rule wrap64_id) (simp add: in_int64_def min_int64_def)

lemma wrap64_add: "wrap64 (wrap64 x + y) = wrap64 (x + y)"
proof -
  have "((x + 9223372036854775808) mod 18446744073709551616 - 9223372036854775808 + y
        + 9223372036854775808) mod 18446744073709551616
      = ((x + 9223372036854775808) mod 18446744073709551616 + y) mod 18446744073709551616"
    by simp
  also have "\<dots> = (x + 9223372036854775808 + y) mod 18446744073709551616"
    by (rule mod_add_left_eq)
  finally show ?thesis by (simp add: wrap64_def ac_simps)
qed

subsection \<open>Decimal rendering (the verbs \<open>%d\<close> and \<open>strconv.FormatUint\<close>)\<close>

definition digit_char :: "nat \<Rightarrow> char" where
  "digit_char d = char_of (48 + d)"

fun show_nat :: "nat \<Rightarrow> string" where
  "show_nat n = (if n < 10 then [digit_char n] else show_nat (n div 10) @ [digit_char (n mod 10)])"

declare show_nat.simps [simp del]

definition show_int :: "int \<Rightarrow> string" where
  "show_int i = (if i < 0 then CHR ''-'' # show_nat (nat (- i)) else show_nat (nat i))"

definition show_u64 :: "uint64 \<Rightarrow> string" where
  "show_u64 w = show_nat (unat w)"

definition is_digit :: "char \<Rightarrow> bool" where
  "is_digit c \<longleftrightarrow> 48 \<le> (of_char c :: nat) \<and> (of_char c :: nat) \<le> 57"

lemma of_char_digit_char: "d < 10 \<Longrightarrow> (of_char (digit_char d) :: nat) = 48 + d"
  by (simp add: digit_char_def)

lemma is_digit_digit_char: "d < 10 \<Longrightarrow> is_digit (digit_char d)"
  by (simp add: is_digit_def of_char_digit_char)

lemma digit_char_inject: "d < 10 \<Longrightarrow> e < 10 \<Longrightarrow> digit_char d = digit_char e \<longleftrightarrow> d = e"
  by (metis add_left_cancel of_char_digit_char)

lemma show_nat_digits: "c \<in> set (show_nat n) \<Longrightarrow> is_digit c"
proof (induction n rule: show_nat.induct)
  case (1 n)
  then show ?case
    by (cases "n < 10") (auto simp: show_nat.simps [of n] is_digit_digit_char)
qed

lemma show_nat_not_Nil [simp]: "show_nat n \<noteq> []"
  by (subst show_nat.simps) simp

lemma show_nat_inject: "show_nat m = show_nat n \<longleftrightarrow> m = n"
proof (induction m arbitrary: n rule: show_nat.induct)
  case (1 m)
  have eq1: "show_nat k = [c] \<longleftrightarrow> k < 10 \<and> c = digit_char k" for k c
    by (subst show_nat.simps) (auto dest: sym [of "[]"])
  show ?case
  proof (cases "m < 10")
    case True
    then have "show_nat m = [digit_char m]" by (simp add: show_nat.simps [of m])
    then show ?thesis using True eq1 [of n "digit_char m"] digit_char_inject by auto
  next
    case False
    then have m: "show_nat m = show_nat (m div 10) @ [digit_char (m mod 10)]"
      by (simp add: show_nat.simps [of m])
    show ?thesis
    proof (cases "n < 10")
      case True
      then have "show_nat n = [digit_char n]" by (simp add: show_nat.simps [of n])
      with m False True show ?thesis by auto
    next
      case nge: False
      then have n: "show_nat n = show_nat (n div 10) @ [digit_char (n mod 10)]"
        by (simp add: show_nat.simps [of n])
      have "show_nat m = show_nat n \<longleftrightarrow> m div 10 = n div 10 \<and> m mod 10 = n mod 10"
        using "1.IH" [OF False, of "n div 10"] m n digit_char_inject by simp
      also have "\<dots> \<longleftrightarrow> m = n" by (metis div_mult_mod_eq)
      finally show ?thesis .
    qed
  qed
qed

subsection \<open>Strings (package \<open>strings\<close>)\<close>

text \<open>
  The UTF-8 encodings of the code points for which \<open>unicode.IsSpace\<close> holds, by length:
  U+0009 to U+000D and U+0020; U+0085 and U+00A0; U+1680, U+2000 to U+200A, U+2028, U+2029,
  U+202F, U+205F and U+3000.
\<close>

definition ascii_space :: "char \<Rightarrow> bool" where
  "ascii_space c \<longleftrightarrow> (of_char c :: nat) \<in> {9, 10, 11, 12, 13, 32}"

definition space2 :: "nat list \<Rightarrow> bool" where
  "space2 bs \<longleftrightarrow> bs = [0xC2, 0x85] \<or> bs = [0xC2, 0xA0]"

definition space3 :: "nat list \<Rightarrow> bool" where
  "space3 bs \<longleftrightarrow> bs = [0xE1, 0x9A, 0x80] \<or>
     (length bs = 3 \<and> bs ! 0 = 0xE2 \<and> bs ! 1 = 0x80 \<and> 0x80 \<le> bs ! 2 \<and> bs ! 2 \<le> 0x8A) \<or>
     bs = [0xE2, 0x80, 0xA8] \<or> bs = [0xE2, 0x80, 0xA9] \<or> bs = [0xE2, 0x80, 0xAF] \<or>
     bs = [0xE2, 0x81, 0x9F] \<or> bs = [0xE3, 0x80, 0x80]"

definition byte_vals :: "string \<Rightarrow> nat list" where
  "byte_vals s = map of_char s"

definition lspace_len :: "string \<Rightarrow> nat" where
  "lspace_len s =
     (if s \<noteq> [] \<and> ascii_space (hd s) then 1
      else if space2 (byte_vals (take 2 s)) then 2
      else if space3 (byte_vals (take 3 s)) then 3 else 0)"

definition rspace_len :: "string \<Rightarrow> nat" where
  "rspace_len s =
     (if s \<noteq> [] \<and> ascii_space (last s) then 1
      else if space2 (byte_vals (drop (length s - 2) s)) then 2
      else if space3 (byte_vals (drop (length s - 3) s)) then 3 else 0)"

lemma lspace_len_le: "lspace_len s \<le> length s"
proof -
  have "space2 (byte_vals (take 2 s)) \<Longrightarrow> 2 \<le> length s"
    by (auto simp: space2_def byte_vals_def dest!: arg_cong [where f = length] split: if_splits)
  moreover have "space3 (byte_vals (take 3 s)) \<Longrightarrow> 3 \<le> length s"
    by (auto simp: space3_def byte_vals_def dest!: arg_cong [where f = length])
  ultimately show ?thesis
    by (cases s) (auto simp: lspace_len_def)
qed

lemma rspace_len_le: "rspace_len s \<le> length s"
proof -
  have "space2 (byte_vals (drop (length s - 2) s)) \<Longrightarrow> 2 \<le> length s"
    by (auto simp: space2_def byte_vals_def dest!: arg_cong [where f = length])
  moreover have "space3 (byte_vals (drop (length s - 3) s)) \<Longrightarrow> 3 \<le> length s"
    by (auto simp: space3_def byte_vals_def dest!: arg_cong [where f = length])
  ultimately show ?thesis
    by (cases s) (auto simp: rspace_len_def)
qed

function trim_left :: "string \<Rightarrow> string" where
  "trim_left s = (if lspace_len s = 0 then s else trim_left (drop (lspace_len s) s))"
  by pat_completeness auto
termination
proof (relation "measure length")
  fix s
  assume "lspace_len s \<noteq> 0"
  with lspace_len_le [of s] show "(drop (lspace_len s) s, s) \<in> measure length" by simp
qed simp

function trim_right :: "string \<Rightarrow> string" where
  "trim_right s = (if rspace_len s = 0 then s else trim_right (take (length s - rspace_len s) s))"
  by pat_completeness auto
termination
proof (relation "measure length")
  fix s
  assume "rspace_len s \<noteq> 0"
  with rspace_len_le [of s] show "(take (length s - rspace_len s) s, s) \<in> measure length" by simp
qed simp

declare trim_left.simps [simp del] trim_right.simps [simp del]

definition TrimSpace :: "string \<Rightarrow> string" where
  "TrimSpace s = trim_right (trim_left s)"

definition blank :: "string \<Rightarrow> bool" where
  "blank s \<longleftrightarrow> TrimSpace s = []"

definition graphic :: "char \<Rightarrow> bool" where
  "graphic c \<longleftrightarrow> 33 \<le> (of_char c :: nat) \<and> (of_char c :: nat) < 127"

fun join :: "string \<Rightarrow> string list \<Rightarrow> string" where
  "join sep [] = []"
| "join sep [x] = x"
| "join sep (x # y # xs) = x @ sep @ join sep (y # xs)"

lemma graphic_no_lspace: "graphic c \<Longrightarrow> lspace_len (c # cs) = 0"
  by (auto simp: graphic_def lspace_len_def ascii_space_def space2_def space3_def byte_vals_def
      dest!: arg_cong [where f = hd])

lemma graphic_rspace_less:
  assumes "graphic c"
  shows "rspace_len (c # cs) < length (c # cs)"
proof (rule ccontr)
  assume "\<not> ?thesis"
  then have len: "rspace_len (c # cs) = length (c # cs)"
    using rspace_len_le [of "c # cs"] by simp
  have c: "(of_char c :: nat) < 127" "\<not> ascii_space c"
    using assms by (auto simp: graphic_def ascii_space_def)
  from len consider "cs = []" "ascii_space c" | "length cs = 1" "space2 (byte_vals (c # cs))"
    | "length cs = 2" "space3 (byte_vals (c # cs))"
    by (auto simp: rspace_len_def space2_def space3_def byte_vals_def split: if_splits)
  then show False
    using c by cases (auto simp: space2_def space3_def byte_vals_def)
qed

lemma trim_left_graphic: "graphic c \<Longrightarrow> trim_left (c # cs) = c # cs"
  by (subst trim_left.simps) (simp add: graphic_no_lspace)

lemma trim_right_graphic:
  assumes "graphic c"
  shows "\<exists>ds. trim_right (c # cs) = c # ds"
proof (induction "length cs" arbitrary: cs rule: less_induct)
  case less
  show ?case
  proof (cases "rspace_len (c # cs) = 0")
    case True
    then show ?thesis by (subst trim_right.simps) simp
  next
    case False
    let ?k = "rspace_len (c # cs)"
    have "take (length (c # cs) - ?k) (c # cs) = c # take (length cs - ?k) cs"
      using graphic_rspace_less [OF assms, of cs] by (simp add: take_Cons' Suc_diff_le)
    moreover have "length (take (length cs - ?k) cs) < length cs"
      using False graphic_rspace_less [OF assms, of cs] by simp
    then have "\<exists>ds. trim_right (c # take (length cs - ?k) cs) = c # ds"
      using False by (intro less) auto
    ultimately show ?thesis
      using False by (subst trim_right.simps) simp
  qed
qed

lemma not_blank_graphic [simp]: "graphic c \<Longrightarrow> \<not> blank (c # cs)"
  using trim_right_graphic [of c cs] by (auto simp: blank_def TrimSpace_def trim_left_graphic)

lemma blank_Nil [simp]: "blank []"
proof -
  have "trim_left [] = []"
    by (subst trim_left.simps) (simp add: lspace_len_def space2_def space3_def byte_vals_def)
  moreover have "trim_right [] = []"
    by (subst trim_right.simps) (simp add: rspace_len_def space2_def space3_def byte_vals_def)
  ultimately show ?thesis by (simp add: blank_def TrimSpace_def)
qed

lemma graphic_code [simp]: "graphic (Char b0 b1 b2 b3 b4 b5 b6 b7) =
    (let n = (of_char (Char b0 b1 b2 b3 b4 b5 b6 b7) :: nat) in 33 \<le> n \<and> n < 127)"
  by (simp add: graphic_def Let_def)

lemma not_blank_not_Nil: "\<not> blank s \<Longrightarrow> s \<noteq> []"
  by auto

text \<open>
  Joining with a separator byte that none of the parts contains loses nothing: the number
  of parts fixed, the joined string determines them.
\<close>

lemma append_sep_inject:
  assumes "c \<notin> set xs" "c \<notin> set ys" "xs @ c # us = ys @ c # vs"
  shows "xs = ys \<and> us = vs"
  using assms
proof (induction xs arbitrary: ys)
  case Nil
  then show ?case by (cases ys) auto
next
  case (Cons x xs)
  then show ?case by (cases ys) auto
qed

lemma join_inject:
  assumes "length xs = length ys" and "\<forall>s \<in> set xs. c \<notin> set s" and "\<forall>s \<in> set ys. c \<notin> set s"
    and "join [c] xs = join [c] ys"
  shows "xs = ys"
  using assms
proof (induction xs ys rule: list_induct2)
  case Nil
  then show ?case by simp
next
  case (Cons x xs y ys)
  show ?case
  proof (cases xs)
    case Nil
    with Cons show ?thesis by simp
  next
    case (Cons x' xs')
    moreover obtain y' ys' where "ys = y' # ys'"
      using Cons \<open>length xs = length ys\<close> by (cases ys) auto
    ultimately show ?thesis
      using Cons.prems Cons.IH append_sep_inject [of c x y "join [c] xs" "join [c] ys"] by simp
  qed
qed

subsection \<open>Hexadecimal (package \<open>encoding/hex\<close>)\<close>

definition hex_digit :: "nat \<Rightarrow> char" where
  "hex_digit d = (if d < 10 then char_of (48 + d) else char_of (87 + d))"

definition hex_encode :: "bytes \<Rightarrow> string" where
  "hex_encode bs = concat (map (\<lambda>b. [hex_digit (of_char b div 16), hex_digit (of_char b mod 16)]) bs)"

definition hex_val :: "char \<Rightarrow> nat option" where
  "hex_val c = (let n = of_char c :: nat in
     if 48 \<le> n \<and> n \<le> 57 then Some (n - 48)
     else if 97 \<le> n \<and> n \<le> 102 then Some (n - 87)
     else if 65 \<le> n \<and> n \<le> 70 then Some (n - 55) else None)"

fun hex_decode :: "string \<Rightarrow> bytes option" where
  "hex_decode [] = Some []"
| "hex_decode [c] = None"
| "hex_decode (a # b # cs) =
     (case (hex_val a, hex_val b, hex_decode cs) of
        (Some x, Some y, Some bs) \<Rightarrow> Some (char_of (16 * x + y) # bs)
      | _ \<Rightarrow> None)"

lemma hex_val_digit: "d < 16 \<Longrightarrow> hex_val (hex_digit d) = Some d"
  by (auto simp: hex_val_def hex_digit_def)

lemma hex_decode_encode: "hex_decode (hex_encode bs) = Some bs"
proof (induction bs)
  case Nil
  show ?case by (simp add: hex_encode_def)
next
  case (Cons b bs)
  have "(of_char b :: nat) < 256" by (rule nat_of_char_less_256)
  then have "(of_char b :: nat) div 16 < 16" by (simp add: div_less_iff_less_mult)
  with Cons show ?case
    by (simp add: hex_encode_def hex_val_digit)
qed

lemma length_hex_encode: "length (hex_encode bs) = 2 * length bs"
  by (induction bs) (simp_all add: hex_encode_def)

subsection \<open>Base64 (package \<open>encoding/base64\<close>)\<close>

text \<open>The alphabets of \<open>StdEncoding\<close> and \<open>URLEncoding\<close> differ in the last two digits.\<close>

definition b64_val :: "bool \<Rightarrow> char \<Rightarrow> nat option" where
  "b64_val url c = (let n = of_char c :: nat in
     if 65 \<le> n \<and> n \<le> 90 then Some (n - 65)
     else if 97 \<le> n \<and> n \<le> 122 then Some (n - 71)
     else if 48 \<le> n \<and> n \<le> 57 then Some (n + 4)
     else if n = (if url then 45 else 43) then Some 62
     else if n = (if url then 95 else 47) then Some 63 else None)"

definition b64_byte1 :: "nat \<Rightarrow> nat \<Rightarrow> char" where "b64_byte1 x y = char_of (4 * x + y div 16)"
definition b64_byte2 :: "nat \<Rightarrow> nat \<Rightarrow> char" where "b64_byte2 y z = char_of (16 * (y mod 16) + z div 4)"
definition b64_byte3 :: "nat \<Rightarrow> nat \<Rightarrow> char" where "b64_byte3 z w = char_of (64 * (z mod 4) + w)"

text \<open>
  \<open>padded\<close> tells the encodings whose last quantum is filled with \<open>=\<close> from the raw ones, where it
  is two or three digits. The decoder is not strict about the unused bits.
\<close>

fun b64_quads :: "bool \<Rightarrow> bool \<Rightarrow> string \<Rightarrow> bytes option" where
  "b64_quads url padded [] = Some []"
| "b64_quads url padded [a] = None"
| "b64_quads url padded [a, b] =
     (case (b64_val url a, b64_val url b) of
        (Some x, Some y) \<Rightarrow> if padded then None else Some [b64_byte1 x y]
      | _ \<Rightarrow> None)"
| "b64_quads url padded [a, b, c] =
     (case (b64_val url a, b64_val url b, b64_val url c) of
        (Some x, Some y, Some z) \<Rightarrow> if padded then None else Some [b64_byte1 x y, b64_byte2 y z]
      | _ \<Rightarrow> None)"
| "b64_quads url padded (a # b # c # d # rest) =
     (case (b64_val url a, b64_val url b) of
        (Some x, Some y) \<Rightarrow>
          (if padded \<and> rest = [] \<and> c = CHR ''='' \<and> d = CHR ''='' then Some [b64_byte1 x y]
           else (case b64_val url c of
               None \<Rightarrow> None
             | Some z \<Rightarrow>
                 (if padded \<and> rest = [] \<and> d = CHR ''='' then Some [b64_byte1 x y, b64_byte2 y z]
                  else (case (b64_val url d, b64_quads url padded rest) of
                      (Some w, Some bs) \<Rightarrow> Some (b64_byte1 x y # b64_byte2 y z # b64_byte3 z w # bs)
                    | _ \<Rightarrow> None))))
      | _ \<Rightarrow> None)"

text \<open>Carriage returns and newlines are skipped wherever they stand.\<close>

definition b64_decode :: "bool \<Rightarrow> bool \<Rightarrow> string \<Rightarrow> bytes option" where
  "b64_decode url padded s = b64_quads url padded (filter (\<lambda>c. c \<noteq> CHR 0x0D \<and> c \<noteq> CHR 0x0A) s)"

subsection \<open>Times (package \<open>time\<close>)\<close>

definition time_IsZero :: "gotime \<Rightarrow> bool" where
  "time_IsZero t \<longleftrightarrow> t = 0"

definition second :: duration where "second = 1000000000"
definition day_ns :: duration where "day_ns = 86400000000000"

text \<open>\<open>t.Sub(u)\<close> saturates at the bounds of a 64-bit duration.\<close>

definition time_Sub :: "gotime \<Rightarrow> gotime \<Rightarrow> duration" where
  "time_Sub t u = max min_int64 (min max_int64 (t - u))"

text \<open>\<open>t.UnixNano()\<close>: 719162 days lie between year 1 and 1970; the result wraps.\<close>

definition unix_epoch :: gotime where "unix_epoch = 719162 * 86400000000000"

definition time_UnixNano :: "gotime \<Rightarrow> int64" where
  "time_UnixNano t = wrap64 (t - unix_epoch)"

definition time_Unix :: "gotime \<Rightarrow> int64" where
  "time_Unix t = wrap64 ((t - unix_epoch) div second)"

text \<open>The proleptic Gregorian date of a day counted from 0001-01-01.\<close>

definition civil_of_days :: "int \<Rightarrow> int \<times> int \<times> int" where
  "civil_of_days n =
     (let z = n + 306;
          era = z div 146097;
          doe = z mod 146097;
          yoe = (doe - doe div 1460 + doe div 36524 - doe div 146096) div 365;
          doy = doe - (365 * yoe + yoe div 4 - yoe div 100);
          mp = (5 * doy + 2) div 153;
          d = doy - (153 * mp + 2) div 5 + 1;
          m = (if mp < 10 then mp + 3 else mp - 9);
          y = yoe + era * 400 + (if m \<le> 2 then 1 else 0)
      in (y, m, d))"

definition pad_left :: "nat \<Rightarrow> string \<Rightarrow> string" where
  "pad_left w s = replicate (w - length s) (CHR ''0'') @ s"

definition show_padded :: "nat \<Rightarrow> int \<Rightarrow> string" where
  "show_padded w i = (if i < 0 then CHR ''-'' # pad_left w (show_nat (nat (- i)))
                      else pad_left w (show_nat (nat i)))"

fun strip_zeros :: "string \<Rightarrow> string" where
  "strip_zeros [] = []"
| "strip_zeros (c # cs) =
     (case strip_zeros cs of [] \<Rightarrow> (if c = CHR ''0'' then [] else [c]) | ds \<Rightarrow> c # ds)"

text \<open>\<open>t.UTC().Format(time.RFC3339Nano)\<close>.\<close>

definition RFC3339Nano :: "gotime \<Rightarrow> string" where
  "RFC3339Nano t =
     (let (y, m, d) = civil_of_days (t div day_ns);
          sod = (t mod day_ns) div second;
          frac = strip_zeros (show_padded 9 (t mod second))
      in show_padded 4 y @ ''-'' @ show_padded 2 m @ ''-'' @ show_padded 2 d @ ''T'' @
         show_padded 2 (sod div 3600) @ '':'' @ show_padded 2 (sod div 60 mod 60) @ '':'' @
         show_padded 2 (sod mod 60) @ (if frac = [] then [] else CHR ''.'' # frac) @ ''Z'')"

subsection \<open>Cryptographic primitives\<close>

text \<open>
  The hash, the keyed hash and the signature check of \<open>crypto/sha256\<close>, \<open>crypto/hmac\<close> and
  \<open>crypto/ed25519\<close> are arguments of the operations that call them: whatever functions stand
  here, the theorems hold. Nothing is assumed of them; where a claim rests on a hash being
  injective, the theorem exhibits the collision instead.
\<close>

record crypto =
  sha256 :: "bytes \<Rightarrow> bytes"
  hmac_sha256 :: "bytes \<Rightarrow> bytes \<Rightarrow> bytes"
  ed25519_verify :: "bytes \<Rightarrow> bytes \<Rightarrow> bytes \<Rightarrow> bool"

subsection \<open>JSON (package \<open>encoding/json\<close>)\<close>

datatype json =
    JNull
  | JBool bool
  | JInt int
  | JFloat float64
  | JStr string
  | JBytes bytes
  | JTime gotime
  | JArr "json list"
  | JObj "(string \<times> json) list"

text \<open>
  \<open>json.Marshal\<close> fails on the values the packages give it in two cases: a float that is
  infinite or not a number (all exponent bits set) and a time whose year is outside 0 to 9999.
\<close>

definition float_finite :: "float64 \<Rightarrow> bool" where
  "float_finite x \<longleftrightarrow> x AND 0x7FF0000000000000 \<noteq> 0x7FF0000000000000"

definition time_marshalable :: "gotime \<Rightarrow> bool" where
  "time_marshalable t \<longleftrightarrow> - 31622400000000000 \<le> t \<and> t < 315537897600000000000"

primrec marshal_ok :: "json \<Rightarrow> bool" where
  "marshal_ok JNull = True"
| "marshal_ok (JBool b) = True"
| "marshal_ok (JInt i) = True"
| "marshal_ok (JFloat x) = float_finite x"
| "marshal_ok (JStr s) = True"
| "marshal_ok (JBytes b) = True"
| "marshal_ok (JTime t) = time_marshalable t"
| "marshal_ok (JArr js) = list_all id (map marshal_ok js)"
| "marshal_ok (JObj fs) = list_all snd (map (map_prod id marshal_ok) fs)"

lemma set_strip_zeros: "set (strip_zeros s) \<subseteq> set s"
  by (induction s) (auto split: list.splits if_splits)

lemma set_show_padded: "c \<in> set (show_padded w i) \<Longrightarrow> is_digit c \<or> c = CHR ''-''"
  using show_nat_digits
  by (auto simp: show_padded_def pad_left_def is_digit_def split: if_splits)

lemma set_show_int: "c \<in> set (show_int i) \<Longrightarrow> is_digit c \<or> c = CHR ''-''"
  using show_nat_digits by (auto simp: show_int_def split: if_splits)

lemma no_pipe_show_u64 [simp]: "CHR ''|'' \<notin> set (show_u64 w)"
  using show_nat_digits [of "CHR ''|''" "unat w"] by (auto simp: show_u64_def is_digit_def)

lemma no_pipe_show_int [simp]: "CHR ''|'' \<notin> set (show_int i)"
  using set_show_int [of "CHR ''|''" i] by (auto simp: is_digit_def)

lemma no_pipe_show_padded [simp]: "CHR ''|'' \<notin> set (show_padded w i)"
  using set_show_padded [of "CHR ''|''" w i] by (auto simp: is_digit_def)

lemma no_pipe_strip_zeros: "CHR ''|'' \<notin> set s \<Longrightarrow> CHR ''|'' \<notin> set (strip_zeros s)"
  using set_strip_zeros [of s] by auto

lemma no_pipe_RFC3339Nano [simp]: "CHR ''|'' \<notin> set (RFC3339Nano t)"
proof -
  obtain y m d where ymd: "civil_of_days (t div day_ns) = (y, m, d)"
    by (cases "civil_of_days (t div day_ns)")
  have frac: "CHR ''|'' \<notin> set (strip_zeros (show_padded 9 i))" for i
    by (rule no_pipe_strip_zeros) simp
  show ?thesis
    by (simp add: RFC3339Nano_def Let_def ymd frac)
qed

lemma show_u64_inject: "show_u64 v = show_u64 w \<longleftrightarrow> v = w"
  by (simp add: show_u64_def show_nat_inject word_unat_eq_iff)

end
