(* ===== verification/Contracts.thy ===== *)
theory Contracts
  imports Go_Prelude
begin

text \<open>
  The contracts that several components share, as locales.

  \<^item> \<open>graded\<close>: a status machine in phases; its changes never lead back to an earlier phase.
  \<^item> \<open>lifecycle\<close>: a status machine whose allowed changes climb a rank. The progress, no-return
    and terminal-state facts of every status field follow from it; \<open>strict_lifecycle\<close> is the
    variant whose check refuses the change from a status to itself.
  \<^item> \<open>aggregate\<close>: an object changed only by its operations, with an invariant that each keeps;
    the invariant then holds after any run of operations, failed calls included.
  \<^item> \<open>trail\<close>: an aggregate with a list that its operations only append to.
  \<^item> \<open>audited\<close>: a trail that records what it did in an append-only event trail whose event
    ids end in the event's position, so no two events of an aggregate share an id.

  The components interpret them on their own definitions.
\<close>

subsection \<open>Status machines\<close>

text \<open>\<open>changes ss\<close> counts the real status changes along a history of statuses.\<close>

fun changes :: "'s list \<Rightarrow> nat" where
  "changes (s # t # ss) = (if s = t then 0 else 1) + changes (t # ss)"
| "changes _ = 0"

fun follows :: "('s \<Rightarrow> 's \<Rightarrow> bool) \<Rightarrow> 's list \<Rightarrow> bool" where
  "follows can (s # t # ss) \<longleftrightarrow> can s t \<and> follows can (t # ss)"
| "follows can _ \<longleftrightarrow> True"

locale graded =
  fixes can :: "'s \<Rightarrow> 's \<Rightarrow> bool" and rank :: "'s \<Rightarrow> nat"
  assumes not_down: "can s t \<Longrightarrow> rank s \<le> rank t"
begin

lemma reach_not_down: "can\<^sup>*\<^sup>* s t \<Longrightarrow> rank s \<le> rank t"
proof (induction rule: rtranclp_induct)
  case base
  show ?case by simp
next
  case (step t u)
  then show ?case using not_down by (meson le_trans)
qed

lemma same_level: "can\<^sup>*\<^sup>* s t \<Longrightarrow> can\<^sup>*\<^sup>* t s \<Longrightarrow> rank s = rank t"
  using reach_not_down by (simp add: eq_iff)

end

locale lifecycle =
  fixes can :: "'s \<Rightarrow> 's \<Rightarrow> bool" and rank :: "'s \<Rightarrow> nat"
  assumes climbs: "can s t \<Longrightarrow> s = t \<or> rank s < rank t"
begin

lemma reach_rank: "can\<^sup>*\<^sup>* s t \<Longrightarrow> s = t \<or> rank s < rank t"
proof (induction rule: rtranclp_induct)
  case base
  show ?case by simp
next
  case (step t u)
  then show ?case using climbs by (metis less_trans)
qed

lemma no_return: "can\<^sup>*\<^sup>* s t \<Longrightarrow> can\<^sup>*\<^sup>* t s \<Longrightarrow> s = t"
  using reach_rank by (metis less_asym)

lemma follows_reach: "follows can (s # ss) \<Longrightarrow> can\<^sup>*\<^sup>* s (last (s # ss))"
proof (induction ss arbitrary: s)
  case Nil
  then show ?case by simp
next
  case (Cons t ss)
  then have "can s t" "can\<^sup>*\<^sup>* t (last (t # ss))" by simp_all
  then show ?case by (simp add: converse_rtranclp_into_rtranclp)
qed

lemma changes_bound: "follows can (s # ss) \<Longrightarrow> changes (s # ss) + rank s \<le> rank (last (s # ss))"
proof (induction ss arbitrary: s)
  case Nil
  then show ?case by simp
next
  case (Cons t ss)
  then have "can s t" "changes (t # ss) + rank t \<le> rank (last (t # ss))" by simp_all
  then show ?case using climbs [of s t] by (cases "s = t") auto
qed

lemma stuck_terminal: "(\<And>t. can s t \<Longrightarrow> t = s) \<Longrightarrow> can\<^sup>*\<^sup>* s t \<Longrightarrow> t = s"
proof (rotate_tac 1, induction rule: rtranclp_induct)
  case base
  show ?case by simp
next
  case (step t u)
  then show ?case by simp
qed

end

sublocale lifecycle \<subseteq> graded
  by unfold_locales (use climbs in \<open>auto simp: le_eq_less_or_eq\<close>)

locale strict_lifecycle =
  fixes can :: "'s \<Rightarrow> 's \<Rightarrow> bool" and rank :: "'s \<Rightarrow> nat"
  assumes climbs_strictly: "can s t \<Longrightarrow> rank s < rank t"
begin

lemma irreflexive: "\<not> can s s"
  using climbs_strictly [of s s] by auto

lemma all_change: "follows can ss \<Longrightarrow> changes ss = length ss - 1"
proof (induction ss rule: changes.induct)
  case (1 s t ss)
  then show ?case using irreflexive by auto
qed simp_all

end

sublocale strict_lifecycle \<subseteq> lifecycle
  by unfold_locales (simp add: climbs_strictly)

subsection \<open>Aggregates and their runs\<close>

text \<open>
  An operation that returns an error leaves its receiver as it was (\<open>keep\<close>); a run applies a
  list of operations in order.
\<close>

definition keep :: "'s \<Rightarrow> 'e + 's \<Rightarrow> 's" where
  "keep s r = (case r of Inl _ \<Rightarrow> s | Inr t \<Rightarrow> t)"

lemma keep_simps [simp]: "keep s (Inl e) = s" "keep s (Inr t) = t"
  by (simp_all add: keep_def)

fun run_ops :: "('op \<Rightarrow> 's \<Rightarrow> 's) \<Rightarrow> 'op list \<Rightarrow> 's \<Rightarrow> 's" where
  "run_ops next [] s = s"
| "run_ops next (p # ps) s = run_ops next ps (next p s)"

lemma run_ops_append: "run_ops next (ps @ qs) s = run_ops next qs (run_ops next ps s)"
  by (induction ps arbitrary: s) simp_all

locale aggregate =
  fixes step :: "'op \<Rightarrow> 's \<Rightarrow> 's" and inv :: "'s \<Rightarrow> bool"
  assumes step_inv: "inv s \<Longrightarrow> inv (step p s)"
begin

lemma run_inv: "inv s \<Longrightarrow> inv (run_ops step ps s)"
  by (induction ps arbitrary: s) (simp_all add: step_inv)

end

locale trail = aggregate step inv for step :: "'op \<Rightarrow> 's \<Rightarrow> 's" and inv +
  fixes log :: "'s \<Rightarrow> 'ev list"
  assumes step_prefix: "inv s \<Longrightarrow> prefix (log s) (log (step p s))"
begin

lemma run_prefix: "inv s \<Longrightarrow> prefix (log s) (log (run_ops step ps s))"
proof (induction ps arbitrary: s)
  case Nil
  show ?case by simp
next
  case (Cons p ps)
  then show ?case using step_prefix step_inv by (metis prefix_order.trans run_ops.simps(2))
qed

lemma run_keeps: "inv s \<Longrightarrow> x \<in> set (log s) \<Longrightarrow> x \<in> set (log (run_ops step ps s))"
  using run_prefix set_mono_prefix by blast

end

subsection \<open>Event trails\<close>

text \<open>\<open>numbered ident es\<close>: the id of the event at position \<open>i\<close> ends in \<open>-\<close> and \<open>i + 1\<close>.\<close>

definition numbered :: "('ev \<Rightarrow> string) \<Rightarrow> 'ev list \<Rightarrow> bool" where
  "numbered ident es \<longleftrightarrow>
     (\<forall>i < length es. \<exists>p. ident (es ! i) = p @ ''-'' @ show_nat (Suc i))"

lemma numbered_Nil: "numbered ident []"
  by (simp add: numbered_def)

lemma numbered_snoc:
  "numbered ident es \<Longrightarrow> ident e = p @ ''-'' @ show_nat (Suc (length es)) \<Longrightarrow> numbered ident (es @ [e])"
  by (auto simp: numbered_def nth_append less_Suc_eq)

lemma suffix_number_inject:
  assumes "p @ ''-'' @ show_nat m = q @ ''-'' @ show_nat n"
  shows "m = n"
proof -
  have no: "CHR ''-'' \<notin> set (rev (show_nat k))" for k
    using show_nat_digits [of "CHR ''-''" k] by (auto simp: is_digit_def)
  from assms have "rev (show_nat m) @ CHR ''-'' # rev p = rev (show_nat n) @ CHR ''-'' # rev q"
    by (metis append_Cons append_Nil append.assoc rev_append rev_singleton_conv)
  then have "rev (show_nat m) = rev (show_nat n)"
    using append_sep_inject no by metis
  then show ?thesis by (simp add: show_nat_inject)
qed

lemma numbered_distinct:
  assumes "numbered ident es"
  shows "distinct (map ident es)"
proof -
  have "i = j" if "i < length es" "j < length es" "ident (es ! i) = ident (es ! j)" for i j
    using assms that suffix_number_inject unfolding numbered_def by (metis Suc_inject)
  then show ?thesis by (auto simp: distinct_conv_nth)
qed

locale audited = aggregate step inv for step :: "'op \<Rightarrow> 's \<Rightarrow> 's" and inv +
  fixes log :: "'s \<Rightarrow> 'ev list" and ident :: "'ev \<Rightarrow> string"
  assumes step_log: "inv s \<Longrightarrow> log (step p s) = log s \<or>
    (\<exists>e q. log (step p s) = log s @ [e] \<and> ident e = q @ ''-'' @ show_nat (Suc (length (log s))))"
begin

lemma step_numbered: "inv s \<Longrightarrow> numbered ident (log s) \<Longrightarrow> numbered ident (log (step p s))"
  using step_log [of s p] numbered_snoc by metis

lemma run_numbered: "inv s \<Longrightarrow> numbered ident (log s) \<Longrightarrow> numbered ident (log (run_ops step ps s))"
  by (induction ps arbitrary: s) (simp_all add: step_numbered step_inv)

lemma run_ids_distinct:
  "inv s \<Longrightarrow> log s = [] \<Longrightarrow> distinct (map ident (log (run_ops step ps s)))"
  by (rule numbered_distinct, rule run_numbered) (simp_all add: numbered_Nil)

lemma run_length: "inv s \<Longrightarrow> length (log (run_ops step ps s)) \<le> length (log s) + length ps"
proof (induction ps arbitrary: s)
  case Nil
  show ?case by simp
next
  case (Cons p ps)
  from step_log [OF Cons.prems, of p] have "length (log (step p s)) \<le> Suc (length (log s))" by auto
  with Cons.IH [OF step_inv [OF Cons.prems], of p] show ?case by simp
qed

end

sublocale audited \<subseteq> trail
proof unfold_locales
  fix s p
  assume "inv s"
  then show "prefix (log s) (log (step p s))" using step_log [of s p] by auto
qed

end
