(* ===== verification/Shared_Kernel.thy ===== *)
theory Shared_Kernel
  imports Contracts "HOL-Library.Product_Lexorder" "HOL-Library.List_Lexorder"
begin

text \<open>
  The shared kernel, \<open>internal/shared/types/types.go\<close> and \<open>internal/shared/events/events.go\<close>.

  A Go string type with named constants is a datatype of those constants with one more
  constructor for every other string, the empty one included, since the code can hold such a
  value (a zero \<open>Severity\<close> is \<open>SeverityOther ''''\<close>).
  An event payload is kept as the tree that \<open>json.Marshal\<close> is given; \<open>None\<close> is the empty byte
  slice of a zero \<open>Envelope\<close>.
\<close>

subsection \<open>Tenant context\<close>

record TenantContext =
  ctx_TenantID :: string
  ctx_OrganizationID :: string
  ctx_Environment :: string

definition EnvironmentTesting :: string where "EnvironmentTesting = ''TESTING''"
definition EnvironmentLive :: string where "EnvironmentLive = ''LIVE''"

datatype tenant_error = TenantIDRequired | OrganizationIDRequired | InvalidEnvironment string

definition TenantContext_Validate :: "TenantContext \<Rightarrow> tenant_error option" where
  "TenantContext_Validate c =
     (if blank (ctx_TenantID c) then Some TenantIDRequired
      else if blank (ctx_OrganizationID c) then Some OrganizationIDRequired
      else if ctx_Environment c \<noteq> EnvironmentTesting \<and> ctx_Environment c \<noteq> EnvironmentLive
        then Some (InvalidEnvironment (ctx_Environment c))
      else None)"

lemma TenantContext_Validate_None:
  "TenantContext_Validate c = None \<longleftrightarrow>
     \<not> blank (ctx_TenantID c) \<and> \<not> blank (ctx_OrganizationID c) \<and>
     ctx_Environment c \<in> {EnvironmentTesting, EnvironmentLive}"
  by (simp add: TenantContext_Validate_def)

subsection \<open>String types\<close>

datatype InspectionStatus =
    InspectionScheduled | InspectionAssigned | InspectionInProgress | InspectionCompleted
  | InspectionPendingReview | InspectionApproved | InspectionRejected | InspectionClosed
  | InspectionStatusOther string

datatype Verdict =
    VerdictAdvisory | VerdictMinor | VerdictMajor | VerdictCritical | VerdictPass
  | VerdictOther string

datatype Severity =
    SeverityAdvisory | SeverityMinor | SeverityMajor | SeverityCritical
  | SeverityOther string

datatype DeviceTrustState =
    DevicePending | DeviceTrusted | DeviceRestricted | DeviceLocked | DeviceRevoked | DeviceRetired
  | DeviceStateOther string

datatype ErrorCode =
    ErrUnauthorized | ErrTenantMismatch | ErrInvalidTransition | ErrConflict
  | ErrHeld | ErrRejected | ErrExpired | ErrValidation

fun Verdict_string :: "Verdict \<Rightarrow> string" where
  "Verdict_string VerdictAdvisory = ''ADVISORY''"
| "Verdict_string VerdictMinor = ''MINOR''"
| "Verdict_string VerdictMajor = ''MAJOR''"
| "Verdict_string VerdictCritical = ''CRITICAL''"
| "Verdict_string VerdictPass = ''PASS''"
| "Verdict_string (VerdictOther s) = s"

fun Severity_string :: "Severity \<Rightarrow> string" where
  "Severity_string SeverityAdvisory = ''ADVISORY''"
| "Severity_string SeverityMinor = ''MINOR''"
| "Severity_string SeverityMajor = ''MAJOR''"
| "Severity_string SeverityCritical = ''CRITICAL''"
| "Severity_string (SeverityOther s) = s"

fun DeviceTrustState_string :: "DeviceTrustState \<Rightarrow> string" where
  "DeviceTrustState_string DevicePending = ''PENDING''"
| "DeviceTrustState_string DeviceTrusted = ''TRUSTED''"
| "DeviceTrustState_string DeviceRestricted = ''RESTRICTED''"
| "DeviceTrustState_string DeviceLocked = ''LOCKED''"
| "DeviceTrustState_string DeviceRevoked = ''REVOKED''"
| "DeviceTrustState_string DeviceRetired = ''RETIRED''"
| "DeviceTrustState_string (DeviceStateOther s) = s"

text \<open>
  Verdicts ordered by gravity, \<open>PASS\<close> the least of the named ones; a string that is no verdict
  stands below them all, by its bytes.
\<close>

fun verdict_key :: "Verdict \<Rightarrow> nat \<times> string" where
  "verdict_key (VerdictOther s) = (0, s)"
| "verdict_key VerdictPass = (1, [])"
| "verdict_key VerdictAdvisory = (2, [])"
| "verdict_key VerdictMinor = (3, [])"
| "verdict_key VerdictMajor = (4, [])"
| "verdict_key VerdictCritical = (5, [])"

lemma verdict_key_inject: "verdict_key v = verdict_key w \<longleftrightarrow> v = w"
  by (cases v; cases w) simp_all

instantiation Verdict :: linorder
begin

definition less_eq_Verdict :: "Verdict \<Rightarrow> Verdict \<Rightarrow> bool" where
  "less_eq_Verdict v w \<longleftrightarrow> verdict_key v \<le> verdict_key w"

definition less_Verdict :: "Verdict \<Rightarrow> Verdict \<Rightarrow> bool" where
  "less_Verdict v w \<longleftrightarrow> verdict_key v < verdict_key w"

instance
  by standard (auto simp: less_eq_Verdict_def less_Verdict_def less_le verdict_key_inject)

end

subsection \<open>Event envelopes\<close>

record Envelope =
  ev_eventID :: string
  ev_eventType :: string
  ev_schemaVersion :: int
  ev_tenantID :: string
  ev_organizationID :: string
  ev_environment :: string
  ev_aggregateID :: string
  ev_aggregateType :: string
  ev_actorID :: string
  ev_correlationID :: string
  ev_causationID :: string
  ev_occurredAt :: gotime
  ev_payload :: "json option"

datatype envelope_error =
    EventIDAndTypeRequired
  | EnvelopeContext tenant_error
  | AggregateTypeAndIDRequired
  | MarshalFailed
  | SchemaVersionNotPositive

definition NewEnvelope ::
    "string \<Rightarrow> string \<Rightarrow> string \<Rightarrow> string \<Rightarrow> string \<Rightarrow> string \<Rightarrow> string \<Rightarrow> json \<Rightarrow> gotime \<Rightarrow>
     envelope_error + Envelope" where
  "NewEnvelope eventID eventType tenantID organizationID environment aggregateType aggregateID
     payload occurredAt =
     (if blank eventID \<or> blank eventType then Inl EventIDAndTypeRequired
      else case TenantContext_Validate \<lparr>ctx_TenantID = tenantID, ctx_OrganizationID = organizationID,
                  ctx_Environment = environment\<rparr> of
        Some e \<Rightarrow> Inl (EnvelopeContext e)
      | None \<Rightarrow>
          (if blank aggregateType \<or> blank aggregateID then Inl AggregateTypeAndIDRequired
           else if \<not> marshal_ok payload then Inl MarshalFailed
           else Inr \<lparr>ev_eventID = eventID, ev_eventType = eventType, ev_schemaVersion = 1,
                     ev_tenantID = tenantID, ev_organizationID = organizationID,
                     ev_environment = environment, ev_aggregateID = aggregateID,
                     ev_aggregateType = aggregateType, ev_actorID = [], ev_correlationID = [],
                     ev_causationID = [], ev_occurredAt = occurredAt, ev_payload = Some payload\<rparr>))"

text \<open>
  The wire form \<open>envelopeJSON\<close> has the fields of \<open>Envelope\<close>; \<open>None\<close> is a payload that the
  document lacks.
\<close>

record envelopeJSON =
  wire_EventID :: string
  wire_EventType :: string
  wire_SchemaVersion :: int
  wire_TenantID :: string
  wire_OrganizationID :: string
  wire_Environment :: string
  wire_AggregateID :: string
  wire_AggregateType :: string
  wire_ActorID :: string
  wire_CorrelationID :: string
  wire_CausationID :: string
  wire_OccurredAt :: gotime
  wire_Payload :: "json option"

definition Envelope_MarshalJSON :: "Envelope \<Rightarrow> envelope_error + envelopeJSON" where
  "Envelope_MarshalJSON e =
     (let payload = (case ev_payload e of None \<Rightarrow> Some JNull | Some p \<Rightarrow> Some p) in
      if \<not> time_marshalable (ev_occurredAt e) then Inl MarshalFailed
      else Inr \<lparr>wire_EventID = ev_eventID e, wire_EventType = ev_eventType e,
                wire_SchemaVersion = ev_schemaVersion e, wire_TenantID = ev_tenantID e,
                wire_OrganizationID = ev_organizationID e, wire_Environment = ev_environment e,
                wire_AggregateID = ev_aggregateID e, wire_AggregateType = ev_aggregateType e,
                wire_ActorID = ev_actorID e, wire_CorrelationID = ev_correlationID e,
                wire_CausationID = ev_causationID e, wire_OccurredAt = ev_occurredAt e,
                wire_Payload = payload\<rparr>)"

definition Envelope_UnmarshalJSON :: "envelopeJSON \<Rightarrow> envelope_error + Envelope" where
  "Envelope_UnmarshalJSON wire =
     (if blank (wire_EventID wire) \<or> blank (wire_EventType wire) then Inl EventIDAndTypeRequired
      else case TenantContext_Validate \<lparr>ctx_TenantID = wire_TenantID wire,
                  ctx_OrganizationID = wire_OrganizationID wire,
                  ctx_Environment = wire_Environment wire\<rparr> of
        Some e \<Rightarrow> Inl (EnvelopeContext e)
      | None \<Rightarrow>
          (if blank (wire_AggregateType wire) \<or> blank (wire_AggregateID wire)
             then Inl AggregateTypeAndIDRequired
           else if wire_SchemaVersion wire \<le> 0 then Inl SchemaVersionNotPositive
           else Inr \<lparr>ev_eventID = wire_EventID wire, ev_eventType = wire_EventType wire,
                     ev_schemaVersion = wire_SchemaVersion wire, ev_tenantID = wire_TenantID wire,
                     ev_organizationID = wire_OrganizationID wire,
                     ev_environment = wire_Environment wire, ev_aggregateID = wire_AggregateID wire,
                     ev_aggregateType = wire_AggregateType wire, ev_actorID = wire_ActorID wire,
                     ev_correlationID = wire_CorrelationID wire,
                     ev_causationID = wire_CausationID wire,
                     ev_occurredAt = wire_OccurredAt wire, ev_payload = wire_Payload wire\<rparr>))"

definition Envelope_EqualPayload :: "Envelope \<Rightarrow> Envelope \<Rightarrow> bool" where
  "Envelope_EqualPayload e other \<longleftrightarrow> ev_payload e = ev_payload other"

text \<open>What every envelope that the constructor or the decoder returned satisfies.\<close>

definition envelope_ok :: "Envelope \<Rightarrow> bool" where
  "envelope_ok e \<longleftrightarrow> \<not> blank (ev_eventID e) \<and> \<not> blank (ev_eventType e) \<and>
     \<not> blank (ev_tenantID e) \<and> \<not> blank (ev_organizationID e) \<and>
     ev_environment e \<in> {EnvironmentTesting, EnvironmentLive} \<and>
     \<not> blank (ev_aggregateType e) \<and> \<not> blank (ev_aggregateID e) \<and> 0 < ev_schemaVersion e"

lemma NewEnvelope_Inr:
  "NewEnvelope eid ety t org envi aty aid p at = Inr e \<longleftrightarrow>
     \<not> blank eid \<and> \<not> blank ety \<and> \<not> blank t \<and> \<not> blank org \<and>
     envi \<in> {EnvironmentTesting, EnvironmentLive} \<and> \<not> blank aty \<and> \<not> blank aid \<and> marshal_ok p \<and>
     e = \<lparr>ev_eventID = eid, ev_eventType = ety, ev_schemaVersion = 1, ev_tenantID = t,
          ev_organizationID = org, ev_environment = envi, ev_aggregateID = aid,
          ev_aggregateType = aty, ev_actorID = [], ev_correlationID = [], ev_causationID = [],
          ev_occurredAt = at, ev_payload = Some p\<rparr>"
  by (auto simp: NewEnvelope_def TenantContext_Validate_def)

lemma NewEnvelope_ok: "NewEnvelope eid ety t org envi aty aid p at = Inr e \<Longrightarrow> envelope_ok e"
  by (auto simp: NewEnvelope_Inr envelope_ok_def)

lemma Envelope_Unmarshal_ok: "Envelope_UnmarshalJSON w = Inr e \<Longrightarrow> envelope_ok e"
  by (auto simp: Envelope_UnmarshalJSON_def TenantContext_Validate_def envelope_ok_def
      split: if_splits)

lemma Envelope_roundtrip:
  assumes "envelope_ok e" "ev_payload e \<noteq> None" "Envelope_MarshalJSON e = Inr w"
  shows "Envelope_UnmarshalJSON w = Inr e"
  using assms
  by (cases e) (auto simp: Envelope_MarshalJSON_def Envelope_UnmarshalJSON_def envelope_ok_def
      TenantContext_Validate_def split: if_splits)

text \<open>Decoding what an envelope encodes to gives the envelope back, whatever its payload.\<close>

theorem NewEnvelope_roundtrip:
  assumes "NewEnvelope eid ety t org envi aty aid p at = Inr e" "time_marshalable at"
  shows "\<exists>w. Envelope_MarshalJSON e = Inr w \<and> Envelope_UnmarshalJSON w = Inr e \<and> envelope_ok e"
proof -
  have e: "envelope_ok e" "ev_payload e = Some p" "ev_occurredAt e = at"
    using assms(1) NewEnvelope_ok by (auto simp: NewEnvelope_Inr)
  then obtain w where "Envelope_MarshalJSON e = Inr w"
    using assms(2) by (auto simp: Envelope_MarshalJSON_def)
  with e Envelope_roundtrip [of e w] show ?thesis by simp
qed

lemma NewEnvelope_roundtrip_witness:
  "\<exists>e w. NewEnvelope ''e1'' ''Started'' ''t'' ''o'' ''LIVE'' ''inspection'' ''i1'' JNull 0 = Inr e \<and>
     Envelope_MarshalJSON e = Inr w \<and> Envelope_UnmarshalJSON w = Inr e"
proof -
  obtain e where e: "NewEnvelope ''e1'' ''Started'' ''t'' ''o'' ''LIVE'' ''inspection'' ''i1'' JNull 0 = Inr e"
    by (simp add: NewEnvelope_def TenantContext_Validate_def EnvironmentLive_def)
  from NewEnvelope_roundtrip [OF e] e show ?thesis by (auto simp: time_marshalable_def)
qed

end
