(* ===== verification/Inspection.thy ===== *)
theory Inspection
  imports Shared_Kernel
begin

text \<open>
  The inspection aggregate, \<open>internal/domain/inspection/inspection.go\<close>.

  Every operation of the code that changes an inspection has a pointer receiver and returns an
  error or nil; here it takes the state and returns \<open>Inl\<close> of the error or \<open>Inr\<close> of the new
  state. The last argument \<open>now\<close> is what \<open>time.Now()\<close> returns in the call. The clones of the
  code, which keep callers from sharing slices with the aggregate, are identities on values.
\<close>

record Finding =
  f_ID :: string
  f_InspectionID :: string
  f_AssetID :: string
  f_SectionID :: string
  f_ItemID :: string
  f_ItemPrompt :: string
  f_Response :: string
  f_MeasuredValue :: "float64 option"
  f_MeasuredUnit :: string
  f_Severity :: Severity
  f_Notes :: string
  f_EvidenceRefs :: "string list"
  f_RecordedBy :: string
  f_RecordedAt :: gotime

record RevisionSnapshot =
  snap_Number :: int64
  snap_Status :: InspectionStatus
  snap_Findings :: "Finding list"
  snap_OverallResult :: Verdict
  snap_Notes :: string
  snap_ReturnedReason :: string

record Inspection =
  i_id :: string
  i_tenantID :: string
  i_organizationID :: string
  i_environment :: string
  i_rootAssetID :: string
  i_inspectionType :: string
  i_scheduledDate :: gotime
  i_assignedTo :: string
  i_status :: InspectionStatus
  i_revision :: int64
  i_findings :: "Finding list"
  i_overallResult :: Verdict
  i_notes :: string
  i_returnedReason :: string
  i_snapshots :: "RevisionSnapshot list"
  i_emitted :: "Envelope list"

text \<open>
  The errors, one constructor per message; \<open>DomainError_Code\<close> is the code the error carries.
  Where the code reports the first blank field that the iteration over a Go map meets, which
  field that is is not determined, and the error does not name it.
\<close>

datatype inspection_error =
    FieldRequired
  | InvalidFindingSeverity
  | ScheduledDateRequired
  | BadContext tenant_error
  | CannotTransition InspectionStatus InspectionStatus
  | InspectorIDRequired
  | FindingOfAnotherInspection
  | ReviewerIDRequired
  | InspectorCannotApproveOwn
  | ReviewerAndReasonRequired
  | InspectorCannotReturnOwn
  | EventFailed envelope_error

fun DomainError_Code :: "inspection_error \<Rightarrow> ErrorCode option" where
  "DomainError_Code (BadContext e) = None"
| "DomainError_Code (EventFailed e) = None"
| "DomainError_Code (CannotTransition s t) = Some ErrInvalidTransition"
| "DomainError_Code FindingOfAnotherInspection = Some ErrTenantMismatch"
| "DomainError_Code InspectorCannotApproveOwn = Some ErrUnauthorized"
| "DomainError_Code InspectorCannotReturnOwn = Some ErrUnauthorized"
| "DomainError_Code e = Some ErrValidation"

subsection \<open>Verdicts\<close>

fun severityRank :: "Severity \<Rightarrow> int \<times> Verdict" where
  "severityRank SeverityCritical = (4, VerdictCritical)"
| "severityRank SeverityMajor = (3, VerdictMajor)"
| "severityRank SeverityMinor = (2, VerdictMinor)"
| "severityRank SeverityAdvisory = (1, VerdictAdvisory)"
| "severityRank (SeverityOther s) = (0, VerdictPass)"

fun ComputeVerdict_loop :: "int \<Rightarrow> Verdict \<Rightarrow> Finding list \<Rightarrow> Verdict" where
  "ComputeVerdict_loop strongest verdict [] = verdict"
| "ComputeVerdict_loop strongest verdict (finding # fs) =
     (let (rank, candidate) = severityRank (f_Severity finding) in
      if rank > strongest then ComputeVerdict_loop rank candidate fs
      else ComputeVerdict_loop strongest verdict fs)"

definition ComputeVerdict :: "Finding list \<Rightarrow> Verdict" where
  "ComputeVerdict findings = ComputeVerdict_loop 0 VerdictPass findings"

subsection \<open>Findings\<close>

definition Finding_validate :: "Finding \<Rightarrow> inspection_error option" where
  "Finding_validate f =
     (if list_ex blank [f_ID f, f_InspectionID f, f_AssetID f, f_SectionID f, f_ItemID f,
                        f_ItemPrompt f, f_Response f, f_RecordedBy f]
        then Some FieldRequired
      else case f_Severity f of
        SeverityOther s \<Rightarrow> if s = '''' then None else Some InvalidFindingSeverity
      | _ \<Rightarrow> None)"

definition omit_empty :: "string \<Rightarrow> string \<Rightarrow> (string \<times> json) list" where
  "omit_empty k s = (if s = [] then [] else [(k, JStr s)])"

definition Finding_json :: "Finding \<Rightarrow> json" where
  "Finding_json f = JObj (
     [(''id'', JStr (f_ID f)), (''inspection_id'', JStr (f_InspectionID f)),
      (''asset_id'', JStr (f_AssetID f)), (''section_id'', JStr (f_SectionID f)),
      (''item_id'', JStr (f_ItemID f)), (''item_prompt'', JStr (f_ItemPrompt f)),
      (''response'', JStr (f_Response f))] @
     (case f_MeasuredValue f of None \<Rightarrow> [] | Some x \<Rightarrow> [(''measured_value'', JFloat x)]) @
     omit_empty ''measured_unit'' (f_MeasuredUnit f) @
     omit_empty ''severity'' (Severity_string (f_Severity f)) @
     omit_empty ''notes'' (f_Notes f) @
     (if f_EvidenceRefs f = [] then []
      else [(''evidence_refs'', JArr (map JStr (f_EvidenceRefs f)))]) @
     [(''recorded_by'', JStr (f_RecordedBy f)), (''recorded_at'', JTime (f_RecordedAt f))])"

subsection \<open>Operations\<close>

definition Inspection_New ::
    "string \<Rightarrow> string \<Rightarrow> string \<Rightarrow> string \<Rightarrow> string \<Rightarrow> string \<Rightarrow> gotime \<Rightarrow> inspection_error + Inspection"
  where
  "Inspection_New ident tenantID organizationID environment rootAssetID inspectionType scheduledDate =
     (if list_ex blank [ident, tenantID, organizationID, rootAssetID, inspectionType]
        then Inl FieldRequired
      else if time_IsZero scheduledDate then Inl ScheduledDateRequired
      else case TenantContext_Validate \<lparr>ctx_TenantID = tenantID, ctx_OrganizationID = organizationID,
                  ctx_Environment = environment\<rparr> of
        Some e \<Rightarrow> Inl (BadContext e)
      | None \<Rightarrow> Inr \<lparr>i_id = ident, i_tenantID = tenantID, i_organizationID = organizationID,
          i_environment = environment, i_rootAssetID = rootAssetID,
          i_inspectionType = inspectionType, i_scheduledDate = scheduledDate, i_assignedTo = [],
          i_status = InspectionScheduled, i_revision = 1, i_findings = [],
          i_overallResult = VerdictOther [], i_notes = [], i_returnedReason = [],
          i_snapshots = [], i_emitted = []\<rparr>)"

definition requireStatus :: "InspectionStatus \<Rightarrow> Inspection \<Rightarrow> inspection_error option" where
  "requireStatus expected i =
     (if i_status i \<noteq> expected then Some (CannotTransition (i_status i) expected) else None)"

definition Inspection_makeEvent ::
    "Inspection \<Rightarrow> string \<Rightarrow> json \<Rightarrow> gotime \<Rightarrow> envelope_error + Envelope" where
  "Inspection_makeEvent i eventType payload now =
     (let eventID = i_id i @ ''-'' @ show_int (i_revision i) @ ''-'' @
                    show_nat (length (i_emitted i) + 1)
      in NewEnvelope eventID eventType (i_tenantID i) (i_organizationID i) (i_environment i)
           ''inspection'' (i_id i) payload now)"

definition Inspection_snapshot :: "Inspection \<Rightarrow> InspectionStatus \<Rightarrow> string \<Rightarrow> RevisionSnapshot" where
  "Inspection_snapshot i status reason =
     \<lparr>snap_Number = i_revision i, snap_Status = status, snap_Findings = i_findings i,
      snap_OverallResult = i_overallResult i, snap_Notes = i_notes i,
      snap_ReturnedReason = reason\<rparr>"

text \<open>
  The tail that every operation shares: the event is built on the state as it was, and only
  when that succeeds are the fields changed and the event appended.
\<close>

definition Inspection_emit ::
    "Inspection \<Rightarrow> string \<Rightarrow> json \<Rightarrow> gotime \<Rightarrow> (Inspection \<Rightarrow> Inspection) \<Rightarrow>
     inspection_error + Inspection" where
  "Inspection_emit i eventType payload now change =
     (case Inspection_makeEvent i eventType payload now of
        Inl e \<Rightarrow> Inl (EventFailed e)
      | Inr event \<Rightarrow> Inr ((change i)\<lparr>i_emitted := i_emitted i @ [event]\<rparr>))"

definition Assign :: "string \<Rightarrow> gotime \<Rightarrow> Inspection \<Rightarrow> inspection_error + Inspection" where
  "Assign inspectorID now i =
     (case requireStatus InspectionScheduled i of
        Some e \<Rightarrow> Inl e
      | None \<Rightarrow>
          if blank inspectorID then Inl InspectorIDRequired
          else Inspection_emit i ''InspectionAssigned''
            (JObj [(''inspector_id'', JStr inspectorID)]) now
            (\<lambda>i. i\<lparr>i_assignedTo := inspectorID, i_status := InspectionAssigned\<rparr>))"

definition Start :: "gotime \<Rightarrow> Inspection \<Rightarrow> inspection_error + Inspection" where
  "Start now i =
     (case requireStatus InspectionAssigned i of
        Some e \<Rightarrow> Inl e
      | None \<Rightarrow> Inspection_emit i ''InspectionStarted''
          (JObj [(''inspection_id'', JStr (i_id i)), (''revision'', JStr (show_int (i_revision i)))])
          now (\<lambda>i. i\<lparr>i_status := InspectionInProgress\<rparr>))"

text \<open>
  \<open>recorded_now\<close> and \<open>now\<close> are the two clock readings of \<open>RecordFinding\<close>: the default of the
  recording time, and the time of the event.
\<close>

definition RecordFinding ::
    "Finding \<Rightarrow> gotime \<Rightarrow> gotime \<Rightarrow> Inspection \<Rightarrow> inspection_error + Inspection" where
  "RecordFinding finding recorded_now now i =
     (case requireStatus InspectionInProgress i of
        Some e \<Rightarrow> Inl e
      | None \<Rightarrow>
          (let finding = (if f_InspectionID finding = [] then finding\<lparr>f_InspectionID := i_id i\<rparr>
                          else finding);
               finding = (if time_IsZero (f_RecordedAt finding)
                          then finding\<lparr>f_RecordedAt := recorded_now\<rparr> else finding)
           in case Finding_validate finding of
                Some e \<Rightarrow> Inl e
              | None \<Rightarrow>
                  if f_InspectionID finding \<noteq> i_id i then Inl FindingOfAnotherInspection
                  else Inspection_emit i ''FindingRecorded'' (Finding_json finding) now
                    (\<lambda>i. i\<lparr>i_findings := i_findings i @ [finding]\<rparr>)))"

definition Complete :: "string \<Rightarrow> gotime \<Rightarrow> Inspection \<Rightarrow> inspection_error + Inspection" where
  "Complete notes now i =
     (case requireStatus InspectionInProgress i of
        Some e \<Rightarrow> Inl e
      | None \<Rightarrow>
          (let verdict = ComputeVerdict (i_findings i) in
           Inspection_emit i ''InspectionCompleted''
             (JObj [(''inspection_id'', JStr (i_id i)), (''revision'', JInt (i_revision i)),
                    (''overall_result'', JStr (Verdict_string verdict)), (''notes'', JStr notes)])
             now
             (\<lambda>i. i\<lparr>i_overallResult := verdict, i_notes := notes, i_status := InspectionCompleted\<rparr>)))"

definition SubmitForReview :: "gotime \<Rightarrow> Inspection \<Rightarrow> inspection_error + Inspection" where
  "SubmitForReview now i =
     (case requireStatus InspectionCompleted i of
        Some e \<Rightarrow> Inl e
      | None \<Rightarrow> Inspection_emit i ''InspectionSubmitted''
          (JObj [(''inspection_id'', JStr (i_id i)), (''revision'', JInt (i_revision i)),
                 (''overall_result'', JStr (Verdict_string (i_overallResult i)))])
          now (\<lambda>i. i\<lparr>i_status := InspectionPendingReview\<rparr>))"

definition approval_payload :: "string \<Rightarrow> string \<Rightarrow> json" where
  "approval_payload ident reviewerID =
     JObj [(''inspection_id'', JStr ident), (''reviewer_id'', JStr reviewerID)]"

definition Inspection_Approve :: "string \<Rightarrow> gotime \<Rightarrow> Inspection \<Rightarrow> inspection_error + Inspection" where
  "Inspection_Approve reviewerID now i =
     (case requireStatus InspectionPendingReview i of
        Some e \<Rightarrow> Inl e
      | None \<Rightarrow>
          if blank reviewerID then Inl ReviewerIDRequired
          else if reviewerID = i_assignedTo i then Inl InspectorCannotApproveOwn
          else Inspection_emit i ''InspectionApproved'' (approval_payload (i_id i) reviewerID) now
            (\<lambda>i. i\<lparr>i_status := InspectionApproved\<rparr>))"

definition ReturnForRevision ::
    "string \<Rightarrow> string \<Rightarrow> gotime \<Rightarrow> Inspection \<Rightarrow> inspection_error + Inspection" where
  "ReturnForRevision reviewerID reason now i =
     (case requireStatus InspectionPendingReview i of
        Some e \<Rightarrow> Inl e
      | None \<Rightarrow>
          if blank reviewerID \<or> blank reason then Inl ReviewerAndReasonRequired
          else if reviewerID = i_assignedTo i then Inl InspectorCannotReturnOwn
          else Inspection_emit i ''InspectionReturned''
            (JObj [(''inspection_id'', JStr (i_id i)), (''revision'', JInt (i_revision i)),
                   (''reviewer_id'', JStr reviewerID), (''reason'', JStr reason)])
            now
            (\<lambda>i. i\<lparr>i_snapshots := i_snapshots i @ [Inspection_snapshot i InspectionRejected reason],
                   i_revision := wrap64 (i_revision i + 1), i_findings := [],
                   i_overallResult := VerdictOther [], i_notes := [], i_returnedReason := reason,
                   i_status := InspectionInProgress\<rparr>))"

definition Inspection_Close :: "gotime \<Rightarrow> Inspection \<Rightarrow> inspection_error + Inspection" where
  "Inspection_Close now i =
     (case requireStatus InspectionApproved i of
        Some e \<Rightarrow> Inl e
      | None \<Rightarrow> Inspection_emit i ''InspectionClosed''
          (JObj [(''inspection_id'', JStr (i_id i)), (''revision'', JInt (i_revision i)),
                 (''overall_result'', JStr (Verdict_string (i_overallResult i)))])
          now (\<lambda>i. i\<lparr>i_status := InspectionClosed\<rparr>))"

text \<open>One call of the aggregate, and the state the receiver has after it.\<close>

datatype inspection_op =
    OpAssign string gotime
  | OpStart gotime
  | OpRecord Finding gotime gotime
  | OpComplete string gotime
  | OpSubmit gotime
  | OpApprove string gotime
  | OpReturn string string gotime
  | OpClose gotime

fun inspection_call :: "inspection_op \<Rightarrow> Inspection \<Rightarrow> inspection_error + Inspection" where
  "inspection_call (OpAssign who now) = Assign who now"
| "inspection_call (OpStart now) = Start now"
| "inspection_call (OpRecord f t now) = RecordFinding f t now"
| "inspection_call (OpComplete notes now) = Complete notes now"
| "inspection_call (OpSubmit now) = SubmitForReview now"
| "inspection_call (OpApprove who now) = Inspection_Approve who now"
| "inspection_call (OpReturn who why now) = ReturnForRevision who why now"
| "inspection_call (OpClose now) = Inspection_Close now"

definition inspection_next :: "inspection_op \<Rightarrow> Inspection \<Rightarrow> Inspection" where
  "inspection_next p i = keep i (inspection_call p i)"

subsection \<open>What a successful call did\<close>

definition own_event :: "Inspection \<Rightarrow> Envelope \<Rightarrow> bool" where
  "own_event i e \<longleftrightarrow> envelope_ok e \<and> ev_aggregateID e = i_id i \<and> ev_tenantID e = i_tenantID i \<and>
     ev_organizationID e = i_organizationID i \<and> ev_environment e = i_environment i"

definition next_event :: "Inspection \<Rightarrow> Envelope \<Rightarrow> bool" where
  "next_event i e \<longleftrightarrow> own_event i e \<and>
     ev_eventID e = (i_id i @ ''-'' @ show_int (i_revision i)) @ ''-'' @
       show_nat (Suc (length (i_emitted i)))"

lemma Inspection_emit_Inr:
  assumes "Inspection_emit i ety p now f = Inr j"
  shows "\<exists>e. next_event i e \<and> ev_eventType e = ety \<and> ev_payload e = Some p \<and>
    j = (f i)\<lparr>i_emitted := i_emitted i @ [e]\<rparr>"
proof -
  obtain e where e: "Inspection_makeEvent i ety p now = Inr e"
      "j = (f i)\<lparr>i_emitted := i_emitted i @ [e]\<rparr>"
    using assms by (auto simp: Inspection_emit_def split: sum.splits)
  then have "next_event i e \<and> ev_eventType e = ety \<and> ev_payload e = Some p"
    using NewEnvelope_ok
    by (auto simp: next_event_def own_event_def Inspection_makeEvent_def Let_def NewEnvelope_Inr)
  with e show ?thesis by blast
qed

lemma requireStatus_None [simp]: "requireStatus s i = None \<longleftrightarrow> i_status i = s"
  by (simp add: requireStatus_def)

lemmas inspection_ops = Assign_def Start_def RecordFinding_def Complete_def SubmitForReview_def
  Inspection_Approve_def ReturnForRevision_def Inspection_Close_def

text \<open>Each successful call appends exactly one event, built on the state before the call.\<close>

lemma inspection_call_emits:
  assumes "inspection_call p i = Inr j"
  shows "\<exists>e. next_event i e \<and> i_emitted j = i_emitted i @ [e]"
  using assms
  by (cases p)
     (auto simp: inspection_ops Let_def dest!: Inspection_emit_Inr)

lemma inspection_call_identity:
  assumes "inspection_call p i = Inr j"
  shows "i_id j = i_id i" "i_tenantID j = i_tenantID i" "i_organizationID j = i_organizationID i"
    "i_environment j = i_environment i"
  using assms
  by (cases p; auto simp: inspection_ops Let_def dest!: Inspection_emit_Inr)+

subsection \<open>Verdicts\<close>

definition finding_verdict :: "Finding \<Rightarrow> Verdict" where
  "finding_verdict f = snd (severityRank (f_Severity f))"

lemma verdict_le:
  "verdict_key v \<le> verdict_key w \<Longrightarrow> v \<le> w"
  by (simp add: less_eq_Verdict_def)

lemma severityRank_order:
  "fst (severityRank s) > fst (severityRank t) \<longleftrightarrow> snd (severityRank t) < snd (severityRank s)"
  by (cases s; cases t) (simp_all add: less_Verdict_def)

lemma ComputeVerdict_loop_max:
  "ComputeVerdict_loop (fst (severityRank s)) (snd (severityRank s)) fs =
     fold max (map finding_verdict fs) (snd (severityRank s))"
proof (induction fs arbitrary: s)
  case Nil
  show ?case by simp
next
  case (Cons f fs)
  have "max (finding_verdict f) (snd (severityRank s)) =
      (if fst (severityRank (f_Severity f)) > fst (severityRank s)
       then snd (severityRank (f_Severity f)) else snd (severityRank s))"
    by (auto simp: finding_verdict_def severityRank_order max_def)
  then show ?case
    using Cons [of "f_Severity f"] Cons [of s] by (simp add: case_prod_unfold)
qed

lemma ComputeVerdict_fold: "ComputeVerdict fs = fold max (map finding_verdict fs) VerdictPass"
  using ComputeVerdict_loop_max [of "SeverityOther []" fs] by (simp add: ComputeVerdict_def)

lemma ComputeVerdict_Max: "ComputeVerdict fs = Max (insert VerdictPass (finding_verdict ` set fs))"
proof -
  have "fold max (map finding_verdict fs) VerdictPass = Max (set (VerdictPass # map finding_verdict fs))"
    by (rule Max.set_eq_fold [symmetric])
  then show ?thesis by (simp only: ComputeVerdict_fold set_map list.set)
qed

lemma ComputeVerdict_append:
  "ComputeVerdict (fs @ gs) = max (ComputeVerdict fs) (ComputeVerdict gs)"
proof -
  have "insert VerdictPass (finding_verdict ` set (fs @ gs)) =
      insert VerdictPass (finding_verdict ` set fs) \<union> insert VerdictPass (finding_verdict ` set gs)"
    by auto
  then show ?thesis
    unfolding ComputeVerdict_Max by (simp only: Max_Un [symmetric] finite_insert finite_imageI
        finite_set insert_not_empty not_False_eq_True)
qed

subsection \<open>The invariant\<close>

definition approved_by_other :: "Inspection \<Rightarrow> Envelope \<Rightarrow> bool" where
  "approved_by_other i e \<longleftrightarrow> ev_eventType e = ''InspectionApproved'' \<and>
     (\<exists>r. ev_payload e = Some (approval_payload (i_id i) r) \<and> \<not> blank r \<and> r \<noteq> i_assignedTo i)"

definition own_finding :: "string \<Rightarrow> Finding \<Rightarrow> bool" where
  "own_finding ident f \<longleftrightarrow> Finding_validate f = None \<and> f_InspectionID f = ident"

definition snapshot_ok :: "string \<Rightarrow> nat \<Rightarrow> RevisionSnapshot \<Rightarrow> bool" where
  "snapshot_ok ident k s \<longleftrightarrow> snap_Number s = wrap64 (1 + int k) \<and> snap_Status s = InspectionRejected \<and>
     snap_OverallResult s = ComputeVerdict (snap_Findings s) \<and> \<not> blank (snap_ReturnedReason s) \<and>
     list_all (own_finding ident) (snap_Findings s)"

definition inspection_ok :: "Inspection \<Rightarrow> bool" where
  "inspection_ok i \<longleftrightarrow>
     list_all (own_finding (i_id i)) (i_findings i) \<and>
     list_all (own_event i) (i_emitted i) \<and>
     i_status i \<in> {InspectionScheduled, InspectionAssigned, InspectionInProgress,
       InspectionCompleted, InspectionPendingReview, InspectionApproved, InspectionClosed} \<and>
     (i_status i \<noteq> InspectionScheduled \<longrightarrow> \<not> blank (i_assignedTo i)) \<and>
     (i_status i \<in> {InspectionScheduled, InspectionAssigned} \<longrightarrow> i_findings i = []) \<and>
     (i_status i \<in> {InspectionCompleted, InspectionPendingReview, InspectionApproved, InspectionClosed}
        \<longrightarrow> i_overallResult i = ComputeVerdict (i_findings i)) \<and>
     (i_status i \<in> {InspectionApproved, InspectionClosed}
        \<longrightarrow> list_ex (approved_by_other i) (i_emitted i)) \<and>
     i_revision i = wrap64 (1 + int (length (i_snapshots i))) \<and>
     (\<forall>k < length (i_snapshots i). snapshot_ok (i_id i) k (i_snapshots i ! k))"


lemma inspection_ok_New:
  "Inspection_New a b c d e f g = Inr i \<Longrightarrow> inspection_ok i"
  by (auto simp: Inspection_New_def inspection_ok_def wrap64_def split: option.splits if_splits)

lemma approved_by_other_update [simp]:
  "approved_by_other (i\<lparr>i_status := s, i_emitted := es\<rparr>) = approved_by_other i"
  by (simp add: approved_by_other_def fun_eq_iff)

lemma snoc_all:
  "(\<forall>k < Suc (length xs). P k ((xs @ [x]) ! k)) \<longleftrightarrow> (\<forall>k < length xs. P k (xs ! k)) \<and> P (length xs) x"
  by (auto simp: nth_append less_Suc_eq)

lemma inspection_ok_step:
  assumes ok: "inspection_ok i" and call: "inspection_call p i = Inr j"
  shows "inspection_ok j"
proof -
  have own: "own_event j e" if "own_event i e" for e
    using that inspection_call_identity [OF call] by (simp add: own_event_def)
  obtain e where e: "next_event i e" "i_emitted j = i_emitted i @ [e]"
    using inspection_call_emits [OF call] by blast
  then have evs: "list_all (own_event j) (i_emitted j)"
    using ok own by (auto simp: inspection_ok_def next_event_def list_all_iff)
  show ?thesis
  proof (cases p)
    case (OpApprove who now)
    then obtain e' where j: "i_status i = InspectionPendingReview"
      "j = i\<lparr>i_status := InspectionApproved, i_emitted := i_emitted i @ [e']\<rparr>"
      and "ev_eventType e' = ''InspectionApproved''" "\<not> blank who" "who \<noteq> i_assignedTo i"
        "ev_payload e' = Some (approval_payload (i_id i) who)"
      using call by (auto simp: Inspection_Approve_def dest!: Inspection_emit_Inr)
    then have "approved_by_other j e'"
      unfolding approved_by_other_def by fastforce
    then show ?thesis
      using ok j evs by (simp add: inspection_ok_def)
  next
    case (OpReturn who why now)
    then obtain e' where j: "i_status i = InspectionPendingReview" "\<not> blank why"
      "j = i\<lparr>i_snapshots := i_snapshots i @ [Inspection_snapshot i InspectionRejected why],
             i_revision := wrap64 (i_revision i + 1), i_findings := [],
             i_overallResult := VerdictOther [], i_notes := [], i_returnedReason := why,
             i_status := InspectionInProgress, i_emitted := i_emitted i @ [e']\<rparr>"
      using call by (auto simp: ReturnForRevision_def dest!: Inspection_emit_Inr)
    have "snapshot_ok (i_id i) (length (i_snapshots i)) (Inspection_snapshot i InspectionRejected why)"
      using ok j by (simp add: inspection_ok_def snapshot_ok_def Inspection_snapshot_def)
    moreover have "wrap64 (i_revision i + 1) = wrap64 (1 + int (Suc (length (i_snapshots i))))"
      using ok wrap64_add [of "1 + int (length (i_snapshots i))" 1]
      by (simp add: inspection_ok_def)
    ultimately show ?thesis
      using ok j evs by (simp add: inspection_ok_def snoc_all)
  next
    case (OpClose now)
    then show ?thesis
      using ok call evs
      by (auto simp: inspection_ops inspection_ok_def dest!: Inspection_emit_Inr)
  qed (use ok call evs in \<open>auto simp: inspection_ops inspection_ok_def own_finding_def Let_def
      dest!: Inspection_emit_Inr\<close>)
qed


lemma inspection_next_cases:
  "inspection_next p i = i \<or> (\<exists>j. inspection_call p i = Inr j \<and> inspection_next p i = j)"
  by (cases "inspection_call p i") (simp_all add: inspection_next_def)

lemma inspection_snapshots_step:
  "inspection_call p i = Inr j \<Longrightarrow> prefix (i_snapshots i) (i_snapshots j)"
  by (cases p) (auto simp: inspection_ops Let_def dest!: Inspection_emit_Inr)

interpretation insp: audited inspection_next inspection_ok i_emitted ev_eventID
proof unfold_locales
  fix p i
  assume ok: "inspection_ok i"
  show "inspection_ok (inspection_next p i)"
    using inspection_next_cases [of p i] ok inspection_ok_step by auto
  show "i_emitted (inspection_next p i) = i_emitted i \<or>
      (\<exists>e q. i_emitted (inspection_next p i) = i_emitted i @ [e] \<and>
             ev_eventID e = q @ ''-'' @ show_nat (Suc (length (i_emitted i))))"
    using inspection_next_cases [of p i] inspection_call_emits unfolding next_event_def by metis
qed

interpretation insp_history: trail inspection_next inspection_ok i_snapshots
proof unfold_locales
  fix p i
  show "prefix (i_snapshots i) (i_snapshots (inspection_next p i))"
    using inspection_next_cases [of p i] inspection_snapshots_step by auto
qed

lemmas inspection_run_ok = insp.run_inv [OF inspection_ok_New]

lemma inspection_New_empty:
  "Inspection_New a b c d e f g = Inr i \<Longrightarrow> i_emitted i = [] \<and> i_snapshots i = []"
  by (auto simp: Inspection_New_def)

subsection \<open>Properties\<close>

text \<open>The verdict of an inspection is the gravest verdict of its findings, PASS when there are
  none, so it does not depend on their order; and the verdict of findings taken in two parts is
  the graver of the two verdicts.\<close>

theorem ComputeVerdict_gravest:
  "ComputeVerdict fs = Max (insert VerdictPass ((\<lambda>f. snd (severityRank (f_Severity f))) ` set fs)) \<and>
   ComputeVerdict (fs @ gs) = max (ComputeVerdict fs) (ComputeVerdict gs)"
  using ComputeVerdict_Max [of fs] ComputeVerdict_append [of fs gs]
  by (simp add: finding_verdict_def [abs_def])

text \<open>C5: four eyes. However an inspection was driven since its creation, failed calls included,
  once it is approved or closed its trail holds an approval by a named reviewer who is not the
  assigned inspector, and its overall result is the verdict of the findings it has.\<close>

theorem inspection_four_eyes:
  assumes "Inspection_New ident tenant org envi asset ty date = Inr i"
    and "j = run_ops inspection_next ps i"
    and "i_status j = InspectionApproved \<or> i_status j = InspectionClosed"
  shows "(\<exists>e \<in> set (i_emitted j). \<exists>r. ev_eventType e = ''InspectionApproved'' \<and>
            ev_payload e = Some (JObj [(''inspection_id'', JStr (i_id j)), (''reviewer_id'', JStr r)]) \<and>
            \<not> blank r \<and> r \<noteq> i_assignedTo j)
         \<and> i_overallResult j = ComputeVerdict (i_findings j)"
proof -
  have "inspection_ok j" using inspection_run_ok [OF assms(1)] assms(2) by simp
  then show ?thesis
    using assms(3) unfolding inspection_ok_def approved_by_other_def approval_payload_def
    by (auto simp: list_ex_iff)
qed

text \<open>A concrete inspection, approved by its reviewer, for the witnesses.\<close>

definition demo_inspection :: Inspection where
  "demo_inspection = \<lparr>i_id = ''i1'', i_tenantID = ''t'', i_organizationID = ''o'',
     i_environment = ''LIVE'', i_rootAssetID = ''a'', i_inspectionType = ''y'',
     i_scheduledDate = 5, i_assignedTo = [], i_status = InspectionScheduled, i_revision = 1,
     i_findings = [], i_overallResult = VerdictOther [], i_notes = [], i_returnedReason = [],
     i_snapshots = [], i_emitted = []\<rparr>"

definition demo_inspection_ops :: "inspection_op list" where
  "demo_inspection_ops = [OpAssign ''ins'' 6, OpStart 7, OpComplete ''n'' 8, OpSubmit 9,
     OpApprove ''ins'' 9, OpApprove ''rev'' 10]"

lemma demo_inspection_New:
  "Inspection_New ''i1'' ''t'' ''o'' ''LIVE'' ''a'' ''y'' 5 = Inr demo_inspection"
  by (simp add: Inspection_New_def TenantContext_Validate_def demo_inspection_def
      time_IsZero_def EnvironmentLive_def)

lemmas inspection_eval = run_ops.simps inspection_next_def inspection_call.simps inspection_ops
  requireStatus_def Inspection_emit_def Inspection_makeEvent_def NewEnvelope_def
  TenantContext_Validate_def EnvironmentLive_def EnvironmentTesting_def Let_def

lemma demo_inspection_status:
  "i_status (run_ops inspection_next demo_inspection_ops demo_inspection) = InspectionApproved"
  by (simp add: demo_inspection_ops_def demo_inspection_def inspection_eval approval_payload_def)

lemma inspection_four_eyes_witness:
  "\<exists>e \<in> set (i_emitted (run_ops inspection_next demo_inspection_ops demo_inspection)).
     ev_eventType e = ''InspectionApproved''"
  using inspection_four_eyes [OF demo_inspection_New refl disjI1 [OF demo_inspection_status]]
  by blast

text \<open>The record of an inspection is append-only. A run never rewrites or drops an event or a
  revision snapshot; the event ids of an inspection never repeat; every event belongs to the
  inspection and its tenant; and the revision number counts the snapshots.\<close>

theorem inspection_history_append_only:
  assumes "Inspection_New ident tenant org envi asset ty date = Inr i"
    and "j = run_ops inspection_next ps i" and "k = run_ops inspection_next qs j"
  shows "prefix (i_emitted j) (i_emitted k) \<and> prefix (i_snapshots j) (i_snapshots k) \<and>
    distinct (map ev_eventID (i_emitted k)) \<and>
    (\<forall>e \<in> set (i_emitted k). ev_aggregateID e = i_id k \<and> ev_tenantID e = i_tenantID k) \<and>
    i_revision k = wrap64 (1 + int (length (i_snapshots k)))"
proof -
  have j: "inspection_ok j" using inspection_run_ok [OF assms(1)] assms(2) by simp
  then have k: "inspection_ok k" using insp.run_inv assms(3) by simp
  have "k = run_ops inspection_next (ps @ qs) i" using assms(2,3) by (simp add: run_ops_append)
  moreover have "inspection_ok i" "i_emitted i = []"
    using inspection_ok_New inspection_New_empty assms(1) by auto
  ultimately have "distinct (map ev_eventID (i_emitted k))"
    using insp.run_ids_distinct by simp
  with j k show ?thesis
    using insp.run_prefix [of j qs] insp_history.run_prefix [of j qs] assms(3)
    by (simp add: inspection_ok_def list_all_iff own_event_def)
qed


lemma inspection_history_append_only_witness:
  "distinct (map ev_eventID (i_emitted (run_ops inspection_next demo_inspection_ops demo_inspection)))"
  using inspection_history_append_only [OF demo_inspection_New refl refl, of demo_inspection_ops "[]"]
  by simp

end
