(* ===== verification/Certificate.thy ===== *)
theory Certificate
  imports Shared_Kernel
begin

text \<open>
  The certificate aggregate, \<open>internal/domain/certificate/certificate.go\<close>, and its signature
  acts, \<open>internal/domain/certificate/signature.go\<close>: drafting, approval under separation of
  duties, signing (or attestation, or a waived signature), issue and the four ways an issued or
  signed certificate ends. The conventions are those of the inspection aggregate.
\<close>

datatype CertStatus =
    CertDraft | CertPendingApproval | CertApproved | CertSigned | CertIssued | CertExpired
  | CertRevoked | CertSuperseded | CertStatusOther string

record SeparationException =
  exc_GrantedBy :: string
  exc_Reason :: string

definition CapacityClient :: string where "CapacityClient = ''client''"
definition CapacityInspector :: string where "CapacityInspector = ''inspector''"
definition CapacityVerifier :: string where "CapacityVerifier = ''verifier''"

definition MaxSignatureImageBytes :: int64 where "MaxSignatureImageBytes = 5 * 1024 * 1024"
definition MaxTextFieldChars :: nat where "MaxTextFieldChars = 1000"

record SignatureEvent =
  sig_SignerID :: string
  sig_SignerName :: string
  sig_Capacity :: string
  sig_StatementVersion :: string
  sig_ImageSHA256Hex :: string
  sig_ImageBytes :: int64
  sig_ImageEvidenceID :: string
  sig_SnapshotSHA256 :: string
  sig_CertificateNumber :: string
  sig_Revision :: int64
  sig_SignedAt :: gotime

record SignWaiver =
  wv_GrantedBy :: string
  wv_Reason :: string
  wv_Capacity :: string
  wv_AuthorizedBy :: string
  wv_CertificateNumber :: string
  wv_Revision :: int64
  wv_WaivedAt :: gotime

record Certificate =
  c_id :: string
  c_tenantID :: string
  c_organizationID :: string
  c_environment :: string
  c_number :: string
  c_revision :: int64
  c_inspectionID :: string
  c_inspectionRevision :: int64
  c_assetID :: string
  c_inspectorID :: string
  c_createdBy :: string
  c_status :: CertStatus
  c_approvedBy :: string
  c_signedBy :: string
  c_issuedBy :: string
  c_issuedAt :: gotime
  c_expiryDate :: gotime
  c_supersedesID :: string
  c_supersededByID :: string
  c_revocationReason :: string
  c_exception :: "SeparationException option"
  c_signatures :: "SignatureEvent list"
  c_signWaiver :: "SignWaiver option"
  c_emitted :: "Envelope list"
  c_renewalAuthorityToken :: bytes
  c_renewalCount :: int64

datatype certificate_error =
    CertFieldRequired
  | InspectionRevisionNotPositive
  | CertBadContext tenant_error
  | ExpiryDateRequired
  | InvalidCertTransition CertStatus CertStatus
  | ActorRequired
  | ApproverRequired
  | SeparationViolation
  | ExceptionNotDistinct
  | SignerRequired
  | InspectorCannotSign
  | InspectorAttestsOnly
  | IssuerRequired
  | InspectorCannotIssue
  | ExpiryCheckTimeRequired
  | NotYetExpired
  | CannotRevokeFrom CertStatus
  | ActorAndReasonRequired
  | ActorAndReplacementRequired
  | CannotAttestIn CertStatus
  | OnlyInspectorAttests
  | SigFieldRequired string
  | SigFieldTooLong string
  | BadCapacity
  | NotSixtyFour string
  | NotHexEncoded string
  | ImageBytesOutOfRange
  | WaiverReasonInvalid
  | AuthorizerNotDistinct
  | OfficeAuthorizerRequired
  | CertEventFailed envelope_error

subsection \<open>Construction and events\<close>

definition Certificate_New ::
    "string \<Rightarrow> string \<Rightarrow> string \<Rightarrow> string \<Rightarrow> string \<Rightarrow> string \<Rightarrow> int64 \<Rightarrow> string \<Rightarrow> string \<Rightarrow> string \<Rightarrow> gotime \<Rightarrow>
     certificate_error + Certificate" where
  "Certificate_New ident tenantID organizationID environment number inspectionID
     inspectionRevision assetID inspectorID createdBy expiryDate =
     (if list_ex blank [ident, tenantID, organizationID, number, inspectionID, assetID, inspectorID,
                        createdBy] then Inl CertFieldRequired
      else if inspectionRevision \<le> 0 then Inl InspectionRevisionNotPositive
      else case TenantContext_Validate \<lparr>ctx_TenantID = tenantID, ctx_OrganizationID = organizationID,
                  ctx_Environment = environment\<rparr> of
        Some e \<Rightarrow> Inl (CertBadContext e)
      | None \<Rightarrow>
          if time_IsZero expiryDate then Inl ExpiryDateRequired
          else Inr \<lparr>c_id = ident, c_tenantID = tenantID, c_organizationID = organizationID,
            c_environment = environment, c_number = number, c_revision = 1,
            c_inspectionID = inspectionID, c_inspectionRevision = inspectionRevision,
            c_assetID = assetID, c_inspectorID = inspectorID, c_createdBy = createdBy,
            c_status = CertDraft, c_approvedBy = [], c_signedBy = [], c_issuedBy = [],
            c_issuedAt = 0, c_expiryDate = expiryDate, c_supersedesID = [], c_supersededByID = [],
            c_revocationReason = [], c_exception = None, c_signatures = [], c_signWaiver = None,
            c_emitted = [], c_renewalAuthorityToken = [], c_renewalCount = 0\<rparr>)"

definition cert_require :: "CertStatus \<Rightarrow> Certificate \<Rightarrow> certificate_error option" where
  "cert_require expected c =
     (if c_status c \<noteq> expected then Some (InvalidCertTransition (c_status c) expected) else None)"

definition Certificate_makeEvent ::
    "Certificate \<Rightarrow> string \<Rightarrow> json \<Rightarrow> gotime \<Rightarrow> envelope_error + Envelope" where
  "Certificate_makeEvent c eventType payload now =
     (let eventID = c_id c @ ''-'' @ show_int (c_revision c) @ ''-'' @
                    show_nat (length (c_emitted c) + 1)
      in NewEnvelope eventID eventType (c_tenantID c) (c_organizationID c) (c_environment c)
           ''certificate'' (c_id c) payload now)"

text \<open>The event is built on the state before the change; the change happens only if it was.\<close>

definition Certificate_emit ::
    "Certificate \<Rightarrow> string \<Rightarrow> json \<Rightarrow> gotime \<Rightarrow> (Certificate \<Rightarrow> Certificate) \<Rightarrow>
     certificate_error + Certificate" where
  "Certificate_emit c eventType payload now change =
     (case Certificate_makeEvent c eventType payload now of
        Inl e \<Rightarrow> Inl (CertEventFailed e)
      | Inr event \<Rightarrow> Inr ((change c)\<lparr>c_emitted := c_emitted c @ [event]\<rparr>))"

definition exception_json :: "SeparationException option \<Rightarrow> json" where
  "exception_json x = (case x of None \<Rightarrow> JNull
     | Some e \<Rightarrow> JObj [(''granted_by'', JStr (exc_GrantedBy e)), (''reason'', JStr (exc_Reason e))])"

subsection \<open>The lifecycle operations\<close>

definition SubmitForApproval :: "string \<Rightarrow> gotime \<Rightarrow> Certificate \<Rightarrow> certificate_error + Certificate"
  where
  "SubmitForApproval actorID now c =
     (case cert_require CertDraft c of
        Some e \<Rightarrow> Inl e
      | None \<Rightarrow>
          if blank actorID then Inl ActorRequired
          else Certificate_emit c ''CertificateSubmittedForApproval''
            (JObj [(''actor_id'', JStr actorID), (''revision'', JInt (c_revision c))]) now
            (\<lambda>c. c\<lparr>c_status := CertPendingApproval\<rparr>))"

definition Certificate_Approve ::
    "string \<Rightarrow> SeparationException option \<Rightarrow> gotime \<Rightarrow> Certificate \<Rightarrow> certificate_error + Certificate"
  where
  "Certificate_Approve approverID exception now c =
     (case cert_require CertPendingApproval c of
        Some e \<Rightarrow> Inl e
      | None \<Rightarrow>
          if blank approverID then Inl ApproverRequired
          else case
            (if approverID = c_inspectorID c \<or> approverID = c_createdBy c then
               (case exception of
                  None \<Rightarrow> Some SeparationViolation
                | Some x \<Rightarrow>
                    if blank (exc_GrantedBy x) \<or> blank (exc_Reason x) then Some SeparationViolation
                    else if exc_GrantedBy x = approverID then Some ExceptionNotDistinct else None)
             else None) of
            Some e \<Rightarrow> Inl e
          | None \<Rightarrow>
              Certificate_emit c ''CertificateApproved''
                (JObj [(''approver_id'', JStr approverID), (''exception'', exception_json exception)])
                now
                (\<lambda>c. c\<lparr>c_status := CertApproved, c_approvedBy := approverID,
                       c_exception := (case exception of None \<Rightarrow> c_exception c | Some x \<Rightarrow> Some x)\<rparr>))"

definition Certificate_Sign :: "string \<Rightarrow> gotime \<Rightarrow> Certificate \<Rightarrow> certificate_error + Certificate" where
  "Certificate_Sign signerID now c =
     (case cert_require CertApproved c of
        Some e \<Rightarrow> Inl e
      | None \<Rightarrow>
          if blank signerID then Inl SignerRequired
          else if signerID = c_inspectorID c then Inl InspectorCannotSign
          else Certificate_emit c ''CertificateSigned'' (JObj [(''signer_id'', JStr signerID)]) now
            (\<lambda>c. c\<lparr>c_status := CertSigned, c_signedBy := signerID\<rparr>))"

text \<open>\<open>issue_now\<close> is the clock reading that replaces a zero \<open>issuedAt\<close>.\<close>

definition Issue ::
    "string \<Rightarrow> gotime \<Rightarrow> gotime \<Rightarrow> gotime \<Rightarrow> Certificate \<Rightarrow> certificate_error + Certificate" where
  "Issue issuerID issuedAt issue_now now c =
     (case cert_require CertSigned c of
        Some e \<Rightarrow> Inl e
      | None \<Rightarrow>
          if blank issuerID then Inl IssuerRequired
          else if issuerID = c_inspectorID c then Inl InspectorCannotIssue
          else
            (let issuedAt = (if time_IsZero issuedAt then issue_now else issuedAt) in
             Certificate_emit c ''CertificateIssued''
               (JObj [(''issuer_id'', JStr issuerID), (''issued_at'', JTime issuedAt)]) now
               (\<lambda>c. c\<lparr>c_status := CertIssued, c_issuedBy := issuerID, c_issuedAt := issuedAt\<rparr>)))"

definition Expire :: "gotime \<Rightarrow> gotime \<Rightarrow> Certificate \<Rightarrow> certificate_error + Certificate" where
  "Expire at now c =
     (case cert_require CertIssued c of
        Some e \<Rightarrow> Inl e
      | None \<Rightarrow>
          if time_IsZero at then Inl ExpiryCheckTimeRequired
          else if at < c_expiryDate c then Inl NotYetExpired
          else Certificate_emit c ''CertificateExpired'' (JObj [(''expired_at'', JTime at)]) now
            (\<lambda>c. c\<lparr>c_status := CertExpired\<rparr>))"

definition Certificate_Revoke ::
    "string \<Rightarrow> string \<Rightarrow> gotime \<Rightarrow> Certificate \<Rightarrow> certificate_error + Certificate" where
  "Certificate_Revoke actorID reason now c =
     (if c_status c \<noteq> CertIssued \<and> c_status c \<noteq> CertSigned then Inl (CannotRevokeFrom (c_status c))
      else if blank actorID \<or> blank reason then Inl ActorAndReasonRequired
      else Certificate_emit c ''CertificateRevoked''
        (JObj [(''actor_id'', JStr actorID), (''reason'', JStr reason)]) now
        (\<lambda>c. c\<lparr>c_status := CertRevoked, c_revocationReason := reason\<rparr>))"

definition Supersede ::
    "string \<Rightarrow> string \<Rightarrow> gotime \<Rightarrow> Certificate \<Rightarrow> certificate_error + Certificate" where
  "Supersede actorID replacementID now c =
     (case cert_require CertIssued c of
        Some e \<Rightarrow> Inl e
      | None \<Rightarrow>
          if blank actorID \<or> blank replacementID then Inl ActorAndReplacementRequired
          else Certificate_emit c ''CertificateSuperseded''
            (JObj [(''actor_id'', JStr actorID), (''replacement_id'', JStr replacementID)]) now
            (\<lambda>c. c\<lparr>c_status := CertSuperseded, c_supersededByID := replacementID\<rparr>))"

definition RenewalContext :: "Certificate \<Rightarrow> string \<times> string \<times> bytes \<times> bool" where
  "RenewalContext c =
     (c_tenantID c, c_organizationID c, c_renewalAuthorityToken c,
      length (c_renewalAuthorityToken c) = 32)"

definition SetRenewalAuthority :: "string \<Rightarrow> string \<Rightarrow> bytes \<Rightarrow> Certificate \<Rightarrow> Certificate" where
  "SetRenewalAuthority tenantID organizationID authorityToken c =
     c\<lparr>c_tenantID := tenantID, c_organizationID := organizationID,
       c_renewalAuthorityToken := (if length authorityToken = 32 then authorityToken
                                   else c_renewalAuthorityToken c),
       c_renewalCount := wrap64 (c_renewalCount c + 1)\<rparr>"

subsection \<open>Signature acts\<close>

definition validateSHA256Hex :: "string \<Rightarrow> string \<Rightarrow> certificate_error option" where
  "validateSHA256Hex value field =
     (if length value \<noteq> 64 then Some (NotSixtyFour field)
      else case hex_decode value of None \<Rightarrow> Some (NotHexEncoded field) | Some b \<Rightarrow> None)"

definition SignatureEvent_Validate :: "SignatureEvent \<Rightarrow> certificate_error option" where
  "SignatureEvent_Validate e =
     (if blank (sig_SignerID e) then Some (SigFieldRequired ''signer_id'')
      else if blank (sig_SignerName e) then Some (SigFieldRequired ''signer_name'')
      else if length (sig_SignerName e) > MaxTextFieldChars then Some (SigFieldTooLong ''signer_name'')
      else if sig_Capacity e \<notin> {CapacityClient, CapacityInspector, CapacityVerifier}
        then Some BadCapacity
      else if blank (sig_StatementVersion e) then Some (SigFieldRequired ''statement_version'')
      else if length (sig_StatementVersion e) > MaxTextFieldChars
        then Some (SigFieldTooLong ''statement_version'')
      else case validateSHA256Hex (sig_ImageSHA256Hex e) ''image_sha256_hex'' of
        Some err \<Rightarrow> Some err
      | None \<Rightarrow>
          if sig_ImageBytes e < 1 \<or> sig_ImageBytes e > MaxSignatureImageBytes
            then Some ImageBytesOutOfRange
          else if blank (sig_ImageEvidenceID e) then Some (SigFieldRequired ''image_evidence_id'')
          else validateSHA256Hex (sig_SnapshotSHA256 e) ''snapshot_sha256_hex'')"

definition SignatureEvent_json :: "SignatureEvent \<Rightarrow> json" where
  "SignatureEvent_json e = JObj
     [(''signer_id'', JStr (sig_SignerID e)), (''signer_name'', JStr (sig_SignerName e)),
      (''capacity'', JStr (sig_Capacity e)), (''statement_version'', JStr (sig_StatementVersion e)),
      (''image_sha256_hex'', JStr (sig_ImageSHA256Hex e)), (''image_bytes'', JInt (sig_ImageBytes e)),
      (''image_evidence_id'', JStr (sig_ImageEvidenceID e)),
      (''snapshot_sha256_hex'', JStr (sig_SnapshotSHA256 e)),
      (''certificate_number'', JStr (sig_CertificateNumber e)), (''revision'', JInt (sig_Revision e)),
      (''signed_at'', JTime (sig_SignedAt e))]"

text \<open>\<open>sign_now\<close> is the server time the act is sealed with.\<close>

definition SignWithEvent ::
    "SignatureEvent \<Rightarrow> gotime \<Rightarrow> gotime \<Rightarrow> Certificate \<Rightarrow> certificate_error + Certificate" where
  "SignWithEvent event sign_now now c =
     (case cert_require CertApproved c of
        Some e \<Rightarrow> Inl e
      | None \<Rightarrow>
         (case SignatureEvent_Validate event of
            Some e \<Rightarrow> Inl e
          | None \<Rightarrow>
              if sig_Capacity event = CapacityInspector then Inl InspectorAttestsOnly
              else if sig_SignerID event = c_inspectorID c then Inl InspectorCannotSign
              else
                (let event = event\<lparr>sig_CertificateNumber := c_number c, sig_Revision := c_revision c,
                                   sig_SignedAt := sign_now\<rparr> in
                 Certificate_emit c ''CertificateSigned'' (SignatureEvent_json event) now
                   (\<lambda>c. c\<lparr>c_status := CertSigned, c_signedBy := sig_SignerID event,
                          c_signatures := c_signatures c @ [event]\<rparr>))))"

definition Attest ::
    "string \<Rightarrow> string \<Rightarrow> string \<Rightarrow> string \<Rightarrow> string \<Rightarrow> gotime \<Rightarrow> gotime \<Rightarrow> Certificate \<Rightarrow>
     certificate_error + Certificate" where
  "Attest attestorID attestorName qualificationBasis statementVersion snapshotSHA256Hex
     sign_now now c =
     (if c_status c \<noteq> CertDraft \<and> c_status c \<noteq> CertPendingApproval \<and> c_status c \<noteq> CertApproved
        then Inl (CannotAttestIn (c_status c))
      else if blank attestorID then Inl (SigFieldRequired ''attestor_id'')
      else if attestorID \<noteq> c_inspectorID c then Inl OnlyInspectorAttests
      else if blank attestorName then Inl (SigFieldRequired ''attestor_name'')
      else if length attestorName > MaxTextFieldChars then Inl (SigFieldTooLong ''attestor_name'')
      else if blank qualificationBasis then Inl (SigFieldRequired ''qualification_basis'')
      else if length qualificationBasis > MaxTextFieldChars
        then Inl (SigFieldTooLong ''qualification_basis'')
      else if blank statementVersion then Inl (SigFieldRequired ''statement_version'')
      else if length statementVersion > MaxTextFieldChars
        then Inl (SigFieldTooLong ''statement_version'')
      else case validateSHA256Hex snapshotSHA256Hex ''snapshot_sha256_hex'' of
        Some e \<Rightarrow> Inl e
      | None \<Rightarrow>
         (let event = \<lparr>sig_SignerID = attestorID, sig_SignerName = attestorName,
                       sig_Capacity = CapacityInspector, sig_StatementVersion = statementVersion,
                       sig_ImageSHA256Hex = [], sig_ImageBytes = 0, sig_ImageEvidenceID = [],
                       sig_SnapshotSHA256 = snapshotSHA256Hex, sig_CertificateNumber = c_number c,
                       sig_Revision = c_revision c, sig_SignedAt = sign_now\<rparr> in
          Certificate_emit c ''CertificateAttested'' (SignatureEvent_json event) now
            (\<lambda>c. c\<lparr>c_signatures := c_signatures c @ [event]\<rparr>)))"

definition SignWaiver_Validate :: "SignWaiver \<Rightarrow> certificate_error option" where
  "SignWaiver_Validate w =
     (if blank (wv_GrantedBy w) then Some (SigFieldRequired ''granted_by'')
      else if blank (wv_Reason w) \<or> length (wv_Reason w) > MaxTextFieldChars
        then Some WaiverReasonInvalid
      else if wv_Capacity w \<notin> {CapacityClient, CapacityVerifier} then Some BadCapacity
      else if length (wv_AuthorizedBy w) > MaxTextFieldChars then Some (SigFieldTooLong ''authorized_by'')
      else if TrimSpace (wv_AuthorizedBy w) \<noteq> [] \<and>
              TrimSpace (wv_AuthorizedBy w) = TrimSpace (wv_GrantedBy w)
        then Some AuthorizerNotDistinct
      else None)"

definition SignWaiver_json :: "SignWaiver \<Rightarrow> json" where
  "SignWaiver_json w = JObj (
     [(''granted_by'', JStr (wv_GrantedBy w)), (''reason'', JStr (wv_Reason w)),
      (''capacity'', JStr (wv_Capacity w))] @
     (if wv_AuthorizedBy w = [] then [] else [(''authorized_by'', JStr (wv_AuthorizedBy w))]) @
     [(''certificate_number'', JStr (wv_CertificateNumber w)), (''revision'', JInt (wv_Revision w)),
      (''waived_at'', JTime (wv_WaivedAt w))])"

definition WaiveSignature ::
    "string \<Rightarrow> string \<Rightarrow> string \<Rightarrow> string \<Rightarrow> gotime \<Rightarrow> gotime \<Rightarrow> Certificate \<Rightarrow>
     certificate_error + Certificate" where
  "WaiveSignature grantedBy reason capacity authorizedBy waive_now now c =
     (case cert_require CertApproved c of
        Some e \<Rightarrow> Inl e
      | None \<Rightarrow>
         (let waiver = \<lparr>wv_GrantedBy = grantedBy, wv_Reason = reason, wv_Capacity = capacity,
                        wv_AuthorizedBy = authorizedBy, wv_CertificateNumber = [],
                        wv_Revision = 0, wv_WaivedAt = 0\<rparr> in
          case SignWaiver_Validate waiver of
            Some e \<Rightarrow> Inl e
          | None \<Rightarrow>
              if grantedBy = c_inspectorID c \<and> blank authorizedBy then Inl OfficeAuthorizerRequired
              else
                (let waiver = waiver\<lparr>wv_CertificateNumber := c_number c, wv_Revision := c_revision c,
                                     wv_WaivedAt := waive_now\<rparr> in
                 Certificate_emit c ''CertificateSignatureWaived'' (SignWaiver_json waiver) now
                   (\<lambda>c. c\<lparr>c_status := CertSigned, c_signedBy := grantedBy,
                          c_signWaiver := Some waiver\<rparr>))))"

subsection \<open>Calls\<close>

datatype certificate_op =
    CSubmit string gotime
  | CApprove string "SeparationException option" gotime
  | CSign string gotime
  | CSignWith SignatureEvent gotime gotime
  | CAttest string string string string string gotime gotime
  | CWaive string string string string gotime gotime
  | CIssue string gotime gotime gotime
  | CExpire gotime gotime
  | CRevoke string string gotime
  | CSupersede string string gotime
  | CSetRenewal string string bytes

fun certificate_call :: "certificate_op \<Rightarrow> Certificate \<Rightarrow> certificate_error + Certificate" where
  "certificate_call (CSubmit a t) = SubmitForApproval a t"
| "certificate_call (CApprove a x t) = Certificate_Approve a x t"
| "certificate_call (CSign a t) = Certificate_Sign a t"
| "certificate_call (CSignWith ev s t) = SignWithEvent ev s t"
| "certificate_call (CAttest a n q v h s t) = Attest a n q v h s t"
| "certificate_call (CWaive g r k a s t) = WaiveSignature g r k a s t"
| "certificate_call (CIssue a at s t) = Issue a at s t"
| "certificate_call (CExpire at t) = Expire at t"
| "certificate_call (CRevoke a r t) = Certificate_Revoke a r t"
| "certificate_call (CSupersede a r t) = Supersede a r t"
| "certificate_call (CSetRenewal ten org tok) = (\<lambda>c. Inr (SetRenewalAuthority ten org tok c))"

definition certificate_next :: "certificate_op \<Rightarrow> Certificate \<Rightarrow> Certificate" where
  "certificate_next p c = keep c (certificate_call p c)"

subsection \<open>The lifecycle\<close>

fun cert_can :: "CertStatus \<Rightarrow> CertStatus \<Rightarrow> bool" where
  "cert_can CertDraft CertPendingApproval = True"
| "cert_can CertPendingApproval CertApproved = True"
| "cert_can CertApproved CertSigned = True"
| "cert_can CertSigned CertIssued = True"
| "cert_can CertSigned CertRevoked = True"
| "cert_can CertIssued CertExpired = True"
| "cert_can CertIssued CertRevoked = True"
| "cert_can CertIssued CertSuperseded = True"
| "cert_can _ _ = False"

fun cert_rank :: "CertStatus \<Rightarrow> nat" where
  "cert_rank CertDraft = 0"
| "cert_rank CertPendingApproval = 1"
| "cert_rank CertApproved = 2"
| "cert_rank CertSigned = 3"
| "cert_rank CertIssued = 4"
| "cert_rank _ = 5"

lemma cert_can_rank: "cert_can s t \<Longrightarrow> cert_rank s < cert_rank t"
  by (cases s; cases t) simp_all

interpretation cert_life: strict_lifecycle cert_can cert_rank
  by unfold_locales (rule cert_can_rank)

lemma cert_require_None [simp]: "cert_require s c = None \<longleftrightarrow> c_status c = s"
  by (simp add: cert_require_def)

lemmas certificate_ops = SubmitForApproval_def Certificate_Approve_def Certificate_Sign_def
  Issue_def Expire_def Certificate_Revoke_def Supersede_def SetRenewalAuthority_def
  SignWithEvent_def Attest_def WaiveSignature_def

definition cert_event :: "Certificate \<Rightarrow> Envelope \<Rightarrow> bool" where
  "cert_event c e \<longleftrightarrow> envelope_ok e \<and> ev_aggregateID e = c_id c \<and>
     ev_eventID e = (c_id c @ ''-'' @ show_int (c_revision c)) @ ''-'' @
       show_nat (Suc (length (c_emitted c)))"

lemma Certificate_emit_Inr:
  assumes "Certificate_emit c ety p now f = Inr d"
  shows "\<exists>e. cert_event c e \<and> ev_eventType e = ety \<and> ev_payload e = Some p \<and>
    d = (f c)\<lparr>c_emitted := c_emitted c @ [e]\<rparr>"
proof -
  obtain e where e: "Certificate_makeEvent c ety p now = Inr e"
      "d = (f c)\<lparr>c_emitted := c_emitted c @ [e]\<rparr>"
    using assms by (auto simp: Certificate_emit_def)
  then have "cert_event c e \<and> ev_eventType e = ety \<and> ev_payload e = Some p"
    using NewEnvelope_ok
    by (auto simp: cert_event_def Certificate_makeEvent_def Let_def NewEnvelope_Inr)
  with e show ?thesis by blast
qed

lemma certificate_call_emits:
  assumes "certificate_call p c = Inr d"
  shows "c_emitted d = c_emitted c \<or> (\<exists>e. cert_event c e \<and> c_emitted d = c_emitted c @ [e])"
  using assms
  by (cases p) (auto simp: certificate_ops Let_def dest!: Certificate_emit_Inr)

lemma certificate_call_fixed:
  assumes "certificate_call p c = Inr d"
  shows "c_id d = c_id c \<and> c_number d = c_number c \<and> c_revision d = c_revision c \<and>
    c_inspectionID d = c_inspectionID c \<and> c_inspectionRevision d = c_inspectionRevision c \<and>
    c_assetID d = c_assetID c \<and> c_inspectorID d = c_inspectorID c \<and> c_createdBy d = c_createdBy c \<and>
    c_expiryDate d = c_expiryDate c"
  using assms
  by (cases p) (auto simp: certificate_ops Let_def dest!: Certificate_emit_Inr)

lemma certificate_call_status:
  assumes "certificate_call p c = Inr d"
  shows "c_status d = c_status c \<or> cert_can (c_status c) (c_status d)"
  using assms
  by (cases p) (auto simp: certificate_ops Let_def dest!: Certificate_emit_Inr)

subsection \<open>The invariant\<close>

definition cert_approval_ok ::
    "string \<Rightarrow> string \<Rightarrow> string \<Rightarrow> SeparationException option \<Rightarrow> bool" where
  "cert_approval_ok inspector creator approver exception \<longleftrightarrow> \<not> blank approver \<and>
     (approver \<in> {inspector, creator} \<longrightarrow>
       (\<exists>x. exception = Some x \<and> \<not> blank (exc_GrantedBy x) \<and> \<not> blank (exc_Reason x) \<and>
            exc_GrantedBy x \<noteq> approver))"

definition cert_signing_ok :: "string \<Rightarrow> string \<Rightarrow> SignWaiver option \<Rightarrow> bool" where
  "cert_signing_ok inspector signer waiver \<longleftrightarrow> \<not> blank signer \<and>
     (signer = inspector \<longrightarrow>
       (\<exists>w. waiver = Some w \<and> wv_GrantedBy w = inspector \<and>
            \<not> blank (wv_AuthorizedBy w) \<and> \<not> blank (wv_Reason w) \<and>
            TrimSpace (wv_AuthorizedBy w) \<noteq> TrimSpace inspector))"

definition sealed_signature :: "string \<Rightarrow> int64 \<Rightarrow> string \<Rightarrow> SignatureEvent \<Rightarrow> bool" where
  "sealed_signature number revision inspector s \<longleftrightarrow>
     sig_CertificateNumber s = number \<and> sig_Revision s = revision \<and>
     (sig_Capacity s = CapacityInspector \<longleftrightarrow> sig_SignerID s = inspector) \<and>
     length (sig_SnapshotSHA256 s) = 64 \<and> hex_decode (sig_SnapshotSHA256 s) \<noteq> None"

definition cert_ok :: "Certificate \<Rightarrow> bool" where
  "cert_ok c \<longleftrightarrow>
     (2 \<le> cert_rank (c_status c) \<longrightarrow>
        cert_approval_ok (c_inspectorID c) (c_createdBy c) (c_approvedBy c) (c_exception c)) \<and>
     (3 \<le> cert_rank (c_status c) \<longrightarrow>
        cert_signing_ok (c_inspectorID c) (c_signedBy c) (c_signWaiver c)) \<and>
     (c_status c \<in> {CertIssued, CertExpired, CertSuperseded} \<longrightarrow>
        \<not> blank (c_issuedBy c) \<and> c_issuedBy c \<noteq> c_inspectorID c) \<and>
     (c_status c = CertRevoked \<longrightarrow> \<not> blank (c_revocationReason c)) \<and>
     (c_status c = CertSuperseded \<longrightarrow> \<not> blank (c_supersededByID c)) \<and>
     list_all (sealed_signature (c_number c) (c_revision c) (c_inspectorID c)) (c_signatures c) \<and>
     list_all (\<lambda>e. ev_aggregateID e = c_id c) (c_emitted c)"

lemma cert_ok_New: "Certificate_New a b c d e f g h i j k = Inr x \<Longrightarrow> cert_ok x"
  by (auto simp: Certificate_New_def cert_ok_def)

lemma validateSHA256Hex_None:
  "validateSHA256Hex v f = None \<longleftrightarrow> length v = 64 \<and> hex_decode v \<noteq> None"
  by (auto simp: validateSHA256Hex_def split: option.splits)

text \<open>What each act establishes.\<close>

lemma Approve_establishes:
  assumes "Certificate_Approve a x t c = Inr d"
  shows "cert_approval_ok (c_inspectorID d) (c_createdBy d) (c_approvedBy d) (c_exception d)"
  using assms
  by (auto simp: Certificate_Approve_def cert_approval_ok_def
      dest!: Certificate_emit_Inr split: option.splits if_splits)

lemma signing_establishes:
  assumes "p = CSign a t \<or> p = CSignWith ev s t \<or> p = CWaive g r k b s t"
    and "certificate_call p c = Inr d"
  shows "cert_signing_ok (c_inspectorID d) (c_signedBy d) (c_signWaiver d)"
  using assms
  by (elim disjE) (auto simp: certificate_ops Let_def cert_signing_ok_def blank_def
      SignatureEvent_Validate_def SignWaiver_Validate_def dest!: Certificate_emit_Inr)

lemma acts_sealed:
  assumes "p = CSignWith ev s t \<or> p = CAttest a n q v h s t"
    and "certificate_call p c = Inr d"
  shows "\<exists>s. c_signatures d = c_signatures c @ [s] \<and>
    sealed_signature (c_number c) (c_revision c) (c_inspectorID c) s"
  using assms
  by (elim disjE) (auto simp: certificate_ops Let_def sealed_signature_def
      SignatureEvent_Validate_def validateSHA256Hex_None dest!: Certificate_emit_Inr)

lemma other_keep_signatures:
  assumes "certificate_call p c = Inr d"
    and "\<nexists>ev s t a n q v h. p = CSignWith ev s t \<or> p = CAttest a n q v h s t"
  shows "c_signatures d = c_signatures c"
  using assms
  by (cases p) (auto simp: certificate_ops Let_def dest!: Certificate_emit_Inr)

lemma other_keep_approval:
  assumes "certificate_call p c = Inr d" and "\<nexists>a x t. p = CApprove a x t"
  shows "c_approvedBy d = c_approvedBy c \<and> c_exception d = c_exception c \<and>
    (2 \<le> cert_rank (c_status d) \<longrightarrow> 2 \<le> cert_rank (c_status c))"
  using assms
  by (cases p) (auto simp: certificate_ops Let_def dest!: Certificate_emit_Inr)

lemma other_keep_signing:
  assumes "certificate_call p c = Inr d"
    and "\<nexists>a t ev s g r k b. p = CSign a t \<or> p = CSignWith ev s t \<or> p = CWaive g r k b s t"
  shows "c_signedBy d = c_signedBy c \<and> c_signWaiver d = c_signWaiver c \<and>
    (3 \<le> cert_rank (c_status d) \<longrightarrow> 3 \<le> cert_rank (c_status c))"
  using assms
  by (cases p) (auto simp: certificate_ops Let_def dest!: Certificate_emit_Inr)

lemma other_keep_issue:
  assumes "certificate_call p c = Inr d" and "\<nexists>a u s t. p = CIssue a u s t"
  shows "c_issuedBy d = c_issuedBy c \<and> (c_status d \<in> {CertIssued, CertExpired, CertSuperseded} \<longrightarrow>
    c_status c \<in> {CertIssued, CertExpired, CertSuperseded})"
  using assms
  by (cases p) (auto simp: certificate_ops Let_def dest!: Certificate_emit_Inr)

lemma revoke_reason:
  assumes "certificate_call p c = Inr d"
  shows "c_status d = CertRevoked \<longrightarrow> \<not> blank (c_revocationReason d) \<or>
      c_status c = CertRevoked \<and> c_revocationReason d = c_revocationReason c"
  using assms
  by (cases p; simp; auto simp: certificate_ops Let_def dest!: Certificate_emit_Inr)

lemma supersede_reason:
  assumes "certificate_call p c = Inr d"
  shows "c_status d = CertSuperseded \<longrightarrow> \<not> blank (c_supersededByID d) \<or>
      c_status c = CertSuperseded \<and> c_supersededByID d = c_supersededByID c"
  using assms
  by (cases p; simp; auto simp: certificate_ops Let_def dest!: Certificate_emit_Inr)

lemma cert_okD:
  assumes "cert_ok c"
  shows "2 \<le> cert_rank (c_status c) \<longrightarrow>
        cert_approval_ok (c_inspectorID c) (c_createdBy c) (c_approvedBy c) (c_exception c)"
    "3 \<le> cert_rank (c_status c) \<longrightarrow>
        cert_signing_ok (c_inspectorID c) (c_signedBy c) (c_signWaiver c)"
    "c_status c \<in> {CertIssued, CertExpired, CertSuperseded} \<longrightarrow>
        \<not> blank (c_issuedBy c) \<and> c_issuedBy c \<noteq> c_inspectorID c"
    "c_status c = CertRevoked \<longrightarrow> \<not> blank (c_revocationReason c)"
    "c_status c = CertSuperseded \<longrightarrow> \<not> blank (c_supersededByID c)"
    "list_all (sealed_signature (c_number c) (c_revision c) (c_inspectorID c)) (c_signatures c)"
    "list_all (\<lambda>e. ev_aggregateID e = c_id c) (c_emitted c)"
  by (insert assms [unfolded cert_ok_def]; elim conjE; assumption)+

lemma cert_ok_step:
  assumes ok: "cert_ok c" and call: "certificate_call p c = Inr d"
  shows "cert_ok d"
proof -
  note same = certificate_call_fixed [OF call]
  have evs: "list_all (\<lambda>e. ev_aggregateID e = c_id d) (c_emitted d)"
    using cert_okD(7) [OF ok] certificate_call_emits [OF call] same by (auto simp: cert_event_def)
  have sigs: "list_all (sealed_signature (c_number d) (c_revision d) (c_inspectorID d)) (c_signatures d)"
  proof (cases "\<exists>ev s t a n q v h. p = CSignWith ev s t \<or> p = CAttest a n q v h s t")
    case True
    then show ?thesis using acts_sealed [OF _ call] same cert_okD(6) [OF ok] by auto
  next
    case False
    then show ?thesis using other_keep_signatures [OF call] same cert_okD(6) [OF ok] by simp
  qed
  have appr: "2 \<le> cert_rank (c_status d) \<longrightarrow>
      cert_approval_ok (c_inspectorID d) (c_createdBy d) (c_approvedBy d) (c_exception d)"
  proof (cases "\<exists>a x t. p = CApprove a x t")
    case True
    then show ?thesis using Approve_establishes call by auto
  next
    case False
    with other_keep_approval [OF call] same cert_okD(1) [OF ok] show ?thesis by simp
  qed
  have sign: "3 \<le> cert_rank (c_status d) \<longrightarrow>
      cert_signing_ok (c_inspectorID d) (c_signedBy d) (c_signWaiver d)"
  proof (cases "\<exists>a t ev s g r k b. p = CSign a t \<or> p = CSignWith ev s t \<or> p = CWaive g r k b s t")
    case True
    then show ?thesis using signing_establishes [OF _ call] by blast
  next
    case False
    with other_keep_signing [OF call] same cert_okD(2) [OF ok] show ?thesis by simp
  qed
  have iss: "c_status d \<in> {CertIssued, CertExpired, CertSuperseded} \<longrightarrow>
      \<not> blank (c_issuedBy d) \<and> c_issuedBy d \<noteq> c_inspectorID d"
  proof (cases "\<exists>a u s t. p = CIssue a u s t")
    case True
    then show ?thesis using call by (auto simp: Issue_def Let_def dest!: Certificate_emit_Inr)
  next
    case False
    with other_keep_issue [OF call] same cert_okD(3) [OF ok] show ?thesis by metis
  qed
  have "c_status d = CertRevoked \<longrightarrow> \<not> blank (c_revocationReason d)"
    using revoke_reason [OF call] cert_okD(4) [OF ok] by metis
  moreover have "c_status d = CertSuperseded \<longrightarrow> \<not> blank (c_supersededByID d)"
    using supersede_reason [OF call] cert_okD(5) [OF ok] by metis
  ultimately show ?thesis
    unfolding cert_ok_def by (intro conjI evs sigs appr sign iss)
qed

lemma certificate_next_cases:
  "certificate_next p c = c \<or> (\<exists>d. certificate_call p c = Inr d \<and> certificate_next p c = d)"
  by (cases "certificate_call p c") (simp_all add: certificate_next_def)

lemma certificate_next_ok: "cert_ok c \<Longrightarrow> cert_ok (certificate_next p c)"
  using certificate_next_cases [of p c] cert_ok_step by metis

interpretation cert: audited certificate_next cert_ok c_emitted ev_eventID
proof unfold_locales
  fix p c
  assume "cert_ok c"
  then show "cert_ok (certificate_next p c)" by (rule certificate_next_ok)
  show "c_emitted (certificate_next p c) = c_emitted c \<or>
      (\<exists>e q. c_emitted (certificate_next p c) = c_emitted c @ [e] \<and>
             ev_eventID e = q @ ''-'' @ show_nat (Suc (length (c_emitted c))))"
    using certificate_next_cases [of p c] certificate_call_emits unfolding cert_event_def by metis
qed

lemma certificate_signatures_step: "prefix (c_signatures c) (c_signatures (certificate_next p c))"
proof -
  have "prefix (c_signatures c) (c_signatures d)" if call: "certificate_call p c = Inr d" for d
    using acts_sealed [OF _ call] other_keep_signatures [OF call] by fastforce
  then show ?thesis using certificate_next_cases [of p c] by auto
qed

interpretation cert_signatures: trail certificate_next cert_ok c_signatures
  by unfold_locales (rule certificate_signatures_step)

lemmas certificate_run_ok = cert.run_inv [OF cert_ok_New]

lemma certificate_run_status: "cert_can\<^sup>*\<^sup>* (c_status c) (c_status (run_ops certificate_next ps c))"
proof (induction ps arbitrary: c)
  case Nil
  show ?case by simp
next
  case (Cons p ps)
  have "c_status (certificate_next p c) = c_status c \<or> cert_can (c_status c) (c_status (certificate_next p c))"
    using certificate_next_cases [of p c] certificate_call_status by metis
  with Cons [of "certificate_next p c"] show ?case
    by (auto intro: converse_rtranclp_into_rtranclp)
qed

lemma certificate_run_fixed:
  "c_inspectorID (run_ops certificate_next ps c) = c_inspectorID c \<and>
   c_createdBy (run_ops certificate_next ps c) = c_createdBy c"
proof (induction ps arbitrary: c)
  case Nil
  show ?case by simp
next
  case (Cons p ps)
  have "c_inspectorID (certificate_next p c) = c_inspectorID c \<and>
      c_createdBy (certificate_next p c) = c_createdBy c"
    using certificate_next_cases [of p c] certificate_call_fixed by metis
  with Cons [of "certificate_next p c"] show ?case by simp
qed

subsection \<open>Properties\<close>

text \<open>A certificate brought to issue, for the witnesses.\<close>

definition demo_certificate :: Certificate where
  "demo_certificate = \<lparr>c_id = ''c1'', c_tenantID = ''t'', c_organizationID = ''o'',
     c_environment = ''LIVE'', c_number = ''n1'', c_revision = 1, c_inspectionID = ''i'',
     c_inspectionRevision = 1, c_assetID = ''a'', c_inspectorID = ''ins'', c_createdBy = ''cre'',
     c_status = CertDraft, c_approvedBy = [], c_signedBy = [], c_issuedBy = [], c_issuedAt = 0,
     c_expiryDate = 50, c_supersedesID = [], c_supersededByID = [], c_revocationReason = [],
     c_exception = None, c_signatures = [], c_signWaiver = None, c_emitted = [],
     c_renewalAuthorityToken = [], c_renewalCount = 0\<rparr>"

definition demo_certificate_ops :: "certificate_op list" where
  "demo_certificate_ops = [CSubmit ''cre'' 5, CApprove ''app'' None 6, CSign ''cli'' 7, CIssue ''off'' 8 8 8]"

lemma demo_certificate_New:
  "Certificate_New ''c1'' ''t'' ''o'' ''LIVE'' ''n1'' ''i'' 1 ''a'' ''ins'' ''cre'' 50 = Inr demo_certificate"
  by (simp add: Certificate_New_def TenantContext_Validate_def demo_certificate_def
      time_IsZero_def EnvironmentLive_def)

lemma demo_certificate_issued:
  "c_status (run_ops certificate_next demo_certificate_ops demo_certificate) = CertIssued"
  by (simp add: demo_certificate_ops_def demo_certificate_def certificate_next_def certificate_ops
      cert_require_def Certificate_emit_def Certificate_makeEvent_def NewEnvelope_def Let_def
      TenantContext_Validate_def EnvironmentLive_def time_IsZero_def time_marshalable_def
      exception_json_def)



text \<open>The lifecycle of a certificate only advances. Along any run the status moves forward
  through draft, approval, signature, issue and an end; at most five changes happen; a status once
  left is never entered again; and an expired, revoked or superseded certificate stays so
  whatever is called on it.\<close>

theorem certificate_lifecycle:
  assumes "d = run_ops certificate_next ps c"
  shows "(c_status d = c_status c \<or> cert_rank (c_status c) < cert_rank (c_status d)) \<and>
    (cert_rank (c_status c) = 5 \<longrightarrow> c_status d = c_status c) \<and>
    (\<forall>e qs. e = run_ops certificate_next qs d \<and> c_status e = c_status c \<longrightarrow> c_status d = c_status c)"
proof -
  have "cert_rank t \<le> 5" for t by (cases t) simp_all
  moreover have "c_status d = c_status c \<or> cert_rank (c_status c) < cert_rank (c_status d)"
    using cert_life.reach_rank [OF certificate_run_status [of c ps]] assms by auto
  moreover have "c_status d = c_status c" if "c_status (run_ops certificate_next qs d) = c_status c" for qs
    using cert_life.no_return [OF certificate_run_status [of c ps]] certificate_run_status [of d qs]
      assms that by auto
  ultimately show ?thesis by (metis not_less)
qed

lemma certificate_lifecycle_witness:
  "cert_rank CertDraft < cert_rank (c_status (run_ops certificate_next demo_certificate_ops demo_certificate))"
  using certificate_lifecycle [OF refl, of demo_certificate_ops demo_certificate] demo_certificate_issued
  by (simp add: demo_certificate_def)

text \<open>Signature acts are append-only and sealed. No call drops or changes a recorded act, and
  each act names the certificate's number and revision and a well-formed snapshot digest, with the
  inspector's capacity exactly on the acts of the assigned inspector.\<close>

theorem certificate_signatures_sealed:
  assumes "Certificate_New ident ten org envi num insp irev asset inspector creator expiry = Inr c"
    and "d = run_ops certificate_next ps c" and "e = run_ops certificate_next qs d"
  shows "prefix (c_signatures d) (c_signatures e) \<and> distinct (map ev_eventID (c_emitted e)) \<and>
    (\<forall>s \<in> set (c_signatures e). sig_CertificateNumber s = c_number e \<and> sig_Revision s = c_revision e \<and>
       (sig_Capacity s = CapacityInspector \<longleftrightarrow> sig_SignerID s = c_inspectorID e) \<and>
       length (sig_SnapshotSHA256 s) = 64 \<and> hex_decode (sig_SnapshotSHA256 s) \<noteq> None)"
proof -
  have d: "cert_ok d" using certificate_run_ok [OF assms(1)] assms(2) by simp
  then have e: "cert_ok e" using cert.run_inv assms(3) by simp
  have "e = run_ops certificate_next (ps @ qs) c" using assms(2,3) by (simp add: run_ops_append)
  moreover have "cert_ok c" "c_emitted c = []"
    using cert_ok_New assms(1) by (auto simp: Certificate_New_def)
  ultimately have "distinct (map ev_eventID (c_emitted e))"
    using cert.run_ids_distinct by simp
  then show ?thesis
    using cert_signatures.run_prefix [OF d, of qs] cert_okD(6) [OF e] assms(3)
    by (auto simp: list_all_iff sealed_signature_def)
qed

lemma certificate_signatures_sealed_witness:
  "distinct (map ev_eventID (c_emitted (run_ops certificate_next demo_certificate_ops demo_certificate)))"
  using certificate_signatures_sealed [OF demo_certificate_New refl refl, of demo_certificate_ops "[]"]
  by simp

end
