(* ===== verification/Work_Order.thy ===== *)
theory Work_Order
  imports Contracts
begin

text \<open>
  Work orders, their scope, assignments and execution machine
  (\<open>internal/domain/workorder/workorder.go\<close>), and the close-out of an inspector's scope and the
  commercial release (\<open>internal/domain/workorder/closeout.go\<close>).

  The error values are the sentinels of the package: \<open>fmt.Errorf("%w: ...")\<close> wraps one of them, and
  its text is left out. Floating-point addition is the argument \<open>fadd\<close> of the one function that
  adds hours.
\<close>

datatype RequestState =
    RequestDraft | RequestRequested | RequestAccepted | RequestCancelled | RequestOther string

datatype ExecutionState =
    ExecutionReady | ExecutionAssigned | ExecutionInProgress | ExecutionSuspended
  | ExecutionPartiallySubmitted | ExecutionAwaitingClient | ExecutionAwaitingReview
  | ExecutionCompleted | ExecutionOther string

datatype CommercialState =
    CommercialNotReady | CommercialReadyForOfficeReview | CommercialReleasedForInvoice
  | CommercialInvoiced | CommercialClosed | CommercialOther string

datatype CertificateState =
    CertificateNotStarted | CertificatePendingValidation | CertificatePartiallyIssued
  | CertificateIssued | CertificateNeedsCorrection | CertificateRevoked | CertificateOther string

datatype AssignmentState =
    AssignmentActive | AssignmentTransferred | AssignmentCompleted | AssignmentRevoked
  | AssignmentOther string

datatype RecordKind =
    RecordClient | RecordWorkOrder | RecordLocation | RecordAsset | RecordInspection
  | RecordKindOther string

datatype workorder_error =
    ErrInvalidIdentity
  | ErrInvalidTransition
  | ErrInvalidScope
  | ErrInvalidAssignment
  | ErrInvalidOperation
  | ErrProvisionalConflict
  | ErrInvalidEvidence
  | ErrCalibrationExpired
  | ErrAssignmentNotActive
  | ErrAssignmentMismatch
  | ErrInspectorMismatch
  | ErrWorkOrderNotCompleted
  | ErrCommercialNotReady
  | ErrUnauthorizedBillingRole
  | ErrInvalidHandover

record WorkOrder =
  wo_ID :: string
  wo_JobNumber :: string
  wo_TenantID :: string
  wo_OrganizationID :: string
  wo_ClientID :: string
  wo_RequestState :: RequestState
  wo_ExecutionState :: ExecutionState
  wo_CommercialState :: CommercialState
  wo_CertificateState :: CertificateState
  wo_Revision :: int64

definition WorkOrder_ValidateIdentity :: "WorkOrder \<Rightarrow> workorder_error option" where
  "WorkOrder_ValidateIdentity w =
     (if list_ex blank [wo_ID w, wo_JobNumber w, wo_TenantID w, wo_OrganizationID w, wo_ClientID w]
        then Some ErrInvalidIdentity
      else if wo_Revision w < 1 then Some ErrInvalidIdentity
      else None)"

record ScopeItem =
  si_ID :: string
  si_TenantID :: string
  si_OrganizationID :: string
  si_ClientID :: string
  si_LocationID :: string
  si_AssetID :: string
  si_AssetType :: string

definition ScopeItem_ValidateFor :: "ScopeItem \<Rightarrow> WorkOrder \<Rightarrow> workorder_error option" where
  "ScopeItem_ValidateFor s w =
     (if blank (si_ID s) \<or> blank (si_TenantID s) \<or> blank (si_ClientID s) then Some ErrInvalidScope
      else if si_TenantID s \<noteq> wo_TenantID w \<or> si_OrganizationID s \<noteq> wo_OrganizationID w \<or>
              si_ClientID s \<noteq> wo_ClientID w then Some ErrInvalidScope
      else if blank (si_LocationID s) \<or> blank (si_AssetID s) \<or> blank (si_AssetType s)
        then Some ErrInvalidScope
      else None)"

record Assignment =
  as_ID :: string
  as_TenantID :: string
  as_OrganizationID :: string
  as_WorkOrderID :: string
  as_InspectorID :: string
  as_ScopeItemIDs :: "string list"
  as_State :: AssignmentState
  as_Revision :: int64
  as_EffectiveFrom :: gotime
  as_EffectiveUntil :: "gotime option"

definition Assignment_ValidateFor :: "Assignment \<Rightarrow> WorkOrder \<Rightarrow> workorder_error option" where
  "Assignment_ValidateFor a w =
     (if blank (as_ID a) \<or> blank (as_TenantID a) \<or> blank (as_WorkOrderID a) \<or> blank (as_InspectorID a)
        then Some ErrInvalidAssignment
      else if as_TenantID a \<noteq> wo_TenantID w \<or> as_OrganizationID a \<noteq> wo_OrganizationID w \<or>
              as_WorkOrderID a \<noteq> wo_ID w then Some ErrInvalidAssignment
      else if length (as_ScopeItemIDs a) = 0 then Some ErrInvalidAssignment
      else if as_Revision a < 1 \<or> time_IsZero (as_EffectiveFrom a) then Some ErrInvalidAssignment
      else None)"

record OperationMeta =
  om_OperationID :: string
  om_IdempotencyKey :: string
  om_ExpectedRevision :: int64

definition OperationMeta_Validate :: "OperationMeta \<Rightarrow> workorder_error option" where
  "OperationMeta_Validate m =
     (if blank (om_OperationID m) \<or> blank (om_IdempotencyKey m) \<or> om_ExpectedRevision m < 1
        then Some ErrInvalidOperation else None)"

record ProvisionalRecord =
  pr_LocalID :: string
  pr_Kind :: RecordKind
  pr_TenantID :: string
  pr_OrganizationID :: string
  pr_WorkOrderID :: string
  pr_ClientID :: string
  pr_CanonicalID :: string
  pr_ReconcileState :: string

definition ReconcilePending :: string where "ReconcilePending = ''pending''"
definition ReconcileMatched :: string where "ReconcileMatched = ''matched''"
definition ReconcileCreated :: string where "ReconcileCreated = ''created''"
definition ReconcileConflict :: string where "ReconcileConflict = ''conflict''"
definition ReconcileRejected :: string where "ReconcileRejected = ''rejected''"

definition ValidateProvisionalFingerprint :: "string \<Rightarrow> string \<Rightarrow> workorder_error option" where
  "ValidateProvisionalFingerprint existing incoming =
     (if blank existing \<or> blank incoming then Some ErrInvalidIdentity
      else if existing \<noteq> incoming then Some ErrProvisionalConflict
      else None)"

definition ProvisionalRecord_Validate :: "ProvisionalRecord \<Rightarrow> workorder_error option" where
  "ProvisionalRecord_Validate p =
     (if blank (pr_LocalID p) \<or> blank (pr_TenantID p) \<or> blank (pr_OrganizationID p) \<or>
         pr_Kind p = RecordKindOther '''' then Some ErrInvalidIdentity
      else if pr_CanonicalID p \<noteq> [] \<and> pr_ReconcileState p = ReconcilePending
        then Some ErrInvalidIdentity
      else None)"

text \<open>The table of allowed execution changes; a state keeps itself.\<close>

definition execution_allowed :: "(ExecutionState \<times> ExecutionState list) list" where
  "execution_allowed =
     [(ExecutionReady, [ExecutionAssigned]),
      (ExecutionAssigned, [ExecutionInProgress]),
      (ExecutionInProgress, [ExecutionSuspended, ExecutionPartiallySubmitted, ExecutionAwaitingClient,
                             ExecutionAwaitingReview, ExecutionCompleted]),
      (ExecutionSuspended, [ExecutionInProgress, ExecutionCompleted]),
      (ExecutionPartiallySubmitted, [ExecutionInProgress, ExecutionAwaitingReview, ExecutionCompleted]),
      (ExecutionAwaitingClient, [ExecutionInProgress, ExecutionCompleted]),
      (ExecutionAwaitingReview, [ExecutionInProgress, ExecutionCompleted])]"

definition CanTransition :: "ExecutionState \<Rightarrow> ExecutionState \<Rightarrow> bool" where
  "CanTransition s t \<longleftrightarrow> s = t \<or>
     (case map_of execution_allowed s of None \<Rightarrow> False | Some ts \<Rightarrow> t \<in> set ts)"

record EvidenceReference =
  er_ID :: string
  er_TenantID :: string
  er_OrganizationID :: string
  er_WorkOrderID :: string
  er_ContentHash :: string
  er_ReferenceURL :: string
  er_CreatedBy :: string

definition is_hex_char :: "char \<Rightarrow> bool" where
  "is_hex_char c \<longleftrightarrow> hex_val c \<noteq> None"

definition EvidenceReference_Validate :: "EvidenceReference \<Rightarrow> workorder_error option" where
  "EvidenceReference_Validate e =
     (if blank (er_ID e) \<or> blank (er_TenantID e) \<or> blank (er_OrganizationID e) \<or> blank (er_WorkOrderID e)
        then Some ErrInvalidEvidence
      else if blank (er_ContentHash e) \<or> length (er_ContentHash e) \<noteq> 64 then Some ErrInvalidEvidence
      else if \<not> list_all is_hex_char (er_ContentHash e) then Some ErrInvalidEvidence
      else
        (let trimmedURL = TrimSpace (er_ReferenceURL e) in
         if trimmedURL = [] \<or> length trimmedURL > 2048 then Some ErrInvalidEvidence
         else if \<not> (prefix ''https://'' trimmedURL \<or> prefix ''http://'' trimmedURL)
           then Some ErrInvalidEvidence
         else if CHR '' '' \<in> set trimmedURL then Some ErrInvalidEvidence
         else None))"

definition EvidenceReference_ValidateFor ::
    "EvidenceReference \<Rightarrow> WorkOrder \<Rightarrow> workorder_error option" where
  "EvidenceReference_ValidateFor e order =
     (case EvidenceReference_Validate e of
        Some err \<Rightarrow> Some err
      | None \<Rightarrow>
          if er_TenantID e \<noteq> wo_TenantID order \<or> er_OrganizationID e \<noteq> wo_OrganizationID order \<or>
             er_WorkOrderID e \<noteq> wo_ID order then Some ErrInvalidEvidence
          else None)"

subsection \<open>Close-out\<close>

record InspectorScopeSummary =
  ss_SummaryID :: string
  ss_AssignmentID :: string
  ss_WorkOrderID :: string
  ss_InspectorID :: string
  ss_ScopeItemIDs :: "string list"
  ss_CompletedCount :: int64
  ss_BlockedCount :: int64
  ss_TimesheetHours :: float64
  ss_TravelHours :: float64
  ss_Notes :: string
  ss_ClosedAt :: gotime

record CombinedCompletionReport =
  cr_WorkOrderID :: string
  cr_JobNumber :: string
  cr_AllAssignmentsCompleted :: bool
  cr_TotalScopeCount :: int64
  cr_CompletedScopeCount :: int64
  cr_BlockedScopeCount :: int64
  cr_TotalBillableHours :: float64
  cr_Summaries :: "InspectorScopeSummary list"
  cr_CompiledAt :: gotime

record InvoiceDraft =
  inv_InvoiceID :: string
  inv_WorkOrderID :: string
  inv_ClientID :: string
  inv_JobNumber :: string
  inv_TotalBillableHours :: float64
  inv_Status :: string
  inv_ReleasedBy :: string
  inv_ReleasedAt :: gotime

fun allResolved :: "string \<Rightarrow> Assignment list \<Rightarrow> bool" where
  "allResolved target [] = True"
| "allResolved target (a # rest) =
     (if as_ID a = target then allResolved target rest
      else if as_State a = AssignmentActive then False
      else allResolved target rest)"

definition CloseInspectorScope ::
    "WorkOrder \<Rightarrow> Assignment \<Rightarrow> InspectorScopeSummary \<Rightarrow> Assignment list \<Rightarrow> gotime \<Rightarrow>
     workorder_error + WorkOrder \<times> Assignment" where
  "CloseInspectorScope wo targetAssignment summary allAssignments now =
     (case WorkOrder_ValidateIdentity wo of
        Some e \<Rightarrow> Inl e
      | None \<Rightarrow>
          if as_WorkOrderID targetAssignment \<noteq> wo_ID wo \<or> as_TenantID targetAssignment \<noteq> wo_TenantID wo
            then Inl ErrAssignmentMismatch
          else if as_State targetAssignment \<noteq> AssignmentActive then Inl ErrAssignmentNotActive
          else if ss_InspectorID summary \<noteq> as_InspectorID targetAssignment
            then Inl ErrInspectorMismatch
          else
            (let closedAssignment = targetAssignment\<lparr>as_State := AssignmentCompleted,
                   as_Revision := wrap64 (as_Revision targetAssignment + 1),
                   as_EffectiveUntil := Some now\<rparr>;
                 updatedWO = wo\<lparr>wo_Revision := wrap64 (wo_Revision wo + 1)\<rparr>;
                 updatedWO =
                   (if allResolved (as_ID targetAssignment) allAssignments
                    then updatedWO\<lparr>wo_ExecutionState := ExecutionCompleted,
                                   wo_CommercialState := CommercialReadyForOfficeReview\<rparr>
                    else if wo_ExecutionState updatedWO = ExecutionReady \<or>
                            wo_ExecutionState updatedWO = ExecutionAssigned
                    then updatedWO\<lparr>wo_ExecutionState := ExecutionInProgress\<rparr>
                    else updatedWO\<lparr>wo_ExecutionState := ExecutionPartiallySubmitted\<rparr>)
             in Inr (updatedWO, closedAssignment)))"

fun report_totals ::
    "(float64 \<Rightarrow> float64 \<Rightarrow> float64) \<Rightarrow> int64 \<times> int64 \<times> int64 \<times> float64 \<Rightarrow>
     InspectorScopeSummary list \<Rightarrow> int64 \<times> int64 \<times> int64 \<times> float64" where
  "report_totals fadd acc [] = acc"
| "report_totals fadd (scope, completed, blocked, hours) (s # rest) =
     report_totals fadd
       (wrap64 (scope + int (length (ss_ScopeItemIDs s))), wrap64 (completed + ss_CompletedCount s),
        wrap64 (blocked + ss_BlockedCount s),
        fadd hours (fadd (ss_TimesheetHours s) (ss_TravelHours s))) rest"

definition CompileCombinedReport ::
    "(float64 \<Rightarrow> float64 \<Rightarrow> float64) \<Rightarrow> WorkOrder \<Rightarrow> InspectorScopeSummary list \<Rightarrow> gotime \<Rightarrow>
     CombinedCompletionReport" where
  "CompileCombinedReport fadd wo summaries now =
     (let (totalScope, completedScope, blockedScope, totalHours) =
            report_totals fadd (0, 0, 0, 0) summaries
      in \<lparr>cr_WorkOrderID = wo_ID wo, cr_JobNumber = wo_JobNumber wo,
          cr_AllAssignmentsCompleted = (wo_ExecutionState wo = ExecutionCompleted),
          cr_TotalScopeCount = totalScope, cr_CompletedScopeCount = completedScope,
          cr_BlockedScopeCount = blockedScope, cr_TotalBillableHours = totalHours,
          cr_Summaries = summaries, cr_CompiledAt = now\<rparr>)"

definition ReleaseCommercialForInvoice ::
    "WorkOrder \<Rightarrow> CombinedCompletionReport \<Rightarrow> string \<Rightarrow> gotime \<Rightarrow>
     workorder_error + WorkOrder \<times> InvoiceDraft" where
  "ReleaseCommercialForInvoice wo report authorizedActorID now =
     (if blank authorizedActorID then Inl ErrUnauthorizedBillingRole
      else if wo_ExecutionState wo \<noteq> ExecutionCompleted then Inl ErrWorkOrderNotCompleted
      else if wo_CommercialState wo \<noteq> CommercialReadyForOfficeReview then Inl ErrCommercialNotReady
      else if cr_WorkOrderID report \<noteq> wo_ID wo then Inl ErrAssignmentMismatch
      else Inr
        (wo\<lparr>wo_CommercialState := CommercialReleasedForInvoice,
            wo_Revision := wrap64 (wo_Revision wo + 1)\<rparr>,
         \<lparr>inv_InvoiceID = ''INV-'' @ wo_JobNumber wo @ ''-'' @ show_int (time_Unix now),
          inv_WorkOrderID = wo_ID wo, inv_ClientID = wo_ClientID wo,
          inv_JobNumber = wo_JobNumber wo,
          inv_TotalBillableHours = cr_TotalBillableHours report, inv_Status = ''DRAFT'',
          inv_ReleasedBy = authorizedActorID, inv_ReleasedAt = now\<rparr>))"

subsection \<open>The execution machine\<close>

fun execution_phase :: "ExecutionState \<Rightarrow> nat" where
  "execution_phase ExecutionReady = 0"
| "execution_phase ExecutionAssigned = 1"
| "execution_phase ExecutionCompleted = 3"
| "execution_phase _ = 2"

lemma CanTransition_phase: "CanTransition s t \<Longrightarrow> execution_phase s \<le> execution_phase t"
  by (cases s; auto simp: CanTransition_def execution_allowed_def split: if_splits)

lemma CanTransition_from:
  "CanTransition ExecutionReady t \<longleftrightarrow> t = ExecutionReady \<or> t = ExecutionAssigned"
  "CanTransition ExecutionAssigned t \<longleftrightarrow> t = ExecutionAssigned \<or> t = ExecutionInProgress"
  "CanTransition ExecutionCompleted t \<longleftrightarrow> t = ExecutionCompleted"
  by (auto simp: CanTransition_def execution_allowed_def)

interpretation wo_exec: graded CanTransition execution_phase
  by unfold_locales (rule CanTransition_phase)

lemma execution_passes_assigned:
  "follows CanTransition (ExecutionReady # ss) \<Longrightarrow> last (ExecutionReady # ss) = ExecutionCompleted \<Longrightarrow>
     ExecutionAssigned \<in> set ss"
proof (induction ss)
  case Nil
  then show ?case by simp
next
  case (Cons t ss)
  then show ?case by (cases "t = ExecutionReady") (auto simp: CanTransition_from)
qed

lemma execution_passes_progress:
  "follows CanTransition (ExecutionAssigned # ss) \<Longrightarrow> last (ExecutionAssigned # ss) = ExecutionCompleted \<Longrightarrow>
     ExecutionInProgress \<in> set ss"
proof (induction ss)
  case Nil
  then show ?case by simp
next
  case (Cons t ss)
  then show ?case by (cases "t = ExecutionAssigned") (auto simp: CanTransition_from)
qed

lemma follows_append_tail: "follows can (xs @ ys) \<Longrightarrow> follows can ys"
proof (induction xs)
  case Nil
  then show ?case by simp
next
  case (Cons x xs)
  then show ?case by (cases "xs @ ys") auto
qed

subsection \<open>Close-out\<close>

lemma allResolved_iff:
  "allResolved target as \<longleftrightarrow> (\<forall>a \<in> set as. as_ID a \<noteq> target \<longrightarrow> as_State a \<noteq> AssignmentActive)"
  by (induction as) auto

lemma CloseInspectorScope_Inr:
  assumes "CloseInspectorScope wo a s all now = Inr (wo', a')"
  shows "as_State a = AssignmentActive"
    "a' = a\<lparr>as_State := AssignmentCompleted, as_Revision := wrap64 (as_Revision a + 1),
             as_EffectiveUntil := Some now\<rparr>"
    "wo_ExecutionState wo' = ExecutionCompleted \<longleftrightarrow> allResolved (as_ID a) all"
    "allResolved (as_ID a) all \<Longrightarrow> wo_CommercialState wo' = CommercialReadyForOfficeReview"
    "\<not> allResolved (as_ID a) all \<Longrightarrow> wo_CommercialState wo' = wo_CommercialState wo"
    "wo_CertificateState wo' = wo_CertificateState wo"
    "wo_RequestState wo' = wo_RequestState wo"
    "wo_ID wo' = wo_ID wo"
    "wo_Revision wo' = wrap64 (wo_Revision wo + 1)"
  using assms by (auto simp: CloseInspectorScope_def Let_def split: if_splits)

subsection \<open>Properties\<close>

text \<open>The execution machine moves in phases. A completed order changes no more; an order that
  was assigned is never ready again; and no history of allowed changes leads from ready to completed
  without passing through assigned and then in progress.\<close>

theorem execution_passes_all_phases:
  "(CanTransition\<^sup>*\<^sup>* ExecutionCompleted t \<longrightarrow> t = ExecutionCompleted) \<and>
   (CanTransition\<^sup>*\<^sup>* ExecutionAssigned t \<longrightarrow> t \<noteq> ExecutionReady) \<and>
   (follows CanTransition (ExecutionReady # ss) \<and> last (ExecutionReady # ss) = ExecutionCompleted \<longrightarrow>
      (\<exists>ps qs. ss = ps @ ExecutionAssigned # qs \<and> ExecutionInProgress \<in> set qs))"
proof (intro conjI impI)
  show "t = ExecutionCompleted" if "CanTransition\<^sup>*\<^sup>* ExecutionCompleted t"
    using that by (induction rule: rtranclp_induct) (simp_all add: CanTransition_from)
  show "t \<noteq> ExecutionReady" if "CanTransition\<^sup>*\<^sup>* ExecutionAssigned t"
    using wo_exec.reach_not_down [OF that] by auto
next
  assume *: "follows CanTransition (ExecutionReady # ss) \<and> last (ExecutionReady # ss) = ExecutionCompleted"
  then obtain ps qs where ss: "ss = ps @ ExecutionAssigned # qs"
    using execution_passes_assigned by (metis split_list)
  have "follows CanTransition (ExecutionAssigned # qs)"
    using * follows_append_tail [of CanTransition "ExecutionReady # ps"] ss by simp
  moreover have "last (ExecutionAssigned # qs) = ExecutionCompleted" using * ss by simp
  ultimately show "\<exists>ps qs. ss = ps @ ExecutionAssigned # qs \<and> ExecutionInProgress \<in> set qs"
    using execution_passes_progress ss by blast
qed

lemma execution_passes_all_phases_witness:
  "\<exists>ps qs. [ExecutionAssigned, ExecutionInProgress, ExecutionCompleted] = ps @ ExecutionAssigned # qs \<and>
     ExecutionInProgress \<in> set qs"
  using execution_passes_all_phases [of ExecutionCompleted "[ExecutionAssigned, ExecutionInProgress,
      ExecutionCompleted]"]
  by (simp add: CanTransition_def execution_allowed_def)

text \<open>Closing one inspector's scope. When the assignment list holds the one that is closed, then
  after the close the order is completed, and ready for the office, exactly when no assignment of
  the updated list is active any more; the certificate state is not touched; the revision grows by
  one; and the closed assignment cannot be closed again.\<close>

theorem CloseInspectorScope_completes:
  assumes "CloseInspectorScope wo a s all now = Inr (wo', a')"
    and "all' = map (\<lambda>b. if as_ID b = as_ID a then a' else b) all"
  shows "(wo_ExecutionState wo' = ExecutionCompleted \<longleftrightarrow> (\<forall>b \<in> set all'. as_State b \<noteq> AssignmentActive)) \<and>
    (wo_ExecutionState wo' = ExecutionCompleted \<longrightarrow> wo_CommercialState wo' = CommercialReadyForOfficeReview) \<and>
    wo_CertificateState wo' = wo_CertificateState wo \<and> wo_Revision wo' = wrap64 (wo_Revision wo + 1) \<and>
    (\<exists>e. CloseInspectorScope wo'' a' s'' all'' now'' = Inl e)"
proof -
  note close = CloseInspectorScope_Inr [OF assms(1)]
  have "allResolved (as_ID a) all \<longleftrightarrow> (\<forall>b \<in> set all'. as_State b \<noteq> AssignmentActive)"
    using assms(2) close(2) by (auto simp: allResolved_iff)
  moreover have "\<exists>e. CloseInspectorScope wo'' a' s'' all'' now'' = Inl e"
    using close(2) by (cases "CloseInspectorScope wo'' a' s'' all'' now''")
      (auto dest: CloseInspectorScope_Inr(1))
  ultimately show ?thesis using close by auto
qed

definition demo_order :: WorkOrder where
  "demo_order = \<lparr>wo_ID = ''w1'', wo_JobNumber = ''j'', wo_TenantID = ''t'', wo_OrganizationID = ''o'',
     wo_ClientID = ''c'', wo_RequestState = RequestAccepted, wo_ExecutionState = ExecutionInProgress,
     wo_CommercialState = CommercialNotReady, wo_CertificateState = CertificateNotStarted,
     wo_Revision = 1\<rparr>"

definition demo_assignment :: Assignment where
  "demo_assignment = \<lparr>as_ID = ''a1'', as_TenantID = ''t'', as_OrganizationID = ''o'',
     as_WorkOrderID = ''w1'', as_InspectorID = ''ins'', as_ScopeItemIDs = [''s''],
     as_State = AssignmentActive, as_Revision = 1, as_EffectiveFrom = 5, as_EffectiveUntil = None\<rparr>"

definition demo_summary :: InspectorScopeSummary where
  "demo_summary = \<lparr>ss_SummaryID = ''x'', ss_AssignmentID = ''a1'', ss_WorkOrderID = ''w1'',
     ss_InspectorID = ''ins'', ss_ScopeItemIDs = [''s''], ss_CompletedCount = 1, ss_BlockedCount = 0,
     ss_TimesheetHours = 0, ss_TravelHours = 0, ss_Notes = [], ss_ClosedAt = 6\<rparr>"

lemma demo_close:
  "\<exists>wo' a'. CloseInspectorScope demo_order demo_assignment demo_summary [demo_assignment] 7 = Inr (wo', a')"
  by (simp add: CloseInspectorScope_def WorkOrder_ValidateIdentity_def demo_order_def
      demo_assignment_def demo_summary_def)

lemma CloseInspectorScope_completes_witness:
  "\<exists>wo' a'. CloseInspectorScope demo_order demo_assignment demo_summary [demo_assignment] 7 = Inr (wo', a') \<and>
     wo_CertificateState wo' = CertificateNotStarted"
proof -
  obtain wo' a' where r: "CloseInspectorScope demo_order demo_assignment demo_summary [demo_assignment] 7
      = Inr (wo', a')"
    using demo_close by blast
  have "wo_CertificateState wo' = wo_CertificateState demo_order"
    using CloseInspectorScope_completes [OF r refl, THEN conjunct2, THEN conjunct2, THEN conjunct1] .
  with r show ?thesis by (auto simp: demo_order_def)
qed

text \<open>The commercial release. It needs a completed order that awaits the office, changes nothing
  but the commercial state and the revision - no execution or certificate state -, and can happen
  only once: the order it returns cannot be released again.\<close>

theorem ReleaseCommercial_isolated:
  assumes "ReleaseCommercialForInvoice wo report actor now = Inr (wo', draft)"
  shows "wo_ExecutionState wo = ExecutionCompleted \<and>
    wo' = wo\<lparr>wo_CommercialState := CommercialReleasedForInvoice, wo_Revision := wrap64 (wo_Revision wo + 1)\<rparr> \<and>
    inv_WorkOrderID draft = wo_ID wo \<and> inv_ReleasedBy draft = actor \<and> \<not> blank actor \<and>
    inv_TotalBillableHours draft = cr_TotalBillableHours report \<and>
    (\<exists>e. ReleaseCommercialForInvoice wo' report' actor' now' = Inl e)"
  using assms by (auto simp: ReleaseCommercialForInvoice_def)

definition demo_report :: CombinedCompletionReport where
  "demo_report = CompileCombinedReport (\<lambda>x y. x) (demo_order\<lparr>wo_ExecutionState := ExecutionCompleted\<rparr>) [] 8"

lemma ReleaseCommercial_isolated_witness:
  "\<exists>wo' draft. ReleaseCommercialForInvoice (demo_order\<lparr>wo_ExecutionState := ExecutionCompleted,
       wo_CommercialState := CommercialReadyForOfficeReview\<rparr>) demo_report ''off'' 9 = Inr (wo', draft) \<and>
     inv_ReleasedBy draft = ''off''"
proof -
  let ?r = "ReleaseCommercialForInvoice (demo_order\<lparr>wo_ExecutionState := ExecutionCompleted,
       wo_CommercialState := CommercialReadyForOfficeReview\<rparr>) demo_report ''off'' 9"
  obtain wo' draft where r: "?r = Inr (wo', draft)"
    by (auto simp: ReleaseCommercialForInvoice_def demo_report_def CompileCombinedReport_def demo_order_def)
  with ReleaseCommercial_isolated [OF r] show ?thesis by blast
qed

text \<open>The close-out stands outside the machine and the billing order. From an order that awaits
  review with another inspector still active it leads to \<open>partially_submitted\<close>, which the machine
  forbids; and from an order already released or invoiced the last close leads back to awaiting the
  office, so that a second invoice draft can be released for it.\<close>

theorem CloseInspectorScope_reopens:
  assumes "CloseInspectorScope wo a s all now = Inr (wo', a')"
  shows "(wo_ExecutionState wo = ExecutionAwaitingReview \<and> \<not> allResolved (as_ID a) all \<longrightarrow>
      \<not> CanTransition (wo_ExecutionState wo) (wo_ExecutionState wo')) \<and>
    (allResolved (as_ID a) all \<and> \<not> blank actor \<longrightarrow>
      (\<exists>wo'' draft. ReleaseCommercialForInvoice wo' (CompileCombinedReport fadd wo' ss t) actor t = Inr (wo'', draft)))"
proof (intro conjI impI)
  assume "wo_ExecutionState wo = ExecutionAwaitingReview \<and> \<not> allResolved (as_ID a) all"
  with assms show "\<not> CanTransition (wo_ExecutionState wo) (wo_ExecutionState wo')"
    by (auto simp: CloseInspectorScope_def Let_def CanTransition_def execution_allowed_def)
next
  assume "allResolved (as_ID a) all \<and> \<not> blank actor"
  with CloseInspectorScope_Inr [OF assms]
  show "\<exists>wo'' draft. ReleaseCommercialForInvoice wo' (CompileCombinedReport fadd wo' ss t) actor t = Inr (wo'', draft)"
    by (auto simp: ReleaseCommercialForInvoice_def CompileCombinedReport_def split: prod.splits)
qed

lemma CloseInspectorScope_reopens_witness:
  "\<exists>wo' a' wo'' draft. CloseInspectorScope (demo_order\<lparr>wo_CommercialState := CommercialInvoiced\<rparr>)
       demo_assignment demo_summary [demo_assignment] 7 = Inr (wo', a') \<and>
     ReleaseCommercialForInvoice wo' (CompileCombinedReport (\<lambda>x y. x) wo' [] 9) ''off'' 9 = Inr (wo'', draft)"
proof -
  let ?r = "CloseInspectorScope (demo_order\<lparr>wo_CommercialState := CommercialInvoiced\<rparr>)
       demo_assignment demo_summary [demo_assignment] 7"
  obtain wo' a' where r: "?r = Inr (wo', a')"
    by (auto simp: CloseInspectorScope_def WorkOrder_ValidateIdentity_def demo_order_def
      demo_assignment_def demo_summary_def)
  have "allResolved (as_ID demo_assignment) [demo_assignment] \<and> \<not> blank ''off''" by simp
  with CloseInspectorScope_reopens [OF r] r show ?thesis by blast
qed

end
