(* ===== verification/Work_Order_Service.thy ===== *)
theory Work_Order_Service
  imports Work_Order
begin

text \<open>
  The application boundary of work orders: actors, commands and their validation
  (\<open>internal/domain/workorder/service_contract.go\<close>), handovers (\<open>handover.go\<close>), the role and
  capability check (\<open>internal/workorderauth/authorizer.go\<close>), and the application service that puts
  validation, authorization and the replay of receipts in front of a repository
  (\<open>application_service.go\<close>, with the interfaces of \<open>repository_contract.go\<close>).

  A repository call acts on a state \<open>'w\<close>. Contexts carry nothing the code reads and are left out.
\<close>

record ActorContext =
  ac_TenantID :: string
  ac_OrganizationID :: string
  ac_ActorID :: string
  ac_Role :: string
  ac_Capabilities :: "string list"

definition ActorContext_Validate :: "ActorContext \<Rightarrow> workorder_error option" where
  "ActorContext_Validate a =
     (if ac_TenantID a = '''' \<or> ac_OrganizationID a = '''' \<or> ac_ActorID a = '''' \<or> ac_Role a = ''''
        then Some ErrInvalidIdentity else None)"

record CreateRequestCommand =
  cmd_Actor :: ActorContext
  cmd_Operation :: OperationMeta
  cmd_WorkOrder :: WorkOrder

record AssignScopeCommand =
  asc_Actor :: ActorContext
  asc_Operation :: OperationMeta
  asc_WorkOrderID :: string
  asc_Assignment :: Assignment

record TransitionExecutionCommand =
  tec_Actor :: ActorContext
  tec_Operation :: OperationMeta
  tec_WorkOrderID :: string
  tec_From :: ExecutionState
  tec_To :: ExecutionState

record SubmitPartialCommand =
  spc_Actor :: ActorContext
  spc_Operation :: OperationMeta
  spc_WorkOrderID :: string
  spc_AssignmentID :: string
  spc_InspectionIDs :: "string list"
  spc_EquipmentIDs :: "string list"

record ReassignScopeCommand =
  rsc_Actor :: ActorContext
  rsc_Operation :: OperationMeta
  rsc_WorkOrderID :: string
  rsc_Previous :: Assignment
  rsc_Replacement :: Assignment
  rsc_ScopeItemIDs :: "string list"

record ReconcileProvisionalCommand =
  rpc_Actor :: ActorContext
  rpc_Operation :: OperationMeta
  rpc_Record :: ProvisionalRecord
  rpc_Outcome :: string
  rpc_CanonicalID :: string

record RequestCertificateValidationCommand =
  rcv_Actor :: ActorContext
  rcv_Operation :: OperationMeta
  rcv_WorkOrderID :: string
  rcv_InspectionIDs :: "string list"

record AddEvidenceReferenceCommand =
  aec_Actor :: ActorContext
  aec_Operation :: OperationMeta
  aec_Evidence :: EvidenceReference

record MutationReceipt =
  mr_OperationID :: string
  mr_IdempotencyKey :: string
  mr_TenantID :: string
  mr_WorkOrderID :: string
  mr_Revision :: int64
  mr_Status :: string

definition ReceiptAccepted :: string where "ReceiptAccepted = ''accepted''"

text \<open>The eight commands of the \<open>Service\<close> and \<open>Repository\<close> interfaces, as one type.\<close>

datatype wo_command =
    CreateRequest CreateRequestCommand
  | AssignScope AssignScopeCommand
  | TransitionExecution TransitionExecutionCommand
  | SubmitPartial SubmitPartialCommand
  | ReassignScope ReassignScopeCommand
  | ReconcileProvisional ReconcileProvisionalCommand
  | RequestCertificateValidation RequestCertificateValidationCommand
  | AddEvidenceReference AddEvidenceReferenceCommand

fun command_actor :: "wo_command \<Rightarrow> ActorContext" where
  "command_actor (CreateRequest c) = cmd_Actor c"
| "command_actor (AssignScope c) = asc_Actor c"
| "command_actor (TransitionExecution c) = tec_Actor c"
| "command_actor (SubmitPartial c) = spc_Actor c"
| "command_actor (ReassignScope c) = rsc_Actor c"
| "command_actor (ReconcileProvisional c) = rpc_Actor c"
| "command_actor (RequestCertificateValidation c) = rcv_Actor c"
| "command_actor (AddEvidenceReference c) = aec_Actor c"

fun command_operation :: "wo_command \<Rightarrow> OperationMeta" where
  "command_operation (CreateRequest c) = cmd_Operation c"
| "command_operation (AssignScope c) = asc_Operation c"
| "command_operation (TransitionExecution c) = tec_Operation c"
| "command_operation (SubmitPartial c) = spc_Operation c"
| "command_operation (ReassignScope c) = rsc_Operation c"
| "command_operation (ReconcileProvisional c) = rpc_Operation c"
| "command_operation (RequestCertificateValidation c) = rcv_Operation c"
| "command_operation (AddEvidenceReference c) = aec_Operation c"

subsection \<open>Validation\<close>

definition validateActorOperation :: "ActorContext \<Rightarrow> OperationMeta \<Rightarrow> workorder_error option" where
  "validateActorOperation actor operation =
     (case ActorContext_Validate actor of Some e \<Rightarrow> Some e | None \<Rightarrow> OperationMeta_Validate operation)"

definition ValidateCreateRequestCommand :: "CreateRequestCommand \<Rightarrow> workorder_error option" where
  "ValidateCreateRequestCommand c =
     (case validateActorOperation (cmd_Actor c) (cmd_Operation c) of
        Some e \<Rightarrow> Some e
      | None \<Rightarrow>
          if ac_TenantID (cmd_Actor c) \<noteq> wo_TenantID (cmd_WorkOrder c) \<or>
             ac_OrganizationID (cmd_Actor c) \<noteq> wo_OrganizationID (cmd_WorkOrder c)
            then Some ErrInvalidIdentity
          else WorkOrder_ValidateIdentity (cmd_WorkOrder c))"

text \<open>The command is in the actor's tenant and organization and names this order.\<close>

definition out_of_scope :: "ActorContext \<Rightarrow> string \<Rightarrow> WorkOrder \<Rightarrow> bool" where
  "out_of_scope actor workOrderID order \<longleftrightarrow>
     ac_TenantID actor \<noteq> wo_TenantID order \<or> ac_OrganizationID actor \<noteq> wo_OrganizationID order \<or>
     workOrderID \<noteq> wo_ID order"

definition ValidateAssignScopeCommand ::
    "AssignScopeCommand \<Rightarrow> WorkOrder \<Rightarrow> workorder_error option" where
  "ValidateAssignScopeCommand c order =
     (case validateActorOperation (asc_Actor c) (asc_Operation c) of
        Some e \<Rightarrow> Some e
      | None \<Rightarrow>
          if out_of_scope (asc_Actor c) (asc_WorkOrderID c) order then Some ErrInvalidAssignment
          else if wo_ExecutionState order \<noteq> ExecutionReady then Some ErrInvalidTransition
          else Assignment_ValidateFor (asc_Assignment c) order)"

definition ValidateTransitionExecutionCommand ::
    "TransitionExecutionCommand \<Rightarrow> WorkOrder \<Rightarrow> workorder_error option" where
  "ValidateTransitionExecutionCommand c order =
     (case validateActorOperation (tec_Actor c) (tec_Operation c) of
        Some e \<Rightarrow> Some e
      | None \<Rightarrow>
          if out_of_scope (tec_Actor c) (tec_WorkOrderID c) order \<or>
             tec_From c \<noteq> wo_ExecutionState order then Some ErrInvalidTransition
          else if \<not> CanTransition (tec_From c) (tec_To c) then Some ErrInvalidTransition
          else None)"

text \<open>Ids are trimmed, must not be blank and must not repeat; \<open>seen\<close> is the map of the loop.\<close>

fun distinct_trimmed :: "string list \<Rightarrow> string list \<Rightarrow> workorder_error option" where
  "distinct_trimmed seen [] = None"
| "distinct_trimmed seen (ident # rest) =
     (let ident = TrimSpace ident in
      if ident = [] then Some ErrInvalidScope
      else if ident \<in> set seen then Some ErrInvalidScope
      else distinct_trimmed (ident # seen) rest)"

definition ValidateSubmitPartialCommand ::
    "SubmitPartialCommand \<Rightarrow> WorkOrder \<Rightarrow> workorder_error option" where
  "ValidateSubmitPartialCommand c order =
     (case validateActorOperation (spc_Actor c) (spc_Operation c) of
        Some e \<Rightarrow> Some e
      | None \<Rightarrow>
          if out_of_scope (spc_Actor c) (spc_WorkOrderID c) order \<or> spc_AssignmentID c = '''' \<or>
             length (spc_InspectionIDs c) = 0 then Some ErrInvalidScope
          else if \<not> CanTransition (wo_ExecutionState order) ExecutionPartiallySubmitted
            then Some ErrInvalidTransition
          else distinct_trimmed [] (spc_InspectionIDs c))"

definition ValidateReassignScopeCommand ::
    "ReassignScopeCommand \<Rightarrow> WorkOrder \<Rightarrow> workorder_error option" where
  "ValidateReassignScopeCommand c order =
     (case validateActorOperation (rsc_Actor c) (rsc_Operation c) of
        Some e \<Rightarrow> Some e
      | None \<Rightarrow>
          if out_of_scope (rsc_Actor c) (rsc_WorkOrderID c) order \<or> length (rsc_ScopeItemIDs c) = 0
            then Some ErrInvalidAssignment
          else case Assignment_ValidateFor (rsc_Previous c) order of
            Some e \<Rightarrow> Some e
          | None \<Rightarrow>
             (case Assignment_ValidateFor (rsc_Replacement c) order of
                Some e \<Rightarrow> Some e
              | None \<Rightarrow>
                  if length (rsc_ScopeItemIDs c) \<noteq> length (as_ScopeItemIDs (rsc_Replacement c))
                    then Some ErrInvalidAssignment
                  else if \<not> list_all (\<lambda>i. i \<in> set (as_ScopeItemIDs (rsc_Replacement c)))
                             (rsc_ScopeItemIDs c) then Some ErrInvalidAssignment
                  else None))"

definition ValidateReconcileProvisionalCommand ::
    "ReconcileProvisionalCommand \<Rightarrow> workorder_error option" where
  "ValidateReconcileProvisionalCommand c =
     (case validateActorOperation (rpc_Actor c) (rpc_Operation c) of
        Some e \<Rightarrow> Some e
      | None \<Rightarrow>
          if ac_TenantID (rpc_Actor c) \<noteq> pr_TenantID (rpc_Record c) \<or>
             ac_OrganizationID (rpc_Actor c) \<noteq> pr_OrganizationID (rpc_Record c)
            then Some ErrInvalidIdentity
          else case ProvisionalRecord_Validate (rpc_Record c) of
            Some e \<Rightarrow> Some e
          | None \<Rightarrow>
              if rpc_Outcome c \<in> {ReconcileMatched, ReconcileCreated} then
                (if rpc_CanonicalID c = '''' then Some ErrInvalidIdentity else None)
              else if rpc_Outcome c \<in> {ReconcileConflict, ReconcileRejected} then
                (if rpc_CanonicalID c \<noteq> '''' then Some ErrInvalidIdentity else None)
              else Some ErrInvalidIdentity)"

definition ValidateCertificateInspectionState :: "string \<Rightarrow> string \<Rightarrow> workorder_error option" where
  "ValidateCertificateInspectionState lifecycleState finalizationState =
     (if lifecycleState \<noteq> ''COMPLETED'' \<or> finalizationState \<noteq> ''SUBMITTED''
        then Some ErrInvalidScope else None)"

fun distinct_ids :: "string list \<Rightarrow> string list \<Rightarrow> workorder_error option" where
  "distinct_ids seen [] = None"
| "distinct_ids seen (ident # rest) =
     (if ident \<in> set seen then Some ErrInvalidScope else distinct_ids (ident # seen) rest)"

definition ValidateCertificateValidationCommand ::
    "RequestCertificateValidationCommand \<Rightarrow> WorkOrder \<Rightarrow> workorder_error option" where
  "ValidateCertificateValidationCommand c order =
     (case validateActorOperation (rcv_Actor c) (rcv_Operation c) of
        Some e \<Rightarrow> Some e
      | None \<Rightarrow>
          if out_of_scope (rcv_Actor c) (rcv_WorkOrderID c) order \<or> length (rcv_InspectionIDs c) = 0
            then Some ErrInvalidScope
          else distinct_ids [] (rcv_InspectionIDs c))"

definition ValidateAddEvidenceReferenceCommand ::
    "AddEvidenceReferenceCommand \<Rightarrow> WorkOrder \<Rightarrow> workorder_error option" where
  "ValidateAddEvidenceReferenceCommand c order =
     (case validateActorOperation (aec_Actor c) (aec_Operation c) of
        Some e \<Rightarrow> Some e
      | None \<Rightarrow>
          if ac_TenantID (aec_Actor c) \<noteq> wo_TenantID order \<or>
             ac_OrganizationID (aec_Actor c) \<noteq> wo_OrganizationID order then Some ErrInvalidEvidence
          else EvidenceReference_ValidateFor (aec_Evidence c) order)"

subsection \<open>Handover\<close>

datatype HandoverState =
    HandoverRequested | HandoverApproved | HandoverTransferred | HandoverOther string

record Handover =
  ho_ID :: string
  ho_TenantID :: string
  ho_OrganizationID :: string
  ho_WorkOrderID :: string
  ho_FromAssignmentID :: string
  ho_ToAssignmentID :: string
  ho_State :: HandoverState
  ho_Revision :: int64

record HandoverCommand =
  hc_Actor :: ActorContext
  hc_Operation :: OperationMeta
  hc_WorkOrderID :: string
  hc_Handover :: Handover

fun isValidHandoverState :: "HandoverState \<Rightarrow> bool" where
  "isValidHandoverState (HandoverOther s) = False"
| "isValidHandoverState _ = True"

definition CanTransitionHandover :: "HandoverState \<Rightarrow> HandoverState \<Rightarrow> bool" where
  "CanTransitionHandover s t \<longleftrightarrow> s = t \<or>
     (s, t) \<in> {(HandoverRequested, HandoverApproved), (HandoverApproved, HandoverTransferred)}"

definition Handover_ValidateFor ::
    "Handover \<Rightarrow> WorkOrder \<Rightarrow> Assignment \<Rightarrow> Assignment \<Rightarrow> workorder_error option" where
  "Handover_ValidateFor h order fromA toA =
     (if blank (ho_ID h) \<or> blank (ho_TenantID h) \<or> blank (ho_OrganizationID h) \<or> blank (ho_WorkOrderID h)
        then Some ErrInvalidHandover
      else if blank (ho_FromAssignmentID h) \<or> blank (ho_ToAssignmentID h) then Some ErrInvalidHandover
      else if ho_FromAssignmentID h = ho_ToAssignmentID h then Some ErrInvalidHandover
      else if ho_TenantID h \<noteq> wo_TenantID order \<or> ho_OrganizationID h \<noteq> wo_OrganizationID order \<or>
              ho_WorkOrderID h \<noteq> wo_ID order then Some ErrInvalidHandover
      else if \<not> isValidHandoverState (ho_State h) then Some ErrInvalidHandover
      else if ho_Revision h < 1 then Some ErrInvalidHandover
      else if ho_FromAssignmentID h \<noteq> as_ID fromA then Some ErrInvalidHandover
      else if ho_ToAssignmentID h \<noteq> as_ID toA then Some ErrInvalidHandover
      else if Assignment_ValidateFor fromA order \<noteq> None then Some ErrInvalidHandover
      else if Assignment_ValidateFor toA order \<noteq> None then Some ErrInvalidHandover
      else if as_TenantID fromA \<noteq> ho_TenantID h \<or> as_OrganizationID fromA \<noteq> ho_OrganizationID h
        then Some ErrInvalidHandover
      else if as_TenantID toA \<noteq> ho_TenantID h \<or> as_OrganizationID toA \<noteq> ho_OrganizationID h
        then Some ErrInvalidHandover
      else None)"

definition ValidateHandoverCommand ::
    "HandoverCommand \<Rightarrow> WorkOrder \<Rightarrow> Assignment \<Rightarrow> Assignment \<Rightarrow> workorder_error option" where
  "ValidateHandoverCommand c order fromA toA =
     (if validateActorOperation (hc_Actor c) (hc_Operation c) \<noteq> None then Some ErrInvalidHandover
      else if ac_TenantID (hc_Actor c) \<noteq> wo_TenantID order \<or>
              ac_OrganizationID (hc_Actor c) \<noteq> wo_OrganizationID order then Some ErrInvalidHandover
      else if blank (hc_WorkOrderID c) \<or> hc_WorkOrderID c \<noteq> wo_ID order then Some ErrInvalidHandover
      else if TrimSpace (hc_WorkOrderID c) \<noteq> TrimSpace (ho_WorkOrderID (hc_Handover c))
        then Some ErrInvalidHandover
      else if ac_TenantID (hc_Actor c) \<noteq> ho_TenantID (hc_Handover c) \<or>
              ac_OrganizationID (hc_Actor c) \<noteq> ho_OrganizationID (hc_Handover c)
        then Some ErrInvalidHandover
      else Handover_ValidateFor (hc_Handover c) order fromA toA)"

fun handover_rank :: "HandoverState \<Rightarrow> nat" where
  "handover_rank HandoverRequested = 0"
| "handover_rank HandoverApproved = 1"
| "handover_rank HandoverTransferred = 2"
| "handover_rank (HandoverOther s) = 0"

interpretation handover: lifecycle CanTransitionHandover handover_rank
  by unfold_locales (auto simp: CanTransitionHandover_def)

text \<open>A handover only advances. Along any history of allowed changes the state is changed at most
  twice, a state once left is never entered again, and a valid handover joins two distinct
  assignments of the order, both valid for it, in its own tenant and organization.\<close>

theorem handover_advances:
  assumes "follows CanTransitionHandover (s # ss)" and "Handover_ValidateFor h order fromA toA = None"
  shows "changes (s # ss) \<le> 2 \<and>
    (CanTransitionHandover\<^sup>*\<^sup>* s t \<and> CanTransitionHandover\<^sup>*\<^sup>* t s \<longrightarrow> s = t) \<and>
    as_ID fromA \<noteq> as_ID toA \<and> ho_FromAssignmentID h = as_ID fromA \<and> ho_ToAssignmentID h = as_ID toA \<and>
    Assignment_ValidateFor fromA order = None \<and> Assignment_ValidateFor toA order = None \<and>
    as_WorkOrderID fromA = as_WorkOrderID toA"
proof -
  have "handover_rank t \<le> 2" for t by (cases t) simp_all
  then have "changes (s # ss) \<le> 2"
    using handover.changes_bound [OF assms(1)] by (meson add_leD1 le_trans)
  moreover have "Assignment_ValidateFor fromA order = None \<and> Assignment_ValidateFor toA order = None \<and>
      as_ID fromA \<noteq> as_ID toA \<and> ho_FromAssignmentID h = as_ID fromA \<and> ho_ToAssignmentID h = as_ID toA"
    using assms(2) by (auto simp: Handover_ValidateFor_def)
  ultimately show ?thesis
    using handover.no_return by (auto simp: Assignment_ValidateFor_def)
qed

definition demo_handover :: Handover where
  "demo_handover = \<lparr>ho_ID = ''h1'', ho_TenantID = ''t'', ho_OrganizationID = ''o'', ho_WorkOrderID = ''w1'',
     ho_FromAssignmentID = ''a1'', ho_ToAssignmentID = ''a2'', ho_State = HandoverRequested,
     ho_Revision = 1\<rparr>"

lemma handover_advances_witness:
  "changes [HandoverRequested, HandoverApproved, HandoverApproved, HandoverTransferred] \<le> 2"
proof -
  have "follows CanTransitionHandover [HandoverRequested, HandoverApproved, HandoverApproved, HandoverTransferred]"
    by (simp add: CanTransitionHandover_def)
  moreover have "Handover_ValidateFor demo_handover demo_order demo_assignment
      (demo_assignment\<lparr>as_ID := ''a2''\<rparr>) = None"
    by (simp add: Handover_ValidateFor_def Assignment_ValidateFor_def demo_handover_def demo_order_def
        demo_assignment_def time_IsZero_def)
  ultimately show ?thesis using handover_advances by blast
qed

subsection \<open>Errors of the layers\<close>

datatype service_error =
    Domain workorder_error
  | ErrDenied
  | ErrNoRows
  | ErrStaleRevision
  | ErrIdempotencyMismatch
  | ErrInspectionAlreadySubmitted
  | ErrInspectionMembershipUnavailable
  | ErrInspectionMembershipInvalid
  | ConstraintViolation
  | CalibrationLookupFailed string

subsection \<open>Authorization\<close>

text \<open>What the service asks of an authorizer, one question per command.\<close>

record Authorizer =
  can_CreateRequest :: "ActorContext \<Rightarrow> service_error option"
  can_AssignScope :: "ActorContext \<Rightarrow> WorkOrder \<Rightarrow> service_error option"
  can_TransitionExecution :: "ActorContext \<Rightarrow> WorkOrder \<Rightarrow> ExecutionState \<Rightarrow> service_error option"
  can_SubmitPartial :: "ActorContext \<Rightarrow> WorkOrder \<Rightarrow> Assignment \<Rightarrow> service_error option"
  can_ReassignScope :: "ActorContext \<Rightarrow> WorkOrder \<Rightarrow> service_error option"
  can_ReconcileProvisional :: "ActorContext \<Rightarrow> ProvisionalRecord \<Rightarrow> service_error option"
  can_RequestCertificateValidation :: "ActorContext \<Rightarrow> WorkOrder \<Rightarrow> service_error option"
  can_AddEvidenceReference ::
    "ActorContext \<Rightarrow> WorkOrder \<Rightarrow> EvidenceReference \<Rightarrow> service_error option"

fun has :: "string list \<Rightarrow> string \<Rightarrow> bool" where
  "has [] wanted = False"
| "has (v # vs) wanted = (if v = wanted then True else has vs wanted)"

definition authorize :: "ActorContext \<Rightarrow> string \<Rightarrow> string list \<Rightarrow> service_error option" where
  "authorize actor capability roles =
     (if \<not> has roles (ac_Role actor) \<or> \<not> has (ac_Capabilities actor) capability
        then Some ErrDenied else None)"

definition authorizeOrder ::
    "ActorContext \<Rightarrow> WorkOrder \<Rightarrow> string \<Rightarrow> string list \<Rightarrow> service_error option" where
  "authorizeOrder actor order capability roles =
     (if ac_TenantID actor \<noteq> wo_TenantID order \<or> ac_OrganizationID actor \<noteq> wo_OrganizationID order
        then Some ErrDenied
      else authorize actor capability roles)"

definition auth_CanSubmitPartial ::
    "ActorContext \<Rightarrow> WorkOrder \<Rightarrow> Assignment \<Rightarrow> service_error option" where
  "auth_CanSubmitPartial actor order assignment =
     (case authorizeOrder actor order ''workorder.submit_partial'' [''inspector'', ''administrator''] of
        Some e \<Rightarrow> Some e
      | None \<Rightarrow>
          if ac_Role actor = ''inspector'' \<and> as_InspectorID assignment \<noteq> ac_ActorID actor
            then Some ErrDenied else None)"

definition auth_CanReconcileProvisional ::
    "ActorContext \<Rightarrow> ProvisionalRecord \<Rightarrow> service_error option" where
  "auth_CanReconcileProvisional actor rec =
     (if ac_TenantID actor \<noteq> pr_TenantID rec \<or> ac_OrganizationID actor \<noteq> pr_OrganizationID rec
        then Some ErrDenied
      else authorize actor ''workorder.reconcile_provisional'' [''manager'', ''administrator''])"

definition auth_CanHandover :: "ActorContext \<Rightarrow> WorkOrder \<Rightarrow> service_error option" where
  "auth_CanHandover actor order =
     authorizeOrder actor order ''workorder.handover'' [''inspector'', ''manager'', ''administrator'']"

definition workorderauth :: Authorizer where
  "workorderauth =
     \<lparr>can_CreateRequest = (\<lambda>actor. authorize actor ''workorder.create_request'' [''manager'', ''administrator'']),
      can_AssignScope = (\<lambda>actor order. authorizeOrder actor order ''workorder.assign_scope'' [''manager'', ''administrator'']),
      can_TransitionExecution = (\<lambda>actor order _. authorizeOrder actor order ''workorder.transition_execution''
        [''manager'', ''administrator'']),
      can_SubmitPartial = auth_CanSubmitPartial,
      can_ReassignScope = (\<lambda>actor order. authorizeOrder actor order ''workorder.reassign_scope''
        [''manager'', ''administrator'']),
      can_ReconcileProvisional = auth_CanReconcileProvisional,
      can_RequestCertificateValidation = (\<lambda>actor order. authorizeOrder actor order
        ''workorder.request_certificate_validation'' [''reviewer'', ''manager'', ''administrator'']),
      can_AddEvidenceReference = (\<lambda>actor order _. authorizeOrder actor order
        ''workorder.add_evidence_reference'' [''inspector'', ''manager'', ''administrator'', ''reviewer''])\<rparr>"

subsection \<open>The application service\<close>

text \<open>
  The injected dependencies. \<open>WithinTransaction\<close> gets the callback as a state transformer; the gate
  is optional. A repository mutation returns its result and the state it leaves.
\<close>

record 'w ServiceDependencies =
  GetWorkOrder :: "ActorContext \<Rightarrow> string \<Rightarrow> 'w \<Rightarrow> service_error + WorkOrder"
  GetAssignment :: "ActorContext \<Rightarrow> string \<Rightarrow> 'w \<Rightarrow> service_error + Assignment"
  FindOperationReceipt :: "ActorContext \<Rightarrow> string \<Rightarrow> 'w \<Rightarrow> service_error + MutationReceipt option"
  repo_mutate :: "wo_command \<Rightarrow> 'w \<Rightarrow> (service_error + MutationReceipt) \<times> 'w"
  WithinTransaction :: "ActorContext \<Rightarrow> ('w \<Rightarrow> (service_error + MutationReceipt) \<times> 'w) \<Rightarrow>
    'w \<Rightarrow> (service_error + MutationReceipt) \<times> 'w"
  dep_Authorizer :: Authorizer
  CalibrationGate :: "(string \<Rightarrow> string \<Rightarrow> string \<Rightarrow> gotime \<Rightarrow> string + bool) option"

definition service_execute ::
    "'w ServiceDependencies \<Rightarrow> ActorContext \<Rightarrow> OperationMeta \<Rightarrow>
     ('w \<Rightarrow> (service_error + MutationReceipt) \<times> 'w) \<Rightarrow> 'w \<Rightarrow> (service_error + MutationReceipt) \<times> 'w"
  where
  "service_execute deps actor operation action w =
     (case validateActorOperation actor operation of
        Some e \<Rightarrow> (Inl (Domain e), w)
      | None \<Rightarrow>
         (case FindOperationReceipt deps actor (om_IdempotencyKey operation) w of
            Inl e \<Rightarrow> (Inl e, w)
          | Inr (Some receipt) \<Rightarrow> (Inr receipt, w)
          | Inr None \<Rightarrow> WithinTransaction deps actor action w))"

fun calibration_blocked ::
    "(string \<Rightarrow> string \<Rightarrow> string \<Rightarrow> gotime \<Rightarrow> string + bool) \<Rightarrow> WorkOrder \<Rightarrow> gotime \<Rightarrow> string list \<Rightarrow>
     service_error option" where
  "calibration_blocked gate order at [] = None"
| "calibration_blocked gate order at (equipmentID # rest) =
     (case gate (wo_TenantID order) (wo_OrganizationID order) equipmentID at of
        Inl m \<Rightarrow> Some (CalibrationLookupFailed m)
      | Inr blocked \<Rightarrow>
          if blocked then Some (Domain ErrCalibrationExpired)
          else calibration_blocked gate order at rest)"

text \<open>The checks that each handler makes before it executes; \<open>now\<close> is the clock of the gate.\<close>

fun service_checks ::
    "'w ServiceDependencies \<Rightarrow> gotime \<Rightarrow> wo_command \<Rightarrow> 'w \<Rightarrow> service_error option" where
  "service_checks deps now (CreateRequest c) w =
     (case ValidateCreateRequestCommand c of
        Some e \<Rightarrow> Some (Domain e)
      | None \<Rightarrow> can_CreateRequest (dep_Authorizer deps) (cmd_Actor c))"
| "service_checks deps now (AssignScope c) w =
     (case GetWorkOrder deps (asc_Actor c) (asc_WorkOrderID c) w of
        Inl e \<Rightarrow> Some e
      | Inr order \<Rightarrow>
         (case ValidateAssignScopeCommand c order of
            Some e \<Rightarrow> Some (Domain e)
          | None \<Rightarrow> can_AssignScope (dep_Authorizer deps) (asc_Actor c) order))"
| "service_checks deps now (TransitionExecution c) w =
     (case GetWorkOrder deps (tec_Actor c) (tec_WorkOrderID c) w of
        Inl e \<Rightarrow> Some e
      | Inr order \<Rightarrow>
         (case ValidateTransitionExecutionCommand c order of
            Some e \<Rightarrow> Some (Domain e)
          | None \<Rightarrow> can_TransitionExecution (dep_Authorizer deps) (tec_Actor c) order (tec_To c)))"
| "service_checks deps now (SubmitPartial c) w =
     (case GetWorkOrder deps (spc_Actor c) (spc_WorkOrderID c) w of
        Inl e \<Rightarrow> Some e
      | Inr order \<Rightarrow>
         (case GetAssignment deps (spc_Actor c) (spc_AssignmentID c) w of
            Inl e \<Rightarrow> Some e
          | Inr assignment \<Rightarrow>
             (case ValidateSubmitPartialCommand c order of
                Some e \<Rightarrow> Some (Domain e)
              | None \<Rightarrow>
                  if as_WorkOrderID assignment \<noteq> wo_ID order \<or> as_TenantID assignment \<noteq> wo_TenantID order \<or>
                     as_OrganizationID assignment \<noteq> wo_OrganizationID order
                    then Some (Domain ErrInvalidScope)
                  else case can_SubmitPartial (dep_Authorizer deps) (spc_Actor c) order assignment of
                    Some e \<Rightarrow> Some e
                  | None \<Rightarrow>
                     (case CalibrationGate deps of
                        None \<Rightarrow> None
                      | Some gate \<Rightarrow> calibration_blocked gate order now (spc_EquipmentIDs c)))))"
| "service_checks deps now (ReassignScope c) w =
     (case GetWorkOrder deps (rsc_Actor c) (rsc_WorkOrderID c) w of
        Inl e \<Rightarrow> Some e
      | Inr order \<Rightarrow>
         (case ValidateReassignScopeCommand c order of
            Some e \<Rightarrow> Some (Domain e)
          | None \<Rightarrow> can_ReassignScope (dep_Authorizer deps) (rsc_Actor c) order))"
| "service_checks deps now (ReconcileProvisional c) w =
     (case ValidateReconcileProvisionalCommand c of
        Some e \<Rightarrow> Some (Domain e)
      | None \<Rightarrow> can_ReconcileProvisional (dep_Authorizer deps) (rpc_Actor c) (rpc_Record c))"
| "service_checks deps now (RequestCertificateValidation c) w =
     (case GetWorkOrder deps (rcv_Actor c) (rcv_WorkOrderID c) w of
        Inl e \<Rightarrow> Some e
      | Inr order \<Rightarrow>
         (case ValidateCertificateValidationCommand c order of
            Some e \<Rightarrow> Some (Domain e)
          | None \<Rightarrow> can_RequestCertificateValidation (dep_Authorizer deps) (rcv_Actor c) order))"
| "service_checks deps now (AddEvidenceReference c) w =
     (case GetWorkOrder deps (aec_Actor c) (er_WorkOrderID (aec_Evidence c)) w of
        Inl e \<Rightarrow> Some e
      | Inr order \<Rightarrow>
         (case ValidateAddEvidenceReferenceCommand c order of
            Some e \<Rightarrow> Some (Domain e)
          | None \<Rightarrow>
              can_AddEvidenceReference (dep_Authorizer deps) (aec_Actor c) order (aec_Evidence c)))"

definition service_call ::
    "'w ServiceDependencies \<Rightarrow> gotime \<Rightarrow> wo_command \<Rightarrow> 'w \<Rightarrow> (service_error + MutationReceipt) \<times> 'w"
  where
  "service_call deps now c w =
     (case service_checks deps now c w of
        Some e \<Rightarrow> (Inl e, w)
      | None \<Rightarrow>
          service_execute deps (command_actor c) (command_operation c) (repo_mutate deps c) w)"

subsection \<open>The repository contract\<close>

text \<open>
  What the service relies on: a refused mutation changes nothing; an accepted one leaves its
  receipt under the idempotency key of the command; a mutation whose key has a receipt changes
  nothing, whether it answers with that receipt or refuses; and receipts are never lost.
\<close>

locale receipt_repository =
  fixes find :: "ActorContext \<Rightarrow> string \<Rightarrow> 'w \<Rightarrow> service_error + MutationReceipt option"
    and mutate :: "wo_command \<Rightarrow> 'w \<Rightarrow> (service_error + MutationReceipt) \<times> 'w"
  assumes refused_keeps: "mutate c w = (Inl e, w') \<Longrightarrow> w' = w"
    and accepted_recorded: "mutate c w = (Inr r, w') \<Longrightarrow>
      find (command_actor c) (om_IdempotencyKey (command_operation c)) w' = Inr (Some r)"
    and recorded_keeps: "find (command_actor c) (om_IdempotencyKey (command_operation c)) w = Inr (Some r) \<Longrightarrow>
      snd (mutate c w) = w"
    and receipts_persist: "find a k w = Inr (Some r) \<Longrightarrow> find a k (snd (mutate c w)) = Inr (Some r)"
begin

lemma run_persists:
  "find a k w = Inr (Some r) \<Longrightarrow> find a k (run_ops (\<lambda>c w. snd (mutate c w)) cs w) = Inr (Some r)"
  by (induction cs arbitrary: w) (simp_all add: receipts_persist)

lemma replay_after_any_run:
  assumes "mutate c w = (Inr r, w')" and "w'' = run_ops (\<lambda>c w. snd (mutate c w)) cs w'"
  shows "snd (mutate c w'') = w'' \<and>
    find (command_actor c) (om_IdempotencyKey (command_operation c)) w'' = Inr (Some r)"
  using run_persists [OF accepted_recorded [OF assms(1)]] recorded_keeps assms(2) by blast

end

end
