(* ===== verification/Work_Order_Store.thy ===== *)
theory Work_Order_Store
  imports Work_Order_Service "HOL-Library.List_Lexorder"
begin

text \<open>
  The PostgreSQL repository of work orders, \<open>internal/workorderpg/postgres.go\<close>,
  \<open>inspection_membership.go\<close> and \<open>transaction_runner.go\<close>, as operations on its tables.

  A table with a key \<open>(tenant_id, organization_id, id)\<close> is a map from that key or a list of rows;
  a query is the lookup or the filter its \<open>WHERE\<close> clause states, under the tenant and
  organization of the actor. A mutation is a transaction: it works on its copy of the tables, and
  an error leaves the tables as they were. Key violations of the inserts are written out; every
  other constraint of the schema is the predicate \<open>admits\<close> of the configuration, which each write
  must satisfy. \<open>hashPayload\<close> (SHA-256 of canonical JSON) is a function of the configuration, and
  the columns the code never reads back are left out. Ids are ordered by their bytes.
\<close>

type_synonym rowkey = "string \<times> string \<times> string"

record ScopeRow =
  sr_WorkOrderID :: string
  sr_AssetID :: string

record InspectionRow =
  ir_WorkOrderID :: string
  ir_ScopeItemID :: string
  ir_AssignmentID :: string
  ir_AssetID :: string
  ir_InspectorID :: string
  ir_LifecycleState :: string
  ir_FinalizationState :: string

record SegmentRow =
  sg_Key :: rowkey
  sg_WorkOrderID :: string
  sg_AssignmentID :: string
  sg_SubmittedBy :: string
  sg_State :: string
  sg_Revision :: int64
  sg_InspectionIDs :: "string list"

record SubmissionItemRow =
  sm_Segment :: rowkey
  sm_WorkOrderID :: string
  sm_AssignmentID :: string
  sm_ScopeItemID :: string
  sm_InspectionID :: string

record OperationRow =
  op_TenantID :: string
  op_OrganizationID :: string
  op_OperationID :: string
  op_IdempotencyKey :: string
  op_RequestHash :: string
  op_Type :: string
  op_AggregateID :: string
  op_Expected :: int64
  op_Resulting :: int64
  op_Receipt :: MutationReceipt

datatype state_value = ExecutionValue ExecutionState | CertificateValue CertificateState

record StateEventRow =
  sv_Key :: rowkey
  sv_WorkOrderID :: string
  sv_ActorID :: string
  sv_EventType :: string
  sv_Previous :: state_value
  sv_New :: state_value
  sv_OperationID :: string

record ProvisionalRow =
  pv_TenantID :: string
  pv_OrganizationID :: string
  pv_ID :: string
  pv_LocalID :: string
  pv_Kind :: RecordKind
  pv_WorkOrderID :: string
  pv_ClientID :: string
  pv_CanonicalID :: string
  pv_ReconcileState :: string
  pv_Fingerprint :: string
  pv_ReconciledBy :: string

record WOStore =
  st_orders :: "rowkey \<rightharpoonup> WorkOrder"
  st_assignments :: "rowkey \<rightharpoonup> Assignment"
  st_assignment_scope :: "(rowkey \<times> string) list"
  st_scope_items :: "rowkey \<rightharpoonup> ScopeRow"
  st_inspections :: "rowkey \<rightharpoonup> InspectionRow"
  st_segments :: "SegmentRow list"
  st_submission_items :: "SubmissionItemRow list"
  st_operations :: "OperationRow list"
  st_state_events :: "StateEventRow list"
  st_provisional :: "ProvisionalRow list"
  st_evidence :: "(rowkey \<times> EvidenceReference) list"

datatype wo_payload = HashOrder WorkOrder | HashCommand wo_command | HashRecord ProvisionalRecord

record wo_config =
  hashPayload :: "wo_payload \<Rightarrow> string"
  admits :: "WOStore \<Rightarrow> bool"
  has_inspectionMembership :: bool

definition key_of :: "ActorContext \<Rightarrow> string \<Rightarrow> rowkey" where
  "key_of actor ident = (ac_TenantID actor, ac_OrganizationID actor, ident)"

definition written :: "wo_config \<Rightarrow> WOStore \<Rightarrow> service_error + WOStore" where
  "written cfg db = (if admits cfg db then Inr db else Inl ConstraintViolation)"

subsection \<open>Queries\<close>

definition loadOrder :: "ActorContext \<Rightarrow> string \<Rightarrow> WOStore \<Rightarrow> service_error + WorkOrder" where
  "loadOrder actor ident db =
     (case st_orders db (key_of actor ident) of None \<Rightarrow> Inl ErrNoRows | Some w \<Rightarrow> Inr w)"

definition assignment_scope_ids :: "rowkey \<Rightarrow> WOStore \<Rightarrow> string list" where
  "assignment_scope_ids k db = sort (map snd (filter (\<lambda>r. fst r = k) (st_assignment_scope db)))"

definition loadAssignment :: "ActorContext \<Rightarrow> string \<Rightarrow> WOStore \<Rightarrow> service_error + Assignment" where
  "loadAssignment actor ident db =
     (case st_assignments db (key_of actor ident) of
        None \<Rightarrow> Inl ErrNoRows
      | Some a \<Rightarrow> Inr (a\<lparr>as_ScopeItemIDs := assignment_scope_ids (key_of actor ident) db\<rparr>))"

definition repo_begin :: "ActorContext \<Rightarrow> service_error option" where
  "repo_begin actor = (case ActorContext_Validate actor of Some e \<Rightarrow> Some (Domain e) | None \<Rightarrow> None)"

definition repo_GetWorkOrder :: "ActorContext \<Rightarrow> string \<Rightarrow> WOStore \<Rightarrow> service_error + WorkOrder" where
  "repo_GetWorkOrder actor ident db =
     (case repo_begin actor of Some e \<Rightarrow> Inl e | None \<Rightarrow> loadOrder actor ident db)"

definition repo_GetAssignment :: "ActorContext \<Rightarrow> string \<Rightarrow> WOStore \<Rightarrow> service_error + Assignment" where
  "repo_GetAssignment actor ident db =
     (case repo_begin actor of Some e \<Rightarrow> Inl e | None \<Rightarrow> loadAssignment actor ident db)"

definition op_under :: "ActorContext \<Rightarrow> string \<Rightarrow> OperationRow \<Rightarrow> bool" where
  "op_under actor key r \<longleftrightarrow> op_IdempotencyKey r = key \<and> op_TenantID r = ac_TenantID actor \<and>
     op_OrganizationID r = ac_OrganizationID actor"

definition findReceipt :: "ActorContext \<Rightarrow> string \<Rightarrow> WOStore \<Rightarrow> (string \<times> MutationReceipt) option" where
  "findReceipt actor key db =
     (case List.find (op_under actor key) (st_operations db) of
        None \<Rightarrow> None
      | Some r \<Rightarrow> Some (op_RequestHash r, op_Receipt r))"

definition repo_FindOperationReceipt ::
    "ActorContext \<Rightarrow> string \<Rightarrow> WOStore \<Rightarrow> service_error + MutationReceipt option" where
  "repo_FindOperationReceipt actor key db =
     (case repo_begin actor of
        Some e \<Rightarrow> Inl e
      | None \<Rightarrow> Inr (map_option snd (findReceipt actor key db)))"

text \<open>\<open>SELECT count(*) ... WHERE id = ANY(ids)\<close> counts the rows found, repeated ids once.\<close>

definition verifyScopeIDs ::
    "ActorContext \<Rightarrow> WorkOrder \<Rightarrow> string list \<Rightarrow> WOStore \<Rightarrow> service_error option" where
  "verifyScopeIDs actor order ids db =
     (let found = filter (\<lambda>i. case st_scope_items db (key_of actor i) of
                                None \<Rightarrow> False | Some s \<Rightarrow> sr_WorkOrderID s = wo_ID order) (remdups ids)
      in if length found \<noteq> length ids then Some (Domain ErrInvalidScope) else None)"

subsection \<open>Writes\<close>

definition acceptedReceipt ::
    "ActorContext \<Rightarrow> OperationMeta \<Rightarrow> string \<Rightarrow> int64 \<Rightarrow> MutationReceipt" where
  "acceptedReceipt actor operation orderID revision =
     \<lparr>mr_OperationID = om_OperationID operation, mr_IdempotencyKey = om_IdempotencyKey operation,
      mr_TenantID = ac_TenantID actor, mr_WorkOrderID = orderID, mr_Revision = revision,
      mr_Status = ReceiptAccepted\<rparr>"

definition finishMutation ::
    "wo_config \<Rightarrow> ActorContext \<Rightarrow> OperationMeta \<Rightarrow> string \<Rightarrow> string \<Rightarrow> string \<Rightarrow> int64 \<Rightarrow> int64 \<Rightarrow>
     MutationReceipt \<Rightarrow> WOStore \<Rightarrow> service_error + WOStore" where
  "finishMutation cfg actor operation requestHash operationType aggregateID expected resulting
     receipt db =
     (let row = \<lparr>op_TenantID = ac_TenantID actor, op_OrganizationID = ac_OrganizationID actor,
                 op_OperationID = om_OperationID operation,
                 op_IdempotencyKey = om_IdempotencyKey operation, op_RequestHash = requestHash,
                 op_Type = operationType, op_AggregateID = aggregateID, op_Expected = expected,
                 op_Resulting = resulting, op_Receipt = receipt\<rparr> in
      if list_ex (\<lambda>r. op_TenantID r = op_TenantID row \<and> op_OrganizationID r = op_OrganizationID row \<and>
                      (op_OperationID r = op_OperationID row \<or>
                       op_IdempotencyKey r = op_IdempotencyKey row)) (st_operations db)
        then Inl ConstraintViolation
      else written cfg (db\<lparr>st_operations := st_operations db @ [row]\<rparr>))"

text \<open>\<open>UPDATE ... WHERE revision = order.Revision\<close>: the row must still have the revision read.\<close>

definition bumpOrder ::
    "wo_config \<Rightarrow> ActorContext \<Rightarrow> WorkOrder \<Rightarrow> ExecutionState \<Rightarrow> WOStore \<Rightarrow>
     service_error + int64 \<times> WOStore" where
  "bumpOrder cfg actor order state db =
     (let newRevision = wrap64 (wo_Revision order + 1);
          k = key_of actor (wo_ID order) in
      case st_orders db k of
        None \<Rightarrow> Inl ErrStaleRevision
      | Some row \<Rightarrow>
          if wo_Revision row \<noteq> wo_Revision order then Inl ErrStaleRevision
          else case written cfg (db\<lparr>st_orders := (st_orders db)
                  (k \<mapsto> row\<lparr>wo_ExecutionState := state, wo_Revision := newRevision\<rparr>)\<rparr>) of
            Inl e \<Rightarrow> Inl e
          | Inr db' \<Rightarrow> Inr (newRevision, db'))"

definition insertStateEvent ::
    "wo_config \<Rightarrow> ActorContext \<Rightarrow> string \<Rightarrow> string \<Rightarrow> string \<Rightarrow> state_value \<Rightarrow> state_value \<Rightarrow>
     WOStore \<Rightarrow> service_error + WOStore" where
  "insertStateEvent cfg actor orderID eventType operationID previous next db =
     (let row = \<lparr>sv_Key = key_of actor (operationID @ ''-event''), sv_WorkOrderID = orderID,
                 sv_ActorID = ac_ActorID actor, sv_EventType = eventType, sv_Previous = previous,
                 sv_New = next, sv_OperationID = operationID\<rparr> in
      if list_ex (\<lambda>r. sv_Key r = sv_Key row) (st_state_events db) then Inl ConstraintViolation
      else written cfg (db\<lparr>st_state_events := st_state_events db @ [row]\<rparr>))"

definition insertAssignment ::
    "wo_config \<Rightarrow> ActorContext \<Rightarrow> string \<Rightarrow> Assignment \<Rightarrow> WOStore \<Rightarrow> service_error + WOStore" where
  "insertAssignment cfg actor workOrderID a db =
     (let k = key_of actor (as_ID a) in
      if st_assignments db k \<noteq> None then Inl ConstraintViolation
      else written cfg (db\<lparr>st_assignments := (st_assignments db)
             (k \<mapsto> a\<lparr>as_TenantID := ac_TenantID actor, as_OrganizationID := ac_OrganizationID actor,
                     as_WorkOrderID := workOrderID, as_ScopeItemIDs := []\<rparr>)\<rparr>))"

definition insertAssignmentScope ::
    "wo_config \<Rightarrow> ActorContext \<Rightarrow> string \<Rightarrow> string list \<Rightarrow> WOStore \<Rightarrow> service_error + WOStore" where
  "insertAssignmentScope cfg actor assignmentID ids db =
     (let rows = map (\<lambda>i. (key_of actor assignmentID, i)) ids in
      if length ids = 0 then Inr db
      else if \<not> (distinct rows \<and> list_all (\<lambda>r. r \<notin> set (st_assignment_scope db)) rows)
        then Inl ConstraintViolation
      else written cfg (db\<lparr>st_assignment_scope := st_assignment_scope db @ rows\<rparr>))"

subsection \<open>Inspection membership\<close>

text \<open>
  The join of \<open>ValidatePartialSubmissionTx\<close>: the inspections among the ids that belong to the order
  and to the active assignment, are its inspector's, lie in its scope on the asset of the scope
  item, are completed or in review, and are still open.
\<close>

definition membership_of ::
    "ActorContext \<Rightarrow> string \<Rightarrow> string \<Rightarrow> WOStore \<Rightarrow> string \<Rightarrow> (string \<times> string) option" where
  "membership_of actor workOrderID assignmentID db ident =
     (case (st_inspections db (key_of actor ident), st_assignments db (key_of actor assignmentID)) of
        (Some i, Some a) \<Rightarrow>
          (case st_scope_items db (key_of actor (ir_ScopeItemID i)) of
             None \<Rightarrow> None
           | Some s \<Rightarrow>
               if ir_WorkOrderID i = workOrderID \<and> ir_AssignmentID i = assignmentID \<and>
                  as_WorkOrderID a = workOrderID \<and>
                  (key_of actor assignmentID, ir_ScopeItemID i) \<in> set (st_assignment_scope db) \<and>
                  sr_WorkOrderID s = workOrderID \<and> as_State a = AssignmentActive \<and>
                  ir_InspectorID i = as_InspectorID a \<and> ir_AssetID i = sr_AssetID s \<and>
                  ir_LifecycleState i \<in> {''COMPLETED'', ''PENDING_REVIEW''} \<and>
                  ir_FinalizationState i = ''OPEN''
               then Some (ident, ir_ScopeItemID i) else None)
      | _ \<Rightarrow> None)"

definition ValidatePartialSubmissionTx ::
    "ActorContext \<Rightarrow> string \<Rightarrow> string \<Rightarrow> string list \<Rightarrow> WOStore \<Rightarrow>
     service_error + (string \<times> string) list" where
  "ValidatePartialSubmissionTx actor workOrderID assignmentID ids db =
     (let memberships = List.map_filter (membership_of actor workOrderID assignmentID db) (remdups ids)
      in if length memberships \<noteq> length ids then Inl ErrInspectionMembershipInvalid
         else Inr memberships)"

fun insert_submission_items ::
    "wo_config \<Rightarrow> ActorContext \<Rightarrow> rowkey \<Rightarrow> string \<Rightarrow> string \<Rightarrow> (string \<times> string) list \<Rightarrow> WOStore \<Rightarrow>
     service_error + WOStore" where
  "insert_submission_items cfg actor segment workOrderID assignmentID [] db = Inr db"
| "insert_submission_items cfg actor segment workOrderID assignmentID ((ident, scopeID) # ms) db =
     (let row = \<lparr>sm_Segment = segment, sm_WorkOrderID = workOrderID, sm_AssignmentID = assignmentID,
                 sm_ScopeItemID = scopeID, sm_InspectionID = ident\<rparr> in
      if list_ex (\<lambda>r. sm_Segment r = segment \<and> sm_InspectionID r = ident) (st_submission_items db)
        then Inl ConstraintViolation
      else case written cfg (db\<lparr>st_submission_items := st_submission_items db @ [row]\<rparr>) of
        Inl e \<Rightarrow> Inl e
      | Inr db' \<Rightarrow> insert_submission_items cfg actor segment workOrderID assignmentID ms db')"

definition submit_inspections ::
    "ActorContext \<Rightarrow> string list \<Rightarrow> (rowkey \<rightharpoonup> InspectionRow) \<Rightarrow> (rowkey \<rightharpoonup> InspectionRow)" where
  "submit_inspections actor ids m =
     (\<lambda>k. if k \<in> set (map (key_of actor) ids)
          then map_option (\<lambda>i. if ir_FinalizationState i = ''OPEN''
                               then i\<lparr>ir_FinalizationState := ''SUBMITTED''\<rparr> else i) (m k)
          else m k)"

definition open_among :: "ActorContext \<Rightarrow> string list \<Rightarrow> WOStore \<Rightarrow> nat" where
  "open_among actor ids db =
     length (filter (\<lambda>i. case st_inspections db (key_of actor i) of
                           None \<Rightarrow> False | Some r \<Rightarrow> ir_FinalizationState r = ''OPEN'') (remdups ids))"

definition RecordPartialSubmissionTx ::
    "wo_config \<Rightarrow> ActorContext \<Rightarrow> string \<Rightarrow> string \<Rightarrow> string \<Rightarrow> (string \<times> string) list \<Rightarrow> WOStore \<Rightarrow>
     service_error + WOStore" where
  "RecordPartialSubmissionTx cfg actor segmentID workOrderID assignmentID memberships db =
     (case insert_submission_items cfg actor (key_of actor segmentID) workOrderID assignmentID
             memberships db of
        Inl e \<Rightarrow> Inl e
      | Inr db1 \<Rightarrow>
          (let ids = map fst memberships in
           case written cfg (db1\<lparr>st_inspections := submit_inspections actor ids (st_inspections db1)\<rparr>) of
             Inl e \<Rightarrow> Inl e
           | Inr db2 \<Rightarrow>
               if open_among actor ids db1 \<noteq> length ids then Inl ErrInspectionMembershipInvalid
               else Inr db2))"

subsection \<open>The bodies of the mutations\<close>

definition body_CreateRequest ::
    "wo_config \<Rightarrow> CreateRequestCommand \<Rightarrow> string \<Rightarrow> WOStore \<Rightarrow>
     service_error + MutationReceipt \<times> WOStore" where
  "body_CreateRequest cfg c requestHash db =
     (let w = cmd_WorkOrder c; k = (wo_TenantID w, wo_OrganizationID w, wo_ID w) in
      if st_orders db k \<noteq> None then Inl ConstraintViolation
      else case written cfg (db\<lparr>st_orders := (st_orders db)(k \<mapsto> w)\<rparr>) of
        Inl e \<Rightarrow> Inl e
      | Inr db1 \<Rightarrow>
         (let receipt = acceptedReceipt (cmd_Actor c) (cmd_Operation c) (wo_ID w) (wo_Revision w) in
          case finishMutation cfg (cmd_Actor c) (cmd_Operation c) requestHash ''create_request''
                 (wo_ID w) (om_ExpectedRevision (cmd_Operation c)) (wo_Revision w) receipt db1 of
            Inl e \<Rightarrow> Inl e
          | Inr db2 \<Rightarrow> Inr (receipt, db2)))"

text \<open>What the mutations of an order share at their end: the new receipt, recorded.\<close>

definition accept_order ::
    "wo_config \<Rightarrow> ActorContext \<Rightarrow> OperationMeta \<Rightarrow> string \<Rightarrow> string \<Rightarrow> string \<Rightarrow> int64 \<Rightarrow> WOStore \<Rightarrow>
     service_error + MutationReceipt \<times> WOStore" where
  "accept_order cfg actor operation requestHash operationType orderID newRevision db =
     (let receipt = acceptedReceipt actor operation orderID newRevision in
      case finishMutation cfg actor operation requestHash operationType orderID
             (om_ExpectedRevision operation) newRevision receipt db of
        Inl e \<Rightarrow> Inl e
      | Inr db' \<Rightarrow> Inr (receipt, db'))"

definition body_AssignScope ::
    "wo_config \<Rightarrow> AssignScopeCommand \<Rightarrow> string \<Rightarrow> WOStore \<Rightarrow>
     service_error + MutationReceipt \<times> WOStore" where
  "body_AssignScope cfg c requestHash db =
     (case loadOrder (asc_Actor c) (asc_WorkOrderID c) db of
        Inl e \<Rightarrow> Inl e
      | Inr order \<Rightarrow>
         (case ValidateAssignScopeCommand c order of
            Some e \<Rightarrow> Inl (Domain e)
          | None \<Rightarrow>
              if om_ExpectedRevision (asc_Operation c) \<noteq> wo_Revision order then Inl ErrStaleRevision
              else case verifyScopeIDs (asc_Actor c) order (as_ScopeItemIDs (asc_Assignment c)) db of
                Some e \<Rightarrow> Inl e
              | None \<Rightarrow>
                 (case insertAssignment cfg (asc_Actor c) (asc_WorkOrderID c) (asc_Assignment c) db of
                    Inl e \<Rightarrow> Inl e
                  | Inr db1 \<Rightarrow>
                     (case insertAssignmentScope cfg (asc_Actor c) (as_ID (asc_Assignment c))
                             (as_ScopeItemIDs (asc_Assignment c)) db1 of
                        Inl e \<Rightarrow> Inl e
                      | Inr db2 \<Rightarrow>
                         (case bumpOrder cfg (asc_Actor c) order ExecutionAssigned db2 of
                            Inl e \<Rightarrow> Inl e
                          | Inr (newRevision, db3) \<Rightarrow>
                              accept_order cfg (asc_Actor c) (asc_Operation c) requestHash
                                ''assign_scope'' (wo_ID order) newRevision db3)))))"

definition body_TransitionExecution ::
    "wo_config \<Rightarrow> TransitionExecutionCommand \<Rightarrow> string \<Rightarrow> WOStore \<Rightarrow>
     service_error + MutationReceipt \<times> WOStore" where
  "body_TransitionExecution cfg c requestHash db =
     (case loadOrder (tec_Actor c) (tec_WorkOrderID c) db of
        Inl e \<Rightarrow> Inl e
      | Inr order \<Rightarrow>
         (case ValidateTransitionExecutionCommand c order of
            Some e \<Rightarrow> Inl (Domain e)
          | None \<Rightarrow>
              if om_ExpectedRevision (tec_Operation c) \<noteq> wo_Revision order then Inl ErrStaleRevision
              else case bumpOrder cfg (tec_Actor c) order (tec_To c) db of
                Inl e \<Rightarrow> Inl e
              | Inr (newRevision, db1) \<Rightarrow>
                 (case insertStateEvent cfg (tec_Actor c) (wo_ID order) ''execution_transition''
                         (om_OperationID (tec_Operation c)) (ExecutionValue (tec_From c))
                         (ExecutionValue (tec_To c)) db1 of
                    Inl e \<Rightarrow> Inl e
                  | Inr db2 \<Rightarrow>
                      accept_order cfg (tec_Actor c) (tec_Operation c) requestHash
                        ''transition_execution'' (wo_ID order) newRevision db2)))"

definition already_submitted ::
    "ActorContext \<Rightarrow> string \<Rightarrow> string list \<Rightarrow> WOStore \<Rightarrow> bool" where
  "already_submitted actor orderID ids db \<longleftrightarrow>
     list_ex (\<lambda>g. fst (sg_Key g) = ac_TenantID actor \<and> fst (snd (sg_Key g)) = ac_OrganizationID actor \<and>
        sg_WorkOrderID g = orderID \<and> sg_State g \<noteq> ''rejected'' \<and>
        list_ex (\<lambda>i. i \<in> set (sg_InspectionIDs g)) ids) (st_segments db)"

definition insertSegment ::
    "wo_config \<Rightarrow> SubmitPartialCommand \<Rightarrow> WorkOrder \<Rightarrow> Assignment \<Rightarrow> WOStore \<Rightarrow>
     service_error + WOStore" where
  "insertSegment cfg c order assignment db =
     (let k = key_of (spc_Actor c) (om_OperationID (spc_Operation c));
          row = \<lparr>sg_Key = k, sg_WorkOrderID = wo_ID order, sg_AssignmentID = as_ID assignment,
                 sg_SubmittedBy = ac_ActorID (spc_Actor c), sg_State = ''submitted'',
                 sg_Revision = wrap64 (wo_Revision order + 1), sg_InspectionIDs = spc_InspectionIDs c\<rparr>
      in if list_ex (\<lambda>g. sg_Key g = k) (st_segments db) then Inl ConstraintViolation
         else written cfg (db\<lparr>st_segments := st_segments db @ [row]\<rparr>))"

definition body_SubmitPartial ::
    "wo_config \<Rightarrow> SubmitPartialCommand \<Rightarrow> string \<Rightarrow> WOStore \<Rightarrow>
     service_error + MutationReceipt \<times> WOStore" where
  "body_SubmitPartial cfg c requestHash db =
     (case loadOrder (spc_Actor c) (spc_WorkOrderID c) db of
        Inl e \<Rightarrow> Inl e
      | Inr order \<Rightarrow>
         (case loadAssignment (spc_Actor c) (spc_AssignmentID c) db of
            Inl e \<Rightarrow> Inl e
          | Inr assignment \<Rightarrow>
             (case ValidateSubmitPartialCommand c order of
                Some e \<Rightarrow> Inl (Domain e)
              | None \<Rightarrow>
                  if as_WorkOrderID assignment \<noteq> wo_ID order \<or>
                     as_OrganizationID assignment \<noteq> wo_OrganizationID order
                    then Inl (Domain ErrInvalidScope)
                  else if om_ExpectedRevision (spc_Operation c) \<noteq> wo_Revision order
                    then Inl ErrStaleRevision
                  else if \<not> has_inspectionMembership cfg then Inl ErrInspectionMembershipUnavailable
                  else case ValidatePartialSubmissionTx (spc_Actor c) (wo_ID order) (as_ID assignment)
                              (spc_InspectionIDs c) db of
                    Inl e \<Rightarrow> Inl e
                  | Inr memberships \<Rightarrow>
                      if already_submitted (spc_Actor c) (wo_ID order) (spc_InspectionIDs c) db
                        then Inl ErrInspectionAlreadySubmitted
                      else case insertSegment cfg c order assignment db of
                        Inl e \<Rightarrow> Inl e
                      | Inr db1 \<Rightarrow>
                         (case RecordPartialSubmissionTx cfg (spc_Actor c)
                                 (om_OperationID (spc_Operation c)) (wo_ID order) (as_ID assignment)
                                 memberships db1 of
                            Inl e \<Rightarrow> Inl e
                          | Inr db2 \<Rightarrow>
                             (case bumpOrder cfg (spc_Actor c) order ExecutionPartiallySubmitted db2 of
                                Inl e \<Rightarrow> Inl e
                              | Inr (newRevision, db3) \<Rightarrow>
                                  accept_order cfg (spc_Actor c) (spc_Operation c) requestHash
                                    ''submit_partial'' (wo_ID order) newRevision db3)))))"

definition body_ReassignScope ::
    "wo_config \<Rightarrow> ReassignScopeCommand \<Rightarrow> string \<Rightarrow> WOStore \<Rightarrow>
     service_error + MutationReceipt \<times> WOStore" where
  "body_ReassignScope cfg c requestHash db =
     (case loadOrder (rsc_Actor c) (rsc_WorkOrderID c) db of
        Inl e \<Rightarrow> Inl e
      | Inr order \<Rightarrow>
         (case ValidateReassignScopeCommand c order of
            Some e \<Rightarrow> Inl (Domain e)
          | None \<Rightarrow>
             (case loadAssignment (rsc_Actor c) (as_ID (rsc_Previous c)) db of
                Inl e \<Rightarrow> Inl e
              | Inr previous \<Rightarrow>
                  if as_WorkOrderID previous \<noteq> wo_ID order \<or> as_State previous \<noteq> AssignmentActive \<or>
                     as_Revision previous \<noteq> as_Revision (rsc_Previous c) then Inl ErrStaleRevision
                  else if om_ExpectedRevision (rsc_Operation c) \<noteq> wo_Revision order
                    then Inl ErrStaleRevision
                  else case verifyScopeIDs (rsc_Actor c) order (rsc_ScopeItemIDs c) db of
                    Some e \<Rightarrow> Inl e
                  | None \<Rightarrow>
                     (case written cfg (db\<lparr>st_assignments := (st_assignments db)
                             (key_of (rsc_Actor c) (as_ID (rsc_Previous c)) :=
                                map_option (\<lambda>a. a\<lparr>as_State := AssignmentTransferred\<rparr>)
                                  (st_assignments db (key_of (rsc_Actor c) (as_ID (rsc_Previous c)))))\<rparr>) of
                        Inl e \<Rightarrow> Inl e
                      | Inr db1 \<Rightarrow>
                         (case insertAssignment cfg (rsc_Actor c) (wo_ID order) (rsc_Replacement c) db1 of
                            Inl e \<Rightarrow> Inl e
                          | Inr db2 \<Rightarrow>
                             (case insertAssignmentScope cfg (rsc_Actor c) (as_ID (rsc_Replacement c))
                                     (rsc_ScopeItemIDs c) db2 of
                                Inl e \<Rightarrow> Inl e
                              | Inr db3 \<Rightarrow>
                                 (case bumpOrder cfg (rsc_Actor c) order ExecutionAssigned db3 of
                                    Inl e \<Rightarrow> Inl e
                                  | Inr (newRevision, db4) \<Rightarrow>
                                      accept_order cfg (rsc_Actor c) (rsc_Operation c) requestHash
                                        ''reassign_scope'' (wo_ID order) newRevision db4)))))))"

definition prov_under :: "ActorContext \<Rightarrow> string \<Rightarrow> ProvisionalRow \<Rightarrow> bool" where
  "prov_under actor localID r \<longleftrightarrow> pv_TenantID r = ac_TenantID actor \<and>
     pv_OrganizationID r = ac_OrganizationID actor \<and> pv_LocalID r = localID"

text \<open>
  The upsert: a new row, or the outcome written over the row of the same local id when its
  fingerprint is the same; otherwise no row is affected.
\<close>

definition upsertProvisional ::
    "wo_config \<Rightarrow> ReconcileProvisionalCommand \<Rightarrow> string \<Rightarrow> WOStore \<Rightarrow> service_error + WOStore" where
  "upsertProvisional cfg c fingerprint db =
     (let actor = rpc_Actor c; r = rpc_Record c;
          row = \<lparr>pv_TenantID = ac_TenantID actor, pv_OrganizationID = ac_OrganizationID actor,
                 pv_ID = om_OperationID (rpc_Operation c), pv_LocalID = pr_LocalID r,
                 pv_Kind = pr_Kind r, pv_WorkOrderID = pr_WorkOrderID r, pv_ClientID = pr_ClientID r,
                 pv_CanonicalID = rpc_CanonicalID c, pv_ReconcileState = rpc_Outcome c,
                 pv_Fingerprint = fingerprint, pv_ReconciledBy = ac_ActorID actor\<rparr> in
      case List.find (prov_under actor (pr_LocalID r)) (st_provisional db) of
        None \<Rightarrow>
          if list_ex (\<lambda>x. pv_TenantID x = pv_TenantID row \<and> pv_OrganizationID x = pv_OrganizationID row \<and>
                          pv_ID x = pv_ID row) (st_provisional db) then Inl ConstraintViolation
          else written cfg (db\<lparr>st_provisional := st_provisional db @ [row]\<rparr>)
      | Some old \<Rightarrow>
          if pv_Fingerprint old \<noteq> fingerprint then Inl (Domain ErrProvisionalConflict)
          else written cfg (db\<lparr>st_provisional := map (\<lambda>x.
                 if prov_under actor (pr_LocalID r) x
                 then x\<lparr>pv_CanonicalID := pv_CanonicalID row, pv_ReconcileState := pv_ReconcileState row,
                        pv_ReconciledBy := pv_ReconciledBy row\<rparr> else x) (st_provisional db)\<rparr>))"

definition body_ReconcileProvisional ::
    "wo_config \<Rightarrow> ReconcileProvisionalCommand \<Rightarrow> string \<Rightarrow> WOStore \<Rightarrow>
     service_error + MutationReceipt \<times> WOStore" where
  "body_ReconcileProvisional cfg c requestHash db =
     (let fingerprint = hashPayload cfg (HashRecord (rpc_Record c)) in
      case (case List.find (prov_under (rpc_Actor c) (pr_LocalID (rpc_Record c))) (st_provisional db) of
              None \<Rightarrow> None
            | Some old \<Rightarrow> ValidateProvisionalFingerprint (pv_Fingerprint old) fingerprint) of
        Some e \<Rightarrow> Inl (Domain e)
      | None \<Rightarrow>
         (case upsertProvisional cfg c fingerprint db of
            Inl e \<Rightarrow> Inl e
          | Inr db1 \<Rightarrow>
              accept_order cfg (rpc_Actor c) (rpc_Operation c) requestHash ''reconcile_provisional''
                (pr_WorkOrderID (rpc_Record c)) (om_ExpectedRevision (rpc_Operation c)) db1))"

fun validateCertificateInspections ::
    "ActorContext \<Rightarrow> string \<Rightarrow> WOStore \<Rightarrow> string list \<Rightarrow> service_error option" where
  "validateCertificateInspections actor workOrderID db [] = None"
| "validateCertificateInspections actor workOrderID db (ident # rest) =
     (case st_inspections db (key_of actor ident) of
        None \<Rightarrow> Some (Domain ErrInvalidScope)
      | Some i \<Rightarrow>
          if ir_WorkOrderID i \<noteq> workOrderID then Some (Domain ErrInvalidScope)
          else case ValidateCertificateInspectionState (ir_LifecycleState i) (ir_FinalizationState i) of
            Some e \<Rightarrow> Some (Domain e)
          | None \<Rightarrow> validateCertificateInspections actor workOrderID db rest)"

definition body_RequestCertificateValidation ::
    "wo_config \<Rightarrow> RequestCertificateValidationCommand \<Rightarrow> string \<Rightarrow> WOStore \<Rightarrow>
     service_error + MutationReceipt \<times> WOStore" where
  "body_RequestCertificateValidation cfg c requestHash db =
     (case loadOrder (rcv_Actor c) (rcv_WorkOrderID c) db of
        Inl e \<Rightarrow> Inl e
      | Inr order \<Rightarrow>
         (case ValidateCertificateValidationCommand c order of
            Some e \<Rightarrow> Inl (Domain e)
          | None \<Rightarrow>
             (case validateCertificateInspections (rcv_Actor c) (rcv_WorkOrderID c) db
                     (rcv_InspectionIDs c) of
                Some e \<Rightarrow> Inl e
              | None \<Rightarrow>
                  if om_ExpectedRevision (rcv_Operation c) \<noteq> wo_Revision order then Inl ErrStaleRevision
                  else case bumpOrder cfg (rcv_Actor c) order (wo_ExecutionState order) db of
                    Inl e \<Rightarrow> Inl e
                  | Inr (newRevision, db1) \<Rightarrow>
                     (case written cfg (db1\<lparr>st_orders := (st_orders db1)
                             (key_of (rcv_Actor c) (wo_ID order) :=
                                map_option (\<lambda>w. w\<lparr>wo_CertificateState := CertificatePendingValidation\<rparr>)
                                  (st_orders db1 (key_of (rcv_Actor c) (wo_ID order))))\<rparr>) of
                        Inl e \<Rightarrow> Inl e
                      | Inr db2 \<Rightarrow>
                         (case insertStateEvent cfg (rcv_Actor c) (wo_ID order)
                                 ''certificate_validation_requested'' (om_OperationID (rcv_Operation c))
                                 (CertificateValue (wo_CertificateState order))
                                 (CertificateValue CertificatePendingValidation) db2 of
                            Inl e \<Rightarrow> Inl e
                          | Inr db3 \<Rightarrow>
                              accept_order cfg (rcv_Actor c) (rcv_Operation c) requestHash
                                ''request_certificate_validation'' (wo_ID order) newRevision db3)))))"

definition body_AddEvidenceReference ::
    "wo_config \<Rightarrow> AddEvidenceReferenceCommand \<Rightarrow> string \<Rightarrow> WOStore \<Rightarrow>
     service_error + MutationReceipt \<times> WOStore" where
  "body_AddEvidenceReference cfg c requestHash db =
     (case loadOrder (aec_Actor c) (er_WorkOrderID (aec_Evidence c)) db of
        Inl e \<Rightarrow> Inl e
      | Inr order \<Rightarrow>
         (case ValidateAddEvidenceReferenceCommand c order of
            Some e \<Rightarrow> Inl (Domain e)
          | None \<Rightarrow>
              if om_ExpectedRevision (aec_Operation c) \<noteq> wo_Revision order then Inl ErrStaleRevision
              else
                (let k = key_of (aec_Actor c) (er_ID (aec_Evidence c)) in
                 if list_ex (\<lambda>r. fst r = k) (st_evidence db) then Inl ConstraintViolation
                 else case written cfg (db\<lparr>st_evidence := st_evidence db @
                              [(k, (aec_Evidence c)\<lparr>er_TenantID := ac_TenantID (aec_Actor c),
                                   er_OrganizationID := ac_OrganizationID (aec_Actor c),
                                   er_CreatedBy := ac_ActorID (aec_Actor c)\<rparr>)]\<rparr>) of
                   Inl e \<Rightarrow> Inl e
                 | Inr db1 \<Rightarrow>
                     accept_order cfg (aec_Actor c) (aec_Operation c) requestHash
                       ''add_evidence_reference'' (wo_ID order) (wo_Revision order) db1)))"

subsection \<open>Transactions\<close>

text \<open>
  \<open>startMutation\<close>: the receipt under the idempotency key, if the request hash is the one stored.
\<close>

definition startMutation ::
    "ActorContext \<Rightarrow> OperationMeta \<Rightarrow> string \<Rightarrow> WOStore \<Rightarrow> service_error + MutationReceipt option" where
  "startMutation actor operation requestHash db =
     (case OperationMeta_Validate operation of
        Some e \<Rightarrow> Inl (Domain e)
      | None \<Rightarrow>
         (case repo_begin actor of
            Some e \<Rightarrow> Inl e
          | None \<Rightarrow>
             (case findReceipt actor (om_IdempotencyKey operation) db of
                None \<Rightarrow> Inr None
              | Some (storedHash, receipt) \<Rightarrow>
                  if storedHash \<noteq> requestHash then Inl ErrIdempotencyMismatch
                  else Inr (Some receipt))))"

fun mutation_precheck :: "wo_command \<Rightarrow> service_error option" where
  "mutation_precheck (CreateRequest c) =
     (case ValidateCreateRequestCommand c of None \<Rightarrow> None | Some e \<Rightarrow> Some (Domain e))"
| "mutation_precheck (ReconcileProvisional c) =
     (case ValidateReconcileProvisionalCommand c of None \<Rightarrow> None | Some e \<Rightarrow> Some (Domain e))"
| "mutation_precheck _ = None"

text \<open>\<open>CreateRequest\<close> hashes the work order of the command only, the others the whole command.\<close>

fun mutation_payload :: "wo_command \<Rightarrow> wo_payload" where
  "mutation_payload (CreateRequest c) = HashOrder (cmd_WorkOrder c)"
| "mutation_payload c = HashCommand c"

fun mutation_body ::
    "wo_config \<Rightarrow> wo_command \<Rightarrow> string \<Rightarrow> WOStore \<Rightarrow> service_error + MutationReceipt \<times> WOStore" where
  "mutation_body cfg (CreateRequest c) = body_CreateRequest cfg c"
| "mutation_body cfg (AssignScope c) = body_AssignScope cfg c"
| "mutation_body cfg (TransitionExecution c) = body_TransitionExecution cfg c"
| "mutation_body cfg (SubmitPartial c) = body_SubmitPartial cfg c"
| "mutation_body cfg (ReassignScope c) = body_ReassignScope cfg c"
| "mutation_body cfg (ReconcileProvisional c) = body_ReconcileProvisional cfg c"
| "mutation_body cfg (RequestCertificateValidation c) = body_RequestCertificateValidation cfg c"
| "mutation_body cfg (AddEvidenceReference c) = body_AddEvidenceReference cfg c"

definition store_mutate ::
    "wo_config \<Rightarrow> wo_command \<Rightarrow> WOStore \<Rightarrow> (service_error + MutationReceipt) \<times> WOStore" where
  "store_mutate cfg c db =
     (case mutation_precheck c of
        Some e \<Rightarrow> (Inl e, db)
      | None \<Rightarrow>
         (let requestHash = hashPayload cfg (mutation_payload c) in
          case startMutation (command_actor c) (command_operation c) requestHash db of
            Inl e \<Rightarrow> (Inl e, db)
          | Inr (Some receipt) \<Rightarrow> (Inr receipt, db)
          | Inr None \<Rightarrow>
             (case mutation_body cfg c requestHash db of
                Inl e \<Rightarrow> (Inl e, db)
              | Inr (receipt, db') \<Rightarrow> (Inr receipt, db'))))"

text \<open>\<open>WithinTransaction\<close> delegates to the callback: the mutations own their transactions.\<close>

definition store_deps ::
    "wo_config \<Rightarrow> (string \<Rightarrow> string \<Rightarrow> string \<Rightarrow> gotime \<Rightarrow> string + bool) option \<Rightarrow>
     WOStore ServiceDependencies" where
  "store_deps cfg gate =
     \<lparr>GetWorkOrder = repo_GetWorkOrder, GetAssignment = repo_GetAssignment,
      FindOperationReceipt = repo_FindOperationReceipt, repo_mutate = store_mutate cfg,
      WithinTransaction = (\<lambda>actor f. f), dep_Authorizer = workorderauth, CalibrationGate = gate\<rparr>"

subsection \<open>What the writes do\<close>

lemma written_Inr [simp]: "written cfg db = Inr db' \<longleftrightarrow> admits cfg db \<and> db' = db"
  by (auto simp: written_def)

lemma finishMutation_Inr:
  assumes "finishMutation cfg a op h ty agg ex re r db = Inr db'"
  shows "\<exists>row. db' = db\<lparr>st_operations := st_operations db @ [row]\<rparr> \<and> op_TenantID row = ac_TenantID a \<and>
    op_OrganizationID row = ac_OrganizationID a \<and> op_IdempotencyKey row = om_IdempotencyKey op \<and>
    op_RequestHash row = h \<and> op_Receipt row = r"
  using assms by (auto simp: finishMutation_def Let_def)

lemma accept_order_Inr:
  assumes "accept_order cfg a op h ty oid nrev db = Inr (r, db')"
  shows "\<exists>row. db' = db\<lparr>st_operations := st_operations db @ [row]\<rparr> \<and> op_TenantID row = ac_TenantID a \<and>
    op_OrganizationID row = ac_OrganizationID a \<and> op_IdempotencyKey row = om_IdempotencyKey op \<and>
    op_RequestHash row = h \<and> op_Receipt row = r \<and> mr_Revision r = nrev \<and> mr_WorkOrderID r = oid"
  using assms
  by (auto simp: accept_order_def Let_def acceptedReceipt_def dest!: finishMutation_Inr)

lemma bumpOrder_Inr:
  assumes "bumpOrder cfg a order s db = Inr (nrev, db')"
  shows "\<exists>row. st_orders db (key_of a (wo_ID order)) = Some row \<and> wo_Revision row = wo_Revision order \<and>
    nrev = wrap64 (wo_Revision order + 1) \<and>
    db' = db\<lparr>st_orders := (st_orders db)(key_of a (wo_ID order) \<mapsto>
      row\<lparr>wo_ExecutionState := s, wo_Revision := nrev\<rparr>)\<rparr>"
  using assms by (auto simp: bumpOrder_def Let_def split: option.splits if_splits)

lemma insertStateEvent_Inr:
  "insertStateEvent cfg a oid ty opid p n db = Inr db' \<Longrightarrow>
     \<exists>row. db' = db\<lparr>st_state_events := st_state_events db @ [row]\<rparr> \<and>
       sv_Key row = key_of a (opid @ ''-event'')"
  by (auto simp: insertStateEvent_def Let_def)

lemma insertAssignment_Inr:
  "insertAssignment cfg a woid x db = Inr db' \<Longrightarrow>
     st_assignments db (key_of a (as_ID x)) = None \<and>
     (\<exists>row. db' = db\<lparr>st_assignments := (st_assignments db)(key_of a (as_ID x) \<mapsto> row)\<rparr>)"
  by (auto simp: insertAssignment_def Let_def)

lemma insertAssignmentScope_Inr:
  "insertAssignmentScope cfg a i ids db = Inr db' \<Longrightarrow>
     db' = db\<lparr>st_assignment_scope := st_assignment_scope db @ map (\<lambda>s. (key_of a i, s)) ids\<rparr>"
  by (cases "ids = []") (auto simp: insertAssignmentScope_def Let_def)

lemma insertSegment_Inr:
  "insertSegment cfg c order x db = Inr db' \<Longrightarrow>
     \<exists>row. db' = db\<lparr>st_segments := st_segments db @ [row]\<rparr> \<and>
       sg_Key row = key_of (spc_Actor c) (om_OperationID (spc_Operation c)) \<and>
       sg_InspectionIDs row = spc_InspectionIDs c"
  by (auto simp: insertSegment_def Let_def)

lemma insert_submission_items_Inr:
  "insert_submission_items cfg a sg woid asid ms db = Inr db' \<Longrightarrow>
     db' = db\<lparr>st_submission_items := st_submission_items db @ map (\<lambda>(i, s). \<lparr>sm_Segment = sg,
        sm_WorkOrderID = woid, sm_AssignmentID = asid, sm_ScopeItemID = s, sm_InspectionID = i\<rparr>) ms\<rparr>"
proof (induction ms arbitrary: db)
  case Nil
  then show ?case by simp
next
  case (Cons m ms)
  obtain i s where m: "m = (i, s)" by (cases m)
  from Cons.prems have "insert_submission_items cfg a sg woid asid ms
      (db\<lparr>st_submission_items := st_submission_items db @ [\<lparr>sm_Segment = sg, sm_WorkOrderID = woid,
         sm_AssignmentID = asid, sm_ScopeItemID = s, sm_InspectionID = i\<rparr>]\<rparr>) = Inr db'"
    by (auto simp: m Let_def)
  from Cons.IH [OF this] show ?case by (simp add: m)
qed

lemma RecordPartialSubmissionTx_Inr:
  "RecordPartialSubmissionTx cfg a sg woid asid ms db = Inr db' \<Longrightarrow>
     db' = db\<lparr>st_submission_items := st_submission_items db @ map (\<lambda>(i, s). \<lparr>sm_Segment = key_of a sg,
           sm_WorkOrderID = woid, sm_AssignmentID = asid, sm_ScopeItemID = s, sm_InspectionID = i\<rparr>) ms,
        st_inspections := submit_inspections a (map fst ms) (st_inspections db)\<rparr>"
  by (auto simp: RecordPartialSubmissionTx_def Let_def dest!: insert_submission_items_Inr)

lemma upsertProvisional_Inr:
  "upsertProvisional cfg c f db = Inr db' \<Longrightarrow> \<exists>rows. db' = db\<lparr>st_provisional := rows\<rparr>"
  by (auto simp: upsertProvisional_def Let_def split: option.splits if_splits)

lemma loadOrder_Inr [simp]:
  "loadOrder a i db = Inr w \<longleftrightarrow> st_orders db (key_of a i) = Some w"
  by (auto simp: loadOrder_def split: option.splits)

lemmas store_bodies = body_CreateRequest_def body_AssignScope_def body_TransitionExecution_def
  body_SubmitPartial_def body_ReassignScope_def body_ReconcileProvisional_def
  body_RequestCertificateValidation_def body_AddEvidenceReference_def

lemmas store_writes = bumpOrder_Inr insertStateEvent_Inr insertAssignment_Inr
  insertAssignmentScope_Inr insertSegment_Inr RecordPartialSubmissionTx_Inr upsertProvisional_Inr
  accept_order_Inr finishMutation_Inr

lemma bind_Inr_pair [simp]:
  "(case m of Inl x \<Rightarrow> Inl (f x) | Inr (y, z) \<Rightarrow> g y z) = Inr r \<longleftrightarrow> (\<exists>y z. m = Inr (y, z) \<and> g y z = Inr r)"
  by (auto split: sum.splits)

text \<open>Each accepted mutation adds one operation row: its key, its hash and its receipt.\<close>

definition records :: "wo_command \<Rightarrow> string \<Rightarrow> MutationReceipt \<Rightarrow> OperationRow \<Rightarrow> bool" where
  "records c h r row \<longleftrightarrow>
     op_under (command_actor c) (om_IdempotencyKey (command_operation c)) row \<and>
     op_RequestHash row = h \<and> op_Receipt row = r"

lemma mutation_body_records:
  assumes "mutation_body cfg c h db = Inr (r, db')"
  shows "\<exists>row. st_operations db' = st_operations db @ [row] \<and> records c h r row"
proof (cases c)
  case (CreateRequest x)
  then show ?thesis using assms
    by (auto simp: body_CreateRequest_def records_def op_under_def Let_def dest!: store_writes)
next
  case (AssignScope x)
  then show ?thesis using assms
    by (auto simp: body_AssignScope_def records_def op_under_def Let_def dest!: store_writes)
next
  case (TransitionExecution x)
  then show ?thesis using assms
    by (auto simp: body_TransitionExecution_def records_def op_under_def Let_def dest!: store_writes)
next
  case (SubmitPartial x)
  then show ?thesis using assms
    by (auto simp: body_SubmitPartial_def records_def op_under_def Let_def dest!: store_writes)
next
  case (ReassignScope x)
  then show ?thesis using assms
    by (auto simp: body_ReassignScope_def records_def op_under_def Let_def dest!: store_writes)
next
  case (ReconcileProvisional x)
  then show ?thesis using assms
    by (auto simp: body_ReconcileProvisional_def records_def op_under_def Let_def dest!: store_writes)
next
  case (RequestCertificateValidation x)
  then show ?thesis using assms
    by (auto simp: body_RequestCertificateValidation_def records_def op_under_def Let_def
        dest!: store_writes)
next
  case (AddEvidenceReference x)
  then show ?thesis using assms
    by (auto simp: body_AddEvidenceReference_def records_def op_under_def Let_def dest!: store_writes)
qed

subsection \<open>The repository contract\<close>

lemma findReceipt_append:
  "findReceipt a k db = Some x \<Longrightarrow> st_operations db' = st_operations db @ rows \<Longrightarrow>
     findReceipt a k db' = Some x"
  by (auto simp: findReceipt_def find_append split: option.splits)

lemma findReceipt_new:
  "findReceipt (command_actor c) (om_IdempotencyKey (command_operation c)) db = None \<Longrightarrow>
     st_operations db' = st_operations db @ [row] \<Longrightarrow> records c h r row \<Longrightarrow>
     findReceipt (command_actor c) (om_IdempotencyKey (command_operation c)) db' = Some (h, r)"
  by (auto simp: findReceipt_def find_append records_def split: option.splits)

lemma startMutation_Inr:
  "startMutation a op h db = Inr None \<longleftrightarrow>
     OperationMeta_Validate op = None \<and> repo_begin a = None \<and> findReceipt a (om_IdempotencyKey op) db = None"
  "startMutation a op h db = Inr (Some r) \<longleftrightarrow>
     OperationMeta_Validate op = None \<and> repo_begin a = None \<and>
     findReceipt a (om_IdempotencyKey op) db = Some (h, r)"
  by (auto simp: startMutation_def split: option.splits)

lemma store_mutate_cases:
  assumes "store_mutate cfg c db = (res, db')"
  obtains (refused) e where "res = Inl e" "db' = db"
  | (replayed) r where "res = Inr r" "db' = db" "mutation_precheck c = None"
      "startMutation (command_actor c) (command_operation c) (hashPayload cfg (mutation_payload c)) db
         = Inr (Some r)"
  | (accepted) r where "res = Inr r" "mutation_precheck c = None"
      "startMutation (command_actor c) (command_operation c) (hashPayload cfg (mutation_payload c)) db
         = Inr None"
      "mutation_body cfg c (hashPayload cfg (mutation_payload c)) db = Inr (r, db')"
  using assms unfolding store_mutate_def Let_def
  by (cases "mutation_precheck c") (auto split: sum.splits option.splits prod.splits)

lemma store_operations_grow:
  "\<exists>rows. st_operations (snd (store_mutate cfg c db)) = st_operations db @ rows"
proof (cases "store_mutate cfg c db")
  case (Pair res db')
  then show ?thesis
    by (cases rule: store_mutate_cases) (auto simp: Pair dest: mutation_body_records)
qed

lemma store_receipt:
  assumes "store_mutate cfg c db = (Inr r, db')"
  shows "findReceipt (command_actor c) (om_IdempotencyKey (command_operation c)) db'
           = Some (hashPayload cfg (mutation_payload c), r) \<and>
    OperationMeta_Validate (command_operation c) = None \<and> repo_begin (command_actor c) = None \<and>
    mutation_precheck c = None"
  using assms
proof (cases rule: store_mutate_cases)
  case (accepted r')
  then show ?thesis
    using mutation_body_records [OF accepted(4)] findReceipt_new by (auto simp: startMutation_Inr)
qed (auto simp: startMutation_Inr)

lemma repo_Find_Inr:
  "repo_FindOperationReceipt a k db = Inr (Some r) \<longleftrightarrow>
     repo_begin a = None \<and> (\<exists>h. findReceipt a k db = Some (h, r))"
  by (auto simp: repo_FindOperationReceipt_def)

interpretation wo_repo: receipt_repository repo_FindOperationReceipt "store_mutate cfg" for cfg
proof unfold_locales
  fix c db e r db'
  show "store_mutate cfg c db = (Inl e, db') \<Longrightarrow> db' = db"
    by (erule store_mutate_cases) auto
  show "store_mutate cfg c db = (Inr r, db') \<Longrightarrow> repo_FindOperationReceipt (command_actor c)
      (om_IdempotencyKey (command_operation c)) db' = Inr (Some r)"
    using store_receipt by (fastforce simp: repo_Find_Inr)
next
  fix c r db
  assume "repo_FindOperationReceipt (command_actor c) (om_IdempotencyKey (command_operation c)) db = Inr (Some r)"
  then obtain h where h: "findReceipt (command_actor c) (om_IdempotencyKey (command_operation c)) db = Some (h, r)"
    by (auto simp: repo_Find_Inr)
  obtain res db' where m: "store_mutate cfg c db = (res, db')" by (cases "store_mutate cfg c db")
  then show "snd (store_mutate cfg c db) = db"
    using h by (cases rule: store_mutate_cases) (auto simp: startMutation_Inr m)
next
  fix a k db r c
  assume "repo_FindOperationReceipt a k db = Inr (Some r)"
  then obtain h where h: "repo_begin a = None" "findReceipt a k db = Some (h, r)"
    by (auto simp: repo_Find_Inr)
  obtain rows where "st_operations (snd (store_mutate cfg c db)) = st_operations db @ rows"
    using store_operations_grow by blast
  then have "findReceipt a k (snd (store_mutate cfg c db)) = Some (h, r)"
    using findReceipt_append [OF h(2)] by blast
  with h(1) show "repo_FindOperationReceipt a k (snd (store_mutate cfg c db)) = Inr (Some r)"
    by (simp add: repo_Find_Inr)
qed

definition store_next :: "wo_config \<Rightarrow> wo_command \<Rightarrow> WOStore \<Rightarrow> WOStore" where
  "store_next cfg c db = snd (store_mutate cfg c db)"

lemma store_run_grow:
  "\<exists>rows. st_operations (run_ops (store_next cfg) cs db) = st_operations db @ rows"
proof (induction cs arbitrary: db)
  case Nil
  show ?case by simp
next
  case (Cons c cs)
  obtain rows where "st_operations (store_next cfg c db) = st_operations db @ rows"
    using store_operations_grow [of cfg c db] by (auto simp: store_next_def)
  then show ?case using Cons [of "store_next cfg c db"] by auto
qed

subsection \<open>Order rows\<close>

text \<open>
  How an order row may change: not at all, or by one revision, from the revision the command
  expected, keeping its identity, request and commercial state, and along the execution machine -
  a reassignment apart, which always leads to \<open>assigned\<close>.
\<close>

definition order_step :: "wo_command \<Rightarrow> WorkOrder \<Rightarrow> WorkOrder \<Rightarrow> bool" where
  "order_step c w w' \<longleftrightarrow> w' = w \<or>
     wo_Revision w' = wrap64 (wo_Revision w + 1) \<and>
     om_ExpectedRevision (command_operation c) = wo_Revision w \<and>
     wo_ID w' = wo_ID w \<and> wo_TenantID w' = wo_TenantID w \<and> wo_OrganizationID w' = wo_OrganizationID w \<and>
     wo_RequestState w' = wo_RequestState w \<and> wo_CommercialState w' = wo_CommercialState w \<and>
     (CanTransition (wo_ExecutionState w) (wo_ExecutionState w') \<or>
      (\<exists>x. c = ReassignScope x) \<and> wo_ExecutionState w' = ExecutionAssigned)"

lemma CanTransition_refl [simp]: "CanTransition s s"
  by (simp add: CanTransition_def)

lemma mutation_body_order:
  assumes "mutation_body cfg c h db = Inr (r, db')" and "st_orders db k = Some w"
  shows "\<exists>w'. st_orders db' k = Some w' \<and> order_step c w w'"
proof (cases c)
  case (CreateRequest x)
  then show ?thesis using assms
    by (auto simp: body_CreateRequest_def order_step_def Let_def dest!: store_writes)
next
  case (AssignScope x)
  then show ?thesis using assms
    by (auto simp: body_AssignScope_def order_step_def ValidateAssignScopeCommand_def out_of_scope_def
        CanTransition_from dest!: store_writes)
next
  case (TransitionExecution x)
  then show ?thesis using assms
    by (auto simp: body_TransitionExecution_def order_step_def ValidateTransitionExecutionCommand_def
        out_of_scope_def dest!: store_writes)
next
  case (SubmitPartial x)
  then show ?thesis using assms
    by (auto simp: body_SubmitPartial_def order_step_def ValidateSubmitPartialCommand_def
        out_of_scope_def dest!: store_writes)
next
  case (ReassignScope x)
  then show ?thesis using assms
    by (auto simp: body_ReassignScope_def order_step_def ValidateReassignScopeCommand_def
        out_of_scope_def dest!: store_writes)
next
  case (ReconcileProvisional x)
  then show ?thesis using assms
    by (auto simp: body_ReconcileProvisional_def order_step_def Let_def dest!: store_writes)
next
  case (RequestCertificateValidation x)
  then show ?thesis using assms
    by (auto simp: body_RequestCertificateValidation_def order_step_def
        ValidateCertificateValidationCommand_def out_of_scope_def dest!: store_writes)
next
  case (AddEvidenceReference x)
  then show ?thesis using assms
    by (auto simp: body_AddEvidenceReference_def order_step_def Let_def dest!: store_writes)
qed

lemma store_next_order:
  "st_orders db k = Some w \<Longrightarrow> \<exists>w'. st_orders (store_next cfg c db) k = Some w' \<and> order_step c w w'"
proof (cases "store_mutate cfg c db")
  case (Pair res db')
  assume "st_orders db k = Some w"
  with Pair show ?thesis
    by (cases rule: store_mutate_cases)
       (auto simp: store_next_def Pair order_step_def dest: mutation_body_order [unfolded order_step_def])
qed

subsection \<open>Tenant isolation\<close>

definition foreign :: "ActorContext \<Rightarrow> rowkey \<Rightarrow> bool" where
  "foreign a k \<longleftrightarrow> (fst k, fst (snd k)) \<noteq> (ac_TenantID a, ac_OrganizationID a)"

text \<open>Every row of the tables that is not of the actor's tenant and organization is as before.\<close>

definition isolated :: "ActorContext \<Rightarrow> WOStore \<Rightarrow> WOStore \<Rightarrow> bool" where
  "isolated a db db' \<longleftrightarrow>
     (\<forall>k. foreign a k \<longrightarrow> st_orders db' k = st_orders db k \<and> st_assignments db' k = st_assignments db k \<and>
        st_scope_items db' k = st_scope_items db k \<and> st_inspections db' k = st_inspections db k) \<and>
     filter (\<lambda>r. foreign a (fst r)) (st_assignment_scope db') = filter (\<lambda>r. foreign a (fst r)) (st_assignment_scope db) \<and>
     filter (\<lambda>r. foreign a (sg_Key r)) (st_segments db') = filter (\<lambda>r. foreign a (sg_Key r)) (st_segments db) \<and>
     filter (\<lambda>r. foreign a (sm_Segment r)) (st_submission_items db')
       = filter (\<lambda>r. foreign a (sm_Segment r)) (st_submission_items db) \<and>
     filter (\<lambda>r. foreign a (sv_Key r)) (st_state_events db') = filter (\<lambda>r. foreign a (sv_Key r)) (st_state_events db) \<and>
     filter (\<lambda>r. foreign a (fst r)) (st_evidence db') = filter (\<lambda>r. foreign a (fst r)) (st_evidence db) \<and>
     filter (\<lambda>r. foreign a (op_TenantID r, op_OrganizationID r, [])) (st_operations db')
       = filter (\<lambda>r. foreign a (op_TenantID r, op_OrganizationID r, [])) (st_operations db) \<and>
     filter (\<lambda>r. foreign a (pv_TenantID r, pv_OrganizationID r, [])) (st_provisional db')
       = filter (\<lambda>r. foreign a (pv_TenantID r, pv_OrganizationID r, [])) (st_provisional db)"

lemma foreign_key_of [simp]: "\<not> foreign a (key_of a i)"
  by (simp add: foreign_def key_of_def)

lemma foreign_own [simp]: "\<not> foreign a (ac_TenantID a, ac_OrganizationID a, i)"
  by (simp add: foreign_def)

lemma foreign_neq: "foreign a k \<Longrightarrow> k \<noteq> key_of a i"
  by auto

lemma isolated_refl: "isolated a db db"
  by (simp add: isolated_def)

lemma isolated_trans: "isolated a db db1 \<Longrightarrow> isolated a db1 db2 \<Longrightarrow> isolated a db db2"
  by (simp add: isolated_def)

lemma filter_false: "(\<And>x. x \<in> set xs \<Longrightarrow> \<not> P x) \<Longrightarrow> filter P xs = []"
  by simp

lemma isolated_writes:
  "finishMutation cfg a op h ty agg ex re r db = Inr db' \<Longrightarrow> isolated a db db'"
  "bumpOrder cfg a order s db = Inr (nrev, db') \<Longrightarrow> isolated a db db'"
  "insertStateEvent cfg a oid ty opid p n db = Inr db' \<Longrightarrow> isolated a db db'"
  "insertAssignment cfg a woid x db = Inr db' \<Longrightarrow> isolated a db db'"
  "insertAssignmentScope cfg a i ids db = Inr db' \<Longrightarrow> isolated a db db'"
  "insertSegment cfg c order y db = Inr db' \<Longrightarrow> isolated (spc_Actor c) db db'"
  by (auto dest!: store_writes simp: isolated_def dest: foreign_neq)

lemma isolated_accept_order:
  "accept_order cfg a op h ty oid nrev db = Inr (r, db') \<Longrightarrow> isolated a db db'"
  by (auto dest!: accept_order_Inr simp: isolated_def)

lemma isolated_submission:
  "RecordPartialSubmissionTx cfg a sg woid asid ms db = Inr db' \<Longrightarrow> isolated a db db'"
  by (auto dest!: RecordPartialSubmissionTx_Inr simp: isolated_def submit_inspections_def filter_map o_def
      split: prod.splits)

lemma isolated_provisional:
  assumes "upsertProvisional cfg c f db = Inr db'"
  shows "isolated (rpc_Actor c) db db'"
proof -
  have "filter (\<lambda>r. foreign a (pv_TenantID r, pv_OrganizationID r, []))
      (map (\<lambda>x. if prov_under a l x then x\<lparr>pv_CanonicalID := u, pv_ReconcileState := v, pv_ReconciledBy := w\<rparr>
                 else x) rows)
      = filter (\<lambda>r. foreign a (pv_TenantID r, pv_OrganizationID r, [])) rows" for a l u v w rows
    by (induction rows) (auto simp: prov_under_def)
  with assms show ?thesis
    by (auto simp: upsertProvisional_def Let_def isolated_def split: option.splits if_splits)
qed

lemma isolated_set_order: "isolated a db (db\<lparr>st_orders := (st_orders db)(key_of a i := x)\<rparr>)"
  by (auto simp: isolated_def dest: foreign_neq)

lemma isolated_set_assignment: "isolated a db (db\<lparr>st_assignments := (st_assignments db)(key_of a i := x)\<rparr>)"
  by (auto simp: isolated_def dest: foreign_neq)

lemma isolated_sym: "isolated a db db' \<Longrightarrow> isolated a db' db"
  by (simp add: isolated_def)

lemma isolated_set_iff:
  "isolated a (db\<lparr>st_orders := (st_orders db)(key_of a i := x)\<rparr>) db' \<longleftrightarrow> isolated a db db'"
  "isolated a (db\<lparr>st_assignments := (st_assignments db)(key_of a i := y)\<rparr>) db' \<longleftrightarrow> isolated a db db'"
  using isolated_set_order [of a db i x] isolated_set_assignment [of a db i y]
  by (blast intro: isolated_trans isolated_sym)+

lemma isolated_evidence: "isolated a db (db\<lparr>st_evidence := st_evidence db @ [(key_of a i, x)]\<rparr>)"
  by (simp add: isolated_def)

lemmas isolations = isolated_writes isolated_accept_order isolated_submission isolated_provisional

lemma mutation_body_isolated:
  assumes "mutation_precheck c = None" "mutation_body cfg c h db = Inr (r, db')"
  shows "isolated (command_actor c) db db'"
proof (cases c)
  case (CreateRequest x)
  with assms have "(wo_TenantID (cmd_WorkOrder x), wo_OrganizationID (cmd_WorkOrder x), wo_ID (cmd_WorkOrder x))
      = key_of (cmd_Actor x) (wo_ID (cmd_WorkOrder x))"
    by (auto simp: ValidateCreateRequestCommand_def key_of_def)
  with CreateRequest assms(2) show ?thesis
    by (auto simp: body_CreateRequest_def Let_def dest!: isolations
        intro: isolated_trans [OF isolated_set_order])
next
  case (AssignScope x)
  then show ?thesis using assms(2)
    by (auto simp: body_AssignScope_def dest!: isolations intro: isolated_trans)
next
  case (TransitionExecution x)
  then show ?thesis using assms(2)
    by (auto simp: body_TransitionExecution_def dest!: isolations intro: isolated_trans)
next
  case (SubmitPartial x)
  then show ?thesis using assms(2)
    by (auto simp: body_SubmitPartial_def dest!: isolations intro: isolated_trans)
next
  case (ReassignScope x)
  then show ?thesis using assms(2)
    by (auto simp: body_ReassignScope_def isolated_set_iff dest!: isolations)
       (meson isolated_trans)
next
  case (ReconcileProvisional x)
  then show ?thesis using assms(2)
    by (auto simp: body_ReconcileProvisional_def Let_def dest!: isolations intro: isolated_trans)
next
  case (RequestCertificateValidation x)
  then show ?thesis using assms(2)
    by (auto simp: body_RequestCertificateValidation_def isolated_set_iff dest!: isolations)
       (meson isolated_trans)
next
  case (AddEvidenceReference x)
  then show ?thesis using assms(2)
    by (auto simp: body_AddEvidenceReference_def Let_def dest!: isolations
        intro: isolated_trans [OF isolated_evidence])
qed

lemma store_next_isolated: "isolated (command_actor c) db (store_next cfg c db)"
proof (cases "store_mutate cfg c db")
  case (Pair res db')
  then show ?thesis
    by (cases rule: store_mutate_cases)
       (auto simp: store_next_def Pair isolated_refl intro: mutation_body_isolated)
qed

subsection \<open>Submitted inspections\<close>

definition submitted_key :: "SubmissionItemRow \<Rightarrow> rowkey" where
  "submitted_key r = (fst (sm_Segment r), fst (snd (sm_Segment r)), sm_InspectionID r)"

text \<open>No inspection was submitted twice, and every submitted one is no longer open.\<close>

definition closed_inspection :: "WOStore \<Rightarrow> rowkey \<Rightarrow> bool" where
  "closed_inspection db k \<longleftrightarrow>
     (case st_inspections db k of None \<Rightarrow> False | Some i \<Rightarrow> ir_FinalizationState i \<noteq> ''OPEN'')"

definition submissions_ok :: "WOStore \<Rightarrow> bool" where
  "submissions_ok db \<longleftrightarrow> distinct (map submitted_key (st_submission_items db)) \<and>
     list_all (\<lambda>r. closed_inspection db (submitted_key r)) (st_submission_items db)"

lemma membership_of_Some:
  "membership_of a w x db i = Some m \<Longrightarrow> fst m = i \<and>
     (\<exists>r. st_inspections db (key_of a i) = Some r \<and> ir_FinalizationState r = ''OPEN'')"
  by (auto simp: membership_of_def split: option.splits if_splits)

lemma map_filter_ids:
  "(\<And>i m. f i = Some m \<Longrightarrow> fst m = i) \<Longrightarrow>
     map fst (List.map_filter f xs) = filter (\<lambda>i. f i \<noteq> None) xs"
  by (induction xs) (auto simp: List.map_filter_simps split: option.splits)

lemma memberships_open:
  assumes "ValidatePartialSubmissionTx a w x ids db = Inr ms"
  shows "distinct (map fst ms) \<and> (\<forall>i \<in> set (map fst ms). \<not> closed_inspection db (key_of a i) \<and>
    st_inspections db (key_of a i) \<noteq> None)"
proof -
  have ms: "ms = List.map_filter (membership_of a w x db) (remdups ids)"
    using assms by (auto simp: ValidatePartialSubmissionTx_def Let_def)
  have fst: "map fst ms = filter (\<lambda>i. membership_of a w x db i \<noteq> None) (remdups ids)"
    unfolding ms by (rule map_filter_ids) (auto dest: membership_of_Some)
  then have "distinct (map fst ms)" by simp
  moreover have "\<not> closed_inspection db (key_of a i) \<and> st_inspections db (key_of a i) \<noteq> None"
    if "i \<in> set (map fst ms)" for i
    using that unfolding fst by (auto simp: closed_inspection_def dest: membership_of_Some)
  ultimately show ?thesis by blast
qed

lemma submitted_key_row:
  "submitted_key \<lparr>sm_Segment = key_of a sg, sm_WorkOrderID = w, sm_AssignmentID = x,
     sm_ScopeItemID = s, sm_InspectionID = i\<rparr> = key_of a i"
  by (simp add: submitted_key_def key_of_def)

lemma closed_after_submit:
  "closed_inspection (db\<lparr>st_submission_items := rows, st_inspections := submit_inspections a ids (st_inspections db)\<rparr>) k
     \<longleftrightarrow> closed_inspection db k \<or> (st_inspections db k \<noteq> None \<and> k \<in> key_of a ` set ids)"
  by (auto simp: closed_inspection_def submit_inspections_def split: option.splits)

lemma key_of_inject [simp]: "key_of a i = key_of a j \<longleftrightarrow> i = j"
  by (simp add: key_of_def)

lemma submissions_ok_record:
  assumes ok: "submissions_ok db"
    and ms: "distinct (map fst ms)" "\<forall>i \<in> set (map fst ms). \<not> closed_inspection db (key_of a i) \<and>
      st_inspections db (key_of a i) \<noteq> None"
    and rec: "RecordPartialSubmissionTx cfg a sg w x ms db = Inr db'"
  shows "submissions_ok db'"
proof -
  let ?rows = "map (\<lambda>(i, s). \<lparr>sm_Segment = key_of a sg, sm_WorkOrderID = w, sm_AssignmentID = x,
      sm_ScopeItemID = s, sm_InspectionID = i\<rparr>) ms"
  have db': "db' = db\<lparr>st_submission_items := st_submission_items db @ ?rows,
      st_inspections := submit_inspections a (map fst ms) (st_inspections db)\<rparr>"
    using RecordPartialSubmissionTx_Inr [OF rec] .
  have keys: "map submitted_key ?rows = map (key_of a) (map fst ms)"
    by (auto simp: submitted_key_row)
  have "distinct (map submitted_key (st_submission_items db @ ?rows))"
    unfolding map_append keys distinct_append
    using ok ms by (auto simp: submissions_ok_def distinct_map inj_on_def list_all_iff)
  moreover have "closed_inspection db' (submitted_key r)"
    if "r \<in> set (st_submission_items db @ ?rows)" for r
    using that ok ms(2) unfolding db' closed_after_submit
    by (auto simp: submissions_ok_def list_all_iff submitted_key_row) (force simp: image_iff)
  ultimately show ?thesis
    unfolding submissions_ok_def db' by (simp add: list_all_iff)
qed

lemma submissions_ok_frame:
  "submissions_ok db \<Longrightarrow> st_submission_items db' = st_submission_items db \<Longrightarrow>
     st_inspections db' = st_inspections db \<Longrightarrow> submissions_ok db'"
  by (simp add: submissions_ok_def closed_inspection_def)

lemma mutation_body_frame:
  assumes "mutation_body cfg c h db = Inr (r, db')" and "\<nexists>x. c = SubmitPartial x"
  shows "st_submission_items db' = st_submission_items db \<and> st_inspections db' = st_inspections db"
proof (cases c)
  case (CreateRequest x)
  then show ?thesis using assms by (auto simp: body_CreateRequest_def Let_def dest!: store_writes)
next
  case (AssignScope x)
  then show ?thesis using assms by (auto simp: body_AssignScope_def dest!: store_writes)
next
  case (TransitionExecution x)
  then show ?thesis using assms by (auto simp: body_TransitionExecution_def dest!: store_writes)
next
  case (SubmitPartial x)
  then show ?thesis using assms by blast
next
  case (ReassignScope x)
  then show ?thesis using assms by (auto simp: body_ReassignScope_def dest!: store_writes)
next
  case (ReconcileProvisional x)
  then show ?thesis using assms by (auto simp: body_ReconcileProvisional_def Let_def dest!: store_writes)
next
  case (RequestCertificateValidation x)
  then show ?thesis using assms
    by (auto simp: body_RequestCertificateValidation_def dest!: store_writes)
next
  case (AddEvidenceReference x)
  then show ?thesis using assms by (auto simp: body_AddEvidenceReference_def Let_def dest!: store_writes)
qed

lemma body_SubmitPartial_Inr:
  assumes "body_SubmitPartial cfg c h db = Inr (r, db')"
  shows "\<exists>w x ms db1 db2. ValidatePartialSubmissionTx (spc_Actor c) w x (spc_InspectionIDs c) db = Inr ms \<and>
    st_submission_items db1 = st_submission_items db \<and> st_inspections db1 = st_inspections db \<and>
    RecordPartialSubmissionTx cfg (spc_Actor c) (om_OperationID (spc_Operation c)) w x ms db1 = Inr db2 \<and>
    st_submission_items db' = st_submission_items db2 \<and> st_inspections db' = st_inspections db2"
proof -
  obtain w x ms db1 db2 n db3 where step:
    "ValidatePartialSubmissionTx (spc_Actor c) (wo_ID w) (as_ID x) (spc_InspectionIDs c) db = Inr ms"
    "insertSegment cfg c w x db = Inr db1"
    "RecordPartialSubmissionTx cfg (spc_Actor c) (om_OperationID (spc_Operation c)) (wo_ID w) (as_ID x)
       ms db1 = Inr db2"
    "bumpOrder cfg (spc_Actor c) w ExecutionPartiallySubmitted db2 = Inr (n, db3)"
    "accept_order cfg (spc_Actor c) (spc_Operation c) h ''submit_partial'' (wo_ID w) n db3 = Inr (r, db')"
    using assms by (auto simp: body_SubmitPartial_def)
  have "st_submission_items db1 = st_submission_items db \<and> st_inspections db1 = st_inspections db"
    using insertSegment_Inr [OF step(2)] by auto
  moreover have "st_submission_items db3 = st_submission_items db2 \<and> st_inspections db3 = st_inspections db2"
    using bumpOrder_Inr [OF step(4)] by auto
  moreover have "st_submission_items db' = st_submission_items db3 \<and> st_inspections db' = st_inspections db3"
    using accept_order_Inr [OF step(5)] by auto
  ultimately show ?thesis using step(1,3) by metis
qed

lemma submissions_ok_step: "submissions_ok db \<Longrightarrow> submissions_ok (store_next cfg c db)"
proof -
  assume ok: "submissions_ok db"
  have body: "submissions_ok db'" if m: "mutation_body cfg c h db = Inr (r, db')" for h r db'
  proof (cases "\<exists>x. c = SubmitPartial x")
    case False
    then show ?thesis using mutation_body_frame [OF m] submissions_ok_frame [OF ok] by blast
  next
    case True
    then obtain x where "c = SubmitPartial x" by blast
    with m have "body_SubmitPartial cfg x h db = Inr (r, db')" by simp
    then obtain w y ms db1 db2 where step:
      "ValidatePartialSubmissionTx (spc_Actor x) w y (spc_InspectionIDs x) db = Inr ms"
      "st_submission_items db1 = st_submission_items db" "st_inspections db1 = st_inspections db"
      "RecordPartialSubmissionTx cfg (spc_Actor x) (om_OperationID (spc_Operation x)) w y ms db1 = Inr db2"
      "st_submission_items db' = st_submission_items db2" "st_inspections db' = st_inspections db2"
      using body_SubmitPartial_Inr by blast
    have "submissions_ok db1" using submissions_ok_frame [OF ok step(2,3)] .
    moreover have "closed_inspection db1 = closed_inspection db"
      by (simp add: closed_inspection_def step(3) fun_eq_iff)
    ultimately have "submissions_ok db2"
      using submissions_ok_record [OF _ _ _ step(4)] memberships_open [OF step(1)] step(3) by simp
    then show ?thesis using submissions_ok_frame step(5,6) by blast
  qed
  show ?thesis
  proof (cases "store_mutate cfg c db")
    case (Pair res db')
    then show ?thesis
      using ok body by (cases rule: store_mutate_cases) (auto simp: store_next_def Pair)
  qed
qed

interpretation wo_submissions: aggregate "store_next cfg" submissions_ok for cfg
  by unfold_locales (rule submissions_ok_step)

subsection \<open>A concrete store, for the witnesses\<close>

definition demo_cfg :: wo_config where
  "demo_cfg = \<lparr>hashPayload = (\<lambda>p. case p of HashCommand (ReassignScope x) \<Rightarrow> ''h2'' | _ \<Rightarrow> ''h1''),
     admits = (\<lambda>db. True), has_inspectionMembership = True\<rparr>"

definition demo_actor :: ActorContext where
  "demo_actor = \<lparr>ac_TenantID = ''t'', ac_OrganizationID = ''o'', ac_ActorID = ''m'',
     ac_Role = ''manager'', ac_Capabilities = [''workorder.transition_execution'']\<rparr>"

definition demo_operation :: OperationMeta where
  "demo_operation = \<lparr>om_OperationID = ''op1'', om_IdempotencyKey = ''k1'', om_ExpectedRevision = 1\<rparr>"

definition demo_store :: WOStore where
  "demo_store = \<lparr>st_orders = [(''t'', ''o'', ''w1'') \<mapsto> demo_order],
     st_assignments = [(''t'', ''o'', ''a1'') \<mapsto> demo_assignment],
     st_assignment_scope = [((''t'', ''o'', ''a1''), ''s'')],
     st_scope_items = [(''t'', ''o'', ''s'') \<mapsto> \<lparr>sr_WorkOrderID = ''w1'', sr_AssetID = ''x''\<rparr>],
     st_inspections = Map.empty, st_segments = [], st_submission_items = [], st_operations = [],
     st_state_events = [], st_provisional = [], st_evidence = []\<rparr>"

definition demo_transition :: TransitionExecutionCommand where
  "demo_transition = \<lparr>tec_Actor = demo_actor, tec_Operation = demo_operation, tec_WorkOrderID = ''w1'',
     tec_From = ExecutionInProgress, tec_To = ExecutionCompleted\<rparr>"

definition demo_reassign :: ReassignScopeCommand where
  "demo_reassign = \<lparr>rsc_Actor = demo_actor, rsc_Operation = demo_operation, rsc_WorkOrderID = ''w1'',
     rsc_Previous = demo_assignment, rsc_Replacement = demo_assignment\<lparr>as_ID := ''a2''\<rparr>,
     rsc_ScopeItemIDs = [''s'']\<rparr>"

lemmas demo_defs = demo_cfg_def demo_actor_def demo_operation_def demo_store_def demo_transition_def
  demo_reassign_def demo_order_def demo_assignment_def

lemmas store_eval = store_mutate_def startMutation_def repo_begin_def ActorContext_Validate_def
  OperationMeta_Validate_def findReceipt_def op_under_def store_bodies key_of_def
  validateActorOperation_def out_of_scope_def bumpOrder_def written_def insertStateEvent_def
  accept_order_def finishMutation_def Let_def CanTransition_def execution_allowed_def
  ValidateTransitionExecutionCommand_def ValidateReassignScopeCommand_def Assignment_ValidateFor_def
  time_IsZero_def verifyScopeIDs_def loadAssignment_def loadOrder_def insertAssignment_def
  insertAssignmentScope_def

lemma demo_transition_accepted:
  "\<exists>r db'. store_mutate demo_cfg (TransitionExecution demo_transition) demo_store = (Inr r, db')"
  by (simp add: store_eval demo_defs)

lemma demo_reassign_accepted:
  "\<exists>r db'. store_mutate demo_cfg (ReassignScope demo_reassign)
     (demo_store\<lparr>st_orders := [(''t'', ''o'', ''w1'') \<mapsto> demo_order\<lparr>wo_ExecutionState := ExecutionCompleted\<rparr>]\<rparr>)
       = (Inr r, db')"
  by (simp add: store_eval demo_defs)

subsection \<open>Properties\<close>

lemma store_replay:
  assumes "findReceipt (command_actor c) (om_IdempotencyKey (command_operation c)) db = Some (h, r)"
    and "OperationMeta_Validate (command_operation c) = None" "repo_begin (command_actor c) = None"
    and "mutation_precheck c = None"
  shows "store_mutate cfg c db =
    (if h = hashPayload cfg (mutation_payload c) then Inr r else Inl ErrIdempotencyMismatch, db)"
  using assms by (simp add: store_mutate_def startMutation_def Let_def)

lemma findReceipt_cong:
  "ac_TenantID a = ac_TenantID b \<Longrightarrow> ac_OrganizationID a = ac_OrganizationID b \<Longrightarrow>
     findReceipt a k db = findReceipt b k db"
  by (simp add: findReceipt_def op_under_def [abs_def])

text \<open>C6: exactly once. After a mutation was accepted, and whatever was run since, the same command
  is answered with the same receipt and changes nothing; and a command of the same tenant and
  organization that reuses the idempotency key with another payload hash is refused and changes
  nothing.\<close>

theorem store_exactly_once:
  assumes "store_mutate cfg c db = (Inr r, db1)" and "db2 = run_ops (store_next cfg) cs db1"
  shows "store_mutate cfg c db2 = (Inr r, db2) \<and>
    (\<forall>c'. ac_TenantID (command_actor c') = ac_TenantID (command_actor c) \<and>
        ac_OrganizationID (command_actor c') = ac_OrganizationID (command_actor c) \<and>
        om_IdempotencyKey (command_operation c') = om_IdempotencyKey (command_operation c) \<and>
        hashPayload cfg (mutation_payload c') \<noteq> hashPayload cfg (mutation_payload c) \<longrightarrow>
      (\<exists>e. store_mutate cfg c' db2 = (Inl e, db2)))"
proof -
  note r = store_receipt [OF assms(1)]
  obtain rows where "st_operations db2 = st_operations db1 @ rows"
    using store_run_grow [of cfg cs db1] assms(2) by auto
  then have f: "findReceipt (command_actor c) (om_IdempotencyKey (command_operation c)) db2
      = Some (hashPayload cfg (mutation_payload c), r)"
    using findReceipt_append r by blast
  have "\<exists>e. store_mutate cfg c' db2 = (Inl e, db2)"
    if "findReceipt (command_actor c') (om_IdempotencyKey (command_operation c')) db2
          = Some (hashPayload cfg (mutation_payload c), r)"
      "hashPayload cfg (mutation_payload c') \<noteq> hashPayload cfg (mutation_payload c)" for c'
    using that by (auto simp: store_mutate_def startMutation_def Let_def split: option.splits)
  note reuse = this
  show ?thesis
  proof (intro conjI allI impI)
    show "store_mutate cfg c db2 = (Inr r, db2)"
      using store_replay [OF f] r by simp
  next
    fix c'
    assume c': "ac_TenantID (command_actor c') = ac_TenantID (command_actor c) \<and>
        ac_OrganizationID (command_actor c') = ac_OrganizationID (command_actor c) \<and>
        om_IdempotencyKey (command_operation c') = om_IdempotencyKey (command_operation c) \<and>
        hashPayload cfg (mutation_payload c') \<noteq> hashPayload cfg (mutation_payload c)"
    then have "findReceipt (command_actor c') (om_IdempotencyKey (command_operation c')) db2
        = Some (hashPayload cfg (mutation_payload c), r)"
      using f findReceipt_cong [of "command_actor c'" "command_actor c"] by simp
    then show "\<exists>e. store_mutate cfg c' db2 = (Inl e, db2)" using reuse c' by blast
  qed
qed

text \<open>C39: optimistic concurrency. A mutation never deletes an order row, and changes it only by one
  revision, only when the revision it expected is the stored one, keeping its identity, its request
  and its commercial state, and along the execution machine - a reassignment apart, which leads to
  \<open>assigned\<close>. So of two mutations that expect the same revision at most one changes the order.\<close>

theorem store_order_revisions:
  assumes "st_orders db k = Some w" and "wo_Revision w < max_int64" "min_int64 \<le> wo_Revision w"
  shows "\<exists>w'. st_orders (store_next cfg c db) k = Some w' \<and>
    (w' = w \<or> wo_Revision w' = wo_Revision w + 1 \<and>
       om_ExpectedRevision (command_operation c) = wo_Revision w \<and>
       wo_ID w' = wo_ID w \<and> wo_TenantID w' = wo_TenantID w \<and> wo_RequestState w' = wo_RequestState w \<and>
       wo_CommercialState w' = wo_CommercialState w \<and>
       (CanTransition (wo_ExecutionState w) (wo_ExecutionState w') \<or>
        (\<exists>x. c = ReassignScope x) \<and> wo_ExecutionState w' = ExecutionAssigned)) \<and>
    (\<forall>c'. om_ExpectedRevision (command_operation c') = om_ExpectedRevision (command_operation c) \<and> w' \<noteq> w \<longrightarrow>
       st_orders (store_next cfg c' (store_next cfg c db)) k = Some w')"
proof -
  obtain w' where w': "st_orders (store_next cfg c db) k = Some w'" "order_step c w w'"
    using store_next_order [OF assms(1)] by blast
  have inc: "wrap64 (wo_Revision w + 1) = wo_Revision w + 1"
    using assms(2,3) by (intro wrap64_Suc) (simp_all add: in_int64_def)
  have "st_orders (store_next cfg c' (store_next cfg c db)) k = Some w'"
    if same: "om_ExpectedRevision (command_operation c') = om_ExpectedRevision (command_operation c)"
      and "w' \<noteq> w" for c'
  proof -
    obtain w'' where "st_orders (store_next cfg c' (store_next cfg c db)) k = Some w''" "order_step c' w' w''"
      using store_next_order [OF w'(1)] by blast
    then show ?thesis
      using w'(2) same \<open>w' \<noteq> w\<close> inc by (auto simp: order_step_def)
  qed
  with w' inc show ?thesis unfolding order_step_def by (intro exI [of _ w']) auto
qed

text \<open>Tenant isolation. Whatever run of commands the actors of other tenants and organizations
  make, a tenant's orders, assignments, inspections, operations and submissions stay as they were.\<close>

theorem store_tenant_isolation:
  assumes "\<forall>c \<in> set cs. (ac_TenantID (command_actor c), ac_OrganizationID (command_actor c)) \<noteq> (t, org)"
    and "db' = run_ops (store_next cfg) cs db"
  shows "st_orders db' (t, org, i) = st_orders db (t, org, i) \<and>
    st_assignments db' (t, org, i) = st_assignments db (t, org, i) \<and>
    st_inspections db' (t, org, i) = st_inspections db (t, org, i) \<and>
    filter (\<lambda>r. op_TenantID r = t \<and> op_OrganizationID r = org) (st_operations db')
      = filter (\<lambda>r. op_TenantID r = t \<and> op_OrganizationID r = org) (st_operations db)"
  using assms
proof (induction cs arbitrary: db)
  case Nil
  then show ?case by simp
next
  case (Cons c cs)
  let ?a = "command_actor c"
  have iso: "isolated ?a db (store_next cfg c db)" by (rule store_next_isolated)
  have fr: "foreign ?a (t, org, x)" for x using Cons.prems(1) by (auto simp: foreign_def)
  let ?mine = "\<lambda>r. op_TenantID r = t \<and> op_OrganizationID r = org"
  let ?foreign = "\<lambda>r. foreign ?a (op_TenantID r, op_OrganizationID r, [])"
  have sub: "filter ?mine xs = filter ?mine (filter ?foreign xs)" for xs
    using fr by (auto intro!: filter_cong)
  have "filter ?foreign (st_operations (store_next cfg c db)) = filter ?foreign (st_operations db)"
    using iso unfolding isolated_def by (elim conjE)
  then have "filter ?mine (st_operations (store_next cfg c db)) = filter ?mine (st_operations db)"
    using sub [of "st_operations (store_next cfg c db)"] sub [of "st_operations db"] by (simp only:)
  moreover have "st_orders (store_next cfg c db) (t, org, i) = st_orders db (t, org, i)"
      "st_assignments (store_next cfg c db) (t, org, i) = st_assignments db (t, org, i)"
      "st_inspections (store_next cfg c db) (t, org, i) = st_inspections db (t, org, i)"
    using iso fr unfolding isolated_def by blast+
  moreover have others: "\<forall>c \<in> set cs.
      (ac_TenantID (command_actor c), ac_OrganizationID (command_actor c)) \<noteq> (t, org)"
    using Cons.prems(1) by simp
  moreover have run: "db' = run_ops (store_next cfg) cs (store_next cfg c db)"
    using Cons.prems(2) by simp
  ultimately show ?case
    using Cons.IH [OF others run] by (simp only:)
qed

text \<open>Each inspection is submitted at most once. In every state that mutations reach from one
  without submissions, no inspection of a tenant is in two submission items, and every submitted
  inspection has left the open state.\<close>

theorem inspections_submitted_once:
  assumes "st_submission_items db = []" and "db' = run_ops (store_next cfg) cs db"
  shows "distinct (map (\<lambda>r. (fst (sm_Segment r), fst (snd (sm_Segment r)), sm_InspectionID r))
      (st_submission_items db')) \<and>
    (\<forall>r \<in> set (st_submission_items db'). \<exists>i.
       st_inspections db' (fst (sm_Segment r), fst (snd (sm_Segment r)), sm_InspectionID r) = Some i \<and>
       ir_FinalizationState i \<noteq> ''OPEN'')"
proof -
  have "submissions_ok db'"
    using wo_submissions.run_inv [of db] assms by (simp add: submissions_ok_def)
  then show ?thesis
    by (auto simp: submissions_ok_def submitted_key_def [abs_def] closed_inspection_def list_all_iff
        split: option.splits)
qed

text \<open>A reassignment reopens. An accepted reassignment leads the order to \<open>assigned\<close> from whatever
  state it was in - out of \<open>completed\<close>, too, which the execution machine never leaves.\<close>

theorem reassignment_reopens:
  assumes "store_mutate cfg (ReassignScope x) db = (Inr r, db')"
    and "findReceipt (rsc_Actor x) (om_IdempotencyKey (rsc_Operation x)) db = None"
    and "st_orders db (key_of (rsc_Actor x) (rsc_WorkOrderID x)) = Some w"
  shows "\<exists>w'. st_orders db' (key_of (rsc_Actor x) (rsc_WorkOrderID x)) = Some w' \<and>
    wo_ExecutionState w' = ExecutionAssigned \<and>
    (wo_ExecutionState w = ExecutionCompleted \<longrightarrow> \<not> CanTransition (wo_ExecutionState w) (wo_ExecutionState w'))"
  using assms(1)
proof (cases rule: store_mutate_cases)
  case (refused e)
  then show ?thesis by simp
next
  case (replayed r')
  then show ?thesis using assms(2) by (simp add: startMutation_Inr)
next
  case (accepted r')
  then show ?thesis using assms(3)
    by (auto simp: body_ReassignScope_def ValidateReassignScopeCommand_def out_of_scope_def
        CanTransition_from dest!: store_writes)
qed

lemma reassignment_reopens_witness:
  "\<exists>r db' w'. store_mutate demo_cfg (ReassignScope demo_reassign)
     (demo_store\<lparr>st_orders := [(''t'', ''o'', ''w1'') \<mapsto> demo_order\<lparr>wo_ExecutionState := ExecutionCompleted\<rparr>]\<rparr>)
       = (Inr r, db') \<and> st_orders db' (''t'', ''o'', ''w1'') = Some w' \<and>
     wo_ExecutionState w' = ExecutionAssigned"
proof -
  let ?db = "demo_store\<lparr>st_orders := [(''t'', ''o'', ''w1'') \<mapsto> demo_order\<lparr>wo_ExecutionState := ExecutionCompleted\<rparr>]\<rparr>"
  obtain r db' where m: "store_mutate demo_cfg (ReassignScope demo_reassign) ?db = (Inr r, db')"
    using demo_reassign_accepted by blast
  have k: "key_of (rsc_Actor demo_reassign) (rsc_WorkOrderID demo_reassign) = (''t'', ''o'', ''w1'')"
    by (simp add: demo_defs key_of_def)
  have f: "findReceipt (rsc_Actor demo_reassign) (om_IdempotencyKey (rsc_Operation demo_reassign)) ?db = None"
    by (simp add: demo_defs findReceipt_def)
  have o: "st_orders ?db (key_of (rsc_Actor demo_reassign) (rsc_WorkOrderID demo_reassign))
      = Some (demo_order\<lparr>wo_ExecutionState := ExecutionCompleted\<rparr>)"
    by (simp add: k)
  from reassignment_reopens [OF m f o] m show ?thesis unfolding k by blast
qed

text \<open>What the authorizer of the deployment asks for each command.\<close>

fun command_capability :: "wo_command \<Rightarrow> string" where
  "command_capability (CreateRequest c) = ''workorder.create_request''"
| "command_capability (AssignScope c) = ''workorder.assign_scope''"
| "command_capability (TransitionExecution c) = ''workorder.transition_execution''"
| "command_capability (SubmitPartial c) = ''workorder.submit_partial''"
| "command_capability (ReassignScope c) = ''workorder.reassign_scope''"
| "command_capability (ReconcileProvisional c) = ''workorder.reconcile_provisional''"
| "command_capability (RequestCertificateValidation c) = ''workorder.request_certificate_validation''"
| "command_capability (AddEvidenceReference c) = ''workorder.add_evidence_reference''"

lemma has_iff [simp]: "has vs v \<longleftrightarrow> v \<in> set vs"
  by (induction vs) auto

lemma authorize_None:
  "authorize a cap roles = None \<longleftrightarrow> ac_Role a \<in> set roles \<and> cap \<in> set (ac_Capabilities a)"
  by (simp add: authorize_def)

lemma authorizeOrder_None:
  "authorizeOrder a w cap roles = None \<longleftrightarrow> ac_TenantID a = wo_TenantID w \<and>
     ac_OrganizationID a = wo_OrganizationID w \<and> ac_Role a \<in> set roles \<and> cap \<in> set (ac_Capabilities a)"
  by (auto simp: authorizeOrder_def authorize_None)

lemma bind_None [simp]:
  "(case m of Inl x \<Rightarrow> Some (f x) | Inr z \<Rightarrow> g z) = None \<longleftrightarrow> (\<exists>z. m = Inr z \<and> g z = None)"
  by (cases m) simp_all

lemma service_checks_authorized:
  assumes "service_checks (store_deps cfg gate) now c w = None"
  shows "command_capability c \<in> set (ac_Capabilities (command_actor c)) \<and>
    ac_Role (command_actor c) \<in> {''manager'', ''administrator'', ''inspector'', ''reviewer''}"
  using assms
  by (cases c) (auto simp: store_deps_def workorderauth_def authorize_None authorizeOrder_None
      auth_CanSubmitPartial_def auth_CanReconcileProvisional_def)

text \<open>No mutation without authority. A call of the service that changes the store, or returns a
  receipt, was made by an actor who holds the capability of the command and one of the roles; a
  call that returns an error changes nothing.\<close>

theorem service_authorized:
  assumes "service_call (store_deps cfg gate) now c db = (res, db')"
  shows "(res = Inr r \<or> db' \<noteq> db \<longrightarrow> command_capability c \<in> set (ac_Capabilities (command_actor c)) \<and>
      ac_Role (command_actor c) \<in> {''manager'', ''administrator'', ''inspector'', ''reviewer''}) \<and>
    (res = Inl e \<longrightarrow> db' = db)"
proof (cases "service_checks (store_deps cfg gate) now c db")
  case (Some x)
  with assms show ?thesis by (auto simp: service_call_def)
next
  case None
  have "res = Inl e \<longrightarrow> db' = db"
    using assms None wo_repo.refused_keeps
    by (auto simp: service_call_def service_execute_def store_deps_def split: option.splits sum.splits)
  with service_checks_authorized [OF None] show ?thesis by blast
qed

lemma service_authorized_witness:
  "\<exists>res db'. service_call (store_deps demo_cfg None) 5 (TransitionExecution demo_transition) demo_store
     = (res, db') \<and> (\<forall>e. res = Inl e \<longrightarrow> db' = demo_store)"
proof -
  obtain res db' where s: "service_call (store_deps demo_cfg None) 5 (TransitionExecution demo_transition)
      demo_store = (res, db')"
    by (cases "service_call (store_deps demo_cfg None) 5 (TransitionExecution demo_transition) demo_store")
  from service_authorized [OF s] s show ?thesis by blast
qed

text \<open>Retries at the service. The repository would answer the retry of an accepted transition with
  its receipt, but the service checks the command against the order before it looks for the receipt:
  a retry of a transition that really changed the state is refused as an invalid transition.\<close>

theorem service_retry_refused:
  assumes "service_call (store_deps cfg gate) now (TransitionExecution c) db = (Inr r, db1)"
    and "findReceipt (tec_Actor c) (om_IdempotencyKey (tec_Operation c)) db = None"
    and "tec_From c \<noteq> tec_To c"
  shows "store_mutate cfg (TransitionExecution c) db1 = (Inr r, db1) \<and>
    service_call (store_deps cfg gate) now' (TransitionExecution c) db1
      = (Inl (Domain ErrInvalidTransition), db1)"
proof -
  have none: "service_checks (store_deps cfg gate) now (TransitionExecution c) db = None"
    using assms(1) by (cases "service_checks (store_deps cfg gate) now (TransitionExecution c) db")
      (auto simp: service_call_def)
  then have b: "repo_begin (tec_Actor c) = None"
    by (auto simp: store_deps_def repo_GetWorkOrder_def)
  have m: "store_mutate cfg (TransitionExecution c) db = (Inr r, db1)"
    using assms(1,2) none b
    by (auto simp: service_call_def service_execute_def store_deps_def repo_FindOperationReceipt_def
        split: option.splits)
  from m have "\<exists>w'. st_orders db1 (key_of (tec_Actor c) (tec_WorkOrderID c)) = Some w' \<and>
      wo_ExecutionState w' = tec_To c \<and> validateActorOperation (tec_Actor c) (tec_Operation c) = None"
  proof (cases rule: store_mutate_cases)
    case (replayed r')
    then show ?thesis using assms(2) by (simp add: startMutation_Inr)
  next
    case (accepted r')
    then show ?thesis
      by (auto simp: body_TransitionExecution_def ValidateTransitionExecutionCommand_def out_of_scope_def
          dest!: store_writes)
  qed simp
  then have "service_checks (store_deps cfg gate) now' (TransitionExecution c) db1
      = Some (Domain ErrInvalidTransition)"
    using assms(3) b
    by (auto simp: store_deps_def repo_GetWorkOrder_def loadOrder_def ValidateTransitionExecutionCommand_def)
  moreover have "store_mutate cfg (TransitionExecution c) db1 = (Inr r, db1)"
    using store_replay [of "TransitionExecution c" db1 _ r cfg] store_receipt [OF m] by simp
  ultimately show ?thesis by (simp add: service_call_def)
qed

lemma service_retry_refused_witness:
  "\<exists>r db1. service_call (store_deps demo_cfg None) 5 (TransitionExecution demo_transition) demo_store
       = (Inr r, db1) \<and>
     service_call (store_deps demo_cfg None) 6 (TransitionExecution demo_transition) db1
       = (Inl (Domain ErrInvalidTransition), db1)"
proof -
  have ck: "service_checks (store_deps demo_cfg None) 5 (TransitionExecution demo_transition) demo_store = None"
    by (simp add: store_deps_def workorderauth_def repo_GetWorkOrder_def store_eval demo_defs
        authorizeOrder_def authorize_def)
  have f: "findReceipt (tec_Actor demo_transition) (om_IdempotencyKey (tec_Operation demo_transition))
      demo_store = None"
    by (simp add: demo_defs findReceipt_def)
  obtain r db1 where m:
    "store_mutate demo_cfg (TransitionExecution demo_transition) demo_store = (Inr r, db1)"
    using demo_transition_accepted by blast
  have b: "repo_begin (tec_Actor demo_transition) = None"
      "validateActorOperation (tec_Actor demo_transition) (tec_Operation demo_transition) = None"
    by (simp_all add: demo_defs store_eval)
  have s: "service_call (store_deps demo_cfg None) 5 (TransitionExecution demo_transition) demo_store
      = (Inr r, db1)"
    unfolding service_call_def ck
    by (simp add: service_execute_def b f m store_deps_def repo_FindOperationReceipt_def)
  from service_retry_refused [OF s f] s show ?thesis by (auto simp: demo_transition_def)
qed

lemma store_exactly_once_witness:
  "\<exists>r db1. store_mutate demo_cfg (TransitionExecution demo_transition) demo_store = (Inr r, db1) \<and>
     store_mutate demo_cfg (TransitionExecution demo_transition) db1 = (Inr r, db1) \<and>
     (\<exists>e. store_mutate demo_cfg (ReassignScope demo_reassign) db1 = (Inl e, db1))"
proof -
  obtain r db1 where m: "store_mutate demo_cfg (TransitionExecution demo_transition) demo_store = (Inr r, db1)"
    using demo_transition_accepted by blast
  have "db1 = run_ops (store_next demo_cfg) [] db1" by simp
  from store_exactly_once [OF m this] m show ?thesis
    by (auto simp: demo_transition_def demo_reassign_def demo_cfg_def)
qed

lemma store_order_revisions_witness:
  "\<exists>w'. st_orders (store_next demo_cfg (TransitionExecution demo_transition) demo_store) (''t'', ''o'', ''w1'')
     = Some w' \<and> wo_ID w' = ''w1''"
proof -
  have "st_orders demo_store (''t'', ''o'', ''w1'') = Some demo_order" "wo_Revision demo_order < max_int64"
      "min_int64 \<le> wo_Revision demo_order"
    by (simp_all add: demo_store_def demo_order_def max_int64_def min_int64_def)
  from store_order_revisions [OF this, of demo_cfg "TransitionExecution demo_transition"]
  show ?thesis by (auto simp: demo_order_def)
qed

lemma store_tenant_isolation_witness:
  "st_orders (run_ops (store_next demo_cfg) [TransitionExecution demo_transition] demo_store) (''t2'', ''o'', ''w1'')
     = None"
proof -
  have "\<forall>c \<in> set [TransitionExecution demo_transition].
      (ac_TenantID (command_actor c), ac_OrganizationID (command_actor c)) \<noteq> (''t2'', ''o'')"
    by (simp add: demo_transition_def demo_actor_def)
  from store_tenant_isolation [OF this refl, of demo_cfg demo_store "''w1''"]
  show ?thesis by (simp add: demo_store_def)
qed

lemma inspections_submitted_once_witness:
  "distinct (map (\<lambda>r. (fst (sm_Segment r), fst (snd (sm_Segment r)), sm_InspectionID r))
      (st_submission_items (run_ops (store_next demo_cfg) [TransitionExecution demo_transition] demo_store)))"
proof -
  have "st_submission_items demo_store = []" by (simp add: demo_store_def)
  from inspections_submitted_once [OF this refl] show ?thesis by (rule conjunct1)
qed

end
