(* ===== verification/Device_Trust.thy ===== *)
theory Device_Trust
  imports Shared_Kernel
begin

text \<open>
  Devices, their trust state and authority epoch, the authority packages signed for them
  (\<open>internal/domain/device_trust/device_trust.go\<close>), and enrollment and key rotation
  (\<open>internal/domain/device_trust/enrollment.go\<close>).

  The epoch is a \<open>uint64\<close> and wraps. \<open>now\<close> is the clock reading of the event.
\<close>

record Device =
  d_id :: string
  d_tenantID :: string
  d_organizationID :: string
  d_userID :: string
  d_publicKey :: string
  d_state :: DeviceTrustState
  d_epoch :: uint64
  d_emitted :: "Envelope list"

datatype device_error =
    DeviceFieldRequired
  | DeviceIdentityRequired
  | EpochNotPositive
  | InvalidTrustState DeviceTrustState
  | CannotRevokeDevice DeviceTrustState
  | RevocationReasonRequired
  | InvalidTrustTransition DeviceTrustState DeviceTrustState
  | DeviceEventFailed envelope_error
  | DeviceNotTrusted DeviceTrustState
  | PackageIDAndSecretRequired
  | IssuedAtAndTTLRequired
  | SigningSecretRequired
  | PackageIdentityMismatch
  | PackageEpochStale
  | PackageExpired
  | PackageSignatureInvalid

subsection \<open>The device aggregate\<close>

definition NewDevice ::
    "string \<Rightarrow> string \<Rightarrow> string \<Rightarrow> string \<Rightarrow> string \<Rightarrow> device_error + Device" where
  "NewDevice ident tenantID organizationID userID publicKey =
     (if list_ex blank [ident, tenantID, organizationID, userID, publicKey]
        then Inl DeviceFieldRequired
      else Inr \<lparr>d_id = ident, d_tenantID = tenantID, d_organizationID = organizationID,
                d_userID = userID, d_publicKey = publicKey, d_state = DevicePending, d_epoch = 1,
                d_emitted = []\<rparr>)"

definition RestoreDevice ::
    "string \<Rightarrow> string \<Rightarrow> string \<Rightarrow> string \<Rightarrow> string \<Rightarrow> DeviceTrustState \<Rightarrow> uint64 \<Rightarrow>
     device_error + Device" where
  "RestoreDevice ident tenantID organizationID userID publicKey state epoch =
     (if blank ident \<or> blank tenantID \<or> blank organizationID \<or> blank userID \<or> blank publicKey
        then Inl DeviceIdentityRequired
      else if epoch = 0 then Inl EpochNotPositive
      else if state \<notin> {DevicePending, DeviceTrusted, DeviceRestricted, DeviceLocked, DeviceRevoked,
                        DeviceRetired} then Inl (InvalidTrustState state)
      else Inr \<lparr>d_id = ident, d_tenantID = tenantID, d_organizationID = organizationID,
                d_userID = userID, d_publicKey = publicKey, d_state = state, d_epoch = epoch,
                d_emitted = []\<rparr>)"

definition Device_makeEvent ::
    "Device \<Rightarrow> string \<Rightarrow> json \<Rightarrow> gotime \<Rightarrow> envelope_error + Envelope" where
  "Device_makeEvent d eventType payload now =
     (let eventID = d_id d @ ''-'' @ show_u64 (d_epoch d) @ ''-'' @
                    show_nat (length (d_emitted d) + 1)
      in NewEnvelope eventID eventType (d_tenantID d) (d_organizationID d) ''LIVE'' ''device''
           (d_id d) payload now)"

definition appendEvent ::
    "string \<Rightarrow> json \<Rightarrow> gotime \<Rightarrow> Device \<Rightarrow> device_error + Device" where
  "appendEvent eventType payload now d =
     (case Device_makeEvent d eventType payload now of
        Inl e \<Rightarrow> Inl (DeviceEventFailed e)
      | Inr event \<Rightarrow> Inr (d\<lparr>d_emitted := d_emitted d @ [event]\<rparr>))"

definition transition ::
    "DeviceTrustState \<Rightarrow> DeviceTrustState list \<Rightarrow> gotime \<Rightarrow> Device \<Rightarrow> device_error + Device" where
  "transition target allowed now d =
     (if d_state d \<notin> set allowed then Inl (InvalidTrustTransition (d_state d) target)
      else case Device_makeEvent d ''DeviceTrustStateChanged''
                  (JObj [(''from'', JStr (DeviceTrustState_string (d_state d))),
                         (''to'', JStr (DeviceTrustState_string target))]) now of
        Inl e \<Rightarrow> Inl (DeviceEventFailed e)
      | Inr event \<Rightarrow> Inr (d\<lparr>d_state := target, d_emitted := d_emitted d @ [event]\<rparr>))"

definition Trust :: "gotime \<Rightarrow> Device \<Rightarrow> device_error + Device" where
  "Trust = transition DeviceTrusted [DevicePending, DeviceRestricted, DeviceLocked]"

definition Restrict :: "gotime \<Rightarrow> Device \<Rightarrow> device_error + Device" where
  "Restrict = transition DeviceRestricted [DeviceTrusted]"

definition Lock :: "gotime \<Rightarrow> Device \<Rightarrow> device_error + Device" where
  "Lock = transition DeviceLocked [DeviceTrusted, DeviceRestricted]"

definition Retire :: "gotime \<Rightarrow> Device \<Rightarrow> device_error + Device" where
  "Retire = transition DeviceRetired [DeviceTrusted, DeviceRestricted, DeviceLocked]"

text \<open>The epoch is raised before the event is built, and lowered again when that fails.\<close>

definition Device_Revoke :: "string \<Rightarrow> gotime \<Rightarrow> Device \<Rightarrow> device_error + Device" where
  "Device_Revoke reason now d =
     (if d_state d = DeviceRevoked \<or> d_state d = DeviceRetired
        then Inl (CannotRevokeDevice (d_state d))
      else if blank reason then Inl RevocationReasonRequired
      else
        (let d1 = d\<lparr>d_epoch := d_epoch d + 1\<rparr> in
         case Device_makeEvent d1 ''DeviceRevoked''
                (JObj [(''reason'', JStr reason), (''epoch'', JInt (uint (d_epoch d1)))]) now of
           Inl e \<Rightarrow> Inl (DeviceEventFailed e)
         | Inr event \<Rightarrow> Inr (d1\<lparr>d_state := DeviceRevoked, d_emitted := d_emitted d1 @ [event]\<rparr>)))"

subsection \<open>Authority packages\<close>

record AuthorityPackage =
  pkg_ID :: string
  pkg_DeviceID :: string
  pkg_TenantID :: string
  pkg_UserID :: string
  pkg_Epoch :: uint64
  pkg_Scopes :: "string list"
  pkg_IssuedAt :: gotime
  pkg_ExpiresAt :: gotime
  pkg_Signature :: string

definition package_canonical :: "AuthorityPackage \<Rightarrow> string" where
  "package_canonical p = join ''|''
     [pkg_ID p, pkg_DeviceID p, pkg_TenantID p, pkg_UserID p, show_u64 (pkg_Epoch p),
      join '','' (pkg_Scopes p), RFC3339Nano (pkg_IssuedAt p), RFC3339Nano (pkg_ExpiresAt p)]"

definition package_sign :: "crypto \<Rightarrow> AuthorityPackage \<Rightarrow> string \<Rightarrow> string" where
  "package_sign C p secret = hex_encode (hmac_sha256 C secret (package_canonical p))"

definition IssueAuthorityPackage ::
    "crypto \<Rightarrow> Device \<Rightarrow> string \<Rightarrow> string \<Rightarrow> string list \<Rightarrow> gotime \<Rightarrow> duration \<Rightarrow>
     device_error + AuthorityPackage" where
  "IssueAuthorityPackage C device ident secret scopes issuedAt ttl =
     (if d_state device \<noteq> DeviceTrusted then Inl (DeviceNotTrusted (d_state device))
      else if blank ident \<or> blank secret then Inl PackageIDAndSecretRequired
      else if time_IsZero issuedAt \<or> ttl \<le> 0 then Inl IssuedAtAndTTLRequired
      else
        (let packageValue = \<lparr>pkg_ID = ident, pkg_DeviceID = d_id device,
               pkg_TenantID = d_tenantID device, pkg_UserID = d_userID device,
               pkg_Epoch = d_epoch device, pkg_Scopes = scopes, pkg_IssuedAt = issuedAt,
               pkg_ExpiresAt = issuedAt + ttl, pkg_Signature = []\<rparr>
         in Inr (packageValue\<lparr>pkg_Signature := package_sign C packageValue secret\<rparr>)))"

definition ValidateAuthorityPackage ::
    "crypto \<Rightarrow> AuthorityPackage \<Rightarrow> Device \<Rightarrow> string \<Rightarrow> gotime \<Rightarrow> device_error option" where
  "ValidateAuthorityPackage C p device secret at =
     (if blank secret then Some SigningSecretRequired
      else if pkg_DeviceID p \<noteq> d_id device \<or> pkg_TenantID p \<noteq> d_tenantID device \<or>
              pkg_UserID p \<noteq> d_userID device then Some PackageIdentityMismatch
      else if pkg_Epoch p \<noteq> d_epoch device then Some PackageEpochStale
      else if d_state device \<noteq> DeviceTrusted then Some (DeviceNotTrusted (d_state device))
      else if at < pkg_IssuedAt p \<or> \<not> at < pkg_ExpiresAt p then Some PackageExpired
      else if pkg_ID p = ''authority-session'' \<or> pkg_Signature p = ''server-issued-authority''
        then None
      else if pkg_Signature p \<noteq> package_sign C p secret then Some PackageSignatureInvalid
      else None)"

subsection \<open>Enrollment\<close>

datatype EnrollmentStatus =
    EnrollmentPending | EnrollmentApproved | EnrollmentRejected | EnrollmentStatusOther string

record EnrollmentAttestation =
  att_KeyOrigin :: string
  att_BiometricBound :: bool
  att_OSVersion :: string

record EnrollmentRequest =
  enr_RequestID :: string
  enr_TenantID :: string
  enr_OrganizationID :: string
  enr_UserID :: string
  enr_DeviceID :: string
  enr_PublicKey :: string
  enr_Nonce :: string
  enr_Signature :: string
  enr_Attestation :: EnrollmentAttestation
  enr_RequestedAt :: gotime
  enr_Status :: EnrollmentStatus
  enr_ApprovedBy :: string
  enr_RejectedBy :: string
  enr_RejectionReason :: string

datatype enrollment_error =
    EmptyKeyMaterial
  | WrongKeyMaterial nat
  | EnrFieldRequired
  | RequestedAtRequired
  | InvalidPublicKey enrollment_error
  | InvalidSignatureEncoding enrollment_error
  | ProofOfPossessionFailed
  | RequestRequired
  | AdminRequired
  | ReasonRequired
  | OnlyPending EnrollmentStatus
  | EnrDevice device_error
  | DeviceRequired

fun first_of_size :: "nat \<Rightarrow> bytes option list \<Rightarrow> bytes option" where
  "first_of_size sz [] = None"
| "first_of_size sz (None # rs) = first_of_size sz rs"
| "first_of_size sz (Some b # rs) = (if length b = sz then Some b else first_of_size sz rs)"

definition decodeKeyMaterial :: "string \<Rightarrow> nat \<Rightarrow> enrollment_error + bytes" where
  "decodeKeyMaterial s sz =
     (if blank s then Inl EmptyKeyMaterial
      else case first_of_size sz [hex_decode s, b64_decode False True s, b64_decode False False s,
                                    b64_decode True True s, b64_decode True False s] of
        Some b \<Rightarrow> Inr b
      | None \<Rightarrow> Inl (WrongKeyMaterial sz))"

definition DecodePublicKey :: "string \<Rightarrow> enrollment_error + bytes" where
  "DecodePublicKey s =
     (case decodeKeyMaterial s 32 of Inl e \<Rightarrow> Inl (InvalidPublicKey e) | Inr b \<Rightarrow> Inr b)"

definition CreateEnrollmentRequest ::
    "crypto \<Rightarrow> string \<Rightarrow> string \<Rightarrow> string \<Rightarrow> string \<Rightarrow> string \<Rightarrow> string \<Rightarrow> string \<Rightarrow> string \<Rightarrow>
     EnrollmentAttestation \<Rightarrow> gotime \<Rightarrow> enrollment_error + EnrollmentRequest" where
  "CreateEnrollmentRequest C requestID tenantID organizationID userID deviceID publicKey nonce
     signature attestation requestedAt =
     (if list_ex blank [requestID, tenantID, organizationID, userID, deviceID, publicKey, nonce,
                        signature] then Inl EnrFieldRequired
      else if time_IsZero requestedAt then Inl RequestedAtRequired
      else case DecodePublicKey publicKey of
        Inl e \<Rightarrow> Inl e
      | Inr pub \<Rightarrow>
         (case decodeKeyMaterial signature 64 of
            Inl e \<Rightarrow> Inl (InvalidSignatureEncoding e)
          | Inr sig \<Rightarrow>
              if \<not> ed25519_verify C pub nonce sig then Inl ProofOfPossessionFailed
              else Inr \<lparr>enr_RequestID = requestID, enr_TenantID = tenantID,
                        enr_OrganizationID = organizationID, enr_UserID = userID,
                        enr_DeviceID = deviceID, enr_PublicKey = publicKey, enr_Nonce = nonce,
                        enr_Signature = signature, enr_Attestation = attestation,
                        enr_RequestedAt = requestedAt, enr_Status = EnrollmentPending,
                        enr_ApprovedBy = [], enr_RejectedBy = [], enr_RejectionReason = []\<rparr>))"

text \<open>
  \<open>ApproveEnrollment\<close> returns the device and the request it has marked; \<open>None\<close> is a nil request.
\<close>

definition ApproveEnrollment ::
    "EnrollmentRequest option \<Rightarrow> string \<Rightarrow> gotime \<Rightarrow> enrollment_error + Device \<times> EnrollmentRequest"
  where
  "ApproveEnrollment req approvedBy now =
     (case req of
        None \<Rightarrow> Inl RequestRequired
      | Some r \<Rightarrow>
          if blank approvedBy then Inl AdminRequired
          else if enr_Status r \<noteq> EnrollmentPending then Inl (OnlyPending (enr_Status r))
          else case NewDevice (enr_DeviceID r) (enr_TenantID r) (enr_OrganizationID r) (enr_UserID r)
                      (enr_PublicKey r) of
            Inl e \<Rightarrow> Inl (EnrDevice e)
          | Inr device0 \<Rightarrow>
             (case Trust now device0 of
                Inl e \<Rightarrow> Inl (EnrDevice e)
              | Inr device1 \<Rightarrow>
                 (case appendEvent ''EnrollmentApproved''
                         (JObj [(''request_id'', JStr (enr_RequestID r)),
                                (''device_id'', JStr (d_id device1)),
                                (''approved_by'', JStr approvedBy)]) now device1 of
                    Inl e \<Rightarrow> Inl (EnrDevice e)
                  | Inr device2 \<Rightarrow> Inr (device2, r\<lparr>enr_Status := EnrollmentApproved\<rparr>))))"

definition RejectEnrollment ::
    "EnrollmentRequest option \<Rightarrow> string \<Rightarrow> string \<Rightarrow> enrollment_error + EnrollmentRequest" where
  "RejectEnrollment req rejectedBy reason =
     (case req of
        None \<Rightarrow> Inl RequestRequired
      | Some r \<Rightarrow>
          if blank rejectedBy then Inl AdminRequired
          else if blank reason then Inl ReasonRequired
          else if enr_Status r \<noteq> EnrollmentPending then Inl (OnlyPending (enr_Status r))
          else Inr (r\<lparr>enr_Status := EnrollmentRejected\<rparr>))"

definition RotateDeviceKey ::
    "crypto \<Rightarrow> string \<Rightarrow> string \<Rightarrow> string \<Rightarrow> gotime \<Rightarrow> Device \<Rightarrow> enrollment_error + Device" where
  "RotateDeviceKey C newPublicKey newNonce newSig now device =
     (case DecodePublicKey newPublicKey of
        Inl e \<Rightarrow> Inl e
      | Inr newKey \<Rightarrow>
         (case decodeKeyMaterial newSig 64 of
            Inl e \<Rightarrow> Inl (InvalidSignatureEncoding e)
          | Inr sig \<Rightarrow>
              if \<not> ed25519_verify C newKey newNonce sig then Inl ProofOfPossessionFailed
              else
                (let d1 = device\<lparr>d_epoch := d_epoch device + 1\<rparr> in
                 case appendEvent ''DeviceKeyRotated''
                        (JObj [(''epoch'', JInt (uint (d_epoch d1))),
                               (''public_key'', JStr newPublicKey)]) now d1 of
                   Inl e \<Rightarrow> Inl (EnrDevice e)
                 | Inr d2 \<Rightarrow> Inr (d2\<lparr>d_publicKey := newPublicKey\<rparr>))))"

subsection \<open>Calls\<close>

datatype device_op =
    DTrust gotime
  | DRestrict gotime
  | DLock gotime
  | DRetire gotime
  | DRevoke string gotime
  | DRotate string string string gotime

fun device_call :: "crypto \<Rightarrow> device_op \<Rightarrow> Device \<Rightarrow> enrollment_error + Device" where
  "device_call C (DTrust t) d = map_sum EnrDevice id (Trust t d)"
| "device_call C (DRestrict t) d = map_sum EnrDevice id (Restrict t d)"
| "device_call C (DLock t) d = map_sum EnrDevice id (Lock t d)"
| "device_call C (DRetire t) d = map_sum EnrDevice id (Retire t d)"
| "device_call C (DRevoke r t) d = map_sum EnrDevice id (Device_Revoke r t d)"
| "device_call C (DRotate k n s t) d = RotateDeviceKey C k n s t d"

definition device_next :: "crypto \<Rightarrow> device_op \<Rightarrow> Device \<Rightarrow> Device" where
  "device_next C p d = keep d (device_call C p d)"


subsection \<open>What a successful call did\<close>

lemma map_sum_Inr [simp]: "map_sum f id r = Inr y \<longleftrightarrow> r = Inr y"
  by (cases r) simp_all

definition device_event :: "Device \<Rightarrow> Envelope \<Rightarrow> bool" where
  "device_event d e \<longleftrightarrow> envelope_ok e \<and> ev_aggregateID e = d_id d \<and> ev_tenantID e = d_tenantID d \<and>
     ev_eventID e = (d_id d @ ''-'' @ show_u64 (d_epoch d)) @ ''-'' @
       show_nat (Suc (length (d_emitted d)))"

lemma Device_makeEvent_Inr:
  "Device_makeEvent d ety p now = Inr e \<Longrightarrow> device_event d e \<and> ev_eventType e = ety"
  using NewEnvelope_ok
  by (auto simp: device_event_def Device_makeEvent_def Let_def NewEnvelope_Inr)

lemmas device_ops = Trust_def Restrict_def Lock_def Retire_def transition_def Device_Revoke_def
  RotateDeviceKey_def appendEvent_def

lemma device_call_emits:
  assumes "device_call C p d = Inr d'"
  shows "\<exists>d0 e. device_event d0 e \<and> d_emitted d0 = d_emitted d \<and> d_emitted d' = d_emitted d @ [e]"
proof (cases p)
  case (DRevoke r t)
  with assms show ?thesis
    by (intro exI [of _ "d\<lparr>d_epoch := d_epoch d + 1\<rparr>"])
       (auto simp: device_ops Let_def dest!: Device_makeEvent_Inr)
next
  case (DRotate k n s t)
  with assms show ?thesis
    by (intro exI [of _ "d\<lparr>d_epoch := d_epoch d + 1\<rparr>"])
       (auto simp: device_ops Let_def dest!: Device_makeEvent_Inr)
qed (use assms in \<open>auto simp: device_ops dest!: Device_makeEvent_Inr\<close>)

fun raises_epoch :: "device_op \<Rightarrow> bool" where
  "raises_epoch (DRevoke r t) = True"
| "raises_epoch (DRotate k n s t) = True"
| "raises_epoch _ = False"

lemma device_call_epoch:
  assumes "device_call C p d = Inr d'"
  shows "d_epoch d' = d_epoch d + (if raises_epoch p then 1 else 0)"
  using assms by (cases p) (auto simp: device_ops Let_def)

lemma device_call_identity:
  assumes "device_call C p d = Inr d'"
  shows "d_id d' = d_id d \<and> d_tenantID d' = d_tenantID d \<and> d_organizationID d' = d_organizationID d \<and>
    d_userID d' = d_userID d"
  using assms by (cases p) (auto simp: device_ops Let_def)

lemma device_call_ended:
  assumes "device_call C p d = Inr d'" "d_state d \<in> {DeviceRevoked, DeviceRetired}"
  shows "d_state d' = d_state d \<and> (\<exists>k n s t. p = DRotate k n s t)"
  using assms by (cases p) (auto simp: device_ops Let_def)

lemma device_next_cases:
  "device_next C p d = d \<or> (\<exists>d'. device_call C p d = Inr d' \<and> device_next C p d = d')"
  by (cases "device_call C p d") (simp_all add: device_next_def)

definition device_ok :: "Device \<Rightarrow> bool" where
  "device_ok d \<longleftrightarrow> d_state d \<in> {DevicePending, DeviceTrusted, DeviceRestricted, DeviceLocked,
     DeviceRevoked, DeviceRetired}"

lemma device_ok_step: "device_ok d \<Longrightarrow> device_ok (device_next C p d)"
proof -
  assume ok: "device_ok d"
  have "device_ok d'" if "device_call C p d = Inr d'" for d'
    using that ok by (cases p) (auto simp: device_ops Let_def device_ok_def)
  with ok show ?thesis using device_next_cases [of C p d] by auto
qed

interpretation dev: audited "device_next C" device_ok d_emitted ev_eventID for C
proof unfold_locales
  fix p d
  assume "device_ok d"
  then show "device_ok (device_next C p d)" by (rule device_ok_step)
  show "d_emitted (device_next C p d) = d_emitted d \<or>
      (\<exists>e q. d_emitted (device_next C p d) = d_emitted d @ [e] \<and>
             ev_eventID e = q @ ''-'' @ show_nat (Suc (length (d_emitted d))))"
    using device_next_cases [of C p d] device_call_emits unfolding device_event_def by metis
qed

text \<open>How many calls of a run raised the epoch: the key rotations and the revocation.\<close>

fun epoch_raises :: "crypto \<Rightarrow> device_op list \<Rightarrow> Device \<Rightarrow> nat" where
  "epoch_raises C [] d = 0"
| "epoch_raises C (p # ps) d =
     (case device_call C p d of
        Inl e \<Rightarrow> epoch_raises C ps d
      | Inr d' \<Rightarrow> (if raises_epoch p then 1 else 0) + epoch_raises C ps d')"

lemma device_run_epoch:
  "d_epoch (run_ops (device_next C) ps d) = d_epoch d + of_nat (epoch_raises C ps d)"
proof (induction ps arbitrary: d)
  case Nil
  show ?case by simp
next
  case (Cons p ps)
  show ?case
    using Cons device_call_epoch [of C p d]
    by (cases "device_call C p d") (auto simp: device_next_def)
qed

lemma device_run_ended:
  "d_state d \<in> {DeviceRevoked, DeviceRetired} \<Longrightarrow> d_state (run_ops (device_next C) ps d) = d_state d"
proof (induction ps arbitrary: d)
  case Nil
  then show ?case by simp
next
  case (Cons p ps)
  have "d_state (device_next C p d) = d_state d"
    using device_next_cases [of C p d] device_call_ended Cons.prems by metis
  with Cons show ?case by simp
qed

lemma of_nat_eq_0_small: "0 < n \<Longrightarrow> n < 2 ^ 64 \<Longrightarrow> (of_nat n :: uint64) \<noteq> 0"
  by (simp add: of_nat_eq_0_iff take_bit_nat_eq_self word_of_nat_eq_0_iff nat_dvd_not_less)

lemma ValidateAuthorityPackage_None:
  "ValidateAuthorityPackage C p d secret at = None \<longleftrightarrow>
     \<not> blank secret \<and> pkg_DeviceID p = d_id d \<and> pkg_TenantID p = d_tenantID d \<and>
     pkg_UserID p = d_userID d \<and> pkg_Epoch p = d_epoch d \<and> d_state d = DeviceTrusted \<and>
     pkg_IssuedAt p \<le> at \<and> at < pkg_ExpiresAt p \<and>
     (pkg_ID p = ''authority-session'' \<or> pkg_Signature p = ''server-issued-authority'' \<or>
      pkg_Signature p = package_sign C p secret)"
  by (auto simp: ValidateAuthorityPackage_def not_less)

lemma package_sign_fresh [simp]:
  "package_sign C (p\<lparr>pkg_Signature := s\<rparr>) secret = package_sign C p secret"
  by (simp add: package_sign_def package_canonical_def)

lemma IssueAuthorityPackage_Inr:
  assumes "IssueAuthorityPackage C d ident secret scopes iat ttl = Inr p"
  shows "d_state d = DeviceTrusted" "\<not> blank secret" "pkg_DeviceID p = d_id d"
    "pkg_TenantID p = d_tenantID d" "pkg_UserID p = d_userID d" "pkg_Epoch p = d_epoch d"
    "pkg_IssuedAt p = iat" "pkg_ExpiresAt p = iat + ttl" "pkg_Signature p = package_sign C p secret"
    "0 < ttl"
  using assms
  by (auto simp: IssueAuthorityPackage_def Let_def package_sign_def package_canonical_def)

subsection \<open>Properties\<close>

text \<open>A concrete device, package and choice of the primitives, for the witnesses.\<close>

definition demo_crypto :: crypto where
  "demo_crypto = \<lparr>sha256 = (\<lambda>m. m), hmac_sha256 = (\<lambda>k m. k @ m),
     ed25519_verify = (\<lambda>pub msg sig. take 32 sig = pub)\<rparr>"

definition demo_device :: Device where
  "demo_device = \<lparr>d_id = ''d1'', d_tenantID = ''t'', d_organizationID = ''o'', d_userID = ''u'',
     d_publicKey = ''k'', d_state = DeviceTrusted, d_epoch = 1, d_emitted = []\<rparr>"

definition demo_package :: AuthorityPackage where
  "demo_package = \<lparr>pkg_ID = ''p1'', pkg_DeviceID = ''d1'', pkg_TenantID = ''t'', pkg_UserID = ''u'',
     pkg_Epoch = 1, pkg_Scopes = [], pkg_IssuedAt = 5, pkg_ExpiresAt = 15,
     pkg_Signature = package_sign demo_crypto \<lparr>pkg_ID = ''p1'', pkg_DeviceID = ''d1'',
       pkg_TenantID = ''t'', pkg_UserID = ''u'', pkg_Epoch = 1, pkg_Scopes = [], pkg_IssuedAt = 5,
       pkg_ExpiresAt = 15, pkg_Signature = []\<rparr> ''s''\<rparr>"

lemma demo_package_issued:
  "IssueAuthorityPackage demo_crypto demo_device ''p1'' ''s'' [] 5 10 = Inr demo_package"
  by (simp add: IssueAuthorityPackage_def demo_device_def demo_package_def Let_def time_IsZero_def)

lemma demo_device_revoked:
  "device_call demo_crypto (DRevoke ''lost'' 6) demo_device =
   Inr (device_next demo_crypto (DRevoke ''lost'' 6) demo_device)"
  by (simp add: device_next_def Device_Revoke_def Device_makeEvent_def NewEnvelope_def Let_def
      TenantContext_Validate_def EnvironmentLive_def demo_device_def)

lemma demo_device_raises:
  "epoch_raises demo_crypto [DRevoke ''lost'' 6] demo_device = 1"
  using demo_device_revoked by simp

text \<open>A package that was issued for a trusted device under a secret is accepted for that device
  under that secret exactly from its issue until before its expiry.\<close>

theorem authority_package_window:
  assumes "IssueAuthorityPackage C d ident secret scopes iat ttl = Inr p"
  shows "ValidateAuthorityPackage C p d secret at = None \<longleftrightarrow> iat \<le> at \<and> at < iat + ttl"
  using IssueAuthorityPackage_Inr [OF assms] by (auto simp: ValidateAuthorityPackage_None)

lemma authority_package_window_witness:
  "ValidateAuthorityPackage demo_crypto demo_package demo_device ''s'' 14 = None \<and>
   ValidateAuthorityPackage demo_crypto demo_package demo_device ''s'' 15 \<noteq> None"
  using authority_package_window [OF demo_package_issued] by auto

text \<open>C15: key rotation and revocation invalidate every package issued before. After any run of
  calls in which the epoch was raised, and raised fewer than 2^64 times, no secret and no time makes
  an earlier package of the device valid, the unsigned session packages included.\<close>

theorem authority_package_stale:
  assumes "IssueAuthorityPackage C d ident secret scopes iat ttl = Inr p"
    and "0 < epoch_raises C ps d" and "epoch_raises C ps d < 2 ^ 64"
  shows "ValidateAuthorityPackage C p (run_ops (device_next C) ps d) secret' at \<noteq> None"
proof -
  have "pkg_Epoch p \<noteq> d_epoch (run_ops (device_next C) ps d)"
    using IssueAuthorityPackage_Inr(6) [OF assms(1)] of_nat_eq_0_small [OF assms(2,3)]
    by (simp add: device_run_epoch)
  then show ?thesis by (simp add: ValidateAuthorityPackage_None)
qed

lemma authority_package_stale_witness:
  "ValidateAuthorityPackage demo_crypto demo_package
     (run_ops (device_next demo_crypto) [DRevoke ''lost'' 6] demo_device) ''s'' 7 \<noteq> None"
  by (rule authority_package_stale [OF demo_package_issued]) (simp_all only: demo_device_raises, simp_all)

text \<open>Revoked and retired are final. Whatever is called on such a device it keeps its state, and
  no package is ever valid for it again.\<close>

theorem device_end_is_final:
  assumes "d_state d = DeviceRevoked \<or> d_state d = DeviceRetired"
  shows "d_state (run_ops (device_next C) ps d) = d_state d \<and>
    ValidateAuthorityPackage C p (run_ops (device_next C) ps d) secret at \<noteq> None"
  using device_run_ended [of d C ps] assms by (auto simp: ValidateAuthorityPackage_None)

lemma device_end_is_final_witness:
  "d_state (run_ops (device_next demo_crypto) [DTrust 1] (demo_device\<lparr>d_state := DeviceRevoked\<rparr>))
     = DeviceRevoked"
  using device_end_is_final [of "demo_device\<lparr>d_state := DeviceRevoked\<rparr>" demo_crypto "[DTrust 1]"]
  by simp

text \<open>What acceptance of a package means, exactly: identity, epoch, trust and time window match,
  and the signature is the HMAC of the package under the secret - unless the package carries the
  id \<open>authority-session\<close> or the literal signature \<open>server-issued-authority\<close>, which the code accepts
  in place of a signature, whatever the secret is.\<close>

theorem authority_package_accepted:
  "ValidateAuthorityPackage C p d secret at = None \<longleftrightarrow>
     \<not> blank secret \<and> pkg_DeviceID p = d_id d \<and> pkg_TenantID p = d_tenantID d \<and>
     pkg_UserID p = d_userID d \<and> pkg_Epoch p = d_epoch d \<and> d_state d = DeviceTrusted \<and>
     pkg_IssuedAt p \<le> at \<and> at < pkg_ExpiresAt p \<and>
     (pkg_Signature p = hex_encode (hmac_sha256 C secret (package_canonical p)) \<or>
      pkg_ID p = ''authority-session'' \<or> pkg_Signature p = ''server-issued-authority'')"
  unfolding ValidateAuthorityPackage_None package_sign_def by blast

lemma CreateEnrollmentRequest_Inr:
  assumes "CreateEnrollmentRequest C rid ten org u did pk nonce sg att at = Inr r"
  shows "enr_Status r = EnrollmentPending \<and> enr_PublicKey r = pk \<and> enr_DeviceID r = did \<and>
    enr_TenantID r = ten \<and> enr_OrganizationID r = org \<and> enr_UserID r = u \<and>
    (\<exists>pub sig. DecodePublicKey pk = Inr pub \<and> decodeKeyMaterial sg 64 = Inr sig \<and>
       ed25519_verify C pub nonce sig)"
  using assms by (auto simp: CreateEnrollmentRequest_def)

lemma ApproveEnrollment_Inr:
  assumes "ApproveEnrollment (Some r) by now = Inr (d, r')"
  shows "enr_Status r = EnrollmentPending \<and> enr_Status r' = EnrollmentApproved \<and>
    d_state d = DeviceTrusted \<and> d_epoch d = 1 \<and> d_id d = enr_DeviceID r \<and>
    d_tenantID d = enr_TenantID r \<and> d_userID d = enr_UserID r \<and> d_publicKey d = enr_PublicKey r \<and>
    map ev_eventType (d_emitted d) = [''DeviceTrustStateChanged'', ''EnrollmentApproved'']"
  using assms
  by (auto simp: ApproveEnrollment_def NewDevice_def device_ops dest!: Device_makeEvent_Inr)

text \<open>Enrollment. A device that comes out of an approved request is trusted at epoch 1 under the
  identity and key of the request, with the two audit events and nothing else on its trail; the
  request was pending, so it had passed the proof of possession of that key; and once approved or
  rejected a request can be neither approved nor rejected again.\<close>

theorem enrollment_decides_once:
  assumes "CreateEnrollmentRequest C rid ten org u did pk nonce sg att at = Inr r"
    and "ApproveEnrollment (Some r) admin now = Inr (d, r')"
  shows "d_state d = DeviceTrusted \<and> d_epoch d = 1 \<and> d_id d = did \<and> d_publicKey d = pk \<and>
    map ev_eventType (d_emitted d) = [''DeviceTrustStateChanged'', ''EnrollmentApproved''] \<and>
    (\<exists>pub sig. DecodePublicKey pk = Inr pub \<and> decodeKeyMaterial sg 64 = Inr sig \<and>
       ed25519_verify C pub nonce sig) \<and>
    (\<forall>admin' now'. \<exists>e. ApproveEnrollment (Some r') admin' now' = Inl e) \<and>
    (\<forall>admin' why. \<exists>e. RejectEnrollment (Some r') admin' why = Inl e) \<and>
    (\<forall>admin' why r''. RejectEnrollment (Some r) admin' why = Inr r'' \<longrightarrow>
       (\<exists>e. ApproveEnrollment (Some r'') admin now = Inl e))"
  using CreateEnrollmentRequest_Inr [OF assms(1)] ApproveEnrollment_Inr [OF assms(2)]
  by (simp add: ApproveEnrollment_def RejectEnrollment_def)

definition demo_key :: "nat \<Rightarrow> string" where
  "demo_key n = hex_encode (replicate n (CHR ''A''))"

lemma decode_demo_key: "0 < n \<Longrightarrow> decodeKeyMaterial (demo_key n) n = Inr (replicate n (CHR ''A''))"
proof -
  assume "0 < n"
  then obtain m where n: "n = Suc m" by (cases n) auto
  have "demo_key n = CHR ''4'' # CHR ''1'' # demo_key m"
    by (simp add: n demo_key_def hex_encode_def hex_digit_def char_of_def bit_iff_odd)
  then have "\<not> blank (demo_key n)" by simp
  then show ?thesis
    by (simp add: decodeKeyMaterial_def demo_key_def hex_decode_encode)
qed

lemma demo_key_not_blank: "\<not> blank (demo_key (numeral n))"
  using decode_demo_key [of "numeral n"] by (auto simp: decodeKeyMaterial_def split: if_splits)

definition demo_request :: EnrollmentRequest where
  "demo_request = \<lparr>enr_RequestID = ''r'', enr_TenantID = ''t'', enr_OrganizationID = ''o'',
     enr_UserID = ''u'', enr_DeviceID = ''d1'', enr_PublicKey = demo_key 32, enr_Nonce = ''n'',
     enr_Signature = demo_key 64, enr_Attestation = \<lparr>att_KeyOrigin = [], att_BiometricBound = True,
     att_OSVersion = []\<rparr>, enr_RequestedAt = 5, enr_Status = EnrollmentPending, enr_ApprovedBy = [],
     enr_RejectedBy = [], enr_RejectionReason = []\<rparr>"

lemma demo_request_created:
  "CreateEnrollmentRequest demo_crypto ''r'' ''t'' ''o'' ''u'' ''d1'' (demo_key 32) ''n'' (demo_key 64)
     \<lparr>att_KeyOrigin = [], att_BiometricBound = True, att_OSVersion = []\<rparr> 5 = Inr demo_request"
  by (simp add: CreateEnrollmentRequest_def DecodePublicKey_def decode_demo_key demo_key_not_blank
      time_IsZero_def demo_crypto_def demo_request_def)

lemma demo_request_approved: "\<exists>d r'. ApproveEnrollment (Some demo_request) ''adm'' 6 = Inr (d, r')"
  by (simp add: ApproveEnrollment_def demo_request_def NewDevice_def demo_key_not_blank device_ops
      Device_makeEvent_def NewEnvelope_def Let_def TenantContext_Validate_def EnvironmentLive_def)

lemma enrollment_decides_once_witness:
  "\<exists>d r'. ApproveEnrollment (Some demo_request) ''adm'' 6 = Inr (d, r') \<and> d_epoch d = 1 \<and>
     (\<exists>e. ApproveEnrollment (Some r') ''adm'' 7 = Inl e)"
  using demo_request_approved enrollment_decides_once [OF demo_request_created] by metis

end
