(* ===== verification/Sync_State.thy ===== *)
theory Sync_State
  imports Shared_Kernel
begin

text \<open>
  The durable synchronisation state, \<open>internal/syncstate/contracts.go\<close>: the records that are kept
  for devices, authorities, receipts and held transactions, their validation, and the interface
  \<open>SyncStateRepository\<close> through which the sync processor reaches it.

  The interface is a record of functions on the state \<open>'s\<close> behind it; a function that writes
  returns the new state, and an error leaves the state as it was. What the processor relies on is
  the locale \<open>sync_state_repository\<close>.
\<close>

datatype sync_state_error =
    SyncNotFound
  | SyncConflict
  | SyncInvalidRecord string
  | SyncInvalidScope
  | SyncUnavailable
  | SyncConstraintViolation
  | SyncMarshalFailed

subsection \<open>Records\<close>

record DeviceRecord =
  dr_DeviceID :: string
  dr_TenantID :: string
  dr_OrganizationID :: string
  dr_UserID :: string
  dr_KeyID :: string
  dr_PublicKey :: bytes
  dr_State :: string
  dr_AuthorityEpoch :: uint64
  dr_EnrolledAt :: gotime
  dr_UpdatedAt :: gotime
  dr_RevokedAt :: "gotime option"
  dr_RevocationReason :: string

record AuthorityRecord =
  ar_AuthorityID :: string
  ar_TenantID :: string
  ar_OrganizationID :: string
  ar_DeviceID :: string
  ar_UserID :: string
  ar_AuthorityEpoch :: uint64
  ar_Scopes :: "string list"
  ar_ProcedureVersion :: string
  ar_IssuedAt :: gotime
  ar_ExpiresAt :: gotime
  ar_Signature :: bytes
  ar_RevokedAt :: "gotime option"

record Receipt =
  rc_TransactionID :: string
  rc_TenantID :: string
  rc_OrganizationID :: string
  rc_DeviceID :: string
  rc_UserID :: string
  rc_SequenceNumber :: uint64
  rc_Operation :: string
  rc_EntityID :: string
  rc_PayloadHash :: string
  rc_Outcome :: string
  rc_Reason :: string
  rc_CapturedAt :: gotime
  rc_ReceivedAt :: gotime

text \<open>\<open>None\<close> stands for an envelope of no bytes.\<close>

record HeldTransaction =
  ht_Receipt :: Receipt
  ht_ExpectedSequence :: uint64
  ht_Envelope :: "json option"
  ht_FirstHeldAt :: gotime
  ht_LastAttemptAt :: gotime
  ht_LastError :: string

subsection \<open>Validation\<close>

definition maxSafeSequence :: uint64 where "maxSafeSequence = 2 ^ 63 - 1"

definition ValidateDeviceRecord :: "DeviceRecord \<Rightarrow> sync_state_error option" where
  "ValidateDeviceRecord d =
     (if dr_DeviceID d = [] \<or> dr_TenantID d = [] \<or> dr_OrganizationID d = [] \<or> dr_UserID d = [] \<or>
         dr_KeyID d = [] \<or> length (dr_PublicKey d) = 0
        then Some (SyncInvalidRecord ''device identity, key, and tenant scope are required'')
      else if dr_AuthorityEpoch d = 0
        then Some (SyncInvalidRecord ''device authority epoch must be positive'')
      else if maxSafeSequence < dr_AuthorityEpoch d
        then Some (SyncInvalidRecord ''device authority epoch exceeds safe integer bounds'')
      else None)"

definition ValidateReceipt :: "Receipt \<Rightarrow> sync_state_error option" where
  "ValidateReceipt r =
     (if rc_TransactionID r = [] \<or> rc_TenantID r = [] \<or> rc_OrganizationID r = [] \<or>
         rc_DeviceID r = [] \<or> rc_UserID r = [] \<or> rc_Operation r = [] \<or> rc_EntityID r = [] \<or>
         rc_PayloadHash r = [] \<or> rc_Outcome r = []
        then Some (SyncInvalidRecord
          ''receipt identity, operation, payload hash, outcome, and tenant scope are required'')
      else if rc_SequenceNumber r = 0
        then Some (SyncInvalidRecord ''receipt sequence must be positive'')
      else if maxSafeSequence < rc_SequenceNumber r
        then Some (SyncInvalidRecord ''receipt sequence exceeds safe integer bounds'')
      else None)"

lemma ValidateReceipt_sequence:
  "ValidateReceipt r = None \<Longrightarrow> rc_SequenceNumber r \<noteq> 0 \<and> rc_SequenceNumber r \<le> maxSafeSequence"
  by (auto simp: ValidateReceipt_def split: if_splits)

lemma maxSafeSequence_less: "n \<le> maxSafeSequence \<Longrightarrow> unat n < 2 ^ 63"
  by (simp add: maxSafeSequence_def word_le_nat_alt)

subsection \<open>The interface and what its client relies on\<close>

record 's SyncStateRepository =
  ssr_GetLastAcceptedSequence :: "string \<Rightarrow> string \<Rightarrow> 's \<Rightarrow> sync_state_error + uint64"
  ssr_SaveReceipt :: "Receipt \<Rightarrow> 's \<Rightarrow> sync_state_error + 's"
  ssr_GetReceipt :: "string \<Rightarrow> string \<Rightarrow> 's \<Rightarrow> sync_state_error + Receipt"
  ssr_SaveHeld :: "HeldTransaction \<Rightarrow> 's \<Rightarrow> sync_state_error + 's"
  ssr_ListHeld :: "string \<Rightarrow> string \<Rightarrow> 's \<Rightarrow> sync_state_error + HeldTransaction list"

text \<open>
  \<open>status s i\<close> is the tenant, the payload hash and the outcome on record for the transaction id
  \<open>i\<close>, \<open>numbers s\<close> the sequence numbers on hold. A receipt is new, or repeats the one on record, or
  turns a hold into an application; a hold never replaces an application. \<open>matches\<close> is what the
  client keeps true of the envelopes it hands over. The environment \<open>e\<close> of a call (the database
  session) may differ from call to call.
\<close>

locale sync_state_repository =
  fixes repo :: "'e \<Rightarrow> 's SyncStateRepository"
    and ok :: "'s \<Rightarrow> bool"
    and status :: "'s \<Rightarrow> string \<Rightarrow> (string \<times> string \<times> string) option"
    and numbers :: "'s \<Rightarrow> uint64 set"
    and matches :: "string \<Rightarrow> string \<Rightarrow> json option \<Rightarrow> bool"
  assumes get_receipt_found: "ok s \<Longrightarrow> ssr_GetReceipt (repo e) t i s = Inr r \<Longrightarrow>
      status s i = Some (t, rc_PayloadHash r, rc_Outcome r)"
    and get_receipt_missing: "ok s \<Longrightarrow> ssr_GetReceipt (repo e) t i s = Inl SyncNotFound \<Longrightarrow>
      status s i \<noteq> Some (t, hash, x)"
    and save_receipt: "ok s \<Longrightarrow> ssr_SaveReceipt (repo e) r s = Inr s' \<Longrightarrow>
      ok s' \<and> numbers s' \<subseteq> numbers s \<and> rc_SequenceNumber r \<le> maxSafeSequence \<and>
      status s' = (status s)(rc_TransactionID r \<mapsto> (rc_TenantID r, rc_PayloadHash r, rc_Outcome r)) \<and>
      (status s (rc_TransactionID r) = None \<or>
       status s (rc_TransactionID r) = Some (rc_TenantID r, rc_PayloadHash r, rc_Outcome r) \<or>
       status s (rc_TransactionID r) = Some (rc_TenantID r, rc_PayloadHash r, ''HELD'') \<and>
         rc_Outcome r = ''APPLIED'')"
    and save_held: "ok s \<Longrightarrow> rc_Outcome (ht_Receipt h) = ''HELD'' \<Longrightarrow>
      matches (rc_TransactionID (ht_Receipt h)) (rc_TenantID (ht_Receipt h)) (ht_Envelope h) \<Longrightarrow>
      ssr_SaveHeld (repo e) h s = Inr s' \<Longrightarrow>
      ok s' \<and> status s' = (status s)(rc_TransactionID (ht_Receipt h) \<mapsto>
        (rc_TenantID (ht_Receipt h), rc_PayloadHash (ht_Receipt h), ''HELD'')) \<and>
      (status s (rc_TransactionID (ht_Receipt h)) = None \<or>
       status s (rc_TransactionID (ht_Receipt h)) =
         Some (rc_TenantID (ht_Receipt h), rc_PayloadHash (ht_Receipt h), ''HELD''))"
    and list_held: "ok s \<Longrightarrow> ssr_ListHeld (repo e) t d s = Inr hs \<Longrightarrow> h \<in> set hs \<Longrightarrow>
      matches (rc_TransactionID (ht_Receipt h)) t (ht_Envelope h) \<and>
      (\<exists>hash'. status s (rc_TransactionID (ht_Receipt h)) = Some (t, hash', ''HELD'')) \<and>
      rc_SequenceNumber (ht_Receipt h) \<in> numbers s"
    and numbers: "ok s \<Longrightarrow>
      finite (numbers s) \<and> 0 \<notin> numbers s \<and> (\<forall>n \<in> numbers s. n \<le> maxSafeSequence)"

end
