(* ===== verification/Schema_Versioning.thy ===== *)
theory Schema_Versioning
  imports Go_Prelude
begin

text \<open>
  The schema-epoch handshake between a tablet and the server,
  \<open>internal/domain/sync/versioning.go\<close>, and the ladder of the server's own migrations,
  \<open>internal/domain/sync/schema_registry.go\<close>. An epoch is a \<open>uint64\<close>; the map from a rung to its
  position is a partial function.
\<close>

type_synonym SchemaEpoch = uint64

datatype HandshakeStatus = StatusSync | StatusBehindCatchUp | StatusAheadRejected | StatusUnknownRejected

record DataTransform =
  dt_ID :: string
  dt_Order :: int64
  dt_Label :: string

record SchemaMigration =
  sm_ID :: string
  sm_FromEpoch :: SchemaEpoch
  sm_ToEpoch :: SchemaEpoch
  sm_Transforms :: "DataTransform list"

record CatchUpPlan =
  cp_MinSchema :: SchemaEpoch
  cp_Migrations :: "SchemaMigration list"
  cp_Transforms :: "DataTransform list"

text \<open>The reasons of the two rejections name the epochs.\<close>

datatype handshake_reason = NoReason | AheadOf SchemaEpoch SchemaEpoch | NotInLineage SchemaEpoch

record HandshakeResult =
  hr_Status :: HandshakeStatus
  hr_ServerEpoch :: SchemaEpoch
  hr_TabletEpoch :: SchemaEpoch
  hr_Reason :: handshake_reason
  hr_Plan :: "CatchUpPlan option"

record SchemaVersioner =
  ve_current :: SchemaEpoch
  ve_migrations :: "SchemaMigration list"
  ve_epochs :: "SchemaEpoch \<Rightarrow> nat option"

datatype ladder_error =
    EmptyLadderNotZero
  | LadderStartsLate
  | NotAscending string SchemaEpoch SchemaEpoch
  | NotLinear SchemaEpoch SchemaEpoch
  | EndsElsewhere SchemaEpoch

subsection \<open>Construction\<close>

text \<open>The loop over the ladder: \<open>prev\<close> is the step before, \<open>i\<close> the position of the next one.\<close>

fun ladder_loop ::
    "SchemaMigration option \<Rightarrow> nat \<Rightarrow> SchemaMigration list \<Rightarrow> (SchemaEpoch \<Rightarrow> nat option) \<Rightarrow>
     ladder_error + (SchemaEpoch \<Rightarrow> nat option)" where
  "ladder_loop prev i [] epochs = Inr epochs"
| "ladder_loop prev i (step # rest) epochs =
     (if sm_ToEpoch step \<le> sm_FromEpoch step
        then Inl (NotAscending (sm_ID step) (sm_FromEpoch step) (sm_ToEpoch step))
      else case prev of
        Some q \<Rightarrow>
          if sm_FromEpoch step \<noteq> sm_ToEpoch q then Inl (NotLinear (sm_ToEpoch q) (sm_FromEpoch step))
          else ladder_loop (Some step) (i + 1) rest (epochs(sm_ToEpoch step \<mapsto> i + 1))
      | None \<Rightarrow> ladder_loop (Some step) (i + 1) rest (epochs(sm_ToEpoch step \<mapsto> i + 1)))"

definition NewSchemaVersioner ::
    "SchemaEpoch \<Rightarrow> SchemaMigration list \<Rightarrow> ladder_error + SchemaVersioner" where
  "NewSchemaVersioner current migrations =
     (let epochs = [0 \<mapsto> 0] in
      if length migrations = 0 then
        (if current \<noteq> 0 then Inl EmptyLadderNotZero
         else Inr \<lparr>ve_current = current, ve_migrations = [], ve_epochs = epochs\<rparr>)
      else if sm_FromEpoch (hd migrations) \<noteq> 0 then Inl LadderStartsLate
      else case ladder_loop None 0 migrations epochs of
        Inl e \<Rightarrow> Inl e
      | Inr es \<Rightarrow>
          if sm_ToEpoch (last migrations) \<noteq> current then Inl (EndsElsewhere current)
          else Inr \<lparr>ve_current = current, ve_migrations = migrations, ve_epochs = es\<rparr>)"

definition CurrentEpoch :: "SchemaVersioner \<Rightarrow> SchemaEpoch" where
  "CurrentEpoch v = ve_current v"

definition known :: "SchemaVersioner \<Rightarrow> SchemaEpoch \<Rightarrow> bool" where
  "known v epoch \<longleftrightarrow> ve_epochs v epoch \<noteq> None"

definition fillPlan :: "SchemaVersioner \<Rightarrow> HandshakeResult \<Rightarrow> HandshakeResult" where
  "fillPlan v result =
     (let start = (case ve_epochs v (hr_TabletEpoch result) of None \<Rightarrow> 0 | Some i \<Rightarrow> i);
          ms = drop start (ve_migrations v)
      in result\<lparr>hr_Plan := Some \<lparr>cp_MinSchema = ve_current v, cp_Migrations = ms,
                                  cp_Transforms = concat (map sm_Transforms ms)\<rparr>\<rparr>)"

definition Handshake :: "SchemaVersioner \<Rightarrow> SchemaEpoch \<Rightarrow> HandshakeResult" where
  "Handshake v tabletEpoch =
     (let base = \<lparr>hr_Status = StatusSync, hr_ServerEpoch = ve_current v,
                  hr_TabletEpoch = tabletEpoch, hr_Reason = NoReason, hr_Plan = None\<rparr> in
      if tabletEpoch = ve_current v then base
      else if ve_current v < tabletEpoch
        then base\<lparr>hr_Status := StatusAheadRejected, hr_Reason := AheadOf tabletEpoch (ve_current v)\<rparr>
      else if \<not> known v tabletEpoch
        then base\<lparr>hr_Status := StatusUnknownRejected, hr_Reason := NotInLineage tabletEpoch\<rparr>
      else fillPlan v (base\<lparr>hr_Status := StatusBehindCatchUp\<rparr>))"

subsection \<open>The server's own ladder\<close>

definition currentSchemaEpoch :: SchemaEpoch where "currentSchemaEpoch = 75"

definition currentSchemaMigrations :: "SchemaMigration list" where
  "currentSchemaMigrations =
     map (\<lambda>i. \<lparr>sm_ID = ''migration_'' @ show_padded 4 (int (i + 1)), sm_FromEpoch = of_nat i,
              sm_ToEpoch = of_nat i + 1, sm_Transforms = []\<rparr>) [0..<unat currentSchemaEpoch]"

definition CurrentSchemaVersioner :: "ladder_error + SchemaVersioner option" where
  "CurrentSchemaVersioner =
     (if currentSchemaEpoch = 0 then Inr None
      else case NewSchemaVersioner currentSchemaEpoch currentSchemaMigrations of
        Inl e \<Rightarrow> Inl e
      | Inr v \<Rightarrow> Inr (Some v))"

subsection \<open>Lineage\<close>

text \<open>\<open>chain a ms b\<close>: the steps lead from epoch \<open>a\<close> upwards to epoch \<open>b\<close> without a gap.\<close>

fun chain :: "SchemaEpoch \<Rightarrow> SchemaMigration list \<Rightarrow> SchemaEpoch \<Rightarrow> bool" where
  "chain a [] b \<longleftrightarrow> a = b"
| "chain a (m # ms) b \<longleftrightarrow> sm_FromEpoch m = a \<and> a < sm_ToEpoch m \<and> chain (sm_ToEpoch m) ms b"

lemma chain_le: "chain a ms b \<Longrightarrow> a \<le> b"
  by (induction ms arbitrary: a) fastforce+

lemma chain_less: "chain a ms b \<Longrightarrow> m \<in> set ms \<Longrightarrow> a < sm_ToEpoch m"
  by (induction ms arbitrary: a) fastforce+

lemma ladder_loop_positions:
  assumes "ladder_loop prev i ms epochs = Inr es" "ms \<noteq> []"
    and "sm_FromEpoch (hd ms) = a" "\<And>q. prev = Some q \<Longrightarrow> sm_ToEpoch q = a"
  shows "chain a ms (sm_ToEpoch (last ms)) \<and>
    (\<forall>t. es t = (if \<exists>m \<in> set ms. sm_ToEpoch m = t
                   then Some (i + length (takeWhile (\<lambda>m. sm_ToEpoch m \<noteq> t) ms) + 1) else epochs t))"
  using assms
proof (induction ms arbitrary: prev i epochs a)
  case Nil
  then show ?case by simp
next
  case (Cons m ms)
  then have m: "sm_FromEpoch m = a" "a < sm_ToEpoch m"
    and rest: "ladder_loop (Some m) (i + 1) ms (epochs(sm_ToEpoch m \<mapsto> i + 1)) = Inr es"
    by (auto split: if_splits option.splits)
  show ?case
  proof (cases ms)
    case Nil
    with rest m show ?thesis by auto
  next
    case (Cons m' ms')
    from rest Cons have start: "sm_FromEpoch (hd ms) = sm_ToEpoch m" by (simp split: if_splits)
    have prev: "Some m = Some q \<Longrightarrow> sm_ToEpoch q = sm_ToEpoch m" for q by simp
    have "ms \<noteq> []" using Cons by simp
    note IH = Cons.IH [OF rest this start prev, THEN conjunct1] Cons.IH [OF rest this start prev, THEN conjunct2]
    have fresh: "x \<in> set ms \<Longrightarrow> sm_ToEpoch m \<noteq> sm_ToEpoch x" for x
      by (rule less_imp_neq, rule chain_less [OF IH(1)])
    have "es t = (if \<exists>x \<in> set (m # ms). sm_ToEpoch x = t
        then Some (i + length (takeWhile (\<lambda>m. sm_ToEpoch m \<noteq> t) (m # ms)) + 1) else epochs t)" for t
    proof (cases "sm_ToEpoch m = t")
      case True
      then have "\<not> (\<exists>x \<in> set ms. sm_ToEpoch x = t)" using fresh by metis
      then have "es t = (epochs(sm_ToEpoch m \<mapsto> i + 1)) t" using IH(2) by simp
      with True show ?thesis by simp
    next
      case False
      then have "es t = (if \<exists>x \<in> set ms. sm_ToEpoch x = t
          then Some (i + 1 + length (takeWhile (\<lambda>m. sm_ToEpoch m \<noteq> t) ms) + 1) else epochs t)"
        using IH(2) by simp
      with False show ?thesis by simp
    qed
    then show ?thesis using IH(1) m \<open>ms \<noteq> []\<close> by simp
  qed
qed

lemma NewSchemaVersioner_Inr:
  assumes "NewSchemaVersioner cur ms = Inr v"
  shows "ve_current v = cur" "ve_migrations v = ms" "chain 0 ms cur"
    "ve_epochs v t = (if \<exists>m \<in> set ms. sm_ToEpoch m = t
       then Some (length (takeWhile (\<lambda>m. sm_ToEpoch m \<noteq> t) ms) + 1) else [0 \<mapsto> 0] t)"
proof -
  have "ve_current v = cur \<and> ve_migrations v = ms \<and> chain 0 ms cur \<and>
    (\<forall>t. ve_epochs v t = (if \<exists>m \<in> set ms. sm_ToEpoch m = t
       then Some (length (takeWhile (\<lambda>m. sm_ToEpoch m \<noteq> t) ms) + 1) else [0 \<mapsto> 0] t))"
  proof (cases "ms = []")
    case True
    with assms show ?thesis by (auto simp: NewSchemaVersioner_def Let_def split: if_splits)
  next
    case False
    with assms obtain es where es: "ladder_loop None 0 ms [0 \<mapsto> 0] = Inr es"
      "sm_FromEpoch (hd ms) = 0" "sm_ToEpoch (last ms) = cur"
      "v = \<lparr>ve_current = cur, ve_migrations = ms, ve_epochs = es\<rparr>"
      by (auto simp: NewSchemaVersioner_def Let_def split: if_splits)
    from ladder_loop_positions [OF es(1) False es(2)] es(3,4) show ?thesis by simp
  qed
  then show "ve_current v = cur" "ve_migrations v = ms" "chain 0 ms cur"
    "ve_epochs v t = (if \<exists>m \<in> set ms. sm_ToEpoch m = t
       then Some (length (takeWhile (\<lambda>m. sm_ToEpoch m \<noteq> t) ms) + 1) else [0 \<mapsto> 0] t)"
    by simp_all
qed

text \<open>The steps after the rung \<open>t\<close>.\<close>

fun steps_after :: "SchemaEpoch \<Rightarrow> SchemaMigration list \<Rightarrow> SchemaMigration list" where
  "steps_after t [] = []"
| "steps_after t (m # ms) = (if sm_ToEpoch m = t then ms else steps_after t ms)"

lemma drop_steps_after:
  "\<exists>m \<in> set ms. sm_ToEpoch m = t \<Longrightarrow>
   drop (Suc (length (takeWhile (\<lambda>m. sm_ToEpoch m \<noteq> t) ms))) ms = steps_after t ms"
  by (induction ms) auto

lemma chain_steps_after:
  "chain a ms b \<Longrightarrow> \<exists>m \<in> set ms. sm_ToEpoch m = t \<Longrightarrow> chain t (steps_after t ms) b"
  by (induction ms arbitrary: a) auto

lemma suffix_steps_after: "suffix (steps_after t ms) ms"
  by (induction ms) (auto intro: suffix_ConsI)

text \<open>What a handshake answers to a tablet behind: the steps from its epoch on.\<close>

definition plan_from :: "SchemaEpoch \<Rightarrow> SchemaMigration list \<Rightarrow> SchemaMigration list" where
  "plan_from t ms = (if t = 0 then ms else steps_after t ms)"

lemma chain_from_zero: "chain 0 ms b \<Longrightarrow> m \<in> set ms \<Longrightarrow> sm_ToEpoch m \<noteq> 0"
  using chain_less by fastforce

lemma ladder_start:
  assumes "NewSchemaVersioner cur ms = Inr v" "known v t"
  shows "drop (case ve_epochs v t of None \<Rightarrow> 0 | Some i \<Rightarrow> i) ms = plan_from t ms"
    "chain t (plan_from t ms) cur"
proof -
  note v = NewSchemaVersioner_Inr [OF assms(1)]
  have "drop (case ve_epochs v t of None \<Rightarrow> 0 | Some i \<Rightarrow> i) ms = plan_from t ms \<and>
    chain t (plan_from t ms) cur"
  proof (cases "\<exists>m \<in> set ms. sm_ToEpoch m = t")
    case True
    then have "t \<noteq> 0" using chain_from_zero [OF v(3)] by auto
    then show ?thesis
      using True drop_steps_after [OF True] chain_steps_after [OF v(3) True]
      by (simp add: v(4) plan_from_def)
  next
    case False
    with assms(2) have "t = 0" by (auto simp: known_def v(4) split: if_splits)
    then show ?thesis using False v(3) by (simp add: v(4) plan_from_def)
  qed
  then show "drop (case ve_epochs v t of None \<Rightarrow> 0 | Some i \<Rightarrow> i) ms = plan_from t ms"
    "chain t (plan_from t ms) cur" by simp_all
qed

lemma known_iff:
  "NewSchemaVersioner cur ms = Inr v \<Longrightarrow> known v t \<longleftrightarrow> t = 0 \<or> t \<in> sm_ToEpoch ` set ms"
  by (auto simp: known_def NewSchemaVersioner_Inr(4))

lemma Handshake_behind:
  assumes "NewSchemaVersioner cur ms = Inr v" "t < cur" "known v t"
  shows "Handshake v t = \<lparr>hr_Status = StatusBehindCatchUp, hr_ServerEpoch = cur, hr_TabletEpoch = t,
    hr_Reason = NoReason, hr_Plan = Some \<lparr>cp_MinSchema = cur, cp_Migrations = plan_from t ms,
      cp_Transforms = concat (map sm_Transforms (plan_from t ms))\<rparr>\<rparr>"
  using assms NewSchemaVersioner_Inr(1,2) [OF assms(1)] ladder_start(1) [OF assms(1,3)]
  by (simp add: Handshake_def fillPlan_def Let_def)

lemma Handshake_other:
  assumes "NewSchemaVersioner cur ms = Inr v" "\<not> (t < cur \<and> known v t)"
  shows "hr_Plan (Handshake v t) = None" "hr_Status (Handshake v t) =
    (if t = cur then StatusSync else if cur < t then StatusAheadRejected else StatusUnknownRejected)"
  using assms NewSchemaVersioner_Inr(1) [OF assms(1)]
  by (auto simp: Handshake_def Let_def)

text \<open>C38: the handshake decides by the tablet's epoch alone, in exactly one of four ways, and a tablet
  behind on a rung of the ladder is sent a plan: the unbroken ascending chain of migrations from its
  epoch to the server's, with their transforms in order.\<close>

theorem handshake_catches_up:
  assumes "NewSchemaVersioner cur ms = Inr v"
  shows "(hr_Status (Handshake v t) = StatusSync \<longleftrightarrow> t = cur) \<and>
    (hr_Status (Handshake v t) = StatusAheadRejected \<longleftrightarrow> cur < t) \<and>
    (hr_Status (Handshake v t) = StatusBehindCatchUp \<longleftrightarrow>
       t < cur \<and> (t = 0 \<or> t \<in> sm_ToEpoch ` set ms)) \<and>
    (hr_Plan (Handshake v t) \<noteq> None \<longleftrightarrow> hr_Status (Handshake v t) = StatusBehindCatchUp) \<and>
    (\<forall>p. hr_Plan (Handshake v t) = Some p \<longrightarrow>
       chain t (cp_Migrations p) cur \<and> suffix (cp_Migrations p) ms \<and> cp_MinSchema p = cur \<and>
       cp_Transforms p = concat (map sm_Transforms (cp_Migrations p)))"
proof (cases "t < cur \<and> known v t")
  case True
  then show ?thesis
    using Handshake_behind [OF assms] ladder_start(2) [OF assms, of t] known_iff [OF assms, of t]
    by (auto simp: plan_from_def suffix_steps_after)
next
  case False
  then show ?thesis
    using Handshake_other [OF assms False] known_iff [OF assms, of t] by auto
qed

definition demo_ladder :: "SchemaMigration list" where
  "demo_ladder =
     [\<lparr>sm_ID = ''a'', sm_FromEpoch = 0, sm_ToEpoch = 2, sm_Transforms = []\<rparr>,
      \<lparr>sm_ID = ''b'', sm_FromEpoch = 2, sm_ToEpoch = 3, sm_Transforms = [\<lparr>dt_ID = ''x'', dt_Order = 1, dt_Label = []\<rparr>]\<rparr>]"

lemma demo_ladder_accepted: "\<exists>v. NewSchemaVersioner 3 demo_ladder = Inr v"
  by (simp add: NewSchemaVersioner_def demo_ladder_def)

lemma handshake_catches_up_witness:
  "\<exists>v. NewSchemaVersioner 3 demo_ladder = Inr v \<and>
     hr_Status (Handshake v 2) = StatusBehindCatchUp \<and> hr_Status (Handshake v 1) \<noteq> StatusBehindCatchUp"
proof -
  obtain v where v: "NewSchemaVersioner 3 demo_ladder = Inr v" using demo_ladder_accepted by blast
  show ?thesis
    using v handshake_catches_up [OF v, of 2] handshake_catches_up [OF v, of 1]
    by (auto simp: demo_ladder_def)
qed

subsection \<open>Which ladders are accepted, and catching up in several visits\<close>

lemma chain_append: "chain a (xs @ ys) b \<longleftrightarrow> (\<exists>c. chain a xs c \<and> chain c ys b)"
  by (induction xs arbitrary: a) auto

lemma chain_last: "chain a ms b \<Longrightarrow> ms \<noteq> [] \<Longrightarrow> sm_ToEpoch (last ms) = b"
  by (induction ms arbitrary: a) auto

lemma ladder_loop_chain:
  "chain a ms b \<Longrightarrow> (\<And>q. prev = Some q \<Longrightarrow> sm_ToEpoch q = a) \<Longrightarrow>
   \<exists>es. ladder_loop prev i ms epochs = Inr es"
proof (induction ms arbitrary: a prev i epochs)
  case Nil
  then show ?case by simp
next
  case (Cons m ms)
  then have "chain (sm_ToEpoch m) ms b" by simp
  then have "\<exists>es. ladder_loop (Some m) (i + 1) ms (epochs(sm_ToEpoch m \<mapsto> i + 1)) = Inr es"
    by (rule Cons.IH) simp
  with Cons.prems show ?case by (auto split: option.splits)
qed

lemma chain_accepted:
  assumes "chain 0 ms cur"
  shows "\<exists>v. NewSchemaVersioner cur ms = Inr v"
proof (cases "ms = []")
  case True
  with assms show ?thesis by (simp add: NewSchemaVersioner_def)
next
  case False
  then have "sm_FromEpoch (hd ms) = 0" using assms by (cases ms) auto
  moreover obtain es where "ladder_loop None 0 ms [0 \<mapsto> 0] = Inr es"
    using ladder_loop_chain [OF assms, of None 0 "[0 \<mapsto> 0]"] by auto
  ultimately show ?thesis
    using False chain_last [OF assms False] by (simp add: NewSchemaVersioner_def)
qed

lemma steps_after_nth:
  "chain a l b \<Longrightarrow> k < length l \<Longrightarrow> steps_after (sm_ToEpoch (l ! k)) l = drop (Suc k) l"
proof (induction l arbitrary: a k)
  case Nil
  then show ?case by simp
next
  case (Cons m l)
  show ?case
  proof (cases k)
    case 0
    then show ?thesis by simp
  next
    case (Suc j)
    with Cons.prems have j: "chain (sm_ToEpoch m) l b" "j < length l" by simp_all
    then have "sm_ToEpoch m \<noteq> sm_ToEpoch (l ! j)"
      using chain_less [OF j(1), of "l ! j"] by simp
    then show ?thesis using Cons.IH [OF j] Suc by simp
  qed
qed

lemma chain_at: "chain a l b \<Longrightarrow> k < length l \<Longrightarrow> chain (sm_ToEpoch (l ! k)) (drop (Suc k) l) b"
proof (induction l arbitrary: a k)
  case Nil
  then show ?case by simp
next
  case (Cons m l)
  then show ?case by (cases k) auto
qed

lemma chain_not_Nil_less: "chain a l b \<Longrightarrow> l \<noteq> [] \<Longrightarrow> a < b"
  by (cases l) (auto dest: chain_le)

lemma steps_after_append:
  "\<forall>m \<in> set xs. sm_ToEpoch m \<noteq> t \<Longrightarrow> steps_after t (xs @ ys) = steps_after t ys"
  by (induction xs) auto

lemma chain_rungs_le: "chain a xs c \<Longrightarrow> m \<in> set xs \<Longrightarrow> sm_ToEpoch m \<le> c"
  by (induction xs arbitrary: a) (auto dest: chain_le)

lemma plan_from_nth:
  assumes "chain 0 ms cur" "chain t (plan_from t ms) cur" "k < length (plan_from t ms)"
  shows "plan_from (sm_ToEpoch (plan_from t ms ! k)) ms = drop (Suc k) (plan_from t ms)"
proof -
  let ?l = "plan_from t ms" and ?e = "sm_ToEpoch (plan_from t ms ! k)"
  have e: "t < ?e" using chain_less [OF assms(2)] assms(3) by simp
  then have "?e \<noteq> 0" by auto
  have "suffix ?l ms" by (simp add: plan_from_def suffix_steps_after)
  then obtain pre where pre: "ms = pre @ ?l" by (auto simp: suffix_def)
  then obtain c where c: "chain 0 pre c" "chain c ?l cur" using assms(1) chain_append by metis
  have "c = t" using c(2) assms(2,3) by (cases ?l) auto
  then have "\<forall>m \<in> set pre. sm_ToEpoch m \<noteq> ?e"
    using chain_rungs_le [OF c(1)] e by fastforce
  then have "steps_after ?e ms = steps_after ?e ?l"
    using steps_after_append pre by metis
  also have "\<dots> = drop (Suc k) ?l" by (rule steps_after_nth [OF assms(2,3)])
  finally show ?thesis using \<open>?e \<noteq> 0\<close> by (simp add: plan_from_def)
qed

text \<open>C18: A ladder is accepted exactly when it is an unbroken ascending chain from epoch 0 to the
  current epoch; a tablet that stops anywhere on its plan is sent exactly the steps it has not
  applied when it asks again, and is in sync after the last one.\<close>

theorem handshake_resumes:
  assumes "chain 0 ms cur"
  shows "\<exists>v. NewSchemaVersioner cur ms = Inr v \<and>
    (\<forall>t p k. hr_Plan (Handshake v t) = Some p \<longrightarrow> k < length (cp_Migrations p) \<longrightarrow>
      (let u = sm_ToEpoch (cp_Migrations p ! k) in
       if k + 1 = length (cp_Migrations p) then hr_Status (Handshake v u) = StatusSync
       else \<exists>q. hr_Plan (Handshake v u) = Some q \<and>
              cp_Migrations q = drop (k + 1) (cp_Migrations p)))"
proof -
  obtain v where v: "NewSchemaVersioner cur ms = Inr v" using chain_accepted [OF assms] by blast
  have "let u = sm_ToEpoch (cp_Migrations p ! k) in
      if k + 1 = length (cp_Migrations p) then hr_Status (Handshake v u) = StatusSync
      else \<exists>q. hr_Plan (Handshake v u) = Some q \<and> cp_Migrations q = drop (k + 1) (cp_Migrations p)"
    if p: "hr_Plan (Handshake v t) = Some p" and k: "k < length (cp_Migrations p)" for t p k
  proof -
    have t: "t < cur \<and> known v t" using p Handshake_other(1) [OF v] by fastforce
    then have l: "cp_Migrations p = plan_from t ms" using p Handshake_behind [OF v, of t] by auto
    note ch = ladder_start(2) [OF v conjunct2 [OF t]]
    let ?u = "sm_ToEpoch (cp_Migrations p ! k)"
    note next_plan = plan_from_nth [OF assms ch k [unfolded l]]
    show ?thesis
    proof (cases "k + 1 = length (cp_Migrations p)")
      case True
      then have "cp_Migrations p ! k = last (cp_Migrations p)"
        using k by (metis add_diff_cancel_right' last_conv_nth list.size(3) not_less_zero)
      moreover have "cp_Migrations p \<noteq> []" using k by auto
      ultimately have "?u = cur" using chain_last [OF ch] l by simp
      then show ?thesis using True Handshake_other(2) [OF v, of cur] by (simp add: Let_def)
    next
      case False
      then have rest: "drop (Suc k) (plan_from t ms) \<noteq> []" using k l by simp
      have "?u < cur"
        using chain_not_Nil_less [OF chain_at [OF ch k [unfolded l]] rest] l by simp
      moreover have "cp_Migrations p ! k \<in> set (plan_from t ms)" using k l by simp
      then have "cp_Migrations p ! k \<in> set ms"
        using set_mono_suffix [OF suffix_steps_after] by (auto simp: plan_from_def split: if_splits)
      then have "known v ?u" using known_iff [OF v] by blast
      ultimately have "hr_Plan (Handshake v ?u) =
          Some \<lparr>cp_MinSchema = cur, cp_Migrations = plan_from ?u ms,
                cp_Transforms = concat (map sm_Transforms (plan_from ?u ms))\<rparr>"
        using Handshake_behind [OF v] by simp
      then show ?thesis using False next_plan l by (simp add: Let_def)
    qed
  qed
  then show ?thesis using v by blast
qed

lemma handshake_resumes_witness:
  "\<exists>v. NewSchemaVersioner 3 demo_ladder = Inr v \<and>
     (\<forall>p. hr_Plan (Handshake v 0) = Some p \<longrightarrow> length (cp_Migrations p) = 2 \<longrightarrow>
        hr_Status (Handshake v (sm_ToEpoch (cp_Migrations p ! 1))) = StatusSync)"
proof -
  have "chain 0 demo_ladder 3" by (simp add: demo_ladder_def)
  from handshake_resumes [OF this] show ?thesis by (auto simp: Let_def)
qed

lemma currentSchemaMigrations_chain: "chain 0 currentSchemaMigrations currentSchemaEpoch"
proof -
  have "chain (of_nat i) (map (\<lambda>i. \<lparr>sm_ID = ''migration_'' @ show_padded 4 (int (i + 1)),
      sm_FromEpoch = of_nat i, sm_ToEpoch = of_nat i + 1, sm_Transforms = []\<rparr>) [i..<n]) (of_nat n)"
    if "i \<le> n" "n < 2 ^ 64" for i n
    using that
  proof (induction "n - i" arbitrary: i)
    case 0
    then show ?case by simp
  next
    case (Suc k)
    then have "(of_nat i :: uint64) < of_nat (Suc i)"
      by (simp add: word_less_nat_alt unsigned_of_nat take_bit_nat_eq_self del: of_nat_Suc)
    then have "(of_nat i :: uint64) < of_nat i + 1" by (simp add: add.commute)
    moreover have "[i..<n] = i # [Suc i..<n]" using Suc by (simp add: upt_conv_Cons)
    ultimately show ?case using Suc.hyps(1) [of "Suc i"] Suc.hyps(2) Suc.prems by (simp add: add.commute)
  qed
  from this [of 0 75] show ?thesis
    by (simp add: currentSchemaMigrations_def currentSchemaEpoch_def)
qed

text \<open>The server's own ladder is accepted; a tablet at any epoch below 75 is answered with the
  75 - t remaining migrations, one at 75 is in sync, and one above is rejected.\<close>

theorem current_schema_versioner:
  "\<exists>v. CurrentSchemaVersioner = Inr (Some v) \<and> CurrentEpoch v = 75 \<and>
     (\<forall>t. if t < 75 then hr_Status (Handshake v t) = StatusBehindCatchUp \<and>
             (\<exists>p. hr_Plan (Handshake v t) = Some p \<and> length (cp_Migrations p) = 75 - unat t)
          else hr_Status (Handshake v t) = (if t = 75 then StatusSync else StatusAheadRejected))"
proof -
  obtain v where v: "NewSchemaVersioner currentSchemaEpoch currentSchemaMigrations = Inr v"
    using chain_accepted [OF currentSchemaMigrations_chain] by blast
  have len: "length currentSchemaMigrations = 75"
    by (simp add: currentSchemaMigrations_def currentSchemaEpoch_def)
  have at: "k < 75 \<Longrightarrow> sm_ToEpoch (currentSchemaMigrations ! k) = of_nat k + 1" for k
    by (simp add: currentSchemaMigrations_def currentSchemaEpoch_def)
  have behind: "known v t \<and> length (plan_from t currentSchemaMigrations) = 75 - unat t" if "t < 75" for t
  proof (cases "t = 0")
    case True
    then show ?thesis by (simp add: known_iff [OF v] plan_from_def len)
  next
    case False
    then obtain k where k: "unat t = Suc k" by (metis not0_implies_Suc unat_eq_zero)
    have "k < 74" using that k by (simp add: word_less_nat_alt)
    have "t = of_nat (Suc k)" using k \<open>k < 74\<close>
      by (simp add: word_unat_eq_iff unsigned_of_nat take_bit_nat_eq_self del: of_nat_Suc)
    then have "sm_ToEpoch (currentSchemaMigrations ! k) = t"
      using at [of k] \<open>k < 74\<close> by (simp add: add.commute)
    then show ?thesis
      using steps_after_nth [OF currentSchemaMigrations_chain, of k] \<open>k < 74\<close> len k False
        known_iff [OF v, of t] nth_mem [of k currentSchemaMigrations]
      by (auto simp: plan_from_def)
  qed
  show ?thesis
  proof (intro exI conjI allI)
    show "CurrentSchemaVersioner = Inr (Some v)"
      by (simp add: CurrentSchemaVersioner_def v) (simp add: currentSchemaEpoch_def)
    show "CurrentEpoch v = 75"
      using NewSchemaVersioner_Inr(1) [OF v] by (simp add: CurrentEpoch_def currentSchemaEpoch_def)
    show "if t < 75 then hr_Status (Handshake v t) = StatusBehindCatchUp \<and>
             (\<exists>p. hr_Plan (Handshake v t) = Some p \<and> length (cp_Migrations p) = 75 - unat t)
          else hr_Status (Handshake v t) = (if t = 75 then StatusSync else StatusAheadRejected)" for t
      using behind [of t] Handshake_behind [OF v, of t] Handshake_other [OF v, of t]
      by (auto simp: currentSchemaEpoch_def)
  qed
qed

end
