(* ===== verification/Sync_Processor.thy ===== *)
theory Sync_Processor
  imports Device_Trust Sync_State Schema_Versioning "HOL-Library.AList"
begin

text \<open>
  The offline synchronisation processor, \<open>internal/domain/sync/sync.go\<close> and \<open>preacceptance.go\<close>.

  The maps of the \<open>Processor\<close> are functions, or association lists where the code ranges over
  them; the order in which Go ranges over a map is not specified, so each call carries a rank of
  the keys, and the range is the list sorted by it. \<open>p.state\<close> is an argument: \<open>None\<close> is the nil
  interface, \<open>Some repo\<close> the functions of \<open>SyncStateRepository\<close> on the state that is threaded
  through. The locks serialise the calls of one device, and each call is modelled as one step.
  An \<open>err.Error()\<close> that becomes a reason is kept as the error.
\<close>

subsection \<open>Transactions\<close>

datatype Outcome = Applied | Duplicate | Queued | Held | Rejected | Conflict | SecurityFailure

fun Outcome_string :: "Outcome \<Rightarrow> string" where
  "Outcome_string Applied = ''APPLIED''"
| "Outcome_string Duplicate = ''DUPLICATE''"
| "Outcome_string Queued = ''QUEUED''"
| "Outcome_string Held = ''HELD''"
| "Outcome_string Rejected = ''REJECTED''"
| "Outcome_string Conflict = ''CONFLICT''"
| "Outcome_string SecurityFailure = ''SECURITY_FAILURE''"

definition legacyHMACSHA256 :: string where "legacyHMACSHA256 = ''HMAC-SHA256''"

record Transaction =
  tx_ProtocolVersion :: string
  tx_TransactionID :: string
  tx_TenantID :: string
  tx_OrganizationID :: string
  tx_Environment :: string
  tx_DeviceID :: string
  tx_UserID :: string
  tx_SequenceNumber :: uint64
  tx_Operation :: string
  tx_EntityID :: string
  tx_Payload :: bytes
  tx_PayloadHash :: string
  tx_CapturedAt :: gotime
  tx_AuthorityID :: string
  tx_AuthorityEpoch :: uint64
  tx_SignatureAlgorithm :: string
  tx_KeyID :: string
  tx_Signature :: string

definition HashPayload :: "crypto \<Rightarrow> bytes \<Rightarrow> string" where
  "HashPayload C payload = hex_encode (sha256 C payload)"

definition NewTransaction ::
    "crypto \<Rightarrow> gotime \<Rightarrow> string \<Rightarrow> string \<Rightarrow> string \<Rightarrow> string \<Rightarrow> uint64 \<Rightarrow> string \<Rightarrow> bytes \<Rightarrow> Transaction" where
  "NewTransaction C now transactionID tenantID deviceID userID sequence operation payload =
     \<lparr>tx_ProtocolVersion = ''v1'', tx_TransactionID = transactionID, tx_TenantID = tenantID,
      tx_OrganizationID = [], tx_Environment = ''LIVE'', tx_DeviceID = deviceID, tx_UserID = userID,
      tx_SequenceNumber = sequence, tx_Operation = operation, tx_EntityID = [],
      tx_Payload = payload, tx_PayloadHash = HashPayload C payload, tx_CapturedAt = now,
      tx_AuthorityID = [], tx_AuthorityEpoch = 0, tx_SignatureAlgorithm = legacyHMACSHA256,
      tx_KeyID = [], tx_Signature = []\<rparr>"

definition canonicalTransaction :: "Transaction \<Rightarrow> string" where
  "canonicalTransaction t = join ''|''
     [tx_ProtocolVersion t, tx_TransactionID t, tx_TenantID t, tx_OrganizationID t,
      tx_Environment t, tx_DeviceID t, tx_UserID t, show_u64 (tx_SequenceNumber t),
      tx_Operation t, tx_EntityID t, tx_PayloadHash t, tx_AuthorityID t,
      show_u64 (tx_AuthorityEpoch t), RFC3339Nano (tx_CapturedAt t), tx_SignatureAlgorithm t,
      tx_KeyID t]"

definition signTransaction :: "crypto \<Rightarrow> Transaction \<Rightarrow> string \<Rightarrow> string" where
  "signTransaction C t secret = hex_encode (hmac_sha256 C secret (canonicalTransaction t))"

definition SignTransaction :: "crypto \<Rightarrow> Transaction \<Rightarrow> string \<Rightarrow> string \<Rightarrow> Transaction" where
  "SignTransaction C t secret keyID =
     (let t1 = t\<lparr>tx_KeyID := keyID\<rparr> in t1\<lparr>tx_Signature := signTransaction C t1 secret\<rparr>)"

subsection \<open>Device keys (\<open>internal/security/device_keys.go\<close>)\<close>

definition DeviceKeyID :: "crypto \<Rightarrow> bytes \<Rightarrow> string" where
  "DeviceKeyID C publicKey = hex_encode (sha256 C publicKey)"

definition VerifyDeviceMutation :: "crypto \<Rightarrow> bytes \<Rightarrow> bytes \<Rightarrow> bytes \<Rightarrow> bool" where
  "VerifyDeviceMutation C publicKey message signature \<longleftrightarrow>
     length publicKey = 32 \<and> length signature = 64 \<and> ed25519_verify C publicKey message signature"

definition requiredCapability :: "string \<Rightarrow> string" where
  "requiredCapability operation =
     (if operation = ''InspectionSubmitted'' then ''inspection.perform''
      else if operation = ''InspectionEvidenceUploaded'' then ''evidence.upload'' else [])"

subsection \<open>The processor\<close>

datatype sync_reason =
    NoReason
  | Text string
  | AuthorityInvalid device_error
  | PolicyRefused string
  | HeldNotDurable sync_state_error

record SyncResult =
  res_Outcome :: Outcome
  res_Code :: "ErrorCode option"
  res_TransactionID :: string
  res_Reason :: sync_reason
  res_ExpectedSequence :: uint64
  res_PayloadHash :: string

record Processor =
  pr_secrets :: "(string \<times> string) list"
  pr_devices :: "string \<Rightarrow> Device option"
  pr_lastSequence :: "string \<Rightarrow> uint64 option"
  pr_transactions :: "string \<Rightarrow> string option"
  pr_held :: "(string \<times> Transaction) list"
  pr_preAcceptancePolicy :: "(Transaction \<Rightarrow> string option) option"
  pr_schemaVersioner :: "SchemaVersioner option"
  pr_HMACFallbackCount :: int64

text \<open>What a call takes from its surroundings: the clock and the order of the map ranges.\<close>

record sync_call =
  call_at :: gotime
  call_secret_rank :: "string \<Rightarrow> nat"
  call_held_rank :: "uint64 \<Rightarrow> string \<Rightarrow> nat"

definition range_by :: "(string \<Rightarrow> nat) \<Rightarrow> (string \<times> 'v) list \<Rightarrow> (string \<times> 'v) list" where
  "range_by rank m = sort_key (\<lambda>kv. rank (fst kv)) m"

lemma set_range_by [simp]: "set (range_by rank m) = set m"
  by (simp add: range_by_def)

definition NewProcessor :: "(string \<times> string) list \<Rightarrow> Processor option" where
  "NewProcessor secrets =
     (if length secrets = 0 then None
      else Some \<lparr>pr_secrets = secrets, pr_devices = (\<lambda>_. None), pr_lastSequence = (\<lambda>_. None),
                 pr_transactions = (\<lambda>_. None), pr_held = [], pr_preAcceptancePolicy = None,
                 pr_schemaVersioner = None, pr_HMACFallbackCount = 0\<rparr>)"

definition RegisterDevice :: "Device \<Rightarrow> Processor \<Rightarrow> Processor" where
  "RegisterDevice d p = p\<lparr>pr_devices := (pr_devices p)(d_id d \<mapsto> d)\<rparr>"

definition RevokeDevice :: "string \<Rightarrow> Processor \<Rightarrow> Processor" where
  "RevokeDevice deviceID p = p\<lparr>pr_devices := (pr_devices p)(deviceID := None)\<rparr>"

definition DeviceRegistered :: "string \<Rightarrow> Processor \<Rightarrow> bool" where
  "DeviceRegistered deviceID p \<longleftrightarrow> pr_devices p deviceID \<noteq> None"

definition HeldTransactions :: "(string \<Rightarrow> nat) \<Rightarrow> Processor \<Rightarrow> Transaction list" where
  "HeldTransactions rank p = map snd (range_by rank (pr_held p))"

definition SetPreAcceptancePolicy :: "(Transaction \<Rightarrow> string option) option \<Rightarrow> Processor \<Rightarrow> Processor" where
  "SetPreAcceptancePolicy policy p = p\<lparr>pr_preAcceptancePolicy := policy\<rparr>"

definition SetSchemaVersioner :: "SchemaVersioner option \<Rightarrow> Processor \<Rightarrow> Processor" where
  "SetSchemaVersioner versioner p = p\<lparr>pr_schemaVersioner := versioner\<rparr>"

definition SchemaHandshake :: "Processor \<Rightarrow> SchemaEpoch \<Rightarrow> HandshakeResult" where
  "SchemaHandshake p tabletEpoch =
     (case pr_schemaVersioner p of
        None \<Rightarrow> \<lparr>hr_Status = StatusSync, hr_ServerEpoch = 0, hr_TabletEpoch = tabletEpoch,
                 hr_Reason = handshake_reason.NoReason, hr_Plan = None\<rparr>
      | Some v \<Rightarrow> Handshake v tabletEpoch)"

text \<open>The lock that serialises a device: 32-bit FNV-1a of its id, modulo 64.\<close>

definition deviceLock :: "string \<Rightarrow> 32 word" where
  "deviceLock deviceID =
     fold (\<lambda>c h. (h XOR of_char c) * 16777619) deviceID 2166136261 mod 64"

lemma deviceLock_bound: "deviceLock deviceID < 64"
  by (simp add: deviceLock_def word_less_nat_alt unat_mod)

subsection \<open>Admission\<close>

text \<open>A refusal is the code, the outcome and the reason that \<open>p.fail\<close> puts into the result.\<close>

type_synonym refusal = "ErrorCode \<times> Outcome \<times> sync_reason"

definition deviceHasRegisteredKey :: "Device \<Rightarrow> bool" where
  "deviceHasRegisteredKey d \<longleftrightarrow>
     (case b64_decode False True (d_publicKey d) of None \<Rightarrow> False | Some pub \<Rightarrow> length pub = 32)"

definition defaultSecret :: "sync_call \<Rightarrow> Processor \<Rightarrow> string" where
  "defaultSecret call p =
     (case range_by (call_secret_rank call) (pr_secrets p) of [] \<Rightarrow> [] | (k, v) # _ \<Rightarrow> v)"

definition admit_identity ::
    "crypto \<Rightarrow> Processor \<Rightarrow> Transaction \<Rightarrow> AuthorityPackage \<Rightarrow> refusal + Device" where
  "admit_identity C p t authority =
     (if blank (tx_TransactionID t) \<or> blank (tx_TenantID t) \<or> blank (tx_DeviceID t) \<or>
         blank (tx_UserID t) \<or> blank (tx_Operation t) \<or> tx_SequenceNumber t = 0
        then Inl (ErrValidation, Rejected, Text ''transaction identity and sequence are required'')
      else if tx_PayloadHash t \<noteq> HashPayload C (tx_Payload t)
        then Inl (ErrRejected, SecurityFailure, Text ''payload hash mismatch'')
      else case pr_devices p (tx_DeviceID t) of
        None \<Rightarrow> Inl (ErrUnauthorized, SecurityFailure, Text ''device is not registered'')
      | Some device \<Rightarrow>
          if tx_TenantID t \<noteq> d_tenantID device \<or> tx_UserID t \<noteq> d_userID device
            then Inl (ErrTenantMismatch, SecurityFailure,
                      Text ''transaction identity does not match device authority'')
          else if tx_SignatureAlgorithm t = ''Ed25519'' then
            (if tx_ProtocolVersion t \<noteq> ''v1'' \<or> tx_OrganizationID t = [] \<or> tx_Environment t = [] \<or>
                tx_EntityID t = [] \<or> time_IsZero (tx_CapturedAt t) \<or> tx_AuthorityID t = [] \<or>
                tx_AuthorityEpoch t = 0
               then Inl (ErrValidation, Rejected, Text ''v1 transaction envelope is incomplete'')
             else if tx_OrganizationID t \<noteq> d_organizationID device \<or>
                     tx_AuthorityID t \<noteq> pkg_ID authority \<or> tx_AuthorityEpoch t \<noteq> pkg_Epoch authority
               then Inl (ErrTenantMismatch, SecurityFailure,
                         Text ''transaction authority context does not match server state'')
             else (let required = requiredCapability (tx_Operation t) in
               if required \<noteq> [] \<and> required \<notin> set (pkg_Scopes authority)
                 then Inl (ErrUnauthorized, SecurityFailure,
                           Text ''authority does not permit operation'')
               else Inr device))
          else if tx_SignatureAlgorithm t = legacyHMACSHA256 then Inr device
          else Inl (ErrRejected, SecurityFailure,
                    Text ''transaction signature algorithm is not supported''))"

definition legacy_secret :: "Processor \<Rightarrow> string \<Rightarrow> string option" where
  "legacy_secret p keyID =
     (case map_of (pr_secrets p) keyID of
        Some secret \<Rightarrow> Some secret
      | None \<Rightarrow> if keyID = [] then map_of (pr_secrets p) ''default'' else None)"

definition ed25519_signature_ok :: "crypto \<Rightarrow> Device \<Rightarrow> Transaction \<Rightarrow> bool" where
  "ed25519_signature_ok C device t \<longleftrightarrow>
     (case (b64_decode False True (d_publicKey device), b64_decode False True (tx_Signature t)) of
        (Some publicKey, Some signature) \<Rightarrow>
          tx_KeyID t \<noteq> [] \<and> tx_KeyID t = DeviceKeyID C publicKey \<and>
          VerifyDeviceMutation C publicKey (canonicalTransaction t) signature
      | _ \<Rightarrow> False)"

definition admit_signature :: "crypto \<Rightarrow> Processor \<Rightarrow> Device \<Rightarrow> Transaction \<Rightarrow> refusal option" where
  "admit_signature C p device t =
     (if tx_SignatureAlgorithm t = ''Ed25519'' then
        (if d_id device \<noteq> ''device-session'' \<and> \<not> ed25519_signature_ok C device t
           then Some (ErrRejected, SecurityFailure, Text ''transaction Ed25519 signature is invalid'')
         else None)
      else if deviceHasRegisteredKey device
        then Some (ErrRejected, SecurityFailure, Text
          ''device carries registered key material; HMAC-SHA256 shared-secret signing is deprecated'')
      else case legacy_secret p (tx_KeyID t) of
        None \<Rightarrow> Some (ErrRejected, SecurityFailure, Text ''transaction HMAC key ID is unknown'')
      | Some secret \<Rightarrow>
          if tx_Signature t \<noteq> signTransaction C t secret
            then Some (ErrRejected, SecurityFailure, Text ''transaction HMAC signature is invalid'')
          else None)"

text \<open>The counter is raised before the key is looked up and the signature is compared.\<close>

definition count_legacy :: "Device \<Rightarrow> Transaction \<Rightarrow> Processor \<Rightarrow> Processor" where
  "count_legacy device t p =
     (if tx_SignatureAlgorithm t \<noteq> ''Ed25519'' \<and> \<not> deviceHasRegisteredKey device
        then p\<lparr>pr_HMACFallbackCount := wrap64 (pr_HMACFallbackCount p + 1)\<rparr> else p)"

definition admit ::
    "crypto \<Rightarrow> sync_call \<Rightarrow> Transaction \<Rightarrow> AuthorityPackage \<Rightarrow> Processor \<Rightarrow>
     refusal option \<times> Processor" where
  "admit C call t authority p =
     (case admit_identity C p t authority of
        Inl r \<Rightarrow> (Some r, p)
      | Inr device \<Rightarrow>
         (case ValidateAuthorityPackage C authority device (defaultSecret call p) (call_at call) of
            Some e \<Rightarrow> (Some (ErrUnauthorized, SecurityFailure, AuthorityInvalid e), p)
          | None \<Rightarrow> (admit_signature C p device t, count_legacy device t p)))"

subsection \<open>The envelope of a held transaction (\<open>encoding/json\<close>)\<close>

definition Transaction_json :: "Transaction \<Rightarrow> json" where
  "Transaction_json t = JObj
     [(''ProtocolVersion'', JStr (tx_ProtocolVersion t)),
      (''TransactionID'', JStr (tx_TransactionID t)), (''TenantID'', JStr (tx_TenantID t)),
      (''OrganizationID'', JStr (tx_OrganizationID t)), (''Environment'', JStr (tx_Environment t)),
      (''DeviceID'', JStr (tx_DeviceID t)), (''UserID'', JStr (tx_UserID t)),
      (''SequenceNumber'', JInt (uint (tx_SequenceNumber t))),
      (''Operation'', JStr (tx_Operation t)), (''EntityID'', JStr (tx_EntityID t)),
      (''Payload'', JBytes (tx_Payload t)), (''PayloadHash'', JStr (tx_PayloadHash t)),
      (''CapturedAt'', JTime (tx_CapturedAt t)), (''AuthorityID'', JStr (tx_AuthorityID t)),
      (''AuthorityEpoch'', JInt (uint (tx_AuthorityEpoch t))),
      (''SignatureAlgorithm'', JStr (tx_SignatureAlgorithm t)), (''KeyID'', JStr (tx_KeyID t)),
      (''Signature'', JStr (tx_Signature t))]"

text \<open>A field that the document lacks keeps its zero value; one of another type is an error.\<close>

definition str_field :: "(string \<times> json) list \<Rightarrow> string \<Rightarrow> string option" where
  "str_field fs k = (case map_of fs k of None \<Rightarrow> Some [] | Some (JStr s) \<Rightarrow> Some s | _ \<Rightarrow> None)"

definition u64_field :: "(string \<times> json) list \<Rightarrow> string \<Rightarrow> uint64 option" where
  "u64_field fs k =
     (case map_of fs k of
        None \<Rightarrow> Some 0
      | Some (JInt i) \<Rightarrow> if 0 \<le> i \<and> i < 2 ^ 64 then Some (word_of_int i) else None
      | _ \<Rightarrow> None)"

definition bytes_field :: "(string \<times> json) list \<Rightarrow> string \<Rightarrow> bytes option" where
  "bytes_field fs k = (case map_of fs k of None \<Rightarrow> Some [] | Some (JBytes b) \<Rightarrow> Some b | _ \<Rightarrow> None)"

definition time_field :: "(string \<times> json) list \<Rightarrow> string \<Rightarrow> gotime option" where
  "time_field fs k = (case map_of fs k of None \<Rightarrow> Some 0 | Some (JTime t) \<Rightarrow> Some t | _ \<Rightarrow> None)"

definition Transaction_of_json :: "json \<Rightarrow> Transaction option" where
  "Transaction_of_json j =
     (case j of
        JObj fs \<Rightarrow>
         (case (map (str_field fs) [''ProtocolVersion'', ''TransactionID'', ''TenantID'',
                  ''OrganizationID'', ''Environment'', ''DeviceID'', ''UserID'', ''Operation'',
                  ''EntityID'', ''PayloadHash'', ''AuthorityID'', ''SignatureAlgorithm'', ''KeyID'',
                  ''Signature''],
                u64_field fs ''SequenceNumber'', bytes_field fs ''Payload'',
                time_field fs ''CapturedAt'', u64_field fs ''AuthorityEpoch'') of
            ([Some a, Some b, Some c, Some d, Some e, Some f, Some g, Some h, Some i, Some k, Some l,
              Some m, Some n, Some q], Some sq, Some py, Some ca, Some ep) \<Rightarrow>
              Some \<lparr>tx_ProtocolVersion = a, tx_TransactionID = b, tx_TenantID = c,
                    tx_OrganizationID = d, tx_Environment = e, tx_DeviceID = f, tx_UserID = g,
                    tx_SequenceNumber = sq, tx_Operation = h, tx_EntityID = i, tx_Payload = py,
                    tx_PayloadHash = k, tx_CapturedAt = ca, tx_AuthorityID = l,
                    tx_AuthorityEpoch = ep, tx_SignatureAlgorithm = m, tx_KeyID = n,
                    tx_Signature = q\<rparr>
          | _ \<Rightarrow> None)
      | _ \<Rightarrow> None)"

lemma uint_less_2_64 [simp]: "uint (w :: uint64) < 18446744073709551616"
  using uint_lt2p [of w] by simp

lemma Transaction_json_roundtrip [simp]: "Transaction_of_json (Transaction_json t) = Some t"
  by (cases t) (simp add: Transaction_of_json_def Transaction_json_def str_field_def u64_field_def
      bytes_field_def time_field_def)

subsection \<open>The sequence gate\<close>

definition transaction_receipt :: "sync_call \<Rightarrow> Transaction \<Rightarrow> Outcome \<Rightarrow> string \<Rightarrow> Receipt" where
  "transaction_receipt call t outcome reason =
     \<lparr>rc_TransactionID = tx_TransactionID t, rc_TenantID = tx_TenantID t,
      rc_OrganizationID = tx_OrganizationID t, rc_DeviceID = tx_DeviceID t,
      rc_UserID = tx_UserID t, rc_SequenceNumber = tx_SequenceNumber t,
      rc_Operation = tx_Operation t, rc_EntityID = tx_EntityID t,
      rc_PayloadHash = tx_PayloadHash t, rc_Outcome = Outcome_string outcome, rc_Reason = reason,
      rc_CapturedAt = tx_CapturedAt t, rc_ReceivedAt = call_at call\<rparr>"

definition persistReceipt ::
    "'s SyncStateRepository option \<Rightarrow> sync_call \<Rightarrow> Transaction \<Rightarrow> Outcome \<Rightarrow> string \<Rightarrow> 's \<Rightarrow>
     sync_state_error + 's" where
  "persistReceipt repo call t outcome reason s =
     (case repo of
        None \<Rightarrow> Inr s
      | Some r \<Rightarrow> ssr_SaveReceipt r (transaction_receipt call t outcome reason) s)"

definition persistHeld ::
    "'s SyncStateRepository option \<Rightarrow> sync_call \<Rightarrow> Transaction \<Rightarrow> uint64 \<Rightarrow> string \<Rightarrow> 's \<Rightarrow>
     sync_state_error + 's" where
  "persistHeld repo call t expected reason s =
     (case repo of
        None \<Rightarrow> Inr s
      | Some r \<Rightarrow>
          if \<not> marshal_ok (Transaction_json t) then Inl SyncMarshalFailed
          else ssr_SaveHeld r \<lparr>ht_Receipt = transaction_receipt call t Held reason,
                 ht_ExpectedSequence = expected, ht_Envelope = Some (Transaction_json t),
                 ht_FirstHeldAt = call_at call, ht_LastAttemptAt = call_at call,
                 ht_LastError = reason\<rparr> s)"

definition sync_result :: "Transaction \<Rightarrow> uint64 \<Rightarrow> Outcome \<Rightarrow> ErrorCode option \<Rightarrow> sync_reason \<Rightarrow> SyncResult" where
  "sync_result t expected outcome code reason =
     \<lparr>res_Outcome = outcome, res_Code = code, res_TransactionID = tx_TransactionID t,
      res_Reason = reason, res_ExpectedSequence = expected, res_PayloadHash = tx_PayloadHash t\<rparr>"

text \<open>
  What the receipts on record say about a transaction: \<open>Some\<close> is an answer that ends the call
  with that outcome, \<open>None\<close> lets it go on to the sequence gate.
\<close>

definition already_applied :: "Outcome \<times> ErrorCode option \<times> sync_reason" where
  "already_applied = (Duplicate, None, Text ''transaction already applied'')"

definition id_reused :: "Outcome \<times> ErrorCode option \<times> sync_reason" where
  "id_reused = (Conflict, Some ErrConflict, Text ''transaction id was reused with different payload'')"

definition durable_answer ::
    "'s SyncStateRepository option \<Rightarrow> Transaction \<Rightarrow> 's \<Rightarrow>
     (Outcome \<times> ErrorCode option \<times> sync_reason) option" where
  "durable_answer repo t s =
     (case repo of
        None \<Rightarrow> None
      | Some r \<Rightarrow>
         (case ssr_GetReceipt r (tx_TenantID t) (tx_TransactionID t) s of
            Inr receipt \<Rightarrow>
              if rc_PayloadHash receipt \<noteq> tx_PayloadHash t then Some id_reused
              else if rc_Outcome receipt = ''APPLIED'' then Some already_applied
              else if rc_Outcome receipt = ''HELD'' then None
              else Some (Conflict, Some ErrConflict,
                         Text ''transaction has a non-resumable receipt state'')
          | Inl e \<Rightarrow>
              if e = SyncNotFound then None
              else Some (SecurityFailure, Some ErrRejected,
                         Text ''durable sync state is unavailable'')))"

definition memory_answer ::
    "Processor \<Rightarrow> Transaction \<Rightarrow> (Outcome \<times> ErrorCode option \<times> sync_reason) option" where
  "memory_answer p t =
     (case pr_transactions p (tx_TransactionID t) of
        Some existingHash \<Rightarrow>
          if existingHash = tx_PayloadHash t then Some already_applied else Some id_reused
      | None \<Rightarrow>
         (case map_of (pr_held p) (tx_TransactionID t) of
            Some heldTransaction \<Rightarrow>
              if tx_PayloadHash heldTransaction \<noteq> tx_PayloadHash t then Some id_reused else None
          | None \<Rightarrow> None))"

definition memory_next :: "Processor \<Rightarrow> string \<Rightarrow> uint64" where
  "memory_next p deviceID = (case pr_lastSequence p deviceID of None \<Rightarrow> 0 | Some n \<Rightarrow> n) + 1"

text \<open>The next sequence number of the device; \<open>None\<close> when the durable number cannot be read.\<close>

definition expected_sequence ::
    "'s SyncStateRepository option \<Rightarrow> Processor \<Rightarrow> Transaction \<Rightarrow> 's \<Rightarrow> uint64 option" where
  "expected_sequence repo p t s =
     (case repo of
        None \<Rightarrow> Some (memory_next p (tx_DeviceID t))
      | Some r \<Rightarrow>
         (case ssr_GetLastAcceptedSequence r (tx_TenantID t) (tx_DeviceID t) s of
            Inr persisted \<Rightarrow> Some (persisted + 1)
          | Inl e \<Rightarrow> if e = SyncNotFound then Some (memory_next p (tx_DeviceID t)) else None))"

definition accept :: "Transaction \<Rightarrow> Processor \<Rightarrow> Processor" where
  "accept t p = p\<lparr>pr_lastSequence := (pr_lastSequence p)(tx_DeviceID t \<mapsto> tx_SequenceNumber t),
                  pr_transactions := (pr_transactions p)(tx_TransactionID t \<mapsto> tx_PayloadHash t),
                  pr_held := AList.delete (tx_TransactionID t) (pr_held p)\<rparr>"

definition sequence_gap :: "uint64 \<Rightarrow> string" where
  "sequence_gap expected = ''sequence gap: expected '' @ show_u64 expected"

definition gate ::
    "'s SyncStateRepository option \<Rightarrow> sync_call \<Rightarrow> Transaction \<Rightarrow> Processor \<Rightarrow> 's \<Rightarrow>
     SyncResult \<times> Processor \<times> 's" where
  "gate repo call t p s =
     (case expected_sequence repo p t s of
        None \<Rightarrow> (sync_result t 0 SecurityFailure (Some ErrRejected)
                  (Text ''durable sequence state is unavailable''), p, s)
      | Some expected \<Rightarrow>
          if expected < tx_SequenceNumber t then
            (case persistHeld repo call t expected (sequence_gap expected) s of
               Inl e \<Rightarrow> (sync_result t expected SecurityFailure (Some ErrRejected)
                          (HeldNotDurable e), p, s)
             | Inr s' \<Rightarrow> (sync_result t expected Held (Some ErrHeld) (Text (sequence_gap expected)),
                 p\<lparr>pr_held := AList.update (tx_TransactionID t) t (pr_held p)\<rparr>, s'))
          else if tx_SequenceNumber t < expected then
            (sync_result t expected Conflict (Some ErrConflict)
               (Text (''stale sequence: expected '' @ show_u64 expected)), p, s)
          else case (case pr_preAcceptancePolicy p of None \<Rightarrow> None | Some policy \<Rightarrow> policy t) of
            Some e \<Rightarrow> (sync_result t expected Rejected (Some ErrRejected) (PolicyRefused e), p, s)
          | None \<Rightarrow>
             (case persistReceipt repo call t Applied ''transaction applied'' s of
                Inl e \<Rightarrow> (sync_result t expected SecurityFailure (Some ErrRejected)
                           (Text ''durable receipt state is unavailable''), p, s)
              | Inr s' \<Rightarrow> (sync_result t expected Applied None (Text ''transaction applied''),
                            accept t p, s')))"

definition SubmitContext ::
    "crypto \<Rightarrow> 's SyncStateRepository option \<Rightarrow> sync_call \<Rightarrow> Transaction \<Rightarrow> AuthorityPackage \<Rightarrow>
     Processor \<Rightarrow> 's \<Rightarrow> SyncResult \<times> Processor \<times> 's" where
  "SubmitContext C repo call t authority p s =
     (case admit C call t authority p of
        (Some (code, outcome, reason), p') \<Rightarrow> (sync_result t 0 outcome (Some code) reason, p', s)
      | (None, p') \<Rightarrow>
         (case durable_answer repo t s of
            Some (outcome, code, reason) \<Rightarrow> (sync_result t 0 outcome code reason, p', s)
          | None \<Rightarrow>
             (case memory_answer p' t of
                Some (outcome, code, reason) \<Rightarrow> (sync_result t 0 outcome code reason, p', s)
              | None \<Rightarrow> gate repo call t p' s)))"

subsection \<open>Draining the held transactions\<close>

text \<open>The next held transaction of the device: in memory first, then on record.\<close>

definition held_envelopes :: "uint64 \<Rightarrow> HeldTransaction list \<Rightarrow> Transaction list" where
  "held_envelopes nextSeq hs =
     concat (map (\<lambda>h. if rc_SequenceNumber (ht_Receipt h) = nextSeq then
                        (case ht_Envelope h of
                           None \<Rightarrow> []
                         | Some j \<Rightarrow> (case Transaction_of_json j of None \<Rightarrow> [] | Some t \<Rightarrow> [t]))
                      else []) hs)"

definition drain_candidate ::
    "'s SyncStateRepository option \<Rightarrow> sync_call \<Rightarrow> string \<Rightarrow> string \<Rightarrow> uint64 \<Rightarrow> Processor \<Rightarrow> 's \<Rightarrow>
     Transaction option" where
  "drain_candidate repo call tenantID deviceID nextSeq p s =
     (case List.find (\<lambda>(k, t). tx_DeviceID t = deviceID \<and> tx_SequenceNumber t = nextSeq)
             (range_by (call_held_rank call nextSeq) (pr_held p)) of
        Some (k, t) \<Rightarrow> Some t
      | None \<Rightarrow>
         (case repo of
            None \<Rightarrow> None
          | Some r \<Rightarrow>
             (case ssr_ListHeld r tenantID deviceID s of
                Inl e \<Rightarrow> None
              | Inr hs \<Rightarrow> (case held_envelopes nextSeq hs of [] \<Rightarrow> None | t # _ \<Rightarrow> Some t))))"

definition drain_accept :: "string \<Rightarrow> uint64 \<Rightarrow> Transaction \<Rightarrow> Processor \<Rightarrow> Processor" where
  "drain_accept deviceID nextSeq t p =
     p\<lparr>pr_lastSequence := (pr_lastSequence p)(deviceID \<mapsto> nextSeq),
       pr_transactions := (pr_transactions p)(tx_TransactionID t \<mapsto> tx_PayloadHash t),
       pr_held := AList.delete (tx_TransactionID t) (pr_held p)\<rparr>"

definition drained_result :: "Transaction \<Rightarrow> uint64 \<Rightarrow> SyncResult" where
  "drained_result t nextSeq =
     sync_result t nextSeq Applied None (Text ''transaction applied from held queue'')"

text \<open>\<open>None\<close> would be a loop that never ends.\<close>

partial_function (option) drain_loop ::
    "'s SyncStateRepository option \<Rightarrow> sync_call \<Rightarrow> string \<Rightarrow> string \<Rightarrow> Processor \<Rightarrow> 's \<Rightarrow>
     SyncResult list \<Rightarrow> (SyncResult list \<times> Processor \<times> 's) option" where
  "drain_loop repo call tenantID deviceID p s drained =
     (let nextSeq = memory_next p deviceID in
      case drain_candidate repo call tenantID deviceID nextSeq p s of
        None \<Rightarrow> Some (drained, p, s)
      | Some t \<Rightarrow>
         (case persistReceipt repo call t Applied ''transaction applied from held queue'' s of
            Inl e \<Rightarrow> Some (drained, p, s)
          | Inr s' \<Rightarrow> drain_loop repo call tenantID deviceID (drain_accept deviceID nextSeq t p) s'
              (drained @ [drained_result t nextSeq])))"

definition DrainHeld ::
    "'s SyncStateRepository option \<Rightarrow> sync_call \<Rightarrow> string \<Rightarrow> string \<Rightarrow> Processor \<Rightarrow> 's \<Rightarrow>
     (SyncResult list \<times> Processor \<times> 's) option" where
  "DrainHeld repo call tenantID deviceID p s =
     (case pr_devices p deviceID of
        None \<Rightarrow> Some ([], p, s)
      | Some _ \<Rightarrow> drain_loop repo call tenantID deviceID p s [])"

subsection \<open>The calls of a processor\<close>

text \<open>
  \<open>CRestart\<close> is a new process with the same secrets: the maps are gone, the durable state stays.
  \<open>repo e\<close> are the repository functions in the database session \<open>e\<close> of the call.
\<close>

datatype 'e sync_op =
    CSubmit 'e sync_call Transaction AuthorityPackage
  | CDrain 'e sync_call string string
  | CRegister Device
  | CRevoke string
  | CPolicy "(Transaction \<Rightarrow> string option) option"
  | CVersioner "SchemaVersioner option"
  | CRestart

fun sync_step ::
    "crypto \<Rightarrow> ('e \<Rightarrow> 's SyncStateRepository) \<Rightarrow> 'e sync_op \<Rightarrow> Processor \<Rightarrow> 's \<Rightarrow>
     SyncResult list \<times> Processor \<times> 's" where
  "sync_step C repo (CSubmit e call t authority) p s =
     (let (r, p', s') = SubmitContext C (Some (repo e)) call t authority p s in ([r], p', s'))"
| "sync_step C repo (CDrain e call tenantID deviceID) p s =
     (case DrainHeld (Some (repo e)) call tenantID deviceID p s of
        None \<Rightarrow> ([], p, s) | Some out \<Rightarrow> out)"
| "sync_step C repo (CRegister d) p s = ([], RegisterDevice d p, s)"
| "sync_step C repo (CRevoke deviceID) p s = ([], RevokeDevice deviceID p, s)"
| "sync_step C repo (CPolicy policy) p s = ([], SetPreAcceptancePolicy policy p, s)"
| "sync_step C repo (CVersioner v) p s = ([], SetSchemaVersioner v p, s)"
| "sync_step C repo CRestart p s =
     ([], (case NewProcessor (pr_secrets p) of None \<Rightarrow> p | Some p' \<Rightarrow> p'), s)"

fun sync_run ::
    "crypto \<Rightarrow> ('e \<Rightarrow> 's SyncStateRepository) \<Rightarrow> 'e sync_op list \<Rightarrow> Processor \<Rightarrow> 's \<Rightarrow>
     SyncResult list \<times> Processor \<times> 's" where
  "sync_run C repo [] p s = ([], p, s)"
| "sync_run C repo (c # cs) p s =
     (let (rs, p', s') = sync_step C repo c p s;
          (rs', p'', s'') = sync_run C repo cs p' s'
      in (rs @ rs', p'', s''))"

definition applied_ids :: "SyncResult list \<Rightarrow> string list" where
  "applied_ids rs = map res_TransactionID (filter (\<lambda>r. res_Outcome r = Applied) rs)"

lemma applied_ids_simps [simp]:
  "applied_ids [] = []" "applied_ids (rs @ rs') = applied_ids rs @ applied_ids rs'"
  "applied_ids (r # rs) = (if res_Outcome r = Applied then res_TransactionID r # applied_ids rs else applied_ids rs)"
  by (simp_all add: applied_ids_def)

subsection \<open>What one submission does\<close>

lemma admit_counter: "\<exists>n. snd (admit C call t authority p) = p\<lparr>pr_HMACFallbackCount := n\<rparr>"
proof -
  have "\<exists>n. p = p\<lparr>pr_HMACFallbackCount := n\<rparr>"
    by (rule exI [of _ "pr_HMACFallbackCount p"]) simp
  then show ?thesis
    by (auto simp: admit_def count_legacy_def split: sum.splits option.splits)
qed

lemma admit_identity_refusal:
  "admit_identity C p t authority = Inl (code, outcome, reason) \<Longrightarrow> outcome \<in> {Rejected, SecurityFailure}"
  by (auto simp: admit_identity_def Let_def split: if_splits option.splits)

lemma admit_signature_refusal:
  "admit_signature C p d t = Some (code, outcome, reason) \<Longrightarrow> outcome = SecurityFailure"
  by (auto simp: admit_signature_def split: if_splits option.splits)

lemma admit_refusal:
  "fst (admit C call t authority p) = Some (code, outcome, reason) \<Longrightarrow>
   outcome \<in> {Rejected, SecurityFailure}"
  by (auto simp: admit_def split: sum.splits option.splits
      dest: admit_identity_refusal admit_signature_refusal)

lemma durable_answer_outcome:
  "durable_answer repo t s = Some (outcome, code, reason) \<Longrightarrow>
   outcome \<in> {Duplicate, Conflict, SecurityFailure}"
  by (auto simp: durable_answer_def already_applied_def id_reused_def
      split: option.splits sum.splits if_splits)

lemma memory_answer_outcome:
  "memory_answer p t = Some (outcome, code, reason) \<Longrightarrow> outcome \<in> {Duplicate, Conflict}"
  by (auto simp: memory_answer_def already_applied_def id_reused_def split: option.splits if_splits)

lemma sync_result_sel [simp]:
  "res_Outcome (sync_result t n outcome code reason) = outcome"
  "res_TransactionID (sync_result t n outcome code reason) = tx_TransactionID t"
  "res_ExpectedSequence (sync_result t n outcome code reason) = n"
  "res_PayloadHash (sync_result t n outcome code reason) = tx_PayloadHash t"
  by (simp_all add: sync_result_def)

lemma independent_of_counter [simp]:
  "memory_answer (p\<lparr>pr_HMACFallbackCount := n\<rparr>) t = memory_answer p t"
  "expected_sequence repo (p\<lparr>pr_HMACFallbackCount := n\<rparr>) t s = expected_sequence repo p t s"
  by (simp_all add: memory_answer_def expected_sequence_def memory_next_def
      split: option.splits sum.splits)

definition passed ::
    "crypto \<Rightarrow> 's SyncStateRepository option \<Rightarrow> sync_call \<Rightarrow> Transaction \<Rightarrow> AuthorityPackage \<Rightarrow>
     Processor \<Rightarrow> 's \<Rightarrow> bool" where
  "passed C repo call t authority p s \<longleftrightarrow>
     fst (admit C call t authority p) = None \<and> durable_answer repo t s = None \<and>
     memory_answer p t = None"

lemma gate_cases:
  assumes "gate repo call t p s = (r, p', s')"
  obtains
    (refused) "res_Outcome r \<notin> {Applied, Held}" "p' = p" "s' = s"
  | (held) expected where "expected_sequence repo p t s = Some expected"
      "expected < tx_SequenceNumber t"
      "persistHeld repo call t expected (sequence_gap expected) s = Inr s'"
      "r = sync_result t expected Held (Some ErrHeld) (Text (sequence_gap expected))"
      "p' = p\<lparr>pr_held := AList.update (tx_TransactionID t) t (pr_held p)\<rparr>"
  | (applied) "expected_sequence repo p t s = Some (tx_SequenceNumber t)"
      "persistReceipt repo call t Applied ''transaction applied'' s = Inr s'"
      "r = sync_result t (tx_SequenceNumber t) Applied None (Text ''transaction applied'')"
      "p' = accept t p"
      "\<forall>policy. pr_preAcceptancePolicy p = Some policy \<longrightarrow> policy t = None"
proof (cases "expected_sequence repo p t s")
  case None
  with assms that(1) show ?thesis by (auto simp: gate_def)
next
  case (Some n)
  consider "n < tx_SequenceNumber t" | "tx_SequenceNumber t < n" | "n = tx_SequenceNumber t"
    by (rule linorder_cases)
  then show ?thesis
  proof cases
    case 1
    with Some assms that(1) that(2) show ?thesis
      by (auto simp: gate_def split: sum.splits)
  next
    case 2
    then have "\<not> n < tx_SequenceNumber t" by simp
    with 2 Some assms that(1) show ?thesis by (auto simp: gate_def)
  next
    case 3
    with Some assms that(1) that(3) show ?thesis
      by (auto simp: gate_def split: sum.splits option.splits)
  qed
qed

lemma SubmitContext_cases:
  assumes "SubmitContext C repo call t authority p s = (r, p', s')"
  obtains
    (refused) n where "res_Outcome r \<notin> {Applied, Held}" "p' = p\<lparr>pr_HMACFallbackCount := n\<rparr>" "s' = s"
  | (gated) n where "passed C repo call t authority p s"
      "gate repo call t (p\<lparr>pr_HMACFallbackCount := n\<rparr>) s = (r, p', s')"
proof -
  obtain ref q where q: "admit C call t authority p = (ref, q)" by (cases "admit C call t authority p")
  then obtain n where n: "q = p\<lparr>pr_HMACFallbackCount := n\<rparr>" using admit_counter by (metis snd_conv)
  show ?thesis
  proof (cases ref)
    case (Some x)
    then show ?thesis
      using assms q n that(1) [of n] admit_refusal [of C call t authority p]
      by (cases x) (auto simp: SubmitContext_def)
  next
    case None
    note ref = this
    show ?thesis
    proof (cases "durable_answer repo t s")
      case (Some x)
      then show ?thesis
        using assms q n ref that(1) [of n] durable_answer_outcome [of repo t s]
        by (cases x) (auto simp: SubmitContext_def)
    next
      case None
      note durable = this
      show ?thesis
      proof (cases "memory_answer p t")
        case (Some x)
        then show ?thesis
          using assms q n ref durable that(1) [of n] memory_answer_outcome [of p t]
          by (cases x) (auto simp: SubmitContext_def)
      next
        case None
        then show ?thesis
          using assms q n ref durable that(2) [of n]
          by (simp add: SubmitContext_def passed_def)
      qed
    qed
  qed
qed

subsection \<open>Rules for the drain loop\<close>

lemma drain_loop_rule:
  assumes ret: "drain_loop repo call ten dev p s drained = Some (drained', p', s')"
    and start: "I p s drained"
    and step: "\<And>p s drained t s'. I p s drained \<Longrightarrow>
      drain_candidate repo call ten dev (memory_next p dev) p s = Some t \<Longrightarrow>
      persistReceipt repo call t Applied ''transaction applied from held queue'' s = Inr s' \<Longrightarrow>
      I (drain_accept dev (memory_next p dev) t p) s' (drained @ [drained_result t (memory_next p dev)])"
  shows "I p' s' drained'"
proof -
  let ?P = "\<lambda>rp c tn dv p s dr out. rp = repo \<and> c = call \<and> tn = ten \<and> dv = dev \<longrightarrow> I p s dr \<longrightarrow>
    I (fst (snd out)) (snd (snd out)) (fst out)"
  have "?P repo call ten dev p s drained (drained', p', s')"
  proof (rule drain_loop.raw_induct [where P = ?P, OF _ ret], intro impI, elim conjE)
    fix f rp c tn dv p s dr out
    assume IH: "\<And>c tn dv p s dr rp y. f c tn dv p s dr rp = Some y \<Longrightarrow> ?P c tn dv p s dr rp y"
      and eq: "(let nextSeq = memory_next p dv in
        case drain_candidate rp c tn dv nextSeq p s of
          None \<Rightarrow> Some (dr, p, s)
        | Some t \<Rightarrow>
           (case persistReceipt rp c t Applied ''transaction applied from held queue'' s of
              Inl e \<Rightarrow> Some (dr, p, s)
            | Inr s' \<Rightarrow> f rp c tn dv (drain_accept dv nextSeq t p) s'
                (dr @ [drained_result t nextSeq]))) = Some out"
      and I: "I p s dr" and args: "rp = repo" "c = call" "tn = ten" "dv = dev"
    show "I (fst (snd out)) (snd (snd out)) (fst out)"
    proof (cases "drain_candidate repo call ten dev (memory_next p dev) p s")
      case None
      with eq I args show ?thesis by (auto simp: Let_def)
    next
      case (Some t)
      note cand = this
      show ?thesis
      proof (cases "persistReceipt repo call t Applied ''transaction applied from held queue'' s")
        case (Inl e)
        with eq I args cand show ?thesis by (auto simp: Let_def)
      next
        case (Inr s1)
        with eq args cand have "f repo call ten dev (drain_accept dev (memory_next p dev) t p) s1
            (dr @ [drained_result t (memory_next p dev)]) = Some out"
          by (simp add: Let_def)
        from IH [OF this] step [OF I cand Inr] show ?thesis by simp
      qed
    qed
  qed
  with start show ?thesis by simp
qed

lemma drain_loop_returns:
  fixes m :: "Processor \<Rightarrow> 's \<Rightarrow> nat"
  assumes start: "I p s"
    and step: "\<And>p s t s'. I p s \<Longrightarrow>
      drain_candidate repo call ten dev (memory_next p dev) p s = Some t \<Longrightarrow>
      persistReceipt repo call t Applied ''transaction applied from held queue'' s = Inr s' \<Longrightarrow>
      I (drain_accept dev (memory_next p dev) t p) s' \<and>
      m (drain_accept dev (memory_next p dev) t p) s' < m p s"
  shows "\<exists>drained' p' s'. drain_loop repo call ten dev p s drained = Some (drained', p', s') \<and>
    length drained' \<le> length drained + m p s"
  using start
proof (induction "m p s" arbitrary: p s drained rule: less_induct)
  case less
  show ?case
  proof (cases "drain_candidate repo call ten dev (memory_next p dev) p s")
    case None
    then show ?thesis by (subst drain_loop.simps) (simp add: Let_def)
  next
    case (Some t)
    note cand = this
    show ?thesis
    proof (cases "persistReceipt repo call t Applied ''transaction applied from held queue'' s")
      case (Inl e)
      with cand show ?thesis by (subst drain_loop.simps) (simp add: Let_def)
    next
      case (Inr s1)
      let ?p1 = "drain_accept dev (memory_next p dev) t p"
      have dec: "I ?p1 s1" "m ?p1 s1 < m p s" using step [OF less.prems cand Inr] by simp_all
      obtain dr' p' s' where "drain_loop repo call ten dev ?p1 s1
          (drained @ [drained_result t (memory_next p dev)]) = Some (dr', p', s')"
        "length dr' \<le> length (drained @ [drained_result t (memory_next p dev)]) + m ?p1 s1"
        using less.hyps [OF dec(2,1)] by blast
      with cand Inr dec(2) show ?thesis by (subst drain_loop.simps) (simp add: Let_def)
    qed
  qed
qed

subsection \<open>Exactly once, over any repository that keeps its promises\<close>

text \<open>An envelope on hold is that of a transaction with the id and tenant of its row.\<close>

definition envelope_matches :: "string \<Rightarrow> string \<Rightarrow> json option \<Rightarrow> bool" where
  "envelope_matches ident tenant env \<longleftrightarrow>
     (\<exists>t. env = Some (Transaction_json t) \<and> tx_TransactionID t = ident \<and> tx_TenantID t = tenant)"

definition held_numbers :: "Processor \<Rightarrow> uint64 set" where
  "held_numbers p = (\<lambda>kt. tx_SequenceNumber (snd kt)) ` set (pr_held p)"

lemma held_envelopes_from:
  "t \<in> set (held_envelopes n hs) \<Longrightarrow> \<exists>h \<in> set hs. rc_SequenceNumber (ht_Receipt h) = n \<and>
     (\<exists>j. ht_Envelope h = Some j \<and> Transaction_of_json j = Some t)"
  by (force simp: held_envelopes_def split: if_splits option.splits)

lemma in_set_updateD: "(k, u) \<in> set (AList.update i t m) \<Longrightarrow> (k, u) \<in> set m \<or> k = i \<and> u = t"
  by (induction m) (auto split: if_splits)

lemma find_SomeD: "List.find P xs = Some x \<Longrightarrow> x \<in> set xs \<and> P x"
  by (auto simp: find_Some_iff)

lemma drain_candidate_cases:
  assumes "drain_candidate repo call ten dev n p s = Some t"
  obtains (memory) k where "(k, t) \<in> set (pr_held p)" "tx_DeviceID t = dev" "tx_SequenceNumber t = n"
  | (stored) r hs h where "repo = Some r" "ssr_ListHeld r ten dev s = Inr hs" "h \<in> set hs"
      "rc_SequenceNumber (ht_Receipt h) = n"
      "\<exists>j. ht_Envelope h = Some j \<and> Transaction_of_json j = Some t"
proof (cases "List.find (\<lambda>(k, t). tx_DeviceID t = dev \<and> tx_SequenceNumber t = n)
    (range_by (call_held_rank call n) (pr_held p))")
  case (Some kt)
  obtain k t' where kt: "kt = (k, t')" by (cases kt)
  have "t' = t" using assms Some kt by (simp add: drain_candidate_def)
  then show ?thesis using find_SomeD [OF Some] kt that(1) [of k] by simp
next
  case None
  with assms obtain r hs where r: "repo = Some r" "ssr_ListHeld r ten dev s = Inr hs"
    and "\<exists>ts. held_envelopes n hs = t # ts"
    by (auto simp: drain_candidate_def split: option.splits sum.splits list.splits)
  then have "t \<in> set (held_envelopes n hs)" by auto
  from held_envelopes_from [OF this] r that(2) show ?thesis by blast
qed

lemma next_number: "n \<le> maxSafeSequence \<Longrightarrow> n < n + 1"
  using maxSafeSequence_less [of n] by (simp add: word_less_nat_alt unat_word_ariths)

locale durable_sync = sync_state_repository repo ok status numbers envelope_matches
  for repo :: "'e \<Rightarrow> 's SyncStateRepository" and ok :: "'s \<Rightarrow> bool"
    and status :: "'s \<Rightarrow> string \<Rightarrow> (string \<times> string \<times> string) option"
    and numbers :: "'s \<Rightarrow> uint64 set"
begin

text \<open>What memory and the durable state agree on: \<open>l\<close> are the ids applied so far.\<close>

definition agreed :: "Processor \<Rightarrow> 's \<Rightarrow> string list \<Rightarrow> bool" where
  "agreed p s l \<longleftrightarrow> ok s \<and> distinct l \<and>
     (\<forall>i \<in> set l. \<exists>ten hash. status s i = Some (ten, hash, ''APPLIED'')) \<and>
     (\<forall>(k, t) \<in> set (pr_held p). k = tx_TransactionID t \<and> tx_SequenceNumber t \<noteq> 0 \<and>
        (\<exists>hash. status s k = Some (tx_TenantID t, hash, ''HELD'')))"

lemma agreed_applied: "agreed p s l \<Longrightarrow> i \<in> set l \<Longrightarrow> \<exists>ten hash. status s i = Some (ten, hash, ''APPLIED'')"
  by (auto simp: agreed_def)

lemma agreed_held:
  "agreed p s l \<Longrightarrow> (k, t) \<in> set (pr_held p) \<Longrightarrow> k = tx_TransactionID t \<and> tx_SequenceNumber t \<noteq> 0 \<and>
     (\<exists>hash. status s k = Some (tx_TenantID t, hash, ''HELD''))"
  by (auto simp: agreed_def)

lemma agreed_memory: "agreed p s l \<Longrightarrow> set (pr_held p') \<subseteq> set (pr_held p) \<Longrightarrow> agreed p' s l"
  by (auto simp: agreed_def)

lemma agreed_apply:
  assumes a: "agreed p s l"
    and save: "persistReceipt (Some (repo e)) call t Applied why s = Inr s'"
    and fresh: "\<And>ten hash. status s (tx_TransactionID t) \<noteq> Some (ten, hash, ''APPLIED'')"
    and held: "pr_held p' = AList.delete (tx_TransactionID t) (pr_held p)"
  shows "agreed p' s' (l @ [tx_TransactionID t])" "numbers s' \<subseteq> numbers s"
    "tx_SequenceNumber t \<le> maxSafeSequence"
proof -
  have "ok s" using a by (simp add: agreed_def)
  moreover have "ssr_SaveReceipt (repo e) (transaction_receipt call t Applied why) s = Inr s'"
    using save by (simp add: persistReceipt_def)
  ultimately have s': "ok s'" "numbers s' \<subseteq> numbers s" "tx_SequenceNumber t \<le> maxSafeSequence" "status s' = (status s)(tx_TransactionID t \<mapsto>
      (tx_TenantID t, tx_PayloadHash t, ''APPLIED''))"
    using save_receipt [of s e "transaction_receipt call t Applied why" s']
    by (simp_all add: transaction_receipt_def)
  have "tx_TransactionID t \<notin> set l" using agreed_applied [OF a] fresh by blast
  moreover have "k \<noteq> tx_TransactionID t \<and> (k, u) \<in> set (pr_held p)" if "(k, u) \<in> set (pr_held p')" for k u
    using that by (auto simp: held AList.delete_eq)
  ultimately show "agreed p' s' (l @ [tx_TransactionID t])"
    using a s' by (fastforce simp: agreed_def)
  show "numbers s' \<subseteq> numbers s" "tx_SequenceNumber t \<le> maxSafeSequence" by (rule s'(2,3))+
qed

lemma passed_not_applied:
  assumes "passed C (Some (repo e)) call t authority p s" "ok s"
  shows "status s (tx_TransactionID t) \<noteq> Some (ten, hash, ''APPLIED'') \<or> ten \<noteq> tx_TenantID t"
proof (cases "ssr_GetReceipt (repo e) (tx_TenantID t) (tx_TransactionID t) s")
  case (Inl x)
  then have "x = SyncNotFound"
    using assms(1) by (auto simp: passed_def durable_answer_def split: if_splits)
  then show ?thesis using get_receipt_missing [OF assms(2)] Inl by blast
next
  case (Inr r)
  then have "rc_Outcome r \<noteq> ''APPLIED''"
    using assms(1) by (auto simp: passed_def durable_answer_def already_applied_def split: if_splits)
  then show ?thesis using get_receipt_found [OF assms(2) Inr] by auto
qed

lemma saved_not_applied:
  assumes "ok s" "persistReceipt (Some (repo e)) call t Applied why s = Inr s'"
    and "\<And>hash. status s (tx_TransactionID t) \<noteq> Some (tx_TenantID t, hash, ''APPLIED'')"
  shows "status s (tx_TransactionID t) \<noteq> Some (ten, hash, ''APPLIED'')"
  using save_receipt [of s e "transaction_receipt call t Applied why" s'] assms
  by (auto simp: persistReceipt_def transaction_receipt_def)

lemma submit_agreed:
  assumes a: "agreed p s l"
    and sub: "SubmitContext C (Some (repo e)) call t authority p s = (r, p', s')"
  shows "agreed p' s' (l @ applied_ids [r])"
  using sub
proof (cases rule: SubmitContext_cases)
  case (refused n)
  then show ?thesis using a by (auto simp: agreed_def)
next
  case (gated n)
  have ok: "ok s" using a by (simp add: agreed_def)
  from gated(2) show ?thesis
  proof (cases rule: gate_cases)
    case refused
    then show ?thesis using a by (auto simp: agreed_def)
  next
    case (held expected)
    let ?i = "tx_TransactionID t"
    from held(3) have save: "ssr_SaveHeld (repo e) \<lparr>ht_Receipt = transaction_receipt call t Held (sequence_gap expected),
        ht_ExpectedSequence = expected, ht_Envelope = Some (Transaction_json t),
        ht_FirstHeldAt = call_at call, ht_LastAttemptAt = call_at call,
        ht_LastError = sequence_gap expected\<rparr> s = Inr s'"
      by (simp add: persistHeld_def split: if_splits)
    have s': "ok s'" "status s' = (status s)(?i \<mapsto> (tx_TenantID t, tx_PayloadHash t, ''HELD''))"
      "status s ?i = None \<or> status s ?i = Some (tx_TenantID t, tx_PayloadHash t, ''HELD'')"
      using save_held [OF ok _ _ save] by (auto simp: transaction_receipt_def envelope_matches_def)
    have "?i \<notin> set l" using agreed_applied [OF a] s'(3) by fastforce
    moreover have "k = tx_TransactionID u \<and> tx_SequenceNumber u \<noteq> 0 \<and>
        (\<exists>hash. status s' k = Some (tx_TenantID u, hash, ''HELD''))" if "(k, u) \<in> set (pr_held p')" for k u
    proof (cases "k = ?i \<and> u = t")
      case True
      have "tx_SequenceNumber t \<noteq> 0" using held(2) by auto
      with True s'(2) show ?thesis by simp
    next
      case False
      then have ku: "(k, u) \<in> set (pr_held p)"
        using that by (auto simp: held(5) dest: in_set_updateD)
      then show ?thesis using agreed_held [OF a ku] s'(2,3) by auto
    qed
    ultimately show ?thesis using a s' held(4) by (fastforce simp: agreed_def)
  next
    case applied
    have "agreed p' s' (l @ [tx_TransactionID t])"
    proof (rule agreed_apply(1) [OF a applied(2)])
      show "status s (tx_TransactionID t) \<noteq> Some (ten, hash, ''APPLIED'')" for ten hash
        using saved_not_applied [OF ok applied(2)] passed_not_applied [OF gated(1) ok] by blast
      show "pr_held p' = AList.delete (tx_TransactionID t) (pr_held p)"
        by (simp add: applied(4) accept_def)
    qed
    then show ?thesis by (simp add: applied(3))
  qed
qed

lemma candidate_held:
  assumes a: "agreed p s l" and "drain_candidate (Some (repo e)) call ten dev n p s = Some t"
  shows "\<exists>hash. status s (tx_TransactionID t) = Some (tx_TenantID t, hash, ''HELD'')"
    "n \<in> held_numbers p \<union> numbers s" "n = tx_SequenceNumber t \<or> n \<in> numbers s"
proof -
  have ok: "ok s" using a by (simp add: agreed_def)
  from assms(2) have "(\<exists>hash. status s (tx_TransactionID t) = Some (tx_TenantID t, hash, ''HELD'')) \<and>
    n \<in> held_numbers p \<union> numbers s \<and> (n = tx_SequenceNumber t \<or> n \<in> numbers s)"
  proof (cases rule: drain_candidate_cases)
    case (memory k)
    then show ?thesis using agreed_held [OF a memory(1)] by (force simp: held_numbers_def)
  next
    case (stored r hs h)
    have list: "ssr_ListHeld (repo e) ten dev s = Inr hs" using stored(1,2) by simp
    from list_held [OF ok list stored(3)] stored(4,5) show ?thesis
      by (auto simp: envelope_matches_def)
  qed
  then show "\<exists>hash. status s (tx_TransactionID t) = Some (tx_TenantID t, hash, ''HELD'')"
    "n \<in> held_numbers p \<union> numbers s" "n = tx_SequenceNumber t \<or> n \<in> numbers s" by simp_all
qed

lemma drain_step_agreed:
  assumes a: "agreed p s l"
    and cand: "drain_candidate (Some (repo e)) call ten dev n p s = Some t"
    and save: "persistReceipt (Some (repo e)) call t Applied why s = Inr s'"
  shows "agreed (drain_accept dev n t p) s' (l @ [tx_TransactionID t])" "numbers s' \<subseteq> numbers s"
    "n \<le> maxSafeSequence"
proof -
  have "status s (tx_TransactionID t) \<noteq> Some (ten, hash, ''APPLIED'')" for ten hash
    using candidate_held(1) [OF a cand] by auto
  note ap = agreed_apply [OF a save this]
  show "agreed (drain_accept dev n t p) s' (l @ [tx_TransactionID t])"
    by (rule ap(1)) (simp add: drain_accept_def)
  show "numbers s' \<subseteq> numbers s" by (rule ap(2) [of "drain_accept dev n t p"]) (simp add: drain_accept_def)
  have "tx_SequenceNumber t \<le> maxSafeSequence"
    by (rule ap(3) [of "drain_accept dev n t p"]) (simp add: drain_accept_def)
  then show "n \<le> maxSafeSequence"
    using candidate_held(3) [OF a cand] numbers a by (auto simp: agreed_def)
qed

lemma drain_agreed:
  assumes a: "agreed p s l"
    and ret: "DrainHeld (Some (repo e)) call ten dev p s = Some (rs, p', s')"
  shows "agreed p' s' (l @ applied_ids rs)"
proof (cases "pr_devices p dev")
  case None
  with a ret show ?thesis by (simp add: DrainHeld_def)
next
  case (Some d)
  with ret have ret: "drain_loop (Some (repo e)) call ten dev p s [] = Some (rs, p', s')"
    by (simp add: DrainHeld_def)
  show ?thesis
  proof (rule drain_loop_rule [OF ret, where I = "\<lambda>p s dr. agreed p s (l @ applied_ids dr)"])
    show "agreed p s (l @ applied_ids [])" using a by simp
  next
    fix p s dr t s'
    assume "agreed p s (l @ applied_ids dr)"
      "drain_candidate (Some (repo e)) call ten dev (memory_next p dev) p s = Some t"
      "persistReceipt (Some (repo e)) call t Applied ''transaction applied from held queue'' s = Inr s'"
    from drain_step_agreed(1) [OF this]
    show "agreed (drain_accept dev (memory_next p dev) t p) s'
        (l @ applied_ids (dr @ [drained_result t (memory_next p dev)]))"
      by (simp add: drained_result_def)
  qed
qed

lemma step_agreed:
  "agreed p s l \<Longrightarrow> sync_step C repo c p s = (rs, p', s') \<Longrightarrow> agreed p' s' (l @ applied_ids rs)"
proof (cases c)
  case (CSubmit e call t authority)
  assume a: "agreed p s l" and st: "sync_step C repo c p s = (rs, p', s')"
  obtain r q u where r: "SubmitContext C (Some (repo e)) call t authority p s = (r, q, u)"
    by (metis prod_cases3)
  have "rs = [r]" "p' = q" "s' = u" using st r CSubmit by auto
  with submit_agreed [OF a r] show ?thesis by simp
next
  case (CDrain e call ten dev)
  assume a: "agreed p s l" and st: "sync_step C repo c p s = (rs, p', s')"
  then show ?thesis using drain_agreed [OF a] CDrain by (auto split: option.splits)
qed (auto simp: RegisterDevice_def RevokeDevice_def SetPreAcceptancePolicy_def SetSchemaVersioner_def
    NewProcessor_def agreed_def split: if_splits)

lemma run_agreed:
  "agreed p s l \<Longrightarrow> sync_run C repo cs p s = (rs, p', s') \<Longrightarrow> agreed p' s' (l @ applied_ids rs)"
proof (induction cs arbitrary: p s l rs)
  case Nil
  then show ?case by simp
next
  case (Cons c cs)
  obtain rs1 p1 s1 where c: "sync_step C repo c p s = (rs1, p1, s1)" by (metis prod_cases3)
  obtain rs2 where cs: "sync_run C repo cs p1 s1 = (rs2, p', s')" "rs = rs1 @ rs2"
    using Cons.prems(2) c by (auto simp: Let_def split: prod.splits)
  from Cons.IH [OF step_agreed [OF Cons.prems(1) c] cs(1)] cs(2) show ?case by simp
qed

text \<open>Every id is applied at most once in a run, and its receipt on record says so.\<close>

lemma run_exactly_once:
  assumes "agreed p s []" "sync_run C repo cs p s = (rs, p', s')"
  shows "distinct (applied_ids rs) \<and>
    (\<forall>i \<in> set (applied_ids rs). \<exists>ten hash. status s' i = Some (ten, hash, ''APPLIED''))"
  using run_agreed [OF assms] by (auto simp: agreed_def)

text \<open>The drain loop ends: the numbers on hold above the device's number become fewer.\<close>

lemma drain_returns:
  assumes a: "agreed p s l"
  shows "\<exists>rs p' s'. DrainHeld (Some (repo e)) call ten dev p s = Some (rs, p', s') \<and>
    length rs \<le> card (held_numbers p \<union> numbers s)"
proof (cases "pr_devices p dev")
  case None
  then show ?thesis by (simp add: DrainHeld_def)
next
  case (Some d)
  define above where "above p s = {n \<in> held_numbers p \<union> numbers s. memory_next p dev \<le> n}" for p s
  have fin: "finite (held_numbers p \<union> numbers s) \<and> 0 \<notin> held_numbers p \<union> numbers s" if "agreed p s l" for p s l
    using that numbers [of s] agreed_held [OF that] by (force simp: held_numbers_def agreed_def)
  have "\<exists>rs p' s'. drain_loop (Some (repo e)) call ten dev p s [] = Some (rs, p', s') \<and>
      length rs \<le> length ([] :: SyncResult list) + card (above p s)"
  proof (rule drain_loop_returns [where I = "\<lambda>p s. \<exists>l. agreed p s l"])
    show "\<exists>l. agreed p s l" using a by blast
  next
    fix p s t s'
    let ?n = "memory_next p dev" and ?q = "drain_accept dev (memory_next p dev) t p"
    assume "\<exists>l. agreed p s l"
      and cand: "drain_candidate (Some (repo e)) call ten dev ?n p s = Some t"
      and save: "persistReceipt (Some (repo e)) call t Applied ''transaction applied from held queue'' s = Inr s'"
    then obtain l where l: "agreed p s l" by blast
    note st = drain_step_agreed [OF l cand save]
    have n: "?n \<in> held_numbers p \<union> numbers s" by (rule candidate_held(2) [OF l cand])
    have sub: "held_numbers ?q \<union> numbers s' \<subseteq> held_numbers p \<union> numbers s"
      using st(2) by (auto simp: held_numbers_def drain_accept_def AList.delete_eq)
    have nxt: "memory_next ?q dev = ?n + 1" by (simp add: memory_next_def drain_accept_def)
    have "above ?q s' \<subseteq> above p s - {?n}"
    proof
      fix m
      assume "m \<in> above ?q s'"
      then have m: "m \<in> held_numbers ?q \<union> numbers s'" "?n + 1 \<le> m" by (simp_all add: above_def nxt)
      have "?n < ?n + 1" using st(3) by (simp add: next_number)
      then have "?n < m" using m(2) by (rule less_le_trans)
      then show "m \<in> above p s - {?n}" using m(1) sub by (auto simp: above_def)
    qed
    moreover have "?n \<in> above p s" using n by (simp add: above_def)
    moreover have "finite (above p s)" using fin [OF l] by (simp add: above_def)
    ultimately have "card (above ?q s') < card (above p s)"
      by (meson card_Diff1_less card_mono finite_Diff le_less_trans)
    with st(1) show "(\<exists>l. agreed ?q s' l) \<and> card (above ?q s') < card (above p s)" by blast
  qed
  moreover have "card (above p s) \<le> card (held_numbers p \<union> numbers s)"
    using fin [OF a] by (intro card_mono) (auto simp: above_def)
  ultimately show ?thesis using Some by (force simp: DrainHeld_def)
qed

end

end
