(* ===== verification/Sync_Store.thy ===== *)
theory Sync_Store
  imports Sync_Processor
begin

text \<open>
  The PostgreSQL repository of the synchronisation state, \<open>internal/syncstate/postgres.go\<close>, on its
  tables (migrations 0002, 0057, 0062 and 0082).

  A table is the list of its rows; a query is the filter of its \<open>WHERE\<close> clause. Each call runs in
  one transaction of a session: whether the database answers, the organization bound to the
  context, whether row-level security applies to the role, and the constraints of the schema other
  than the keys, which are written out. Row-level security shows a statement the rows of the
  tenant and organization of its transaction only. An error leaves the tables as they were. The
  counters are BIGINT columns; \<open>ValidateReceipt\<close> keeps what is written below 2^63.
\<close>

record DeviceStateRow =
  ds_TenantID :: string
  ds_DeviceID :: string
  ds_OrganizationID :: string
  ds_LastAcceptedSequence :: uint64
  ds_UpdatedAt :: gotime

record HeldRow =
  hd_TransactionID :: string
  hd_TenantID :: string
  hd_OrganizationID :: string
  hd_DeviceID :: string
  hd_SequenceNumber :: uint64
  hd_ExpectedSequence :: uint64
  hd_Envelope :: "json option"
  hd_FirstHeldAt :: gotime
  hd_LastAttemptAt :: gotime
  hd_LastError :: string

record SyncStore =
  ss_registry :: "DeviceRecord list"
  ss_authorities :: "AuthorityRecord list"
  ss_device_state :: "DeviceStateRow list"
  ss_receipts :: "Receipt list"
  ss_held :: "HeldRow list"

record sync_session =
  sn_available :: bool
  sn_organization :: string
  sn_rls :: bool
  sn_admits :: "SyncStore \<Rightarrow> bool"

subsection \<open>Transactions\<close>

definition beginTenantOrg :: "sync_session \<Rightarrow> string \<Rightarrow> string \<Rightarrow> sync_state_error + string \<times> string" where
  "beginTenantOrg sn tenantID orgID =
     (if \<not> sn_available sn then Inl SyncUnavailable
      else if blank tenantID \<or> blank orgID then Inl SyncInvalidScope
      else Inr (tenantID, orgID))"

definition beginTenant :: "sync_session \<Rightarrow> string \<Rightarrow> sync_state_error + string \<times> string" where
  "beginTenant sn tenantID =
     beginTenantOrg sn tenantID (if sn_organization sn = [] then tenantID else sn_organization sn)"

definition sees :: "sync_session \<Rightarrow> string \<times> string \<Rightarrow> string \<Rightarrow> string \<Rightarrow> bool" where
  "sees sn scope tenantID orgID \<longleftrightarrow> sn_rls sn \<longrightarrow> scope = (tenantID, orgID)"

definition commit :: "sync_session \<Rightarrow> SyncStore \<Rightarrow> sync_state_error + SyncStore" where
  "commit sn s = (if sn_admits sn s then Inr s else Inl SyncConstraintViolation)"

subsection \<open>Devices\<close>

definition pg_GetDevice :: "sync_session \<Rightarrow> string \<Rightarrow> string \<Rightarrow> SyncStore \<Rightarrow> sync_state_error + DeviceRecord" where
  "pg_GetDevice sn tenantID deviceID s =
     (case beginTenant sn tenantID of
        Inl e \<Rightarrow> Inl e
      | Inr scope \<Rightarrow>
         (case List.find (\<lambda>d. sees sn scope (dr_TenantID d) (dr_OrganizationID d) \<and>
                 dr_TenantID d = tenantID \<and> dr_DeviceID d = deviceID) (ss_registry s) of
            None \<Rightarrow> Inl SyncNotFound
          | Some d \<Rightarrow> Inr d))"

definition pg_ListDevices :: "sync_session \<Rightarrow> string \<Rightarrow> SyncStore \<Rightarrow> sync_state_error + DeviceRecord list" where
  "pg_ListDevices sn tenantID s =
     (case beginTenant sn tenantID of
        Inl e \<Rightarrow> Inl e
      | Inr scope \<Rightarrow> Inr (sort_key dr_DeviceID
          (filter (\<lambda>d. sees sn scope (dr_TenantID d) (dr_OrganizationID d) \<and> dr_TenantID d = tenantID)
             (ss_registry s))))"

text \<open>
  \<open>INSERT ... ON CONFLICT (tenant_id, device_id) DO UPDATE\<close> keeps \<open>enrolled_at\<close>; a conflicting row
  that the transaction does not see is an error. The key (tenant_id, key_id) is unique.
\<close>

definition upsert_device ::
    "sync_session \<Rightarrow> string \<times> string \<Rightarrow> DeviceRecord \<Rightarrow> DeviceRecord list \<Rightarrow>
     sync_state_error + DeviceRecord list" where
  "upsert_device sn scope d rows =
     (let same = (\<lambda>x. dr_TenantID x = dr_TenantID d \<and> dr_DeviceID x = dr_DeviceID d) in
      if list_ex (\<lambda>x. \<not> same x \<and> dr_TenantID x = dr_TenantID d \<and> dr_KeyID x = dr_KeyID d) rows
        then Inl SyncConstraintViolation
      else case List.find same rows of
        None \<Rightarrow> Inr (rows @ [d])
      | Some row \<Rightarrow>
          if \<not> sees sn scope (dr_TenantID row) (dr_OrganizationID row) then Inl SyncConstraintViolation
          else Inr (map (\<lambda>x. if same x then d\<lparr>dr_EnrolledAt := dr_EnrolledAt x\<rparr> else x) rows))"

definition pg_SaveDevice :: "sync_session \<Rightarrow> DeviceRecord \<Rightarrow> SyncStore \<Rightarrow> sync_state_error + SyncStore" where
  "pg_SaveDevice sn d s =
     (case ValidateDeviceRecord d of
        Some e \<Rightarrow> Inl e
      | None \<Rightarrow>
         (case beginTenantOrg sn (dr_TenantID d) (dr_OrganizationID d) of
            Inl e \<Rightarrow> Inl e
          | Inr scope \<Rightarrow>
             (case upsert_device sn scope d (ss_registry s) of
                Inl e \<Rightarrow> Inl e
              | Inr registry \<Rightarrow>
                 (let exists = list_ex (\<lambda>x. ds_TenantID x = dr_TenantID d \<and>
                        ds_DeviceID x = dr_DeviceID d) (ss_device_state s);
                      row = \<lparr>ds_TenantID = dr_TenantID d, ds_DeviceID = dr_DeviceID d,
                             ds_OrganizationID = dr_OrganizationID d, ds_LastAcceptedSequence = 0,
                             ds_UpdatedAt = dr_UpdatedAt d\<rparr>
                  in commit sn (s\<lparr>ss_registry := registry, ss_device_state :=
                       if exists then ss_device_state s else ss_device_state s @ [row]\<rparr>)))))"

subsection \<open>Authorities\<close>

definition pg_GetAuthority :: "sync_session \<Rightarrow> string \<Rightarrow> string \<Rightarrow> SyncStore \<Rightarrow> sync_state_error + AuthorityRecord" where
  "pg_GetAuthority sn tenantID authorityID s =
     (case beginTenant sn tenantID of
        Inl e \<Rightarrow> Inl e
      | Inr scope \<Rightarrow>
         (case List.find (\<lambda>a. sees sn scope (ar_TenantID a) (ar_OrganizationID a) \<and>
                 ar_TenantID a = tenantID \<and> ar_AuthorityID a = authorityID) (ss_authorities s) of
            None \<Rightarrow> Inl SyncNotFound
          | Some a \<Rightarrow> Inr a))"

definition pg_ListAuthorities :: "sync_session \<Rightarrow> string \<Rightarrow> SyncStore \<Rightarrow> sync_state_error + AuthorityRecord list" where
  "pg_ListAuthorities sn tenantID s =
     (case beginTenant sn tenantID of
        Inl e \<Rightarrow> Inl e
      | Inr scope \<Rightarrow> Inr (sort_key ar_AuthorityID
          (filter (\<lambda>a. sees sn scope (ar_TenantID a) (ar_OrganizationID a) \<and>
                       ar_TenantID a = tenantID \<and> ar_RevokedAt a = None) (ss_authorities s))))"

text \<open>\<open>ON CONFLICT (authority_id) DO UPDATE ... WHERE tenant_id\<close>: another tenant's row stays.\<close>

definition pg_SaveAuthority :: "sync_session \<Rightarrow> AuthorityRecord \<Rightarrow> SyncStore \<Rightarrow> sync_state_error + SyncStore" where
  "pg_SaveAuthority sn a s =
     (if ar_AuthorityID a = [] \<or> ar_TenantID a = [] \<or> ar_OrganizationID a = [] \<or>
         ar_DeviceID a = [] \<or> ar_UserID a = [] \<or> ar_AuthorityEpoch a = 0 \<or>
         maxSafeSequence < ar_AuthorityEpoch a \<or> ar_ProcedureVersion a = [] \<or>
         time_IsZero (ar_IssuedAt a) \<or> time_IsZero (ar_ExpiresAt a) \<or>
         \<not> ar_IssuedAt a < ar_ExpiresAt a \<or> length (ar_Signature a) = 0
        then Inl (SyncInvalidRecord
          ''authority identity, scope, validity, safe epoch, and signature are required'')
      else case beginTenant sn (ar_TenantID a) of
        Inl e \<Rightarrow> Inl e
      | Inr scope \<Rightarrow>
          if \<not> sees sn scope (ar_TenantID a) (ar_OrganizationID a) then Inl SyncConstraintViolation
          else case List.find (\<lambda>x. ar_AuthorityID x = ar_AuthorityID a) (ss_authorities s) of
            None \<Rightarrow> commit sn (s\<lparr>ss_authorities := ss_authorities s @ [a]\<rparr>)
          | Some row \<Rightarrow>
              if \<not> sees sn scope (ar_TenantID row) (ar_OrganizationID row)
                then Inl SyncConstraintViolation
              else commit sn (s\<lparr>ss_authorities := map (\<lambda>x.
                if ar_AuthorityID x = ar_AuthorityID a \<and> ar_TenantID x = ar_TenantID a
                  then x\<lparr>ar_Scopes := ar_Scopes a, ar_ExpiresAt := ar_ExpiresAt a,
                         ar_Signature := ar_Signature a, ar_RevokedAt := ar_RevokedAt a\<rparr>
                else x) (ss_authorities s)\<rparr>))"

definition pg_RevokeAuthority ::
    "sync_session \<Rightarrow> string \<Rightarrow> string \<Rightarrow> gotime \<Rightarrow> SyncStore \<Rightarrow> sync_state_error + SyncStore" where
  "pg_RevokeAuthority sn tenantID authorityID at s =
     (case beginTenant sn tenantID of
        Inl e \<Rightarrow> Inl e
      | Inr scope \<Rightarrow>
         (let hit = (\<lambda>a. sees sn scope (ar_TenantID a) (ar_OrganizationID a) \<and>
                ar_TenantID a = tenantID \<and> ar_AuthorityID a = authorityID \<and> ar_RevokedAt a = None) in
          if \<not> list_ex hit (ss_authorities s) then Inl SyncNotFound
          else commit sn (s\<lparr>ss_authorities := map (\<lambda>a.
                 if hit a then a\<lparr>ar_RevokedAt := Some at\<rparr> else a) (ss_authorities s)\<rparr>)))"

subsection \<open>Receipts\<close>

definition pg_GetLastAcceptedSequence ::
    "sync_session \<Rightarrow> string \<Rightarrow> string \<Rightarrow> SyncStore \<Rightarrow> sync_state_error + uint64" where
  "pg_GetLastAcceptedSequence sn tenantID deviceID s =
     (case beginTenant sn tenantID of
        Inl e \<Rightarrow> Inl e
      | Inr scope \<Rightarrow>
         (case List.find (\<lambda>x. sees sn scope (ds_TenantID x) (ds_OrganizationID x) \<and>
                 ds_TenantID x = tenantID \<and> ds_DeviceID x = deviceID) (ss_device_state s) of
            None \<Rightarrow> Inl SyncNotFound
          | Some x \<Rightarrow> Inr (ds_LastAcceptedSequence x)))"

definition receipt_under :: "sync_session \<Rightarrow> string \<times> string \<Rightarrow> string \<Rightarrow> string \<Rightarrow> Receipt \<Rightarrow> bool" where
  "receipt_under sn scope tenantID transactionID x \<longleftrightarrow>
     sees sn scope (rc_TenantID x) (rc_OrganizationID x) \<and>
     rc_TenantID x = tenantID \<and> rc_TransactionID x = transactionID"

definition pg_GetReceipt :: "sync_session \<Rightarrow> string \<Rightarrow> string \<Rightarrow> SyncStore \<Rightarrow> sync_state_error + Receipt" where
  "pg_GetReceipt sn tenantID transactionID s =
     (case beginTenant sn tenantID of
        Inl e \<Rightarrow> Inl e
      | Inr scope \<Rightarrow>
         (case List.find (receipt_under sn scope tenantID transactionID) (ss_receipts s) of
            None \<Rightarrow> Inl SyncNotFound
          | Some r \<Rightarrow> Inr r))"

text \<open>The primary key is the transaction id; (tenant, device, sequence) is unique.\<close>

definition insert_receipt :: "Receipt \<Rightarrow> SyncStore \<Rightarrow> sync_state_error + SyncStore" where
  "insert_receipt r s =
     (if list_ex (\<lambda>x. rc_TransactionID x = rc_TransactionID r \<or>
           rc_TenantID x = rc_TenantID r \<and> rc_DeviceID x = rc_DeviceID r \<and>
           rc_SequenceNumber x = rc_SequenceNumber r) (ss_receipts s)
        then Inl SyncConstraintViolation
      else Inr (s\<lparr>ss_receipts := ss_receipts s @ [r]\<rparr>))"

definition update_receipts :: "(Receipt \<Rightarrow> bool) \<Rightarrow> (Receipt \<Rightarrow> Receipt) \<Rightarrow> SyncStore \<Rightarrow> SyncStore" where
  "update_receipts hit f s = s\<lparr>ss_receipts := map (\<lambda>x. if hit x then f x else x) (ss_receipts s)\<rparr>"

definition advance_device ::
    "sync_session \<Rightarrow> string \<times> string \<Rightarrow> Receipt \<Rightarrow> SyncStore \<Rightarrow> sync_state_error + SyncStore" where
  "advance_device sn scope r s =
     (let hit = (\<lambda>x. sees sn scope (ds_TenantID x) (ds_OrganizationID x) \<and>
            ds_TenantID x = rc_TenantID r \<and> ds_DeviceID x = rc_DeviceID r \<and>
            ds_LastAcceptedSequence x + 1 = rc_SequenceNumber r) in
      if length (filter hit (ss_device_state s)) \<noteq> 1 then Inl SyncConflict
      else Inr (s\<lparr>ss_device_state := map (\<lambda>x. if hit x
             then x\<lparr>ds_LastAcceptedSequence := rc_SequenceNumber r, ds_UpdatedAt := rc_ReceivedAt r\<rparr>
             else x) (ss_device_state s),
           ss_held := filter (\<lambda>h. \<not> (sees sn scope (hd_TenantID h) (hd_OrganizationID h) \<and>
             hd_TenantID h = rc_TenantID r \<and> hd_TransactionID h = rc_TransactionID r)) (ss_held s)\<rparr>))"

definition settle_receipt ::
    "sync_session \<Rightarrow> string \<times> string \<Rightarrow> Receipt \<Rightarrow> SyncStore \<Rightarrow> sync_state_error + SyncStore" where
  "settle_receipt sn scope r s =
     (if rc_Outcome r = ''APPLIED'' then
        (case advance_device sn scope r s of Inl e \<Rightarrow> Inl e | Inr s' \<Rightarrow> commit sn s')
      else commit sn s)"

definition pg_SaveReceipt :: "sync_session \<Rightarrow> Receipt \<Rightarrow> SyncStore \<Rightarrow> sync_state_error + SyncStore" where
  "pg_SaveReceipt sn r s =
     (case ValidateReceipt r of
        Some e \<Rightarrow> Inl e
      | None \<Rightarrow>
         (case beginTenantOrg sn (rc_TenantID r) (rc_OrganizationID r) of
            Inl e \<Rightarrow> Inl e
          | Inr scope \<Rightarrow>
             (case List.find (receipt_under sn scope (rc_TenantID r) (rc_TransactionID r)) (ss_receipts s) of
                Some x \<Rightarrow>
                  if rc_PayloadHash x \<noteq> rc_PayloadHash r then Inl SyncConflict
                  else if rc_Outcome x = rc_Outcome r then Inr s
                  else if rc_Outcome x \<noteq> ''HELD'' \<or> rc_Outcome r \<noteq> ''APPLIED'' then Inl SyncConflict
                  else settle_receipt sn scope r (update_receipts
                    (\<lambda>y. receipt_under sn scope (rc_TenantID r) (rc_TransactionID r) y \<and>
                         rc_Outcome y = ''HELD'')
                    (\<lambda>y. y\<lparr>rc_Outcome := rc_Outcome r, rc_Reason := rc_Reason r\<rparr>) s)
              | None \<Rightarrow>
                 (case insert_receipt r s of
                    Inl e \<Rightarrow> Inl e
                  | Inr s' \<Rightarrow> settle_receipt sn scope r s'))))"

subsection \<open>Held transactions\<close>

definition upsert_held ::
    "sync_session \<Rightarrow> string \<times> string \<Rightarrow> HeldTransaction \<Rightarrow> SyncStore \<Rightarrow> sync_state_error + SyncStore" where
  "upsert_held sn scope held s =
     (let r = ht_Receipt held;
          row = \<lparr>hd_TransactionID = rc_TransactionID r, hd_TenantID = rc_TenantID r,
                 hd_OrganizationID = rc_OrganizationID r, hd_DeviceID = rc_DeviceID r,
                 hd_SequenceNumber = rc_SequenceNumber r,
                 hd_ExpectedSequence = ht_ExpectedSequence held, hd_Envelope = ht_Envelope held,
                 hd_FirstHeldAt = ht_FirstHeldAt held, hd_LastAttemptAt = ht_LastAttemptAt held,
                 hd_LastError = ht_LastError held\<rparr> in
      case List.find (\<lambda>h. hd_TransactionID h = rc_TransactionID r) (ss_held s) of
        None \<Rightarrow> commit sn (s\<lparr>ss_held := ss_held s @ [row]\<rparr>)
      | Some old \<Rightarrow>
          if \<not> sees sn scope (hd_TenantID old) (hd_OrganizationID old) then Inl SyncConstraintViolation
          else commit sn (s\<lparr>ss_held := map (\<lambda>h.
            if hd_TransactionID h = rc_TransactionID r \<and> hd_TenantID h = rc_TenantID r
              then h\<lparr>hd_ExpectedSequence := ht_ExpectedSequence held, hd_Envelope := ht_Envelope held,
                     hd_LastAttemptAt := ht_LastAttemptAt held, hd_LastError := ht_LastError held\<rparr>
            else h) (ss_held s)\<rparr>))"

definition pg_SaveHeld :: "sync_session \<Rightarrow> HeldTransaction \<Rightarrow> SyncStore \<Rightarrow> sync_state_error + SyncStore" where
  "pg_SaveHeld sn held s =
     (let r = ht_Receipt held in
      case ValidateReceipt r of
        Some e \<Rightarrow> Inl e
      | None \<Rightarrow>
          if ht_Envelope held = None \<or> ht_ExpectedSequence held = 0 \<or>
             time_IsZero (ht_FirstHeldAt held) \<or> time_IsZero (ht_LastAttemptAt held) \<or>
             ht_LastError held = []
            then Inl (SyncInvalidRecord
              ''held transaction envelope, sequence, timestamps, and error are required'')
          else case beginTenantOrg sn (rc_TenantID r) (rc_OrganizationID r) of
            Inl e \<Rightarrow> Inl e
          | Inr scope \<Rightarrow>
             (case List.find (receipt_under sn scope (rc_TenantID r) (rc_TransactionID r)) (ss_receipts s) of
                Some x \<Rightarrow>
                  if rc_PayloadHash x \<noteq> rc_PayloadHash r \<or> rc_Outcome x \<noteq> ''HELD'' then Inl SyncConflict
                  else upsert_held sn scope held (update_receipts
                    (receipt_under sn scope (rc_TenantID r) (rc_TransactionID r))
                    (\<lambda>y. y\<lparr>rc_Reason := rc_Reason r, rc_ReceivedAt := rc_ReceivedAt r\<rparr>) s)
              | None \<Rightarrow>
                 (case insert_receipt r s of
                    Inl e \<Rightarrow> Inl e
                  | Inr s' \<Rightarrow> upsert_held sn scope held s')))"

definition pg_ListHeld ::
    "sync_session \<Rightarrow> string \<Rightarrow> string \<Rightarrow> SyncStore \<Rightarrow> sync_state_error + HeldTransaction list" where
  "pg_ListHeld sn tenantID deviceID s =
     (case beginTenant sn tenantID of
        Inl e \<Rightarrow> Inl e
      | Inr scope \<Rightarrow>
          Inr (concat (map (\<lambda>h. map (\<lambda>r. \<lparr>ht_Receipt = r,
                 ht_ExpectedSequence = hd_ExpectedSequence h, ht_Envelope = hd_Envelope h,
                 ht_FirstHeldAt = hd_FirstHeldAt h, ht_LastAttemptAt = hd_LastAttemptAt h,
                 ht_LastError = hd_LastError h\<rparr>)
               (filter (\<lambda>r. sees sn scope (rc_TenantID r) (rc_OrganizationID r) \<and>
                            rc_TransactionID r = hd_TransactionID h) (ss_receipts s)))
             (sort_key (\<lambda>h. (hd_ExpectedSequence h, hd_SequenceNumber h))
               (filter (\<lambda>h. sees sn scope (hd_TenantID h) (hd_OrganizationID h) \<and>
                            hd_TenantID h = tenantID \<and> hd_DeviceID h = deviceID) (ss_held s))))))"

definition pg_repo :: "sync_session \<Rightarrow> SyncStore SyncStateRepository" where
  "pg_repo sn = \<lparr>ssr_GetLastAcceptedSequence = pg_GetLastAcceptedSequence sn,
     ssr_SaveReceipt = pg_SaveReceipt sn, ssr_GetReceipt = pg_GetReceipt sn,
     ssr_SaveHeld = pg_SaveHeld sn, ssr_ListHeld = pg_ListHeld sn\<rparr>"

subsection \<open>The repository keeps its promises\<close>

text \<open>A session whose role row-level security does not restrict.\<close>

definition bypass :: "sync_session \<Rightarrow> sync_session" where
  "bypass sn = sn\<lparr>sn_rls := False\<rparr>"

lemma sees_bypass [simp]: "sees (bypass sn) scope t i"
  by (simp add: sees_def bypass_def)

lemma receipt_under_bypass [simp]:
  "receipt_under (bypass sn) scope t i x \<longleftrightarrow> rc_TenantID x = t \<and> rc_TransactionID x = i"
  by (simp add: receipt_under_def)

definition receipt_view :: "Receipt \<Rightarrow> string \<times> string \<times> string" where
  "receipt_view r = (rc_TenantID r, rc_PayloadHash r, rc_Outcome r)"

definition store_status :: "SyncStore \<Rightarrow> string \<Rightarrow> (string \<times> string \<times> string) option" where
  "store_status s i = map_option receipt_view (List.find (\<lambda>r. rc_TransactionID r = i) (ss_receipts s))"

definition store_numbers :: "SyncStore \<Rightarrow> uint64 set" where
  "store_numbers s = rc_SequenceNumber `
     {r \<in> set (ss_receipts s). \<exists>h \<in> set (ss_held s). hd_TransactionID h = rc_TransactionID r}"

definition rows_ok :: "SyncStore \<Rightarrow> bool" where
  "rows_ok s \<longleftrightarrow> distinct (map rc_TransactionID (ss_receipts s)) \<and>
     (\<forall>r \<in> set (ss_receipts s). rc_SequenceNumber r \<noteq> 0 \<and> rc_SequenceNumber r \<le> maxSafeSequence)"

definition held_row_ok :: "SyncStore \<Rightarrow> HeldRow \<Rightarrow> bool" where
  "held_row_ok s h \<longleftrightarrow> envelope_matches (hd_TransactionID h) (hd_TenantID h) (hd_Envelope h) \<and>
     (\<exists>hash. store_status s (hd_TransactionID h) = Some (hd_TenantID h, hash, ''HELD''))"

definition store_ok :: "SyncStore \<Rightarrow> bool" where
  "store_ok s \<longleftrightarrow> rows_ok s \<and> (\<forall>h \<in> set (ss_held s). held_row_ok s h)"

lemma rows_ok_maps:
  "rows_ok s \<longleftrightarrow> distinct (map rc_TransactionID (ss_receipts s)) \<and>
     list_all (\<lambda>n. n \<noteq> 0 \<and> n \<le> maxSafeSequence) (map rc_SequenceNumber (ss_receipts s))"
  by (simp add: rows_ok_def list_all_iff)

lemma store_numbers_maps:
  "store_numbers s = snd ` {x \<in> set (map (\<lambda>r. (rc_TransactionID r, rc_SequenceNumber r)) (ss_receipts s)).
     \<exists>h \<in> set (ss_held s). hd_TransactionID h = fst x}"
  by (force simp: store_numbers_def)

lemma distinct_key_eq:
  "distinct (map f xs) \<Longrightarrow> x \<in> set xs \<Longrightarrow> y \<in> set xs \<Longrightarrow> f x = f y \<Longrightarrow> x = y"
  by (metis (mono_tags) distinct_map inj_onD)

lemma store_status_Some:
  assumes "rows_ok s"
  shows "store_status s i = Some v \<longleftrightarrow>
    (\<exists>r \<in> set (ss_receipts s). rc_TransactionID r = i \<and> v = receipt_view r)"
proof
  assume "store_status s i = Some v"
  then show "\<exists>r \<in> set (ss_receipts s). rc_TransactionID r = i \<and> v = receipt_view r"
    by (auto simp: store_status_def dest: find_SomeD)
next
  assume "\<exists>r \<in> set (ss_receipts s). rc_TransactionID r = i \<and> v = receipt_view r"
  then obtain r where r: "r \<in> set (ss_receipts s)" "rc_TransactionID r = i" "v = receipt_view r" by blast
  then obtain x where x: "List.find (\<lambda>r. rc_TransactionID r = i) (ss_receipts s) = Some x"
    by (metis (mono_tags, lifting) find_None_iff not_None_eq)
  with find_SomeD [OF x] r assms have "x = r"
    by (auto simp: rows_ok_def intro: distinct_key_eq)
  with x r show "store_status s i = Some v" by (simp add: store_status_def)
qed

lemma option_eqI: "(\<And>v. a = Some v \<longleftrightarrow> b = Some v) \<Longrightarrow> a = b"
  by (cases a; cases b) auto

lemma status_insert:
  assumes "insert_receipt r s = Inr s'" "rows_ok s"
    "rc_SequenceNumber r \<noteq> 0" "rc_SequenceNumber r \<le> maxSafeSequence"
  shows "rows_ok s'" "store_status s' = (store_status s)(rc_TransactionID r \<mapsto> receipt_view r)"
    "store_status s (rc_TransactionID r) = None" "ss_held s' = ss_held s"
    "ss_receipts s' = ss_receipts s @ [r]" "ss_device_state s' = ss_device_state s"
proof -
  from assms(1) have s': "s' = s\<lparr>ss_receipts := ss_receipts s @ [r]\<rparr>"
    and new: "\<forall>x \<in> set (ss_receipts s). rc_TransactionID x \<noteq> rc_TransactionID r"
    by (auto simp: insert_receipt_def list_ex_iff split: if_splits)
  show "ss_receipts s' = ss_receipts s @ [r]" "ss_held s' = ss_held s"
    "ss_device_state s' = ss_device_state s"
    using s' by simp_all
  show "rows_ok s'" using assms(2-4) new by (auto simp: s' rows_ok_def)
  show none: "store_status s (rc_TransactionID r) = None"
    using new by (auto simp: store_status_def find_None_iff)
  show "store_status s' = (store_status s)(rc_TransactionID r \<mapsto> receipt_view r)"
  proof
    fix i
    show "store_status s' i = ((store_status s)(rc_TransactionID r \<mapsto> receipt_view r)) i"
      using none by (auto simp: s' store_status_def find_append split: option.splits)
  qed
qed

lemma status_update:
  assumes "rows_ok s" "x \<in> set (ss_receipts s)" "hit x"
    and "\<And>y. y \<in> set (ss_receipts s) \<Longrightarrow> hit y \<Longrightarrow> rc_TransactionID y = rc_TransactionID x"
    and "\<And>y. rc_TransactionID (f y) = rc_TransactionID y"
    and "\<And>y. rc_SequenceNumber (f y) = rc_SequenceNumber y"
  shows "rows_ok (update_receipts hit f s)"
    "store_status (update_receipts hit f s) = (store_status s)(rc_TransactionID x \<mapsto> receipt_view (f x))"
    "ss_held (update_receipts hit f s) = ss_held s"
    "ss_device_state (update_receipts hit f s) = ss_device_state s"
    "store_numbers (update_receipts hit f s) = store_numbers s"
proof -
  let ?g = "\<lambda>y. if hit y then f y else y" and ?s = "update_receipts hit f s"
  have ids: "rc_TransactionID (?g y) = rc_TransactionID y" "rc_SequenceNumber (?g y) = rc_SequenceNumber y" for y
    using assms(5,6) by simp_all
  have recs: "ss_receipts ?s = map ?g (ss_receipts s)" by (simp add: update_receipts_def)
  show "ss_held ?s = ss_held s" "ss_device_state ?s = ss_device_state s"
    by (simp_all add: update_receipts_def)
  have "map rc_TransactionID (ss_receipts ?s) = map rc_TransactionID (ss_receipts s)"
    "map rc_SequenceNumber (ss_receipts ?s) = map rc_SequenceNumber (ss_receipts s)"
    unfolding recs map_map comp_def ids by (rule refl)+
  then show ok: "rows_ok ?s" using assms(1) by (simp add: rows_ok_maps)
  have "map (\<lambda>r. (rc_TransactionID r, rc_SequenceNumber r)) (ss_receipts ?s) =
      map (\<lambda>r. (rc_TransactionID r, rc_SequenceNumber r)) (ss_receipts s)"
    unfolding recs map_map comp_def ids by (rule refl)
  then show "store_numbers ?s = store_numbers s"
    unfolding store_numbers_maps by (simp add: update_receipts_def)
  show "store_status ?s = (store_status s)(rc_TransactionID x \<mapsto> receipt_view (f x))"
  proof (rule ext, rule option_eqI)
    fix i v
    have "store_status ?s i = Some v \<longleftrightarrow> (\<exists>y \<in> set (ss_receipts s). rc_TransactionID y = i \<and> v = receipt_view (?g y))"
      unfolding store_status_Some [OF ok] recs set_map bex_simps(7) ids(1) by (rule refl)
    also have "\<dots> \<longleftrightarrow> ((store_status s)(rc_TransactionID x \<mapsto> receipt_view (f x))) i = Some v"
    proof (cases "i = rc_TransactionID x")
      case True
      have "y = x" if "y \<in> set (ss_receipts s)" "rc_TransactionID y = i" for y
        using that assms(1,2) True by (auto simp: rows_ok_def intro: distinct_key_eq)
      then show ?thesis using True assms(2,3) by auto
    next
      case False
      then show ?thesis using assms(4) by (auto simp: store_status_Some [OF assms(1)])
    qed
    finally show "store_status ?s i = Some v \<longleftrightarrow>
      ((store_status s)(rc_TransactionID x \<mapsto> receipt_view (f x))) i = Some v" .
  qed
qed

lemma settle_receipt_Inr:
  assumes "settle_receipt (bypass sn) scope r s = Inr s'"
  shows "ss_receipts s' = ss_receipts s" "set (ss_held s') \<subseteq> set (ss_held s)"
    "rc_Outcome r = ''APPLIED'' \<Longrightarrow> h \<in> set (ss_held s') \<Longrightarrow>
       \<not> (hd_TenantID h = rc_TenantID r \<and> hd_TransactionID h = rc_TransactionID r)"
    "store_status s' = store_status s" "rows_ok s' = rows_ok s" "store_numbers s' \<subseteq> store_numbers s"
proof -
  show recs: "ss_receipts s' = ss_receipts s" and held: "set (ss_held s') \<subseteq> set (ss_held s)"
    and "rc_Outcome r = ''APPLIED'' \<Longrightarrow> h \<in> set (ss_held s') \<Longrightarrow>
       \<not> (hd_TenantID h = rc_TenantID r \<and> hd_TransactionID h = rc_TransactionID r)"
    using assms by (auto simp: settle_receipt_def advance_device_def commit_def Let_def
        split: if_splits sum.splits)
  from recs show "store_status s' = store_status s" "rows_ok s' = rows_ok s"
    by (simp_all add: store_status_def rows_ok_def fun_eq_iff)
  from recs held show "store_numbers s' \<subseteq> store_numbers s" by (auto simp: store_numbers_def)
qed

lemma SaveReceipt_cases:
  assumes "pg_SaveReceipt sn r s = Inr s'"
  obtains
    (repeated) scope x where "List.find (receipt_under sn scope (rc_TenantID r) (rc_TransactionID r)) (ss_receipts s) = Some x"
      "rc_PayloadHash x = rc_PayloadHash r" "rc_Outcome x = rc_Outcome r" "s' = s"
  | (resumed) scope x where "List.find (receipt_under sn scope (rc_TenantID r) (rc_TransactionID r)) (ss_receipts s) = Some x"
      "rc_PayloadHash x = rc_PayloadHash r" "rc_Outcome x = ''HELD''" "rc_Outcome r = ''APPLIED''"
      "settle_receipt sn scope r (update_receipts
         (\<lambda>y. receipt_under sn scope (rc_TenantID r) (rc_TransactionID r) y \<and> rc_Outcome y = ''HELD'')
         (\<lambda>y. y\<lparr>rc_Outcome := rc_Outcome r, rc_Reason := rc_Reason r\<rparr>) s) = Inr s'"
  | (inserted) scope s1 where "insert_receipt r s = Inr s1" "settle_receipt sn scope r s1 = Inr s'"
      "List.find (receipt_under sn scope (rc_TenantID r) (rc_TransactionID r)) (ss_receipts s) = None"
proof -
  have val: "ValidateReceipt r = None"
    using assms by (cases "ValidateReceipt r") (simp_all add: pg_SaveReceipt_def)
  with assms obtain scope where sc: "beginTenantOrg sn (rc_TenantID r) (rc_OrganizationID r) = Inr scope"
    by (cases "beginTenantOrg sn (rc_TenantID r) (rc_OrganizationID r)") (simp_all add: pg_SaveReceipt_def)
  show ?thesis
  proof (cases "List.find (receipt_under sn scope (rc_TenantID r) (rc_TransactionID r)) (ss_receipts s)")
    case None
    with assms sc val have "(case insert_receipt r s of Inl e \<Rightarrow> Inl e | Inr s1 \<Rightarrow> settle_receipt sn scope r s1) = Inr s'"
      by (simp add: pg_SaveReceipt_def)
    then obtain s1 where "insert_receipt r s = Inr s1" "settle_receipt sn scope r s1 = Inr s'"
      by (cases "insert_receipt r s") simp_all
    with None that(3) show ?thesis by blast
  next
    case (Some x)
    with assms sc val that(1) [of scope x] that(2) [of scope x] show ?thesis
      by (auto simp: pg_SaveReceipt_def split: if_splits)
  qed
qed

lemma SaveReceipt_valid:
  "pg_SaveReceipt sn r s = Inr s' \<Longrightarrow> rc_SequenceNumber r \<noteq> 0 \<and> rc_SequenceNumber r \<le> maxSafeSequence"
  using ValidateReceipt_sequence by (auto simp: pg_SaveReceipt_def split: option.splits)

lemma store_okD:
  "store_ok s \<Longrightarrow> rows_ok s"
  "store_ok s \<Longrightarrow> h \<in> set (ss_held s) \<Longrightarrow> held_row_ok s h"
  by (simp_all add: store_ok_def)

lemma SaveReceipt_law:
  assumes ok: "store_ok s" and save: "pg_SaveReceipt (bypass sn) r s = Inr s'"
  shows "store_ok s' \<and> store_numbers s' \<subseteq> store_numbers s \<and> rc_SequenceNumber r \<le> maxSafeSequence \<and>
    store_status s' = (store_status s)(rc_TransactionID r \<mapsto> (rc_TenantID r, rc_PayloadHash r, rc_Outcome r)) \<and>
    (store_status s (rc_TransactionID r) = None \<or>
     store_status s (rc_TransactionID r) = Some (rc_TenantID r, rc_PayloadHash r, rc_Outcome r) \<or>
     store_status s (rc_TransactionID r) = Some (rc_TenantID r, rc_PayloadHash r, ''HELD'') \<and>
       rc_Outcome r = ''APPLIED'')"
  using save
proof (cases rule: SaveReceipt_cases)
  case (repeated scope x)
  note x = find_SomeD [OF repeated(1), simplified]
  have "store_status s (rc_TransactionID r) = Some (rc_TenantID r, rc_PayloadHash r, rc_Outcome r)"
    using x repeated(2,3) by (auto simp: store_status_Some [OF store_okD(1) [OF ok]] receipt_view_def)
  then show ?thesis using ok repeated(4) SaveReceipt_valid [OF save] by (auto simp: fun_upd_idem)
next
  case (resumed scope x)
  note x = find_SomeD [OF resumed(1), simplified]
  let ?hit = "\<lambda>y. receipt_under (bypass sn) scope (rc_TenantID r) (rc_TransactionID r) y \<and> rc_Outcome y = ''HELD''"
    and ?f = "\<lambda>y. y\<lparr>rc_Outcome := rc_Outcome r, rc_Reason := rc_Reason r\<rparr>"
  let ?s = "update_receipts ?hit ?f s"
  have hit: "?hit x" "\<And>y. y \<in> set (ss_receipts s) \<Longrightarrow> ?hit y \<Longrightarrow> rc_TransactionID y = rc_TransactionID x"
    "\<And>y. rc_TransactionID (?f y) = rc_TransactionID y" "\<And>y. rc_SequenceNumber (?f y) = rc_SequenceNumber y"
    using x resumed(3) by simp_all
  note up = status_update [where hit = ?hit and f = ?f, OF store_okD(1) [OF ok] conjunct1 [OF x] hit]
  note st = settle_receipt_Inr [OF resumed(5)]
  have status': "store_status s' = (store_status s)(rc_TransactionID r \<mapsto>
      (rc_TenantID r, rc_PayloadHash r, rc_Outcome r))"
    using st(4) up(2) x resumed(2) by (simp add: receipt_view_def)
  have old: "store_status s (rc_TransactionID r) = Some (rc_TenantID r, rc_PayloadHash r, ''HELD'')"
    using x resumed(2,3) by (auto simp: store_status_Some [OF store_okD(1) [OF ok]] receipt_view_def)
  have "held_row_ok s' h" if h: "h \<in> set (ss_held s')" for h
  proof -
    have "h \<in> set (ss_held s)" using st(2) up(3) h by auto
    then have hs: "held_row_ok s h" by (rule store_okD(2) [OF ok])
    then have "hd_TransactionID h \<noteq> rc_TransactionID r"
      using st(3) [OF resumed(4) h] old by (auto simp: held_row_ok_def)
    then show ?thesis using hs by (simp add: held_row_ok_def status')
  qed
  then show ?thesis
    using st(5,6) up(1,5) status' old resumed(4) SaveReceipt_valid [OF save] by (simp add: store_ok_def)
next
  case (inserted scope s1)
  note ins = status_insert [OF inserted(1) store_okD(1) [OF ok]]
  note ins' = ins [OF conjunct1 [OF SaveReceipt_valid [OF save]] conjunct2 [OF SaveReceipt_valid [OF save]]]
  note st = settle_receipt_Inr [OF inserted(2)]
  have status': "store_status s' = (store_status s)(rc_TransactionID r \<mapsto>
      (rc_TenantID r, rc_PayloadHash r, rc_Outcome r))"
    using st(4) ins'(2) by (simp add: receipt_view_def)
  have not_held: "hd_TransactionID h \<noteq> rc_TransactionID r" if "h \<in> set (ss_held s)" for h
    using store_okD(2) [OF ok that] ins'(3) by (auto simp: held_row_ok_def)
  have "held_row_ok s' h" if "h \<in> set (ss_held s')" for h
  proof -
    have "h \<in> set (ss_held s)" using that st(2) ins'(4) by auto
    from store_okD(2) [OF ok this] not_held [OF this] show ?thesis
      by (simp add: held_row_ok_def status')
  qed
  moreover have "store_numbers s1 \<subseteq> store_numbers s"
    using not_held by (auto simp: store_numbers_def ins'(4,5))
  ultimately show ?thesis
    using st(5,6) ins'(1,3) status' SaveReceipt_valid [OF save] by (auto simp: store_ok_def)
qed

lemma upsert_held_Inr:
  assumes "upsert_held (bypass sn) scope held s = Inr s'"
  shows "ss_receipts s' = ss_receipts s" "ss_device_state s' = ss_device_state s"
    "\<forall>h \<in> set (ss_held s'). h \<in> set (ss_held s) \<and>
       \<not> (hd_TransactionID h = rc_TransactionID (ht_Receipt held) \<and> hd_TenantID h = rc_TenantID (ht_Receipt held)) \<or>
       hd_TransactionID h = rc_TransactionID (ht_Receipt held) \<and> hd_TenantID h = rc_TenantID (ht_Receipt held) \<and>
         hd_Envelope h = ht_Envelope held"
proof -
  show "ss_receipts s' = ss_receipts s" "ss_device_state s' = ss_device_state s"
    using assms by (auto simp: upsert_held_def commit_def Let_def split: option.splits if_splits)
  show "\<forall>h \<in> set (ss_held s'). h \<in> set (ss_held s) \<and>
       \<not> (hd_TransactionID h = rc_TransactionID (ht_Receipt held) \<and> hd_TenantID h = rc_TenantID (ht_Receipt held)) \<or>
       hd_TransactionID h = rc_TransactionID (ht_Receipt held) \<and> hd_TenantID h = rc_TenantID (ht_Receipt held) \<and>
         hd_Envelope h = ht_Envelope held"
  proof (cases "List.find (\<lambda>h. hd_TransactionID h = rc_TransactionID (ht_Receipt held)) (ss_held s)")
    case None
    with assms show ?thesis
      by (auto simp: upsert_held_def commit_def Let_def find_None_iff split: if_splits)
  next
    case (Some old)
    with assms show ?thesis by (auto simp: upsert_held_def commit_def Let_def split: if_splits)
  qed
qed

lemma SaveHeld_cases:
  assumes "pg_SaveHeld sn held s = Inr s'"
  obtains
    (again) scope x where "List.find (receipt_under sn scope (rc_TenantID (ht_Receipt held))
        (rc_TransactionID (ht_Receipt held))) (ss_receipts s) = Some x"
      "rc_PayloadHash x = rc_PayloadHash (ht_Receipt held)" "rc_Outcome x = ''HELD''"
      "upsert_held sn scope held (update_receipts
         (receipt_under sn scope (rc_TenantID (ht_Receipt held)) (rc_TransactionID (ht_Receipt held)))
         (\<lambda>y. y\<lparr>rc_Reason := rc_Reason (ht_Receipt held), rc_ReceivedAt := rc_ReceivedAt (ht_Receipt held)\<rparr>) s) = Inr s'"
  | (first) scope s1 where "insert_receipt (ht_Receipt held) s = Inr s1" "upsert_held sn scope held s1 = Inr s'"
proof -
  let ?r = "ht_Receipt held"
  have val: "ValidateReceipt ?r = None"
    using assms by (cases "ValidateReceipt ?r") (simp_all add: pg_SaveHeld_def Let_def)
  with assms obtain scope where sc: "beginTenantOrg sn (rc_TenantID ?r) (rc_OrganizationID ?r) = Inr scope"
    by (cases "beginTenantOrg sn (rc_TenantID ?r) (rc_OrganizationID ?r)")
      (simp_all add: pg_SaveHeld_def Let_def)
  show ?thesis
  proof (cases "List.find (receipt_under sn scope (rc_TenantID ?r) (rc_TransactionID ?r)) (ss_receipts s)")
    case None
    with assms sc val have "(case insert_receipt ?r s of Inl e \<Rightarrow> Inl e | Inr s1 \<Rightarrow> upsert_held sn scope held s1) = Inr s'"
      by (simp add: pg_SaveHeld_def Let_def)
    then obtain s1 where "insert_receipt ?r s = Inr s1" "upsert_held sn scope held s1 = Inr s'"
      by (cases "insert_receipt ?r s") simp_all
    with that(2) show ?thesis by blast
  next
    case (Some x)
    with assms sc val that(1) [of scope x] show ?thesis
      by (auto simp: pg_SaveHeld_def Let_def split: if_splits)
  qed
qed

lemma SaveHeld_valid:
  "pg_SaveHeld sn held s = Inr s' \<Longrightarrow>
   rc_SequenceNumber (ht_Receipt held) \<noteq> 0 \<and> rc_SequenceNumber (ht_Receipt held) \<le> maxSafeSequence"
  by (rule ValidateReceipt_sequence)
    (cases "ValidateReceipt (ht_Receipt held)"; simp add: pg_SaveHeld_def Let_def)

lemma upsert_held_ok:
  assumes ok: "rows_ok s" "\<And>h. h \<in> set (ss_held s) \<Longrightarrow> held_row_ok s h"
    and m: "envelope_matches (rc_TransactionID (ht_Receipt held)) (rc_TenantID (ht_Receipt held)) (ht_Envelope held)"
    and st: "store_status s (rc_TransactionID (ht_Receipt held)) = Some (rc_TenantID (ht_Receipt held), hash, ''HELD'')"
    and up: "upsert_held (bypass sn) scope held s = Inr s'"
  shows "store_ok s'" "store_status s' = store_status s"
proof -
  note u = upsert_held_Inr [OF up]
  show eq: "store_status s' = store_status s" using u(1) by (simp add: store_status_def fun_eq_iff)
  have "held_row_ok s' h" if "h \<in> set (ss_held s')" for h
    using u(3) that ok(2) m st by (fastforce simp: held_row_ok_def eq)
  with u(1) ok(1) show "store_ok s'" by (simp add: store_ok_def rows_ok_def)
qed

lemma SaveHeld_law:
  assumes ok: "store_ok s" and out: "rc_Outcome (ht_Receipt h) = ''HELD''"
    and m: "envelope_matches (rc_TransactionID (ht_Receipt h)) (rc_TenantID (ht_Receipt h)) (ht_Envelope h)"
    and save: "pg_SaveHeld (bypass sn) h s = Inr s'"
  shows "store_ok s' \<and> store_status s' = (store_status s)(rc_TransactionID (ht_Receipt h) \<mapsto>
      (rc_TenantID (ht_Receipt h), rc_PayloadHash (ht_Receipt h), ''HELD'')) \<and>
    (store_status s (rc_TransactionID (ht_Receipt h)) = None \<or>
     store_status s (rc_TransactionID (ht_Receipt h)) =
       Some (rc_TenantID (ht_Receipt h), rc_PayloadHash (ht_Receipt h), ''HELD''))"
  using save
proof (cases rule: SaveHeld_cases)
  case (again scope x)
  let ?r = "ht_Receipt h"
  note x = find_SomeD [OF again(1), simplified]
  let ?hit = "receipt_under (bypass sn) scope (rc_TenantID ?r) (rc_TransactionID ?r)"
    and ?f = "\<lambda>y. y\<lparr>rc_Reason := rc_Reason ?r, rc_ReceivedAt := rc_ReceivedAt ?r\<rparr>"
  have hit: "?hit x" "\<And>y. y \<in> set (ss_receipts s) \<Longrightarrow> ?hit y \<Longrightarrow> rc_TransactionID y = rc_TransactionID x"
    "\<And>y. rc_TransactionID (?f y) = rc_TransactionID y" "\<And>y. rc_SequenceNumber (?f y) = rc_SequenceNumber y"
    using x by simp_all
  note up = status_update [where hit = ?hit and f = ?f, OF store_okD(1) [OF ok] conjunct1 [OF x] hit]
  have old: "store_status s (rc_TransactionID ?r) = Some (rc_TenantID ?r, rc_PayloadHash ?r, ''HELD'')"
    using x again(2,3) by (auto simp: store_status_Some [OF store_okD(1) [OF ok]] receipt_view_def)
  have same: "store_status (update_receipts ?hit ?f s) = store_status s"
    using up(2) x old again(2,3) by (simp add: receipt_view_def fun_upd_idem)
  have held: "ss_held (update_receipts ?hit ?f s) = ss_held s" by (simp add: update_receipts_def)
  have rows: "\<And>k. k \<in> set (ss_held (update_receipts ?hit ?f s)) \<Longrightarrow> held_row_ok (update_receipts ?hit ?f s) k"
    unfolding held held_row_ok_def same using store_okD(2) [OF ok] unfolding held_row_ok_def by blast
  have old': "store_status (update_receipts ?hit ?f s) (rc_TransactionID ?r) = Some (rc_TenantID ?r, rc_PayloadHash ?r, ''HELD'')"
    using old same by simp
  note res = upsert_held_ok [OF up(1) rows m old' again(4)]
  then show ?thesis using old same by (simp add: fun_upd_idem)
next
  case (first scope s1)
  let ?r = "ht_Receipt h"
  note v = SaveHeld_valid [OF save]
  note ins = status_insert [OF first(1) store_okD(1) [OF ok] conjunct1 [OF v] conjunct2 [OF v]]
  have "held_row_ok s1 k" if "k \<in> set (ss_held s1)" for k
    using store_okD(2) [OF ok, of k] that ins(3) by (auto simp: held_row_ok_def ins(2,4))
  moreover have st: "store_status s1 (rc_TransactionID ?r) = Some (rc_TenantID ?r, rc_PayloadHash ?r, ''HELD'')"
    using ins(2) out by (simp add: receipt_view_def)
  ultimately have res: "store_ok s'" "store_status s' = store_status s1"
    using upsert_held_ok [OF ins(1) _ m st first(2)] by blast+
  then show ?thesis using ins(2,3) out by (simp add: receipt_view_def)
qed

lemma pg_GetReceipt_law:
  assumes ok: "store_ok s"
  shows "pg_GetReceipt (bypass sn) t i s = Inr r \<Longrightarrow> store_status s i = Some (t, rc_PayloadHash r, rc_Outcome r)"
    "pg_GetReceipt (bypass sn) t i s = Inl SyncNotFound \<Longrightarrow> store_status s i \<noteq> Some (t, hash, x)"
proof -
  assume "pg_GetReceipt (bypass sn) t i s = Inr r"
  then obtain scope where "List.find (receipt_under (bypass sn) scope t i) (ss_receipts s) = Some r"
    by (auto simp: pg_GetReceipt_def split: sum.splits option.splits)
  from find_SomeD [OF this] show "store_status s i = Some (t, rc_PayloadHash r, rc_Outcome r)"
    by (auto simp: store_status_Some [OF store_okD(1) [OF ok]] receipt_view_def)
next
  assume "pg_GetReceipt (bypass sn) t i s = Inl SyncNotFound"
  then obtain scope where "List.find (receipt_under (bypass sn) scope t i) (ss_receipts s) = None"
    by (auto simp: pg_GetReceipt_def beginTenant_def beginTenantOrg_def split: sum.splits option.splits if_splits)
  then show "store_status s i \<noteq> Some (t, hash, x)"
    by (auto simp: store_status_Some [OF store_okD(1) [OF ok]] receipt_view_def find_None_iff)
qed

lemma pg_ListHeld_law:
  assumes ok: "store_ok s" and list: "pg_ListHeld (bypass sn) t d s = Inr hs" and h: "h \<in> set hs"
  shows "envelope_matches (rc_TransactionID (ht_Receipt h)) t (ht_Envelope h) \<and>
    (\<exists>hash. store_status s (rc_TransactionID (ht_Receipt h)) = Some (t, hash, ''HELD'')) \<and>
    rc_SequenceNumber (ht_Receipt h) \<in> store_numbers s"
proof -
  from list h obtain row r where row: "row \<in> set (ss_held s)" "hd_TenantID row = t"
    "r \<in> set (ss_receipts s)" "rc_TransactionID r = hd_TransactionID row"
    "ht_Receipt h = r" "ht_Envelope h = hd_Envelope row"
    by (auto simp: pg_ListHeld_def split: sum.splits)
  then have "rc_SequenceNumber (ht_Receipt h) \<in> store_numbers s"
    unfolding store_numbers_def by (intro imageI) auto
  with store_okD(2) [OF ok row(1)] row show ?thesis
    by (auto simp: held_row_ok_def)
qed

lemma store_numbers_law:
  "store_ok s \<Longrightarrow> finite (store_numbers s) \<and> 0 \<notin> store_numbers s \<and> (\<forall>n \<in> store_numbers s. n \<le> maxSafeSequence)"
  by (auto simp: store_ok_def rows_ok_def store_numbers_def)

interpretation pg: durable_sync "\<lambda>sn. pg_repo (bypass sn)" store_ok store_status store_numbers
proof unfold_locales
  fix s e t i r
  assume "store_ok s" "ssr_GetReceipt (pg_repo (bypass e)) t i s = Inr r"
  then show "store_status s i = Some (t, rc_PayloadHash r, rc_Outcome r)"
    using pg_GetReceipt_law(1) by (simp add: pg_repo_def)
next
  fix s e t i hash x
  assume "store_ok s" "ssr_GetReceipt (pg_repo (bypass e)) t i s = Inl SyncNotFound"
  then show "store_status s i \<noteq> Some (t, hash, x)"
    using pg_GetReceipt_law(2) by (simp add: pg_repo_def)
next
  fix s e r s'
  assume "store_ok s" "ssr_SaveReceipt (pg_repo (bypass e)) r s = Inr s'"
  then show "store_ok s' \<and> store_numbers s' \<subseteq> store_numbers s \<and> rc_SequenceNumber r \<le> maxSafeSequence \<and>
    store_status s' = (store_status s)(rc_TransactionID r \<mapsto> (rc_TenantID r, rc_PayloadHash r, rc_Outcome r)) \<and>
    (store_status s (rc_TransactionID r) = None \<or>
     store_status s (rc_TransactionID r) = Some (rc_TenantID r, rc_PayloadHash r, rc_Outcome r) \<or>
     store_status s (rc_TransactionID r) = Some (rc_TenantID r, rc_PayloadHash r, ''HELD'') \<and>
       rc_Outcome r = ''APPLIED'')"
    by (intro SaveReceipt_law) (simp_all add: pg_repo_def)
next
  fix s h e s'
  assume "store_ok s" "rc_Outcome (ht_Receipt h) = ''HELD''"
    "envelope_matches (rc_TransactionID (ht_Receipt h)) (rc_TenantID (ht_Receipt h)) (ht_Envelope h)"
    "ssr_SaveHeld (pg_repo (bypass e)) h s = Inr s'"
  then show "store_ok s' \<and> store_status s' = (store_status s)(rc_TransactionID (ht_Receipt h) \<mapsto>
      (rc_TenantID (ht_Receipt h), rc_PayloadHash (ht_Receipt h), ''HELD'')) \<and>
    (store_status s (rc_TransactionID (ht_Receipt h)) = None \<or>
     store_status s (rc_TransactionID (ht_Receipt h)) =
       Some (rc_TenantID (ht_Receipt h), rc_PayloadHash (ht_Receipt h), ''HELD''))"
    by (intro SaveHeld_law) (simp_all add: pg_repo_def)
next
  fix s e t d hs h
  assume "store_ok s" "ssr_ListHeld (pg_repo (bypass e)) t d s = Inr hs" "h \<in> set hs"
  then show "envelope_matches (rc_TransactionID (ht_Receipt h)) t (ht_Envelope h) \<and>
    (\<exists>hash'. store_status s (rc_TransactionID (ht_Receipt h)) = Some (t, hash', ''HELD'')) \<and>
    rc_SequenceNumber (ht_Receipt h) \<in> store_numbers s"
    by (intro pg_ListHeld_law) (simp_all add: pg_repo_def)
next
  fix s
  assume "store_ok s"
  then show "finite (store_numbers s) \<and> 0 \<notin> store_numbers s \<and> (\<forall>n \<in> store_numbers s. n \<le> maxSafeSequence)"
    by (rule store_numbers_law)
qed

end
