(* ===== verification/Sync_Guarantees.thy ===== *)
theory Sync_Guarantees
  imports Sync_Store
begin

text \<open>
  What the sync processor guarantees, over the PostgreSQL repository where it is durable: the
  conditions of acceptance, exactly-once application over runs with restarts, the drain loop,
  revocation, and the signed form of a transaction.
\<close>

subsection \<open>A submission\<close>

lemma admit_None:
  assumes "fst (admit C call t authority p) = None"
  shows "\<exists>d. pr_devices p (tx_DeviceID t) = Some d \<and> tx_TenantID t = d_tenantID d \<and>
    tx_UserID t = d_userID d \<and> tx_PayloadHash t = HashPayload C (tx_Payload t) \<and>
    ValidateAuthorityPackage C authority d (defaultSecret call p) (call_at call) = None \<and>
    (if tx_SignatureAlgorithm t = ''Ed25519''
     then (d_id d = ''device-session'' \<or> ed25519_signature_ok C d t) \<and>
       tx_AuthorityID t = pkg_ID authority \<and>
       (requiredCapability (tx_Operation t) = [] \<or>
        requiredCapability (tx_Operation t) \<in> set (pkg_Scopes authority))
     else tx_SignatureAlgorithm t = legacyHMACSHA256 \<and> \<not> deviceHasRegisteredKey d \<and>
       (\<exists>secret. legacy_secret p (tx_KeyID t) = Some secret \<and>
          tx_Signature t = signTransaction C t secret))"
proof -
  from assms obtain d where d: "admit_identity C p t authority = Inr d"
    "ValidateAuthorityPackage C authority d (defaultSecret call p) (call_at call) = None"
    "admit_signature C p d t = None"
    by (auto simp: admit_def split: sum.splits option.splits)
  from d(1) have i: "pr_devices p (tx_DeviceID t) = Some d" "tx_TenantID t = d_tenantID d"
    "tx_UserID t = d_userID d" "tx_PayloadHash t = HashPayload C (tx_Payload t)"
    "tx_SignatureAlgorithm t = ''Ed25519'' \<longrightarrow> tx_AuthorityID t = pkg_ID authority \<and>
       (requiredCapability (tx_Operation t) = [] \<or> requiredCapability (tx_Operation t) \<in> set (pkg_Scopes authority))"
    "tx_SignatureAlgorithm t \<noteq> ''Ed25519'' \<longrightarrow> tx_SignatureAlgorithm t = legacyHMACSHA256"
    by (auto simp: admit_identity_def Let_def split: if_splits option.splits)
  from d(3) have "if tx_SignatureAlgorithm t = ''Ed25519''
     then d_id d = ''device-session'' \<or> ed25519_signature_ok C d t
     else \<not> deviceHasRegisteredKey d \<and> (\<exists>secret. legacy_secret p (tx_KeyID t) = Some secret \<and>
          tx_Signature t = signTransaction C t secret)"
    by (auto simp: admit_signature_def split: if_splits option.splits)
  with i d(2) show ?thesis by auto
qed


subsection \<open>Exactly once\<close>


subsection \<open>Draining\<close>

lemma drain_numbers:
  assumes "drain_loop repo call ten dev p s [] = Some (rs, p', s')"
  shows "\<forall>i < length rs. res_ExpectedSequence (rs ! i) = memory_next p dev + of_nat i \<and>
    res_Outcome (rs ! i) = Applied"
proof -
  let ?I = "\<lambda>q (u :: 'a) (dr :: SyncResult list). memory_next q dev = memory_next p dev + of_nat (length dr) \<and>
    (\<forall>i < length dr. res_ExpectedSequence (dr ! i) = memory_next p dev + of_nat i \<and>
      res_Outcome (dr ! i) = Applied)"
  have "?I p' s' rs"
  proof (rule drain_loop_rule [OF assms, where I = ?I])
    show "?I p s []" by simp
  next
    fix q u dr t u'
    assume I: "?I q u dr"
    have "memory_next (drain_accept dev (memory_next q dev) t q) dev = memory_next q dev + 1"
      by (simp add: memory_next_def drain_accept_def)
    with I show "?I (drain_accept dev (memory_next q dev) t q) u' (dr @ [drained_result t (memory_next q dev)])"
      by (auto simp: nth_append less_Suc_eq drained_result_def algebra_simps)
  qed
  then show ?thesis by blast
qed


subsection \<open>Revocation\<close>

lemma SubmitContext_devices: "SubmitContext C repo call t a p s = (r, p', s') \<Longrightarrow> pr_devices p' = pr_devices p"
  by (erule SubmitContext_cases, simp, erule gate_cases) (auto simp: accept_def)

lemma DrainHeld_devices:
  assumes "DrainHeld repo call ten dev p s = Some (rs, p', s')"
  shows "pr_devices p' = pr_devices p"
proof (cases "pr_devices p dev")
  case None
  with assms show ?thesis by (simp add: DrainHeld_def)
next
  case (Some d)
  with assms have ret: "drain_loop repo call ten dev p s [] = Some (rs, p', s')" by (simp add: DrainHeld_def)
  show ?thesis
    by (rule drain_loop_rule [OF ret, where I = "\<lambda>q u dr. pr_devices q = pr_devices p"])
      (simp_all add: drain_accept_def)
qed

fun registers :: "string \<Rightarrow> 'e sync_op \<Rightarrow> bool" where
  "registers dev (CRegister d) \<longleftrightarrow> d_id d = dev"
| "registers dev _ \<longleftrightarrow> False"

lemma step_stays_revoked:
  assumes "sync_step C repo c p s = (rs, p', s')" "\<not> registers dev c" "pr_devices p dev = None"
  shows "pr_devices p' dev = None"
proof (cases c)
  case (CSubmit e call t authority)
  obtain r q u where r: "SubmitContext C (Some (repo e)) call t authority p s = (r, q, u)"
    by (metis prod_cases3)
  with assms CSubmit SubmitContext_devices [OF r] show ?thesis by auto
next
  case (CDrain e call ten d)
  with assms show ?thesis by (auto split: option.splits dest: DrainHeld_devices)
qed (use assms in \<open>auto simp: RegisterDevice_def RevokeDevice_def SetPreAcceptancePolicy_def
    SetSchemaVersioner_def NewProcessor_def split: if_splits\<close>)

lemma run_stays_revoked:
  "sync_run C repo cs p s = (rs, p', s') \<Longrightarrow> \<forall>c \<in> set cs. \<not> registers dev c \<Longrightarrow>
   pr_devices p dev = None \<Longrightarrow> pr_devices p' dev = None"
proof (induction cs arbitrary: p s rs)
  case Nil
  then show ?case by simp
next
  case (Cons c cs)
  obtain rs1 p1 s1 where c: "sync_step C repo c p s = (rs1, p1, s1)" by (metis prod_cases3)
  obtain rs2 where "sync_run C repo cs p1 s1 = (rs2, p', s')"
    using Cons.prems(1) c by (auto simp: Let_def split: prod.splits)
  with Cons step_stays_revoked [OF c] show ?case by simp
qed

lemma unregistered_refused:
  assumes "pr_devices p (tx_DeviceID t) = None"
  shows "\<exists>r. SubmitContext C repo call t authority p s = (r, p, s) \<and>
    res_Outcome r \<in> {Rejected, SecurityFailure}"
  using assms
  by (auto simp: SubmitContext_def admit_def admit_identity_def sync_result_def)

text \<open>Revocation fails closed at once and for good. From the revocation of a device until it is
  registered again, through any calls and restarts, its submissions are refused without any change,
  whatever they carry, and draining it does nothing.\<close>

theorem revoked_device_fails_closed:
  assumes "sync_run C repo cs (RevokeDevice dev p) s = (rs, p', s')"
    and "\<forall>c \<in> set cs. \<not> registers dev c" and "tx_DeviceID t = dev"
  shows "(\<exists>r. SubmitContext C (Some (repo e)) call t authority p' s' = (r, p', s') \<and>
      res_Outcome r \<in> {Rejected, SecurityFailure}) \<and>
    DrainHeld (Some (repo e)) call ten dev p' s' = Some ([], p', s')"
proof -
  have "pr_devices p' dev = None"
    by (rule run_stays_revoked [OF assms(1,2)]) (simp add: RevokeDevice_def)
  then show ?thesis
    using unregistered_refused [of p' t C "Some (repo e)"] assms(3) by (simp add: DrainHeld_def)
qed

subsection \<open>What a signature covers\<close>

definition signed_fields :: "Transaction \<Rightarrow> string list" where
  "signed_fields t = [tx_ProtocolVersion t, tx_TransactionID t, tx_TenantID t, tx_OrganizationID t,
     tx_Environment t, tx_DeviceID t, tx_UserID t, tx_Operation t, tx_EntityID t, tx_PayloadHash t,
     tx_AuthorityID t, tx_SignatureAlgorithm t, tx_KeyID t]"

text \<open>C19: The signed form determines the transaction: two transactions whose text fields hold no \<open>|\<close> and
  that have the same canonical string agree in every signed field, the numbers included (the
  capture time as it is printed).\<close>

theorem canonical_transaction_injective:
  assumes "\<forall>f \<in> set (signed_fields t) \<union> set (signed_fields u). CHR ''|'' \<notin> set f"
    and "canonicalTransaction t = canonicalTransaction u"
  shows "signed_fields t = signed_fields u \<and> tx_SequenceNumber t = tx_SequenceNumber u \<and>
    tx_AuthorityEpoch t = tx_AuthorityEpoch u \<and>
    RFC3339Nano (tx_CapturedAt t) = RFC3339Nano (tx_CapturedAt u)"
proof -
  let ?fs = "\<lambda>t. [tx_ProtocolVersion t, tx_TransactionID t, tx_TenantID t, tx_OrganizationID t,
      tx_Environment t, tx_DeviceID t, tx_UserID t, show_u64 (tx_SequenceNumber t),
      tx_Operation t, tx_EntityID t, tx_PayloadHash t, tx_AuthorityID t,
      show_u64 (tx_AuthorityEpoch t), RFC3339Nano (tx_CapturedAt t), tx_SignatureAlgorithm t, tx_KeyID t]"
  have "?fs t = ?fs u"
  proof (rule join_inject)
    show "length (?fs t) = length (?fs u)" by simp
    show "\<forall>f \<in> set (?fs t). CHR ''|'' \<notin> set f" using assms(1) by (simp add: signed_fields_def)
    show "\<forall>f \<in> set (?fs u). CHR ''|'' \<notin> set f" using assms(1) by (simp add: signed_fields_def)
    show "join ''|'' (?fs t) = join ''|'' (?fs u)" using assms(2) by (simp only: canonicalTransaction_def)
  qed
  then show ?thesis by (simp add: signed_fields_def show_u64_inject)
qed

subsection \<open>A concrete tablet\<close>

definition demo_call :: sync_call where
  "demo_call = \<lparr>call_at = 6, call_secret_rank = (\<lambda>_. 0), call_held_rank = (\<lambda>_ _. 0)\<rparr>"

lemma demo_call_at [simp]: "call_at demo_call = 6"
  by (simp add: demo_call_def)

definition demo_tx :: "string \<Rightarrow> uint64 \<Rightarrow> Transaction" where
  "demo_tx i n = SignTransaction demo_crypto
     ((NewTransaction demo_crypto 6 i ''t'' ''d1'' ''u'' n ''op'' ''x'')
        \<lparr>tx_OrganizationID := ''o'', tx_EntityID := ''e''\<rparr>) ''s'' ''default''"

definition demo_session :: sync_session where
  "demo_session = \<lparr>sn_available = True, sn_organization = [], sn_rls = False, sn_admits = (\<lambda>_. True)\<rparr>"

definition demo_sync_store :: SyncStore where
  "demo_sync_store = \<lparr>ss_registry = [], ss_authorities = [],
     ss_device_state = [\<lparr>ds_TenantID = ''t'', ds_DeviceID = ''d1'', ds_OrganizationID = ''o'',
       ds_LastAcceptedSequence = 0, ds_UpdatedAt = 0\<rparr>], ss_receipts = [], ss_held = []\<rparr>"

definition demo_processor :: Processor where
  "demo_processor = the (NewProcessor [(''default'', ''s'')])"

lemma demo_processor_fields [simp]:
  "pr_secrets demo_processor = [(''default'', ''s'')]" "pr_held demo_processor = []"
  "pr_devices demo_processor = (\<lambda>_. None)" "pr_lastSequence demo_processor = (\<lambda>_. None)"
  "pr_transactions demo_processor = (\<lambda>_. None)" "pr_preAcceptancePolicy demo_processor = None"
  by (simp_all add: demo_processor_def NewProcessor_def)

lemma demo_tx_fields [simp]:
  "tx_TransactionID (demo_tx i n) = i" "tx_TenantID (demo_tx i n) = ''t''"
  "tx_OrganizationID (demo_tx i n) = ''o''" "tx_DeviceID (demo_tx i n) = ''d1''"
  "tx_UserID (demo_tx i n) = ''u''" "tx_SequenceNumber (demo_tx i n) = n"
  "tx_Operation (demo_tx i n) = ''op''" "tx_EntityID (demo_tx i n) = ''e''"
  "tx_PayloadHash (demo_tx i n) = HashPayload demo_crypto ''x''" "tx_Payload (demo_tx i n) = ''x''"
  "tx_SignatureAlgorithm (demo_tx i n) = legacyHMACSHA256" "tx_KeyID (demo_tx i n) = ''default''"
  "tx_CapturedAt (demo_tx i n) = 6"
  by (simp_all add: demo_tx_def SignTransaction_def NewTransaction_def Let_def)

lemma demo_tx_signature:
  "tx_Signature (demo_tx i n) = signTransaction demo_crypto (demo_tx i n) ''s''"
  by (simp add: demo_tx_def SignTransaction_def Let_def signTransaction_def canonicalTransaction_def)

lemma demo_hash_not_Nil [simp]: "HashPayload demo_crypto ''x'' \<noteq> []"
  by (simp add: HashPayload_def demo_crypto_def hex_encode_def)

lemma demo_marshal [simp]: "marshal_ok (Transaction_json (demo_tx i n))"
  by (simp add: Transaction_json_def time_marshalable_def)

lemma demo_admitted:
  assumes "pr_devices p ''d1'' = Some demo_device" "pr_secrets p = [(''default'', ''s'')]"
    and "\<not> blank i" "n \<noteq> 0"
  shows "admit demo_crypto demo_call (demo_tx i n) demo_package p =
    (None, p\<lparr>pr_HMACFallbackCount := wrap64 (pr_HMACFallbackCount p + 1)\<rparr>)"
proof -
  have "d_publicKey demo_device = ''k''" by (simp add: demo_device_def)
  then have key: "\<not> deviceHasRegisteredKey demo_device"
    by (simp add: deviceHasRegisteredKey_def b64_decode_def)
  have iden: "admit_identity demo_crypto p (demo_tx i n) demo_package = Inr demo_device"
    using assms by (simp add: admit_identity_def demo_device_def legacyHMACSHA256_def)
  have "ValidateAuthorityPackage demo_crypto demo_package demo_device (defaultSecret demo_call p) 6 = None"
    using IssueAuthorityPackage_Inr [OF demo_package_issued] assms(2)
    by (auto simp: ValidateAuthorityPackage_None defaultSecret_def range_by_def)
  moreover have "admit_signature demo_crypto p demo_device (demo_tx i n) = None"
    using assms(2) key by (simp add: admit_signature_def legacyHMACSHA256_def legacy_secret_def
        demo_tx_signature)
  ultimately show ?thesis
    using iden by (simp add: admit_def demo_call_def count_legacy_def legacyHMACSHA256_def key)
qed

lemmas demo_eval = gate_def expected_sequence_def memory_next_def persistReceipt_def persistHeld_def
  pg_repo_def pg_GetLastAcceptedSequence_def pg_SaveReceipt_def pg_SaveHeld_def pg_GetReceipt_def
  pg_ListHeld_def beginTenant_def beginTenantOrg_def bypass_def sees_def demo_session_def
  demo_sync_store_def ValidateReceipt_def transaction_receipt_def
  insert_receipt_def settle_receipt_def advance_device_def upsert_held_def commit_def
  receipt_under_def update_receipts_def maxSafeSequence_def accept_def memory_answer_def
  durable_answer_def time_IsZero_def sequence_gap_def

lemmas demo_drain = DrainHeld_def drain_loop.simps drain_candidate_def range_by_def held_envelopes_def
  drain_accept_def drained_result_def sync_result_def

definition demo_calls :: "sync_session sync_op list" where
  "demo_calls = [CRegister demo_device, CSubmit demo_session demo_call (demo_tx ''x2'' 2) demo_package,
     CSubmit demo_session demo_call (demo_tx ''x1'' 1) demo_package,
     CDrain demo_session demo_call ''t'' ''d1'', CRestart, CRegister demo_device,
     CSubmit demo_session demo_call (demo_tx ''x1'' 1) demo_package]"

lemma demo_device_id [simp]: "d_id demo_device = ''d1''"
  by (simp add: demo_device_def)

lemma demo_run: "\<exists>rs p' s'. sync_run demo_crypto (\<lambda>sn. pg_repo (bypass sn)) demo_calls demo_processor demo_sync_store = (rs, p', s') \<and>
   applied_ids rs = [''x1'', ''x2'']"
  by (simp add: demo_calls_def RegisterDevice_def SubmitContext_def demo_admitted demo_eval demo_drain Let_def
      NewProcessor_def already_applied_def)

text \<open>The same calls with row-level security on and no organization bound to the context.\<close>

definition demo_rls :: sync_session where
  "demo_rls = demo_session\<lparr>sn_rls := True\<rparr>"

lemma demo_run_rls: "\<exists>rs p' s'. sync_run demo_crypto pg_repo
   [CRegister demo_device, CSubmit demo_rls demo_call (demo_tx ''x1'' 1) demo_package, CRestart,
    CRegister demo_device, CSubmit demo_rls demo_call (demo_tx ''x1'' 1) demo_package]
    demo_processor demo_sync_store = (rs, p', s') \<and>
   applied_ids rs = [''x1'', ''x1'']"
  by (simp add: demo_rls_def RegisterDevice_def SubmitContext_def demo_admitted demo_eval Let_def
      NewProcessor_def already_applied_def)

subsection \<open>The accepted numbers of a device have no gap\<close>

datatype sync_write = WDevice DeviceRecord | WReceipt Receipt | WHeld HeldTransaction

fun store_write :: "sync_session \<times> sync_write \<Rightarrow> SyncStore \<Rightarrow> SyncStore" where
  "store_write (sn, WDevice d) s = keep s (pg_SaveDevice sn d s)"
| "store_write (sn, WReceipt r) s = keep s (pg_SaveReceipt sn r s)"
| "store_write (sn, WHeld h) s = keep s (pg_SaveHeld sn h s)"

text \<open>
  Clients that use a transaction id for one device and one number only: \<open>f\<close> says which. What the
  processor puts on hold has the outcome \<open>HELD\<close>.
\<close>

definition assigned :: "(string \<Rightarrow> string \<times> string \<times> uint64) \<Rightarrow> Receipt \<Rightarrow> bool" where
  "assigned f r \<longleftrightarrow> f (rc_TransactionID r) = (rc_TenantID r, rc_DeviceID r, rc_SequenceNumber r)"

fun write_assigned :: "(string \<Rightarrow> string \<times> string \<times> uint64) \<Rightarrow> sync_write \<Rightarrow> bool" where
  "write_assigned f (WDevice d) \<longleftrightarrow> True"
| "write_assigned f (WReceipt r) \<longleftrightarrow> assigned f r"
| "write_assigned f (WHeld h) \<longleftrightarrow> assigned f (ht_Receipt h) \<and> rc_Outcome (ht_Receipt h) = ''HELD''"

definition applied_numbers :: "SyncStore \<Rightarrow> string \<Rightarrow> string \<Rightarrow> nat set" where
  "applied_numbers s ten dev = (unat \<circ> rc_SequenceNumber) ` {r \<in> set (ss_receipts s).
     rc_Outcome r = ''APPLIED'' \<and> rc_TenantID r = ten \<and> rc_DeviceID r = dev}"

lemma applied_numbers_list:
  "applied_numbers s ten dev = set (map (unat \<circ> rc_SequenceNumber) (filter
     (\<lambda>r. rc_Outcome r = ''APPLIED'' \<and> rc_TenantID r = ten \<and> rc_DeviceID r = dev) (ss_receipts s)))"
  by (simp add: applied_numbers_def)

definition device_key :: "DeviceStateRow \<Rightarrow> string \<times> string" where
  "device_key x = (ds_TenantID x, ds_DeviceID x)"

definition gap_free :: "SyncStore \<Rightarrow> bool" where
  "gap_free s \<longleftrightarrow> distinct (map device_key (ss_device_state s)) \<and>
     (\<forall>x \<in> set (ss_device_state s).
        applied_numbers s (ds_TenantID x) (ds_DeviceID x) = {1..unat (ds_LastAcceptedSequence x)}) \<and>
     (\<forall>ten dev. (ten, dev) \<notin> device_key ` set (ss_device_state s) \<longrightarrow> applied_numbers s ten dev = {})"

definition ledger_ok :: "(string \<Rightarrow> string \<times> string \<times> uint64) \<Rightarrow> SyncStore \<Rightarrow> bool" where
  "ledger_ok f s \<longleftrightarrow> rows_ok s \<and> (\<forall>r \<in> set (ss_receipts s). assigned f r) \<and> gap_free s"

lemma ledger_okD:
  "ledger_ok f s \<Longrightarrow> rows_ok s" "ledger_ok f s \<Longrightarrow> r \<in> set (ss_receipts s) \<Longrightarrow> assigned f r"
  "ledger_ok f s \<Longrightarrow> gap_free s"
  by (simp_all add: ledger_ok_def)

lemma gap_free_same:
  "gap_free s \<Longrightarrow> ss_device_state s' = ss_device_state s \<Longrightarrow>
   (\<And>ten dev. applied_numbers s' ten dev = applied_numbers s ten dev) \<Longrightarrow> gap_free s'"
  by (simp add: gap_free_def)

lemma advance_device_Inr:
  assumes "advance_device sn scope r s = Inr s'"
  shows "ss_receipts s' = ss_receipts s"
    "\<exists>x \<in> set (ss_device_state s). device_key x = (rc_TenantID r, rc_DeviceID r) \<and>
       ds_LastAcceptedSequence x + 1 = rc_SequenceNumber r"
    "distinct (map device_key (ss_device_state s)) \<Longrightarrow>
     \<exists>at. ss_device_state s' = map (\<lambda>x. if device_key x = (rc_TenantID r, rc_DeviceID r)
        then x\<lparr>ds_LastAcceptedSequence := rc_SequenceNumber r, ds_UpdatedAt := at\<rparr> else x) (ss_device_state s)"
proof -
  let ?hit = "\<lambda>x. sees sn scope (ds_TenantID x) (ds_OrganizationID x) \<and> ds_TenantID x = rc_TenantID r \<and>
    ds_DeviceID x = rc_DeviceID r \<and> ds_LastAcceptedSequence x + 1 = rc_SequenceNumber r"
  have len: "length (filter ?hit (ss_device_state s)) = 1"
    and s': "ss_device_state s' = map (\<lambda>x. if ?hit x then x\<lparr>ds_LastAcceptedSequence := rc_SequenceNumber r,
      ds_UpdatedAt := rc_ReceivedAt r\<rparr> else x) (ss_device_state s)"
    using assms by (auto simp: advance_device_def Let_def split: if_splits)
  show "ss_receipts s' = ss_receipts s"
    using assms by (auto simp: advance_device_def Let_def split: if_splits)
  from len have "filter ?hit (ss_device_state s) \<noteq> []" by auto
  then obtain x where x: "x \<in> set (ss_device_state s)" "?hit x" by (auto simp: filter_empty_conv)
  then show "\<exists>x \<in> set (ss_device_state s). device_key x = (rc_TenantID r, rc_DeviceID r) \<and>
       ds_LastAcceptedSequence x + 1 = rc_SequenceNumber r"
    by (auto simp: device_key_def)
  assume d: "distinct (map device_key (ss_device_state s))"
  have "?hit y \<longleftrightarrow> device_key y = (rc_TenantID r, rc_DeviceID r)" if "y \<in> set (ss_device_state s)" for y
    using distinct_key_eq [OF d that x(1)] x(2) by (auto simp: device_key_def)
  then have "ss_device_state s' = map (\<lambda>x. if device_key x = (rc_TenantID r, rc_DeviceID r)
      then x\<lparr>ds_LastAcceptedSequence := rc_SequenceNumber r, ds_UpdatedAt := rc_ReceivedAt r\<rparr> else x) (ss_device_state s)"
    unfolding s' by (intro map_cong refl) simp
  then show "\<exists>at. ss_device_state s' = map (\<lambda>x. if device_key x = (rc_TenantID r, rc_DeviceID r)
        then x\<lparr>ds_LastAcceptedSequence := rc_SequenceNumber r, ds_UpdatedAt := at\<rparr> else x) (ss_device_state s)"
    by blast
qed

text \<open>One more accepted number, the next one of its device, leaves no gap.\<close>

lemma gap_free_advance:
  assumes gf: "gap_free s" and adv: "advance_device sn scope r s1 = Inr s'"
    and dev: "ss_device_state s1 = ss_device_state s" and nz: "rc_SequenceNumber r \<noteq> 0"
    and app: "\<And>ten dev. applied_numbers s1 ten dev = applied_numbers s ten dev \<union>
      (if (ten, dev) = (rc_TenantID r, rc_DeviceID r) then {unat (rc_SequenceNumber r)} else {})"
  shows "gap_free s'"
proof -
  let ?k = "(rc_TenantID r, rc_DeviceID r)" and ?n = "rc_SequenceNumber r"
  have dist: "distinct (map device_key (ss_device_state s))" using gf by (simp add: gap_free_def)
  note a = advance_device_Inr [OF adv, unfolded dev]
  obtain x where x: "x \<in> set (ss_device_state s)" "device_key x = ?k" "ds_LastAcceptedSequence x + 1 = ?n"
    using a(2) by blast
  obtain at where s': "ss_device_state s' = map (\<lambda>x. if device_key x = ?k
      then x\<lparr>ds_LastAcceptedSequence := ?n, ds_UpdatedAt := at\<rparr> else x) (ss_device_state s)"
    using a(3) [OF dist] by blast
  have n: "unat ?n = Suc (unat (ds_LastAcceptedSequence x))"
  proof -
    have "ds_LastAcceptedSequence x + 1 \<noteq> 0" using x(3) nz by simp
    then show ?thesis using x(3) unatSuc by (metis add.commute)
  qed
  have keys: "device_key (if device_key y = ?k then y\<lparr>ds_LastAcceptedSequence := ?n, ds_UpdatedAt := at\<rparr> else y) = device_key y" for y
    by (simp add: device_key_def)
  have map_keys: "map device_key (ss_device_state s') = map device_key (ss_device_state s)"
    unfolding s' map_map comp_def keys by (rule refl)
  have app': "applied_numbers s' = applied_numbers s1"
    using a(1) by (simp add: applied_numbers_def fun_eq_iff)
  have old: "applied_numbers s (ds_TenantID y) (ds_DeviceID y) = {1..unat (ds_LastAcceptedSequence y)}"
    if "y \<in> set (ss_device_state s)" for y
    using gf that by (simp add: gap_free_def)
  have "applied_numbers s' (ds_TenantID z) (ds_DeviceID z) = {1..unat (ds_LastAcceptedSequence z)}"
    if z: "z \<in> set (ss_device_state s')" for z
  proof -
    from z obtain y where y: "y \<in> set (ss_device_state s)"
      "z = (if device_key y = ?k then y\<lparr>ds_LastAcceptedSequence := ?n, ds_UpdatedAt := at\<rparr> else y)"
      by (auto simp: s')
    show ?thesis
    proof (cases "device_key y = ?k")
      case True
      then have "y = x" using distinct_key_eq [OF dist y(1) x(1)] x(2) by simp
      then show ?thesis
        using y True old [OF x(1)] n by (auto simp: app' app device_key_def)
    next
      case False
      then have "z = y" using y(2) by simp
      with False show ?thesis using old [OF y(1)] by (auto simp: app' app device_key_def)
    qed
  qed
  moreover have "applied_numbers s' ten dev = {}" if "(ten, dev) \<notin> device_key ` set (ss_device_state s')" for ten dev
  proof -
    have "device_key ` set (ss_device_state s') = device_key ` set (ss_device_state s)"
      using map_keys by (metis set_map)
    with that have no: "(ten, dev) \<notin> device_key ` set (ss_device_state s)" by simp
    moreover have "?k \<in> device_key ` set (ss_device_state s)" using x(1,2) by (metis imageI)
    ultimately show ?thesis using gf by (auto simp: app' app gap_free_def)
  qed
  ultimately show ?thesis using dist map_keys by (simp add: gap_free_def)
qed

lemma settle_receipt_ledger:
  assumes gf: "gap_free s" and st: "settle_receipt sn scope r s1 = Inr s'"
    and dev: "ss_device_state s1 = ss_device_state s" and nz: "rc_SequenceNumber r \<noteq> 0"
    and app: "\<And>ten dev. applied_numbers s1 ten dev = applied_numbers s ten dev \<union>
      (if rc_Outcome r = ''APPLIED'' \<and> (ten, dev) = (rc_TenantID r, rc_DeviceID r)
       then {unat (rc_SequenceNumber r)} else {})"
  shows "gap_free s'" "ss_receipts s' = ss_receipts s1"
proof -
  have "gap_free s' \<and> ss_receipts s' = ss_receipts s1"
  proof (cases "rc_Outcome r = ''APPLIED''")
    case True
    with st have adv: "advance_device sn scope r s1 = Inr s'"
      by (auto simp: settle_receipt_def commit_def split: sum.splits if_splits)
    have "gap_free s'" by (rule gap_free_advance [OF gf adv dev nz]) (use app True in simp)
    then show ?thesis using advance_device_Inr(1) [OF adv] by simp
  next
    case False
    with st have s': "s' = s1" by (auto simp: settle_receipt_def commit_def split: if_splits)
    show ?thesis unfolding s' using gap_free_same [OF gf dev] app False by simp
  qed
  then show "gap_free s'" "ss_receipts s' = ss_receipts s1" by simp_all
qed

lemma insert_receipt_Inr:
  "insert_receipt r s = Inr s1 \<Longrightarrow> s1 = s\<lparr>ss_receipts := ss_receipts s @ [r]\<rparr>"
  by (simp add: insert_receipt_def split: if_splits)

lemma insert_applied:
  "insert_receipt r s = Inr s1 \<Longrightarrow> applied_numbers s1 ten dev = applied_numbers s ten dev \<union>
     (if rc_Outcome r = ''APPLIED'' \<and> (ten, dev) = (rc_TenantID r, rc_DeviceID r)
      then {unat (rc_SequenceNumber r)} else {})"
  by (drule insert_receipt_Inr) (auto simp: applied_numbers_def)

lemma replace_applied:
  assumes "x \<in> set (ss_receipts s)" "ss_receipts s1 = map (\<lambda>y. if y = x then x' else y) (ss_receipts s)"
    and "rc_Outcome x = ''HELD''" "rc_Outcome x' = ''APPLIED''" "rc_TenantID x' = rc_TenantID x"
    "rc_DeviceID x' = rc_DeviceID x" "rc_SequenceNumber x' = rc_SequenceNumber x"
  shows "applied_numbers s1 ten dev = applied_numbers s ten dev \<union>
    (if (ten, dev) = (rc_TenantID x, rc_DeviceID x) then {unat (rc_SequenceNumber x)} else {})"
proof -
  let ?P = "\<lambda>r. rc_Outcome r = ''APPLIED'' \<and> rc_TenantID r = ten \<and> rc_DeviceID r = dev"
  have "{r \<in> set (ss_receipts s1). ?P r} = {r \<in> set (ss_receipts s). ?P r} \<union> (if ?P x' then {x'} else {})"
    using assms(1,3) unfolding assms(2) by (auto split: if_splits)
  then show ?thesis using assms(4-7) by (auto simp: applied_numbers_def)
qed

lemma SaveReceipt_ledger:
  assumes l: "ledger_ok f s" and save: "pg_SaveReceipt sn r s = Inr s'" and r: "assigned f r"
  shows "ledger_ok f s'"
  using save
proof (cases rule: SaveReceipt_cases)
  case (repeated scope x)
  then show ?thesis using l by simp
next
  case (resumed scope x)
  note x = find_SomeD [OF resumed(1)]
  then have xid: "rc_TransactionID x = rc_TransactionID r" by (simp add: receipt_under_def)
  let ?hit = "\<lambda>y. receipt_under sn scope (rc_TenantID r) (rc_TransactionID r) y \<and> rc_Outcome y = ''HELD''"
    and ?f = "\<lambda>y. y\<lparr>rc_Outcome := rc_Outcome r, rc_Reason := rc_Reason r\<rparr>"
  let ?s = "update_receipts ?hit ?f s"
  have hit: "?hit y \<longleftrightarrow> y = x" if "y \<in> set (ss_receipts s)" for y
    using distinct_key_eq [of rc_TransactionID "ss_receipts s" y x] ledger_okD(1) [OF l] that x xid resumed(3)
    by (auto simp: rows_ok_def receipt_under_def)
  have recs: "ss_receipts ?s = map (\<lambda>y. if y = x then ?f x else y) (ss_receipts s)"
    unfolding update_receipts_def using hit by (simp cong: map_cong)
  have xr: "assigned f x" using ledger_okD(2) [OF l] x by blast
  then have key: "rc_TenantID x = rc_TenantID r" "rc_DeviceID x = rc_DeviceID r"
    "rc_SequenceNumber x = rc_SequenceNumber r"
    using r xid by (simp_all add: assigned_def)
  have rows: "rows_ok ?s"
  proof -
    have "map rc_TransactionID (ss_receipts ?s) = map rc_TransactionID (ss_receipts s)"
      "map rc_SequenceNumber (ss_receipts ?s) = map rc_SequenceNumber (ss_receipts s)"
      by (auto simp: recs)
    then show ?thesis using ledger_okD(1) [OF l] by (simp only: rows_ok_maps)
  qed
  have app: "applied_numbers ?s ten dev = applied_numbers s ten dev \<union>
      (if rc_Outcome r = ''APPLIED'' \<and> (ten, dev) = (rc_TenantID r, rc_DeviceID r)
       then {unat (rc_SequenceNumber r)} else {})" for ten dev
    using replace_applied [OF conjunct1 [OF x] recs resumed(3)] resumed(4) key by simp
  have "ss_device_state ?s = ss_device_state s" by (simp add: update_receipts_def)
  note st = settle_receipt_ledger [OF ledger_okD(3) [OF l] resumed(5) this
      conjunct1 [OF SaveReceipt_valid [OF save]] app]
  have "\<forall>y \<in> set (ss_receipts s'). assigned f y"
    using ledger_okD(2) [OF l] xr by (auto simp: st(2) recs assigned_def)
  then show ?thesis using rows st by (simp add: ledger_ok_def rows_ok_def)
next
  case (inserted scope s1)
  note v = SaveReceipt_valid [OF save]
  note ins = status_insert [OF inserted(1) ledger_okD(1) [OF l] conjunct1 [OF v] conjunct2 [OF v]]
  note st = settle_receipt_ledger [OF ledger_okD(3) [OF l] inserted(2) ins(6) conjunct1 [OF v]
      insert_applied [OF inserted(1)]]
  show ?thesis using st ins(1,5) ledger_okD(2) [OF l] r by (simp add: ledger_ok_def rows_ok_def)
qed

lemma upsert_held_ledger:
  assumes "upsert_held sn scope held s = Inr s'"
  shows "ss_receipts s' = ss_receipts s" "ss_device_state s' = ss_device_state s"
  using assms by (auto simp: upsert_held_def commit_def Let_def split: option.splits if_splits)

lemma SaveHeld_ledger:
  assumes l: "ledger_ok f s" and save: "pg_SaveHeld sn h s = Inr s'" and r: "assigned f (ht_Receipt h)"
    and held: "rc_Outcome (ht_Receipt h) = ''HELD''"
  shows "ledger_ok f s'"
  using save
proof (cases rule: SaveHeld_cases)
  case (again scope x)
  let ?hit = "receipt_under sn scope (rc_TenantID (ht_Receipt h)) (rc_TransactionID (ht_Receipt h))"
    and ?f = "\<lambda>y. y\<lparr>rc_Reason := rc_Reason (ht_Receipt h), rc_ReceivedAt := rc_ReceivedAt (ht_Receipt h)\<rparr>"
  note up = upsert_held_ledger [OF again(4)]
  have recs: "ss_receipts s' = map (\<lambda>y. if ?hit y then ?f y else y) (ss_receipts s)"
    "ss_device_state s' = ss_device_state s"
    using up by (simp_all add: update_receipts_def)
  have same: "map rc_TransactionID (ss_receipts s') = map rc_TransactionID (ss_receipts s)"
    "map rc_SequenceNumber (ss_receipts s') = map rc_SequenceNumber (ss_receipts s)"
    "map (\<lambda>r. ((rc_Outcome r, rc_TenantID r, rc_DeviceID r), rc_SequenceNumber r)) (ss_receipts s') =
     map (\<lambda>r. ((rc_Outcome r, rc_TenantID r, rc_DeviceID r), rc_SequenceNumber r)) (ss_receipts s)"
    by (simp_all add: recs(1))
  have rows: "rows_ok s'" using ledger_okD(1) [OF l] by (simp only: rows_ok_maps same)
  have "applied_numbers t ten dev = unat ` snd ` {k \<in> set (map (\<lambda>r. ((rc_Outcome r, rc_TenantID r, rc_DeviceID r), rc_SequenceNumber r)) (ss_receipts t)).
      fst k = (''APPLIED'', ten, dev)}" for t ten dev
    by (force simp: applied_numbers_def)
  then have app: "applied_numbers s' ten dev = applied_numbers s ten dev" for ten dev
    by (simp only: same)
  have "\<forall>y \<in> set (ss_receipts s'). assigned f y"
    using ledger_okD(2) [OF l] by (auto simp: recs(1) assigned_def)
  with rows gap_free_same [OF ledger_okD(3) [OF l] recs(2) app] show ?thesis by (simp add: ledger_ok_def)
next
  case (first scope s1)
  note v = SaveHeld_valid [OF save]
  note ins = status_insert [OF first(1) ledger_okD(1) [OF l] conjunct1 [OF v] conjunct2 [OF v]]
  note up = upsert_held_ledger [OF first(2)]
  have app: "applied_numbers s' ten dev = applied_numbers s ten dev" for ten dev
    using insert_applied [OF first(1)] held up(1) by (simp add: applied_numbers_def)
  have "gap_free s'"
    by (rule gap_free_same [OF ledger_okD(3) [OF l] _ app]) (simp add: up(2) ins(6))
  then show ?thesis using ins(1,5) up(1) ledger_okD(2) [OF l] r by (simp add: ledger_ok_def rows_ok_def)
qed

lemma SaveDevice_ledger:
  assumes l: "ledger_ok f s" and save: "pg_SaveDevice sn d s = Inr s'"
  shows "ledger_ok f s'"
proof -
  let ?row = "\<lparr>ds_TenantID = dr_TenantID d, ds_DeviceID = dr_DeviceID d,
      ds_OrganizationID = dr_OrganizationID d, ds_LastAcceptedSequence = 0, ds_UpdatedAt = dr_UpdatedAt d\<rparr>"
  from save have recs: "ss_receipts s' = ss_receipts s"
    and dev: "ss_device_state s' = ss_device_state s \<or> ss_device_state s' = ss_device_state s @ [?row] \<and>
      device_key ?row \<notin> device_key ` set (ss_device_state s)"
    by (auto simp: pg_SaveDevice_def commit_def Let_def list_ex_iff device_key_def
        split: option.splits sum.splits if_splits)
  have app: "applied_numbers s' = applied_numbers s" using recs by (simp add: applied_numbers_def fun_eq_iff)
  have "gap_free s'"
    using dev ledger_okD(3) [OF l] by (auto simp: gap_free_def app device_key_def)
  then show ?thesis using l recs by (simp add: ledger_ok_def rows_ok_def)
qed

lemma store_write_ledger:
  assumes "ledger_ok f s" "write_assigned f w"
  shows "ledger_ok f (store_write (sn, w) s)"
proof (cases w)
  case (WDevice d)
  then show ?thesis using assms SaveDevice_ledger [of f s sn d] by (cases "pg_SaveDevice sn d s") simp_all
next
  case (WReceipt r)
  then show ?thesis using assms SaveReceipt_ledger [of f s sn r] by (cases "pg_SaveReceipt sn r s") simp_all
next
  case (WHeld h)
  then show ?thesis using assms SaveHeld_ledger [of f s sn h] by (cases "pg_SaveHeld sn h s") simp_all
qed

lemma run_ledger:
  "ledger_ok f s \<Longrightarrow> \<forall>w \<in> set ws. write_assigned f (snd w) \<Longrightarrow> ledger_ok f (run_ops store_write ws s)"
proof (induction ws arbitrary: s)
  case Nil
  then show ?case by simp
next
  case (Cons w ws)
  obtain sn x where "w = (sn, x)" by (cases w)
  with Cons store_write_ledger show ?case by simp
qed

text \<open>C17: no gap and no overtaking. When the clients use a transaction id for one device and one sequence
  number only, then after any writes, by any sessions, the applied numbers of each device are exactly
  1 up to its counter.\<close>

theorem accepted_numbers_gap_free:
  assumes "ss_receipts s = []" and "distinct (map device_key (ss_device_state s))"
    and "\<forall>x \<in> set (ss_device_state s). ds_LastAcceptedSequence x = 0"
    and "\<forall>w \<in> set ws. write_assigned f (snd w)"
    and "x \<in> set (ss_device_state (run_ops store_write ws s))"
  shows "applied_numbers (run_ops store_write ws s) (ds_TenantID x) (ds_DeviceID x) =
    {1..unat (ds_LastAcceptedSequence x)}"
proof -
  have "ledger_ok f s"
    using assms(1-3) by (simp add: ledger_ok_def rows_ok_def gap_free_def applied_numbers_def)
  from ledger_okD(3) [OF run_ledger [OF this assms(4)]] assms(5) show ?thesis by (simp add: gap_free_def)
qed

definition demo_receipt :: "string \<Rightarrow> uint64 \<Rightarrow> string \<Rightarrow> Receipt" where
  "demo_receipt i n outcome = \<lparr>rc_TransactionID = i, rc_TenantID = ''t'', rc_OrganizationID = ''o'',
     rc_DeviceID = ''d1'', rc_UserID = ''u'', rc_SequenceNumber = n, rc_Operation = ''op'',
     rc_EntityID = ''e'', rc_PayloadHash = ''78'', rc_Outcome = outcome, rc_Reason = [],
     rc_CapturedAt = 6, rc_ReceivedAt = 6\<rparr>"

lemmas write_eval = store_write.simps run_ops.simps pg_SaveReceipt_def beginTenantOrg_def demo_session_def
  demo_sync_store_def demo_receipt_def ValidateReceipt_def maxSafeSequence_def receipt_under_def sees_def
  insert_receipt_def settle_receipt_def advance_device_def commit_def update_receipts_def

lemma accepted_numbers_gap_free_witness:
  "applied_numbers (run_ops store_write
     [(demo_session, WReceipt (demo_receipt ''x1'' 1 ''APPLIED''))] demo_sync_store) ''t'' ''d1'' = {1}"
proof -
  let ?ws = "[(demo_session, WReceipt (demo_receipt ''x1'' 1 ''APPLIED''))]"
  have "\<exists>x \<in> set (ss_device_state (run_ops store_write ?ws demo_sync_store)).
      ds_TenantID x = ''t'' \<and> ds_DeviceID x = ''d1'' \<and> ds_LastAcceptedSequence x = 1"
    by (simp add: write_eval Let_def)
  then obtain x where x: "x \<in> set (ss_device_state (run_ops store_write ?ws demo_sync_store))"
    "ds_TenantID x = ''t''" "ds_DeviceID x = ''d1''" "ds_LastAcceptedSequence x = 1" by blast
  have "applied_numbers (run_ops store_write ?ws demo_sync_store) (ds_TenantID x) (ds_DeviceID x) =
      {1..unat (ds_LastAcceptedSequence x)}"
    by (rule accepted_numbers_gap_free [where f = "\<lambda>_. (''t'', ''d1'', 1)", OF _ _ _ _ x(1)])
      (simp_all add: demo_sync_store_def assigned_def demo_receipt_def)
  then show ?thesis by (simp add: x(2-4))
qed

text \<open>
  Without that discipline of the clients the guarantee fails: an id held under number 2 and
  submitted again under number 1 with the same payload is applied as 1 and stays on record as 2,
  so the log has a gap, and no other transaction can ever be accepted as number 2.
\<close>

lemma reused_id_leaves_gap:
  "\<exists>s. s = run_ops store_write [(demo_session, WReceipt (demo_receipt ''x'' 2 ''HELD'')),
      (demo_session, WReceipt (demo_receipt ''x'' 1 ''APPLIED''))] demo_sync_store \<and>
    applied_numbers s ''t'' ''d1'' = {2} \<and>
    pg_GetLastAcceptedSequence demo_session ''t'' ''d1'' s = Inr 1 \<and>
    pg_SaveReceipt demo_session (demo_receipt ''y'' 2 ''APPLIED'') s = Inl SyncConstraintViolation"
  by (simp add: write_eval Let_def applied_numbers_list pg_GetLastAcceptedSequence_def beginTenant_def
      del: set_filter set_map)

subsection \<open>The guarantees on the concrete tablet\<close>

lemma demo_store_ok: "store_ok demo_sync_store"
  by (simp add: store_ok_def rows_ok_def demo_sync_store_def)



lemma revoked_device_fails_closed_witness:
  "res_Outcome (fst (SubmitContext demo_crypto (Some (pg_repo demo_session)) demo_call (demo_tx ''x1'' 1) demo_package
     (RevokeDevice ''d1'' (RegisterDevice demo_device demo_processor)) demo_sync_store)) \<in> {Rejected, SecurityFailure}"
proof -
  note r = revoked_device_fails_closed [where cs = "[]" and repo = pg_repo and dev = "''d1''"
      and p = "RegisterDevice demo_device demo_processor" and s = demo_sync_store
      and e = demo_session and C = demo_crypto and call = demo_call and t = "demo_tx ''x1'' 1"
      and authority = demo_package, OF sync_run.simps(1) _ demo_tx_fields(4), THEN conjunct1]
  show ?thesis using r by fastforce
qed

lemma canonical_transaction_injective_witness:
  "canonicalTransaction (demo_tx ''x1'' 1) \<noteq> canonicalTransaction (demo_tx ''x2'' 1)"
proof
  assume eq: "canonicalTransaction (demo_tx ''x1'' 1) = canonicalTransaction (demo_tx ''x2'' 1)"
  have v: "tx_ProtocolVersion (demo_tx i n) = ''v1''" "tx_Environment (demo_tx i n) = ''LIVE''"
    "tx_AuthorityID (demo_tx i n) = []" for i n
    by (simp_all add: demo_tx_def SignTransaction_def NewTransaction_def Let_def)
  have "CHR ''|'' \<notin> set (HashPayload demo_crypto ''x'')"
    by (simp add: HashPayload_def demo_crypto_def hex_encode_def hex_digit_def char_of_def bit_iff_odd)
  then have "\<forall>f \<in> set (signed_fields (demo_tx ''x1'' 1)) \<union> set (signed_fields (demo_tx ''x2'' 1)). CHR ''|'' \<notin> set f"
    by (simp add: signed_fields_def v legacyHMACSHA256_def)
  from canonical_transaction_injective [OF this eq] show False by (simp add: signed_fields_def)
qed


subsection \<open>Where the guarantees stop\<close>

text \<open>Replay after a restart. The reads of the repository run under the tenant's id as organization
  unless one is bound to the context, which nothing in the server does; with row-level security in
  force they find no row, and the same transaction is applied twice: once before and once after a
  restart of the server.\<close>

theorem replay_applied_under_rls:
  "\<exists>rs p' s'. sync_run demo_crypto pg_repo
     [CRegister demo_device, CSubmit demo_rls demo_call (demo_tx ''x1'' 1) demo_package, CRestart,
      CRegister demo_device, CSubmit demo_rls demo_call (demo_tx ''x1'' 1) demo_package]
      demo_processor demo_sync_store = (rs, p', s') \<and> applied_ids rs = [''x1'', ''x1'']"
  by (rule demo_run_rls)

text \<open>The reads see nothing, whatever is on record.\<close>

lemma reads_blind_under_rls:
  assumes "sn_rls sn" "sn_organization sn = []"
    and "\<forall>r \<in> set (ss_receipts s). rc_OrganizationID r \<noteq> rc_TenantID r"
    and "\<forall>x \<in> set (ss_device_state s). ds_OrganizationID x \<noteq> ds_TenantID x"
  shows "\<exists>e. pg_GetReceipt sn t i s = Inl e" "\<exists>e. pg_GetLastAcceptedSequence sn t d s = Inl e"
proof -
  have scope_of: "beginTenant sn t = Inr scope \<Longrightarrow> scope = (t, t)" for scope
    using assms(2) by (auto simp: beginTenant_def beginTenantOrg_def split: if_splits)
  show "\<exists>e. pg_GetReceipt sn t i s = Inl e"
  proof (cases "pg_GetReceipt sn t i s")
    case (Inr r)
    then obtain scope where sc: "beginTenant sn t = Inr scope"
      "List.find (receipt_under sn scope t i) (ss_receipts s) = Some r"
      by (auto simp: pg_GetReceipt_def split: sum.splits option.splits)
    have "r \<in> set (ss_receipts s)" "sees sn (t, t) (rc_TenantID r) (rc_OrganizationID r)"
      using find_SomeD [OF sc(2)] scope_of [OF sc(1)] unfolding receipt_under_def by blast+
    then have "(t, t) = (rc_TenantID r, rc_OrganizationID r)" using assms(1) unfolding sees_def by blast
    with \<open>r \<in> set (ss_receipts s)\<close> assms(3) show ?thesis by (metis prod.inject)
  qed simp
  show "\<exists>e. pg_GetLastAcceptedSequence sn t d s = Inl e"
  proof (cases "pg_GetLastAcceptedSequence sn t d s")
    case (Inr n)
    then obtain scope x where sc: "beginTenant sn t = Inr scope"
      "List.find (\<lambda>x. sees sn scope (ds_TenantID x) (ds_OrganizationID x) \<and>
         ds_TenantID x = t \<and> ds_DeviceID x = d) (ss_device_state s) = Some x"
      by (auto simp: pg_GetLastAcceptedSequence_def split: sum.splits option.splits)
    have x: "x \<in> set (ss_device_state s)" "sees sn (t, t) (ds_TenantID x) (ds_OrganizationID x)"
      using find_SomeD [OF sc(2)] scope_of [OF sc(1)] by blast+
    then have "(t, t) = (ds_TenantID x, ds_OrganizationID x)" using assms(1) unfolding sees_def by blast
    with x(1) assms(4) show ?thesis by (metis prod.inject)
  qed simp
qed

text \<open>The drain loop does not ask the policy: a held transaction it refuses is applied all the same.\<close>

lemma drain_skips_policy:
  assumes "pr_devices p dev = Some d" "pr_held p = [(tx_TransactionID t, t)]"
    and "tx_DeviceID t = dev" "tx_SequenceNumber t = memory_next p dev"
    and "pr_preAcceptancePolicy p = Some policy" "policy t = Some e"
  shows "\<exists>p'. DrainHeld None call ten dev p s = Some ([drained_result t (memory_next p dev)], p', s)"
  using assms
  by (simp add: DrainHeld_def drain_loop.simps drain_candidate_def range_by_def Let_def persistReceipt_def
      drain_accept_def memory_next_def)

text \<open>Fields with a \<open>|\<close> are signed alike: the tenant can be moved into the id.\<close>

lemma canonical_transaction_ambiguous:
  "\<exists>t u. tx_TenantID t \<noteq> tx_TenantID u \<and> tx_TransactionID t \<noteq> tx_TransactionID u \<and>
     (\<forall>C secret. signTransaction C t secret = signTransaction C u secret)"
proof -
  let ?t = "(demo_tx ''x'' 1)\<lparr>tx_TransactionID := ''a|b'', tx_TenantID := ''c''\<rparr>"
  let ?u = "(demo_tx ''x'' 1)\<lparr>tx_TransactionID := ''a'', tx_TenantID := ''b|c''\<rparr>"
  have "canonicalTransaction ?t = canonicalTransaction ?u" by (simp add: canonicalTransaction_def)
  then have "\<forall>C secret. signTransaction C ?t secret = signTransaction C ?u secret"
    by (simp add: signTransaction_def)
  moreover have "tx_TenantID ?t \<noteq> tx_TenantID ?u \<and> tx_TransactionID ?t \<noteq> tx_TransactionID ?u" by simp
  ultimately show ?thesis by blast
qed

end
