(* ===== verification/Transparency.thy ===== *)
theory Transparency
  imports Go_Prelude
begin

text \<open>
  The transparency log of \<open>pkg/verification/transparency.go\<close>: an append-only Merkle tree in the
  style of RFC 6962, its inclusion and consistency proofs and their two verifiers.

  \<^item> A \<open>[32]byte\<close> hash is a list of bytes; that its length is 32 is the hypothesis \<open>sha256_sized\<close> on
    the hash function and an explicit premise on hashes that come from outside. Sizes and indices
    are \<open>int64\<close>; the code guards them before every subtraction, so nothing wraps around.
  \<^item> The provers recurse over the tree from the root, the verifiers run a loop from the leaf over the
    bits of index and size. The lemmas \<open>incl_full\<close>, \<open>incl_edge\<close>, \<open>cons_full\<close> and \<open>cons_edge\<close> say what
    the loops do on the proof of a subtree: \<open>full\<close> for a perfect subtree inside the tree, \<open>edge\<close> for
    the ragged one at its right border.
  \<^item> The soundness of the verifiers rests on SHA-256 having no collision. As a function with 32 bytes
    of output has collisions somewhere, that is assumed only of the finitely many strings that the two
    runs in question hash (\<open>incl_inputs\<close>, \<open>cons_inputs\<close>).
\<close>

type_synonym hash = bytes

datatype log_error = ErrIndexOutOfBounds | ErrInvalidTreeSize

definition HashLeaf :: "crypto \<Rightarrow> bytes \<Rightarrow> hash" where
  "HashLeaf C data = sha256 C (CHR 0x00 # data)"

definition HashChildren :: "crypto \<Rightarrow> hash \<Rightarrow> hash \<Rightarrow> hash" where
  "HashChildren C left right = sha256 C (CHR 0x01 # left @ right)"

subsection \<open>Splitting a tree\<close>

fun bit_len :: "nat \<Rightarrow> nat" where
  "bit_len n = (if n = 0 then 0 else Suc (bit_len (n div 2)))"

declare bit_len.simps [simp del]

text \<open>\<open>bits.LeadingZeros64\<close> on the bits of a number that is not negative.\<close>

definition LeadingZeros64 :: "int \<Rightarrow> nat" where
  "LeadingZeros64 x = 64 - bit_len (nat x)"

definition largestPowerOf2LessThan :: "int64 \<Rightarrow> int64" where
  "largestPowerOf2LessThan n = (if n \<le> 1 then 0 else 2 ^ (63 - LeadingZeros64 (n - 1)))"

lemma bit_len_bounds: "0 < n \<Longrightarrow> 2 ^ (bit_len n - 1) \<le> n \<and> n < 2 ^ bit_len n"
proof (induction n rule: bit_len.induct)
  case (1 n)
  show ?case
  proof (cases "n = 1")
    case True
    then show ?thesis by (simp add: bit_len.simps)
  next
    case False
    with "1.prems" have pos: "0 < n div 2" by (simp add: div_greater_zero_iff)
    then have IH: "2 ^ (bit_len (n div 2) - 1) \<le> n div 2" "n div 2 < 2 ^ bit_len (n div 2)"
      using "1.IH" "1.prems" by auto
    have b: "bit_len n = Suc (bit_len (n div 2))" "0 < bit_len (n div 2)"
      using "1.prems" pos by (simp_all add: bit_len.simps [of n] bit_len.simps [of "n div 2"])
    then have "(2::nat) ^ bit_len (n div 2) = 2 * 2 ^ (bit_len (n div 2) - 1)"
      by (simp add: power_eq_if)
    with IH b(1) show ?thesis by (simp, linarith)
  qed
qed

text \<open>The split is a power of two, below the size and at least half of it, and so both parts of a tree
  are smaller than the tree.\<close>

lemma split_bounds:
  assumes "1 < n"
  shows "0 < largestPowerOf2LessThan n" "largestPowerOf2LessThan n < n"
proof -
  let ?m = "nat (n - 1)"
  have m: "0 < ?m" using assms by simp
  have "(2::nat) ^ (63 - (64 - bit_len ?m)) \<le> 2 ^ (bit_len ?m - 1)"
    by (rule power_increasing) auto
  also have "\<dots> \<le> ?m" using bit_len_bounds [OF m] by simp
  finally have "int (2 ^ (63 - (64 - bit_len ?m))) \<le> n - 1" using assms by linarith
  then show "largestPowerOf2LessThan n < n"
    using assms by (simp add: largestPowerOf2LessThan_def LeadingZeros64_def)
  show "0 < largestPowerOf2LessThan n"
    using assms by (simp add: largestPowerOf2LessThan_def)
qed

lemma split_power:
  assumes "1 < n" "n \<le> max_int64"
  obtains j where "largestPowerOf2LessThan n = 2 ^ j" "2 ^ j < n" "n \<le> 2 ^ Suc j"
proof -
  let ?m = "nat (n - 1)" let ?b = "bit_len ?m"
  have m: "0 < ?m" using assms by simp
  have b0: "0 < ?b" using m by (simp add: bit_len.simps)
  have low: "int (2 ^ (?b - 1)) \<le> n - 1" and up: "n - 1 < int (2 ^ ?b)"
    using bit_len_bounds [OF m] assms(1) by linarith+
  have "?b \<le> 63"
  proof (rule ccontr)
    assume "\<not> ?thesis"
    then have "(2::int) ^ 63 \<le> 2 ^ (?b - 1)" by (intro power_increasing) auto
    also have "\<dots> \<le> n - 1" using low by simp
    finally show False using assms(2) by (simp add: max_int64_def)
  qed
  then have e: "63 - (64 - ?b) = ?b - 1" by simp
  show thesis
    by (rule that [of "?b - 1"])
       (use assms b0 low up in \<open>simp_all add: largestPowerOf2LessThan_def LeadingZeros64_def e del: power_Suc\<close>)
qed

lemma split_unique:
  assumes "2 ^ j < n" "n \<le> 2 ^ Suc j" "n \<le> max_int64"
  shows "largestPowerOf2LessThan n = 2 ^ j"
proof -
  have "1 < n" using assms(1) one_le_power [of "2::int" j] by linarith
  then obtain i where i: "largestPowerOf2LessThan n = 2 ^ i" "2 ^ i < n" "n \<le> 2 ^ Suc i"
    using split_power assms(3) by blast
  have "i < Suc j" "j < Suc i"
    using assms i by (meson le_less_trans less_le_trans one_less_numeral_iff power_less_imp_less_exp semiring_norm(76))+
  then show ?thesis using i by simp
qed

subsection \<open>Roots and proofs\<close>

lemma split_list:
  assumes "Suc 0 < length hs"
  shows "nat (largestPowerOf2LessThan (int (length hs))) < length hs"
    "min (length hs) (nat (largestPowerOf2LessThan (int (length hs)))) < length hs"
    "length hs - nat (largestPowerOf2LessThan (int (length hs))) < length hs"
  using split_bounds [of "int (length hs)"] assms by linarith+

lemma length_cases: "hs \<noteq> [] \<Longrightarrow> length hs \<noteq> Suc 0 \<Longrightarrow> Suc 0 < length hs"
  by (cases hs) auto

function subTreeHash :: "crypto \<Rightarrow> hash list \<Rightarrow> hash" where
  "subTreeHash C hashes =
     (let n = int (length hashes) in
      if n = 0 then sha256 C []
      else if n = 1 then hashes ! 0
      else let k = nat (largestPowerOf2LessThan n);
               left = subTreeHash C (take k hashes);
               right = subTreeHash C (drop k hashes)
           in HashChildren C left right)"
  by pat_completeness auto
termination
  by (relation "measure (\<lambda>(C, hs). length hs)") (auto simp: split_list dest: length_cases)

function computeInclusionProof :: "crypto \<Rightarrow> hash list \<Rightarrow> int64 \<Rightarrow> hash list" where
  "computeInclusionProof C hashes m =
     (let n = int (length hashes) in
      if n \<le> 1 then []
      else let k = largestPowerOf2LessThan n in
        if m < k then computeInclusionProof C (take (nat k) hashes) m @
          [subTreeHash C (drop (nat k) hashes)]
        else computeInclusionProof C (drop (nat k) hashes) (m - k) @
          [subTreeHash C (take (nat k) hashes)])"
  by pat_completeness auto
termination
  by (relation "measure (\<lambda>(C, hs, m). length hs)") (auto simp: split_list not_le)

text \<open>The Go function would not return for a size \<open>m\<close> that is not between 1 and the number of hashes
  (\<open>largestPowerOf2LessThan\<close> of 0 and 1 is 0); \<open>ConsistencyProof\<close> never asks for one and the recursion
  stays between the bounds. The model ends there.\<close>

function computeSubProof :: "crypto \<Rightarrow> hash list \<Rightarrow> int64 \<Rightarrow> bool \<Rightarrow> hash list" where
  "computeSubProof C hashes m b =
     (let n = int (length hashes) in
      if m = n then (if \<not> b then [subTreeHash C hashes] else [])
      else let k = largestPowerOf2LessThan n in
        if n \<le> 1 then []
        else if m \<le> k then computeSubProof C (take (nat k) hashes) m b @
          [subTreeHash C (drop (nat k) hashes)]
        else computeSubProof C (drop (nat k) hashes) (m - k) False @
          [subTreeHash C (take (nat k) hashes)])"
  by pat_completeness auto
termination
  by (relation "measure (\<lambda>(C, hs, m, b). length hs)") (auto simp: split_list not_le)

declare subTreeHash.simps [simp del] computeInclusionProof.simps [simp del] computeSubProof.simps [simp del]

lemma int_le_power: "int n \<le> 2 ^ j \<longleftrightarrow> n \<le> 2 ^ j"
  by (metis of_nat_le_iff of_nat_numeral of_nat_power)

lemma power_le_int: "2 ^ j \<le> int n \<longleftrightarrow> 2 ^ j \<le> n"
  by (metis of_nat_le_iff of_nat_numeral of_nat_power)

text \<open>A tree with more than one leaf is a perfect left part and a right part that is not larger.\<close>

lemma tree_cases:
  assumes "Suc 0 < length hs" "int (length hs) \<le> max_int64"
  obtains j L R where "hs = L @ R" "length L = 2 ^ j" "R \<noteq> []" "length R \<le> 2 ^ j"
proof -
  obtain j where j: "2 ^ j < int (length hs)" "int (length hs) \<le> 2 ^ Suc j"
    using split_power [of "int (length hs)"] assms by auto
  then have n: "2 ^ j < length hs" "length hs \<le> 2 ^ Suc j"
    by (metis of_nat_less_iff of_nat_numeral of_nat_power, metis of_nat_le_iff of_nat_numeral of_nat_power)
  show thesis
    by (rule that [of "take (2 ^ j) hs" "drop (2 ^ j) hs" j]) (use n in auto)
qed

lemma split_append:
  assumes "length L = 2 ^ j" "R \<noteq> []" "length R \<le> 2 ^ j" "int (length (L @ R)) \<le> max_int64"
  shows "largestPowerOf2LessThan (int (length (L @ R))) = 2 ^ j" "1 < int (length (L @ R))"
proof -
  have len: "int (length (L @ R)) = 2 ^ j + int (length R)" "0 < length R" using assms(1,2) by auto
  moreover have "int (length R) \<le> 2 ^ j" using assms(3) by (simp add: int_le_power)
  ultimately show "largestPowerOf2LessThan (int (length (L @ R))) = 2 ^ j"
    using assms(4) by (intro split_unique) auto
  show "1 < int (length (L @ R))" using len one_le_power [of "2::int" j] by linarith
qed

lemma tree_append:
  assumes "length L = 2 ^ j" "R \<noteq> []" "length R \<le> 2 ^ j" "int (length (L @ R)) \<le> max_int64"
  shows "subTreeHash C (L @ R) = HashChildren C (subTreeHash C L) (subTreeHash C R)"
    "computeInclusionProof C (L @ R) m =
       (if m < 2 ^ j then computeInclusionProof C L m @ [subTreeHash C R]
        else computeInclusionProof C R (m - 2 ^ j) @ [subTreeHash C L])"
    "m \<noteq> int (length (L @ R)) \<Longrightarrow> computeSubProof C (L @ R) m b =
       (if m \<le> 2 ^ j then computeSubProof C L m b @ [subTreeHash C R]
        else computeSubProof C R (m - 2 ^ j) False @ [subTreeHash C L])"
  using split_append [OF assms] assms(1)
  by (simp_all add: subTreeHash.simps [of C "L @ R"] computeInclusionProof.simps [of C "L @ R"]
      computeSubProof.simps [of C "L @ R"] Let_def nat_power_eq)

lemma tree_single: "subTreeHash C [x] = x" "computeInclusionProof C [x] m = []"
  by (simp_all add: subTreeHash.simps [of C "[x]"] computeInclusionProof.simps [of C "[x]"])

lemma length_single: "length hs = Suc 0 \<Longrightarrow> hs = [hs ! 0]"
  by (cases hs) auto

subsection \<open>The verifier of inclusion\<close>

text \<open>The inner loop of both verifiers drops the zero bits at the end.\<close>

function shift_even :: "int \<Rightarrow> int \<Rightarrow> int \<times> int" where
  "shift_even fn sn = (if fn mod 2 = 0 \<and> fn \<noteq> 0 then shift_even (fn div 2) (sn div 2) else (fn, sn))"
  by pat_completeness auto
termination
  by (relation "measure (\<lambda>(fn, sn). nat \<bar>fn\<bar>)") auto

declare shift_even.simps [simp del]

text \<open>The loop over the proof: \<open>None\<close> when the code returns \<open>false\<close> before the last comparison.\<close>

fun incl_loop :: "crypto \<Rightarrow> int64 \<Rightarrow> int64 \<Rightarrow> hash \<Rightarrow> hash list \<Rightarrow> hash option" where
  "incl_loop C fn sn r [] = (if sn = 0 then Some r else None)"
| "incl_loop C fn sn r (p # ps) =
     (if sn = 0 then None
      else if fn mod 2 = 1 \<or> fn = sn then
        (let (fn', sn') = shift_even fn sn in incl_loop C (fn' div 2) (sn' div 2) (HashChildren C p r) ps)
      else incl_loop C (fn div 2) (sn div 2) (HashChildren C r p) ps)"

definition VerifyInclusion :: "crypto \<Rightarrow> bytes \<Rightarrow> int64 \<Rightarrow> int64 \<Rightarrow> hash \<Rightarrow> hash list \<Rightarrow> bool" where
  "VerifyInclusion C leaf leafIndex treeSize root proof =
     (if treeSize < 1 \<or> leafIndex < 0 \<or> treeSize \<le> leafIndex then False
      else let leafHash = HashLeaf C leaf in
        if treeSize = 1 then proof = [] \<and> leafHash = root
        else incl_loop C leafIndex (treeSize - 1) leafHash proof = Some root)"

text \<open>At the right border index and size agree, and how many zero bits they end in does not matter.\<close>

lemma shift_even_power: "F \<noteq> 0 \<Longrightarrow> shift_even (F * 2 ^ i) (F * 2 ^ i) = shift_even F F"
proof (induction i)
  case (Suc i)
  have "shift_even (F * 2 ^ Suc i) (F * 2 ^ Suc i) = shift_even (F * 2 ^ i) (F * 2 ^ i)"
    using Suc.prems by (subst shift_even.simps) simp
  with Suc show ?case by simp
qed simp

lemma incl_border: "incl_loop C (F * 2 ^ i) (F * 2 ^ i) r Q = incl_loop C F F r Q"
  by (cases Q; cases "F = 0") (simp_all add: shift_even_power)

lemma shift_even_odd: "fn mod 2 = 1 \<Longrightarrow> shift_even fn sn = (fn, sn)"
  by (subst shift_even.simps) simp

declare incl_loop.simps(2) [simp del]

text \<open>One round of the loop that joins a left node or a right node.\<close>

lemma incl_join_left:
  "sn \<noteq> 0 \<Longrightarrow> incl_loop C (2 * F + 1) sn r (p # Q) = incl_loop C F (sn div 2) (HashChildren C p r) Q"
  by (simp add: shift_even_odd incl_loop.simps(2))

lemma incl_join_right:
  "sn \<noteq> 0 \<Longrightarrow> sn \<noteq> 2 * F \<Longrightarrow> incl_loop C (2 * F) sn r (p # Q) = incl_loop C F (sn div 2) (HashChildren C r p) Q"
  by (simp add: incl_loop.simps(2))

lemma div_half:
  assumes "0 \<le> (x :: int)" "x < 2 * k" "0 < k"
  shows "x div k < 2" "0 \<le> x div k"
proof -
  show "x div k < 2"
  proof (rule ccontr)
    assume "\<not> ?thesis"
    then have "2 * k \<le> x div k * k" using assms(3) by (intro mult_right_mono) auto
    moreover have "x div k * k \<le> x" using assms(3) by (simp add: minus_mod_eq_div_mult [symmetric])
    ultimately show False using assms(2) by simp
  qed
  show "0 \<le> x div k" using assms by (simp add: pos_imp_zdiv_nonneg_iff)
qed

lemma incl_full:
  assumes "length hs = 2 ^ h" "0 \<le> m" "m < 2 ^ h" "0 \<le> F" "F < S" "0 \<le> x" "x < 2 ^ h"
    "int (length hs) \<le> max_int64"
  shows "incl_loop C (F * 2 ^ h + m) (S * 2 ^ h + x) (hs ! nat m) (computeInclusionProof C hs m @ Q) =
    incl_loop C F S (subTreeHash C hs) Q"
  using assms
proof (induction h arbitrary: hs m F S x Q)
  case 0
  then show ?case using length_single [of hs] by (metis One_nat_def add.right_neutral append_Nil int_one_le_iff_zero_less mult.right_neutral nat_0 not_less_iff_gr_or_eq order_le_less power_0 tree_single zless_iff_Suc_zadd)
next
  case (Suc h)
  let ?L = "take (2 ^ h) hs" and ?R = "drop (2 ^ h) hs"
  have len: "length ?L = 2 ^ h" "length ?R = 2 ^ h" "?R \<noteq> []" "hs = ?L @ ?R"
    using Suc.prems(1) by auto
  note t = tree_append [where C = C, OF len(1,3), unfolded append_take_drop_id]
  have max: "int (length ?L) \<le> max_int64" "int (length ?R) \<le> max_int64" using Suc.prems(8) by auto
  let ?y = "x mod 2 ^ h" and ?S = "2 * S + x div 2 ^ h"
  have x: "x div 2 ^ h < 2" "0 \<le> x div 2 ^ h"
    using Suc.prems(6,7) by (auto intro!: div_half)
  have sn: "S * 2 ^ Suc h + x = ?S * 2 ^ h + ?y" by (simp add: algebra_simps)
  have S2: "?S div 2 = S" "?S \<noteq> 0" using x Suc.prems(4,5) by linarith+
  show ?case
  proof (cases "m < 2 ^ h")
    case True
    have "incl_loop C (2 * F * 2 ^ h + m) (?S * 2 ^ h + ?y) (?L ! nat m)
        (computeInclusionProof C ?L m @ subTreeHash C ?R # Q) =
      incl_loop C (2 * F) ?S (subTreeHash C ?L) (subTreeHash C ?R # Q)"
      by (rule Suc.IH) (use Suc.prems True len x max in auto)
    moreover have "?L ! nat m = hs ! nat m" using True Suc.prems(2) by (simp add: nat_less_iff)
    moreover have "?S \<noteq> 2 * F" using x Suc.prems(5) by linarith
    moreover have eq: "F * 2 ^ Suc h + m = 2 * F * 2 ^ h + m" by simp
    ultimately show ?thesis
      using True t Suc.prems(8) len S2 unfolding sn eq by (simp add: incl_join_right)
  next
    case False
    have "incl_loop C ((2 * F + 1) * 2 ^ h + (m - 2 ^ h)) (?S * 2 ^ h + ?y) (?R ! nat (m - 2 ^ h))
        (computeInclusionProof C ?R (m - 2 ^ h) @ subTreeHash C ?L # Q) =
      incl_loop C (2 * F + 1) ?S (subTreeHash C ?R) (subTreeHash C ?L # Q)"
      by (rule Suc.IH) (use Suc.prems False len x max in auto)
    moreover have "?R ! nat (m - 2 ^ h) = hs ! nat m"
      using False Suc.prems(1) by (simp add: nth_drop nat_diff_distrib nat_power_eq)
    moreover have "(2 * F + 1) * 2 ^ h + (m - 2 ^ h) = F * 2 ^ Suc h + m" by (simp add: algebra_simps)
    ultimately show ?thesis
      using False t Suc.prems(8) len S2 unfolding sn by (simp add: incl_join_left)
  qed
qed

lemma incl_edge:
  assumes "hs \<noteq> []" "length hs \<le> 2 ^ h" "0 \<le> m" "m < int (length hs)" "0 \<le> F"
    "int (length hs) \<le> max_int64"
  shows "incl_loop C (F * 2 ^ h + m) (F * 2 ^ h + int (length hs) - 1) (hs ! nat m)
      (computeInclusionProof C hs m @ Q) = incl_loop C F F (subTreeHash C hs) Q"
  using assms
proof (induction "length hs" arbitrary: hs h m F Q rule: less_induct)
  case less
  show ?case
  proof (cases "length hs = Suc 0")
    case True
    then obtain x where "hs = [x]" by (metis length_single)
    moreover have "m = 0" using True less.prems(3,4) by simp
    ultimately show ?thesis by (simp add: tree_single incl_border)
  next
    case False
    then obtain j L R where t: "hs = L @ R" "length L = 2 ^ j" "R \<noteq> []" "length R \<le> 2 ^ j"
      using tree_cases [of hs] length_cases less.prems by blast
    note eqs = tree_append [where C = C, OF t(2-4) less.prems(6) [unfolded t(1)], folded t(1)]
    have R: "int (length hs) = 2 ^ j + int (length R)" "0 < length R" "int (length R) \<le> 2 ^ j"
      using t by (auto simp: int_le_power)
    have max: "int (length R) \<le> max_int64"
      using less.prems(6) R(1) zero_le_power [of "2::int" j] by linarith
    have R1: "int (length R) - 1 < 2 ^ j" "0 \<le> int (length R) - 1" using R by linarith+
    have "(2::nat) ^ j < 2 ^ h" using t less.prems(2) R by (metis add.commute le_trans length_append less_add_same_cancel2 not_le)
    then obtain i where h: "h = i + Suc j"
      using power_less_imp_less_exp [of "2::nat" j h] by (auto dest: less_imp_Suc_add)
    let ?F = "F * 2 ^ i"
    have pow: "F * 2 ^ h = 2 * ?F * 2 ^ j" by (simp add: h power_add)
    show ?thesis
    proof (cases "m < 2 ^ j")
      case True
      have "incl_loop C (2 * ?F * 2 ^ j + m) ((2 * ?F + 1) * 2 ^ j + (int (length R) - 1)) (L ! nat m)
          (computeInclusionProof C L m @ subTreeHash C R # Q) =
        incl_loop C (2 * ?F) (2 * ?F + 1) (subTreeHash C L) (subTreeHash C R # Q)"
        by (rule incl_full) (use less.prems True t R R1 in auto)
      moreover have "L ! nat m = hs ! nat m"
        using True less.prems(3) t by (simp add: nth_append nat_less_iff)
      moreover have "F * 2 ^ h + int (length hs) - 1 = (2 * ?F + 1) * 2 ^ j + (int (length R) - 1)"
        using R(1) unfolding pow by (simp add: distrib_right)
      moreover have "2 * ?F + 1 \<noteq> 0" using less.prems(5) by (metis add.commute even_add even_mult_iff even_numeral odd_one even_zero)
      ultimately show ?thesis
        using True eqs(1,2) by (simp add: pow incl_join_right incl_border add_diff_eq)
    next
      case False
      have "incl_loop C ((2 * ?F + 1) * 2 ^ j + (m - 2 ^ j)) ((2 * ?F + 1) * 2 ^ j + int (length R) - 1)
          (R ! nat (m - 2 ^ j)) (computeInclusionProof C R (m - 2 ^ j) @ subTreeHash C L # Q) =
        incl_loop C (2 * ?F + 1) (2 * ?F + 1) (subTreeHash C R) (subTreeHash C L # Q)"
        by (rule less.hyps) (use less.prems False t R max in auto)
      moreover have "R ! nat (m - 2 ^ j) = hs ! nat m"
        using False t less.prems(3) by (simp add: nth_append nat_less_iff nat_diff_distrib nat_power_eq)
      moreover have "2 * ?F + 1 \<noteq> 0" using less.prems(5) by (metis add.commute even_add even_mult_iff even_numeral odd_one even_zero)
      ultimately have "incl_loop C ((2 * ?F + 1) * 2 ^ j + (m - 2 ^ j)) ((2 * ?F + 1) * 2 ^ j + int (length R) - 1)
          (hs ! nat m) (computeInclusionProof C hs m @ Q) = incl_loop C F F (subTreeHash C hs) Q"
        using False eqs(1,2) by (simp add: incl_join_left incl_border)
      moreover have eq: "F * 2 ^ h + int (length hs) - 1 = (2 * ?F + 1) * 2 ^ j + int (length R) - 1"
        "F * 2 ^ h + m = (2 * ?F + 1) * 2 ^ j + (m - 2 ^ j)"
        using R(1) unfolding pow by (simp_all add: distrib_right)
      ultimately show ?thesis unfolding eq by blast
    qed
  qed
qed

text \<open>Two runs with the same index and size end with the same hash only if they hashed the same
  strings, as long as these do not collide.\<close>

fun incl_inputs :: "crypto \<Rightarrow> int64 \<Rightarrow> int64 \<Rightarrow> hash \<Rightarrow> hash list \<Rightarrow> bytes set" where
  "incl_inputs C fn sn r [] = {}"
| "incl_inputs C fn sn r (p # ps) =
     (if fn mod 2 = 1 \<or> fn = sn then
        (let (fn', sn') = shift_even fn sn in
         insert (CHR 0x01 # p @ r) (incl_inputs C (fn' div 2) (sn' div 2) (HashChildren C p r) ps))
      else insert (CHR 0x01 # r @ p) (incl_inputs C (fn div 2) (sn div 2) (HashChildren C r p) ps))"

definition sha256_sized :: "crypto \<Rightarrow> bool" where
  "sha256_sized C \<longleftrightarrow> (\<forall>x. length (sha256 C x) = 32)"

abbreviation sized :: "hash list \<Rightarrow> bool" where "sized hs \<equiv> \<forall>p \<in> set hs. length p = 32"

lemma sized_HashChildren [simp]: "sha256_sized C \<Longrightarrow> length (HashChildren C l r) = 32"
  "sha256_sized C \<Longrightarrow> length (HashLeaf C d) = 32"
  by (simp_all add: sha256_sized_def HashChildren_def HashLeaf_def)

lemma HashChildren_inject:
  assumes "HashChildren C l r = HashChildren C l' r'" "inj_on (sha256 C) A"
    "CHR 0x01 # l @ r \<in> A" "CHR 0x01 # l' @ r' \<in> A" "length l = length l'"
  shows "l = l' \<and> r = r'"
  using inj_onD [OF assms(2) assms(1) [unfolded HashChildren_def] assms(3,4)] assms(5) by simp

lemma incl_runs_agree:
  assumes "incl_loop C fn sn r P = Some R" "incl_loop C fn sn r' P' = Some R"
    "inj_on (sha256 C) A" "incl_inputs C fn sn r P \<union> incl_inputs C fn sn r' P' \<subseteq> A"
    "sha256_sized C" "sized P" "sized P'" "length r = 32" "length r' = 32"
  shows "r = r' \<and> P = P'"
  using assms
proof (induction P arbitrary: fn sn r r' P')
  case Nil
  then show ?case by (cases P') (auto simp: incl_loop.simps(2) split: if_splits)
next
  case (Cons p P)
  obtain q Q where P': "P' = q # Q"
    using Cons.prems(1,2) by (cases P') (auto simp: incl_loop.simps(2) split: if_splits)
  have sn: "sn \<noteq> 0" using Cons.prems(1) by (auto simp: incl_loop.simps(2))
  obtain fn' sn' where s: "shift_even fn sn = (fn', sn')" by (cases "shift_even fn sn")
  show ?case
  proof (cases "fn mod 2 = 1 \<or> fn = sn")
    case True
    have "HashChildren C p r = HashChildren C q r' \<and> P = Q"
      by (rule Cons.IH [of "fn' div 2" "sn' div 2"])
         (use Cons.prems True sn s in \<open>auto simp: P' incl_loop.simps(2)\<close>)
    with HashChildren_inject [of C p r q r' A] True s Cons.prems show ?thesis by (auto simp: P')
  next
    case False
    have "HashChildren C r p = HashChildren C r' q \<and> P = Q"
      by (rule Cons.IH [of "fn div 2" "sn div 2"])
         (use Cons.prems False sn in \<open>auto simp: P' incl_loop.simps(2)\<close>)
    with HashChildren_inject [of C r p r' q A] False Cons.prems show ?thesis by (auto simp: P')
  qed
qed

subsection \<open>The verifier of consistency\<close>

definition isPowerOf2 :: "int64 \<Rightarrow> bool" where
  "isPowerOf2 n \<longleftrightarrow> 0 < n \<and> n AND (n - 1) = 0"

text \<open>Go's remainder of a negative number is never 1, so the loop over \<open>fn%2 == 1\<close> ends there.\<close>

function shift_odd :: "int \<Rightarrow> int \<Rightarrow> int \<times> int" where
  "shift_odd fn sn = (if 0 < fn \<and> fn mod 2 = 1 then shift_odd (fn div 2) (sn div 2) else (fn, sn))"
  by pat_completeness auto
termination
  by (relation "measure (\<lambda>(fn, sn). nat fn)") auto

declare shift_odd.simps [simp del]

text \<open>The loop over the proof from \<open>proofIndex\<close> on: \<open>None\<close> when \<open>sn\<close> and the proof do not end together.\<close>

fun cons_loop :: "crypto \<Rightarrow> int64 \<Rightarrow> int64 \<Rightarrow> hash \<Rightarrow> hash \<Rightarrow> hash list \<Rightarrow> (hash \<times> hash) option" where
  "cons_loop C fn sn oldHash newHash [] = (if sn = 0 then Some (oldHash, newHash) else None)"
| "cons_loop C fn sn oldHash newHash (p # ps) =
     (if \<not> 0 < sn then None
      else if fn mod 2 = 1 \<or> fn = sn then
        (let (fn', sn') = shift_even fn sn in
         cons_loop C (fn' div 2) (sn' div 2) (HashChildren C p oldHash) (HashChildren C p newHash) ps)
      else cons_loop C (fn div 2) (sn div 2) oldHash (HashChildren C newHash p) ps)"

definition VerifyConsistency ::
    "crypto \<Rightarrow> int64 \<Rightarrow> int64 \<Rightarrow> hash \<Rightarrow> hash \<Rightarrow> hash list \<Rightarrow> bool" where
  "VerifyConsistency C firstSize secondSize firstRoot secondRoot proof =
     (if firstSize = secondSize then proof = [] \<and> firstRoot = secondRoot
      else if firstSize < 1 \<or> secondSize < firstSize then False
      else if proof = [] then False
      else let start = (if isPowerOf2 firstSize then firstRoot else hd proof);
               rest = (if isPowerOf2 firstSize then proof else tl proof);
               (fn, sn) = shift_odd (firstSize - 1) (secondSize - 1)
           in cons_loop C fn sn start start rest = Some (firstRoot, secondRoot))"

declare cons_loop.simps(2) [simp del]

lemma cons_border: "0 \<le> F \<Longrightarrow> cons_loop C (F * 2 ^ i) (F * 2 ^ i) r s Q = cons_loop C F F r s Q"
  by (cases Q; cases "F = 0") (simp_all add: cons_loop.simps(2) shift_even_power zero_less_mult_iff)

lemma cons_join_left:
  "0 < sn \<Longrightarrow> cons_loop C (2 * F + 1) sn r s (p # Q) =
     cons_loop C F (sn div 2) (HashChildren C p r) (HashChildren C p s) Q"
  by (simp add: shift_even_odd cons_loop.simps(2))

lemma cons_join_right:
  "0 < sn \<Longrightarrow> sn \<noteq> 2 * F \<Longrightarrow> cons_loop C (2 * F) sn r s (p # Q) =
     cons_loop C F (sn div 2) r (HashChildren C s p) Q"
  by (simp add: cons_loop.simps(2))

text \<open>Dropping the one bits of an index at the end of a perfect subtree leads to the subtree.\<close>

lemma shift_odd_even: "F mod 2 = 0 \<Longrightarrow> shift_odd F S = (F, S)"
  by (subst shift_odd.simps) simp

lemma shift_odd_odd: "0 \<le> n \<Longrightarrow> shift_odd (2 * n + 1) sn = shift_odd n (sn div 2)"
  by (subst shift_odd.simps) simp

lemma shift_odd_full:
  assumes "0 \<le> F" "0 \<le> x" "x < 2 ^ h"
  shows "shift_odd (F * 2 ^ h + 2 ^ h - 1) (S * 2 ^ h + x) = shift_odd F S"
  using assms
proof (induction h arbitrary: x)
  case 0
  then have "x = 0" by simp
  then show ?case by simp
next
  case (Suc h)
  let ?n = "F * 2 ^ h + 2 ^ h - 1"
  have n: "F * 2 ^ Suc h + 2 ^ Suc h - 1 = 2 * ?n + 1" by simp
  have "0 \<le> F * 2 ^ h" "1 \<le> (2::int) ^ h" using Suc.prems(1) by simp_all
  then have "0 \<le> ?n" by (simp add: add_nonneg_pos)
  have d: "(x + S * 2 ^ h * 2) div 2 = S * 2 ^ h + x div 2" by (rule div_mult_self1) simp
  have "S * 2 ^ Suc h + x = x + S * 2 ^ h * 2" by simp
  then have "shift_odd (2 * ?n + 1) (S * 2 ^ Suc h + x) = shift_odd ?n (S * 2 ^ h + x div 2)"
    using shift_odd_odd [OF \<open>0 \<le> ?n\<close>] d by metis
  moreover have "0 \<le> x div 2" "x div 2 < 2 ^ h" using Suc.prems(2,3) by simp_all
  ultimately show ?case unfolding n using Suc.IH [OF Suc.prems(1)] by simp
qed

definition cons_run :: "crypto \<Rightarrow> int64 \<Rightarrow> int64 \<Rightarrow> hash \<Rightarrow> hash list \<Rightarrow> (hash \<times> hash) option" where
  "cons_run C fn sn start Q = (case shift_odd fn sn of (fn, sn) \<Rightarrow> cons_loop C fn sn start start Q)"

lemma computeSubProof_refl: "computeSubProof C hs (int (length hs)) b = (if b then [] else [subTreeHash C hs])"
  by (simp add: computeSubProof.simps [of C hs])

lemma computeSubProof_ne:
  assumes "1 \<le> m" "m \<le> int (length hs)" "int (length hs) \<le> max_int64"
  shows "computeSubProof C hs m False \<noteq> []"
proof (cases "m = int (length hs)")
  case True
  then show ?thesis by (simp add: computeSubProof_refl)
next
  case False
  then have "Suc 0 < length hs" using assms by linarith
  then obtain j L R where t: "hs = L @ R" "length L = 2 ^ j" "R \<noteq> []" "length R \<le> 2 ^ j"
    using tree_cases [of hs] assms(3) by blast
  from tree_append(3) [OF t(2-4)] False assms show ?thesis by (simp add: t)
qed

lemma take_tree:
  assumes "length L = 2 ^ j" "2 ^ j < m" "m \<le> int (length (L @ R))" "length R \<le> 2 ^ j"
    "int (length (L @ R)) \<le> max_int64"
  shows "subTreeHash C (take (nat m) (L @ R)) =
    HashChildren C (subTreeHash C L) (subTreeHash C (take (nat (m - 2 ^ j)) R))"
proof -
  have m: "nat (m - 2 ^ j) = nat m - length L"
    using assms(1,2) by (simp add: nat_diff_distrib nat_power_eq)
  have "length L < nat m" using assms(1,2) by (simp add: zless_nat_eq_int_zless)
  then have "take (nat m) (L @ R) = L @ take (nat (m - 2 ^ j)) R" "0 < nat m - length L"
    unfolding m by simp_all
  moreover have "R \<noteq> []" using assms(1-3) by auto
  ultimately have "take (nat m) (L @ R) = L @ take (nat (m - 2 ^ j)) R" "take (nat (m - 2 ^ j)) R \<noteq> []"
    by (auto simp: m)
  moreover have "length (take (nat (m - 2 ^ j)) R) \<le> 2 ^ j"
    "int (length (L @ take (nat (m - 2 ^ j)) R)) \<le> max_int64"
    using assms(4,5) by auto
  ultimately show ?thesis using tree_append(1) [OF assms(1)] by metis
qed

lemma cons_full:
  assumes "length hs = 2 ^ h" "1 \<le> m" "m \<le> 2 ^ h" "0 \<le> F" "F < S" "0 \<le> x" "x < 2 ^ h"
    "int (length hs) \<le> max_int64" "m < 2 ^ h \<or> F mod 2 = 0" "computeSubProof C hs m False = st # G"
  shows "cons_run C (F * 2 ^ h + m - 1) (S * 2 ^ h + x) st (G @ Q) =
    cons_loop C F S (subTreeHash C (take (nat m) hs)) (subTreeHash C hs) Q"
  using assms
proof (induction h arbitrary: hs m F S x st G Q)
  case 0
  then have m: "m = int (length hs)" and x: "x = 0" "m = 1" by simp_all
  from computeSubProof_refl [of C hs False] 0 have "st = subTreeHash C hs" "G = []" unfolding m by auto
  with 0 x show ?case by (auto simp: cons_run_def shift_odd_even)
next
  case (Suc h)
  show ?case
  proof (cases "m = 2 ^ Suc h")
    case True
    then have "m = int (length hs)" using Suc.prems(1) by simp
    moreover have "shift_odd (F * 2 ^ Suc h + 2 ^ Suc h - 1) (S * 2 ^ Suc h + x) = (F, S)"
      using Suc.prems(4,6,7,9) True by (subst shift_odd_full) (simp_all add: shift_odd_even)
    moreover have "st = subTreeHash C hs" "G = []"
      using Suc.prems(10) computeSubProof_refl [of C hs False] unfolding \<open>m = int (length hs)\<close> by auto
    moreover have "take (nat m) hs = hs" unfolding \<open>m = int (length hs)\<close> by simp
    moreover have "F * 2 ^ Suc h + m - 1 = F * 2 ^ Suc h + 2 ^ Suc h - 1" using True by simp
    ultimately show ?thesis by (simp only: cons_run_def append_Nil prod.case)
  next
    case False
    let ?L = "take (2 ^ h) hs" and ?R = "drop (2 ^ h) hs"
    have len: "length ?L = 2 ^ h" "length ?R = 2 ^ h" "?R \<noteq> []" "length ?R \<le> 2 ^ h" "hs = ?L @ ?R"
      using Suc.prems(1) by auto
    note t = tree_append [where C = C, OF len(1,3,4), unfolded append_take_drop_id, OF Suc.prems(8)]
    note tt = take_tree [where C = C and m = m, OF len(1) _ _ len(4), unfolded append_take_drop_id]
    have max: "int (length ?L) \<le> max_int64" "int (length ?R) \<le> max_int64" using Suc.prems(8) by auto
    have m: "m < 2 ^ Suc h" "m \<noteq> int (length hs)" using False Suc.prems(1,3) by simp_all
    let ?y = "x mod 2 ^ h" and ?S = "2 * S + x div 2 ^ h"
    have x: "x div 2 ^ h < 2" "0 \<le> x div 2 ^ h"
      using Suc.prems(6,7) by (auto intro!: div_half)
    have sn: "S * 2 ^ Suc h + x = ?S * 2 ^ h + ?y" by (simp add: algebra_simps)
    have S2: "?S div 2 = S" "0 < ?S" using x Suc.prems(4,5) by linarith+
    show ?thesis
    proof (cases "m \<le> 2 ^ h")
      case True
      with t(3) [OF m(2), of False] Suc.prems(10)
      have G: "computeSubProof C ?L m False @ [subTreeHash C ?R] = st # G" by simp
      moreover have "computeSubProof C ?L m False \<noteq> []"
        by (rule computeSubProof_ne) (use True Suc.prems(2) len max in auto)
      ultimately obtain G0 where G0: "computeSubProof C ?L m False = st # G0" "G = G0 @ [subTreeHash C ?R]"
        by (cases "computeSubProof C ?L m False") auto
      have "cons_run C (2 * F * 2 ^ h + m - 1) (?S * 2 ^ h + ?y) st (G0 @ subTreeHash C ?R # Q) =
        cons_loop C (2 * F) ?S (subTreeHash C (take (nat m) ?L)) (subTreeHash C ?L) (subTreeHash C ?R # Q)"
        by (rule Suc.IH) (use Suc.prems True len x max G0 in auto)
      moreover have "take (nat m) ?L = take (nat m) hs"
        using True by (simp add: min_def nat_le_iff nat_power_eq)
      moreover have "?S \<noteq> 2 * F" using x Suc.prems(5) by linarith
      moreover have eq: "F * 2 ^ Suc h + m - 1 = 2 * F * 2 ^ h + m - 1" by simp
      ultimately show ?thesis
        using t(1) S2 unfolding sn eq G0(2) by (simp add: cons_join_right)
    next
      case False
      with t(3) [OF m(2), of False] Suc.prems(10)
      have G: "computeSubProof C ?R (m - 2 ^ h) False @ [subTreeHash C ?L] = st # G" by simp
      moreover have "computeSubProof C ?R (m - 2 ^ h) False \<noteq> []"
        by (rule computeSubProof_ne) (use False m len max in auto)
      ultimately obtain G0 where G0: "computeSubProof C ?R (m - 2 ^ h) False = st # G0" "G = G0 @ [subTreeHash C ?L]"
        by (cases "computeSubProof C ?R (m - 2 ^ h) False") auto
      have "cons_run C ((2 * F + 1) * 2 ^ h + (m - 2 ^ h) - 1) (?S * 2 ^ h + ?y) st (G0 @ subTreeHash C ?L # Q) =
        cons_loop C (2 * F + 1) ?S (subTreeHash C (take (nat (m - 2 ^ h)) ?R)) (subTreeHash C ?R) (subTreeHash C ?L # Q)"
        by (rule Suc.IH) (use Suc.prems False m len x max G0 in auto)
      moreover have eq: "(2 * F + 1) * 2 ^ h + (m - 2 ^ h) - 1 = F * 2 ^ Suc h + m - 1" by (simp add: algebra_simps)
      ultimately show ?thesis
        using t(1) tt False m len(2) Suc.prems(1,3,8) S2 unfolding sn eq G0(2) by (simp add: cons_join_left)
    qed
  qed
qed

lemma cons_edge:
  assumes "length hs \<le> 2 ^ h" "1 \<le> m" "m < int (length hs)" "0 \<le> F" "int (length hs) \<le> max_int64"
    "computeSubProof C hs m False = st # G"
  shows "cons_run C (F * 2 ^ h + m - 1) (F * 2 ^ h + int (length hs) - 1) st (G @ Q) =
    cons_loop C F F (subTreeHash C (take (nat m) hs)) (subTreeHash C hs) Q"
  using assms
proof (induction "length hs" arbitrary: hs h m F st G Q rule: less_induct)
  case less
  then have "Suc 0 < length hs" by linarith
  then obtain j L R where t: "hs = L @ R" "length L = 2 ^ j" "R \<noteq> []" "length R \<le> 2 ^ j"
    using tree_cases [of hs] less.prems(5) by blast
  note eqs = tree_append [where C = C, OF t(2-4) less.prems(5) [unfolded t(1)], folded t(1)]
  have R: "int (length hs) = 2 ^ j + int (length R)" "0 < length R" "int (length R) \<le> 2 ^ j"
    using t by (auto simp: int_le_power)
  have max: "int (length R) \<le> max_int64" "int (length L) \<le> max_int64"
    using less.prems(5) R(1) t(2) zero_le_power [of "2::int" j] by (simp_all only: of_nat_power of_nat_numeral, linarith+)
  have R1: "int (length R) - 1 < 2 ^ j" "0 \<le> int (length R) - 1" using R by linarith+
  have "(2::nat) ^ j < 2 ^ h" using t less.prems(1) R by (metis add.commute le_trans length_append less_add_same_cancel2 not_le)
  then obtain i where h: "h = i + Suc j"
    using power_less_imp_less_exp [of "2::nat" j h] by (auto dest: less_imp_Suc_add)
  let ?F = "F * 2 ^ i"
  have pow: "F * 2 ^ h = 2 * ?F * 2 ^ j" by (simp add: h power_add)
  have F: "0 \<le> ?F" using less.prems(4) by simp
  have m: "m \<noteq> int (length hs)" using less.prems(3) by simp
  show ?case
  proof (cases "m \<le> 2 ^ j")
    case True
    with eqs(3) [OF m, of False] less.prems(6)
    have G: "computeSubProof C L m False @ [subTreeHash C R] = st # G" by simp
    moreover have "computeSubProof C L m False \<noteq> []"
      by (rule computeSubProof_ne) (use True less.prems(2) t max in auto)
    ultimately obtain G0 where G0: "computeSubProof C L m False = st # G0" "G = G0 @ [subTreeHash C R]"
      by (cases "computeSubProof C L m False") auto
    have "cons_run C (2 * ?F * 2 ^ j + m - 1) ((2 * ?F + 1) * 2 ^ j + (int (length R) - 1)) st (G0 @ subTreeHash C R # Q) =
      cons_loop C (2 * ?F) (2 * ?F + 1) (subTreeHash C (take (nat m) L)) (subTreeHash C L) (subTreeHash C R # Q)"
      by (rule cons_full) (use less.prems True t R1 max G0 in auto)
    moreover have "take (nat m) L = take (nat m) hs"
      using True t by (simp add: nat_le_iff)
    moreover have "(2 * ?F + 1) * 2 ^ j + (int (length R) - 1) = F * 2 ^ h + int (length hs) - 1"
      using R(1) unfolding pow by (simp add: distrib_right)
    ultimately show ?thesis
      using eqs(1) F unfolding G0(2) pow
      by (simp add: cons_join_right cons_border [OF less.prems(4)] del: mult_numeral_left_semiring_numeral)
  next
    case False
    with eqs(3) [OF m, of False] less.prems(6)
    have G: "computeSubProof C R (m - 2 ^ j) False @ [subTreeHash C L] = st # G" by simp
    moreover have "computeSubProof C R (m - 2 ^ j) False \<noteq> []"
      by (rule computeSubProof_ne) (use False less.prems(3) R max in auto)
    ultimately obtain G0 where G0: "computeSubProof C R (m - 2 ^ j) False = st # G0" "G = G0 @ [subTreeHash C L]"
      by (cases "computeSubProof C R (m - 2 ^ j) False") auto
    have "cons_run C ((2 * ?F + 1) * 2 ^ j + (m - 2 ^ j) - 1) ((2 * ?F + 1) * 2 ^ j + int (length R) - 1) st
        (G0 @ subTreeHash C L # Q) =
      cons_loop C (2 * ?F + 1) (2 * ?F + 1) (subTreeHash C (take (nat (m - 2 ^ j)) R)) (subTreeHash C R) (subTreeHash C L # Q)"
      by (rule less.hyps [OF _ _ _ _ _ max(1) G0(1)]) (use less.prems(3,4) False t R F in auto)
    moreover have "(2 * ?F + 1) * 2 ^ j + int (length R) - 1 = F * 2 ^ h + int (length hs) - 1"
      "(2 * ?F + 1) * 2 ^ j + (m - 2 ^ j) - 1 = F * 2 ^ h + m - 1"
      using R(1) unfolding pow by (simp_all add: distrib_right)
    moreover have "subTreeHash C (take (nat m) hs) =
        HashChildren C (subTreeHash C L) (subTreeHash C (take (nat (m - 2 ^ j)) R))"
      unfolding t(1) by (rule take_tree) (use False less.prems(3,5) t in auto)
    ultimately show ?thesis
      using eqs(1) F unfolding G0(2) by (simp add: cons_join_left cons_border [OF less.prems(4)])
  qed
qed

lemma isPowerOf2_iff: "isPowerOf2 m \<longleftrightarrow> (\<exists>i. m = 2 ^ i)"
proof -
  have "0 < n \<Longrightarrow> int n AND (int n - 1) = 0 \<longleftrightarrow> (\<exists>i. n = 2 ^ i)" for n :: nat
  proof (induction n rule: less_induct)
    case (less n)
    show ?case
    proof (cases "even n")
      case True
      then obtain q where q: "n = 2 * q" by (elim evenE)
      have "(2 * int q - 1) div 2 = int q - 1" by linarith
      then have "int n AND (int n - 1) = 2 * (int q AND (int q - 1))"
        by (subst and_rec) (simp add: q)
      moreover have "(\<exists>i. n = 2 ^ i) \<longleftrightarrow> (\<exists>i. q = 2 ^ i)"
        using True q less.prems by (metis even_power mult_left_cancel nat_mult_1_right odd_one power_0 power_Suc power_eq_0_iff zero_neq_numeral not0_implies_Suc)
      ultimately show ?thesis using less q by simp
    next
      case False
      then obtain q where q: "n = 2 * q + 1" by (elim oddE)
      have "int n AND (int n - 1) = 2 * int q"
        by (subst and_rec) (simp add: q)
      moreover have "(\<exists>i. n = 2 ^ i) \<longleftrightarrow> q = 0"
      proof
        assume "\<exists>i. n = 2 ^ i"
        then obtain i where "n = 2 ^ i" by blast
        with q show "q = 0" by (cases i) (simp_all, presburger)
      qed (use q in \<open>auto intro: exI [of _ 0]\<close>)
      ultimately show ?thesis by simp
    qed
  qed
  note nat = this
  show ?thesis
  proof (cases "0 < m")
    case True
    then have "nat m = 2 ^ i \<longleftrightarrow> m = 2 ^ i" for i by (simp add: nat_eq_iff)
    with nat [of "nat m"] True show ?thesis by (simp add: isPowerOf2_def)
  next
    case False
    moreover have "(0::int) < 2 ^ i" for i by simp
    ultimately show ?thesis unfolding isPowerOf2_def by blast
  qed
qed

lemma sub_power:
  assumes "2 ^ i \<le> int (length hs)" "int (length hs) \<le> max_int64"
  shows "computeSubProof C hs (2 ^ i) False = subTreeHash C (take (2 ^ i) hs) # computeSubProof C hs (2 ^ i) True"
  using assms
proof (induction "length hs" arbitrary: hs rule: less_induct)
  case less
  show ?case
  proof (cases "2 ^ i = int (length hs)")
    case True
    then have "take (2 ^ i) hs = hs" by (metis int_le_power order_refl take_all)
    with True show ?thesis using computeSubProof_refl [of C hs] by metis
  next
    case False
    then have "Suc 0 < length hs" using less.prems(1) one_le_power [of "2::int" i] by linarith
    then obtain j L R where t: "hs = L @ R" "length L = 2 ^ j" "R \<noteq> []" "length R \<le> 2 ^ j"
      using tree_cases [of hs] less.prems(2) by blast
    note eqs = tree_append(3) [where C = C, OF t(2-4) less.prems(2) [unfolded t(1)], folded t(1), OF False]
    have "2 ^ i < length hs" using False less.prems(1) power_le_int [of i "length hs"]
      by (metis le_neq_implies_less of_nat_numeral of_nat_power)
    moreover have "length hs \<le> 2 ^ Suc j" using t by simp
    ultimately have "(2::nat) ^ i < 2 ^ Suc j" by simp
    then have "i \<le> j" using power_less_imp_less_exp [of "2::nat" i "Suc j"] by simp
    then have ij: "(2::nat) ^ i \<le> 2 ^ j" "(2::int) ^ i \<le> 2 ^ j" by simp_all
    have "computeSubProof C L (2 ^ i) False = subTreeHash C (take (2 ^ i) L) # computeSubProof C L (2 ^ i) True"
      by (rule less.hyps) (use less.prems(2) ij t in auto)
    then show ?thesis using eqs ij t by simp
  qed
qed

lemma sub_no_power:
  assumes "\<nexists>i. m = 2 ^ i" "1 \<le> m" "m < int (length hs)" "int (length hs) \<le> max_int64"
  shows "computeSubProof C hs m True = computeSubProof C hs m False"
  using assms
proof (induction "length hs" arbitrary: hs rule: less_induct)
  case less
  then have "Suc 0 < length hs" by linarith
  then obtain j L R where t: "hs = L @ R" "length L = 2 ^ j" "R \<noteq> []" "length R \<le> 2 ^ j"
    using tree_cases [of hs] less.prems(4) by blast
  have m: "m \<noteq> int (length hs)" "m \<noteq> 2 ^ j" using less.prems(1,3) by auto
  note eqs = tree_append(3) [where C = C, OF t(2-4) less.prems(4) [unfolded t(1)], folded t(1), OF m(1)]
  have "computeSubProof C L m True = computeSubProof C L m False" if "m \<le> 2 ^ j"
  proof (rule less.hyps)
    show "m < int (length L)" using that m(2) t(2) by simp
  qed (use less.prems t in auto)
  then show ?case using eqs by simp
qed

fun cons_inputs :: "crypto \<Rightarrow> int64 \<Rightarrow> int64 \<Rightarrow> hash \<Rightarrow> hash list \<Rightarrow> bytes set" where
  "cons_inputs C fn sn newHash [] = {}"
| "cons_inputs C fn sn newHash (p # ps) =
     (if fn mod 2 = 1 \<or> fn = sn then
        (let (fn', sn') = shift_even fn sn in
         insert (CHR 0x01 # p @ newHash) (cons_inputs C (fn' div 2) (sn' div 2) (HashChildren C p newHash) ps))
      else insert (CHR 0x01 # newHash @ p) (cons_inputs C (fn div 2) (sn div 2) (HashChildren C newHash p) ps))"

lemma cons_runs_agree:
  assumes "cons_loop C fn sn s r P = Some (o1, R)" "cons_loop C fn sn s' r' P' = Some (o2, R)"
    "inj_on (sha256 C) A" "cons_inputs C fn sn r P \<union> cons_inputs C fn sn r' P' \<subseteq> A"
    "sha256_sized C" "sized P" "sized P'" "length r = 32" "length r' = 32"
  shows "r = r' \<and> P = P'"
  using assms
proof (induction P arbitrary: fn sn r r' s s' P')
  case Nil
  then show ?case by (cases P') (auto simp: cons_loop.simps(2) split: if_splits)
next
  case (Cons p P)
  obtain q Q where P': "P' = q # Q"
    using Cons.prems(1,2) by (cases P') (auto simp: cons_loop.simps(2) split: if_splits)
  have sn: "0 < sn" using Cons.prems(1) by (auto simp: cons_loop.simps(2) split: if_splits)
  obtain fn' sn' where v: "shift_even fn sn = (fn', sn')" by (cases "shift_even fn sn")
  show ?case
  proof (cases "fn mod 2 = 1 \<or> fn = sn")
    case True
    have "HashChildren C p r = HashChildren C q r' \<and> P = Q"
      by (rule Cons.IH [of "fn' div 2" "sn' div 2" "HashChildren C p s" _ "HashChildren C q s'"])
         (use Cons.prems True sn v in \<open>auto simp: P' cons_loop.simps(2)\<close>)
    with HashChildren_inject [of C p r q r' A] True v Cons.prems show ?thesis by (auto simp: P')
  next
    case False
    have "HashChildren C r p = HashChildren C r' q \<and> P = Q"
      by (rule Cons.IH [of "fn div 2" "sn div 2" s _ s'])
         (use Cons.prems False sn in \<open>auto simp: P' cons_loop.simps(2)\<close>)
    with HashChildren_inject [of C r p r' q A] False Cons.prems show ?thesis by (auto simp: P')
  qed
qed

subsection \<open>The log\<close>

record TransparencyLog =
  tl_leaves :: "bytes list"
  tl_hashes :: "hash list"

definition NewTransparencyLog :: TransparencyLog where
  "NewTransparencyLog = \<lparr>tl_leaves = [], tl_hashes = []\<rparr>"

definition log_Size :: "TransparencyLog \<Rightarrow> int64" where
  "log_Size log = int (length (tl_leaves log))"

definition AppendEntry :: "crypto \<Rightarrow> bytes \<Rightarrow> TransparencyLog \<Rightarrow> TransparencyLog \<times> int64 \<times> hash" where
  "AppendEntry C data log =
     (let leafHash = HashLeaf C data;
          log' = log\<lparr>tl_leaves := tl_leaves log @ [data], tl_hashes := tl_hashes log @ [leafHash]\<rparr>;
          root = subTreeHash C (tl_hashes log')
      in (log', int (length (tl_leaves log')) - 1, root))"

definition RootHash :: "crypto \<Rightarrow> TransparencyLog \<Rightarrow> hash" where
  "RootHash C log = subTreeHash C (tl_hashes log)"

definition RootHashAt :: "crypto \<Rightarrow> TransparencyLog \<Rightarrow> int64 \<Rightarrow> log_error + hash" where
  "RootHashAt C log treeSize =
     (if treeSize < 0 \<or> int (length (tl_hashes log)) < treeSize then Inl ErrInvalidTreeSize
      else Inr (subTreeHash C (take (nat treeSize) (tl_hashes log))))"

definition InclusionProof :: "crypto \<Rightarrow> TransparencyLog \<Rightarrow> int64 \<Rightarrow> int64 \<Rightarrow> log_error + hash list" where
  "InclusionProof C log leafIndex treeSize =
     (if treeSize < 1 \<or> int (length (tl_hashes log)) < treeSize then Inl ErrInvalidTreeSize
      else if leafIndex < 0 \<or> treeSize \<le> leafIndex then Inl ErrIndexOutOfBounds
      else Inr (computeInclusionProof C (take (nat treeSize) (tl_hashes log)) leafIndex))"

definition ConsistencyProof :: "crypto \<Rightarrow> TransparencyLog \<Rightarrow> int64 \<Rightarrow> int64 \<Rightarrow> log_error + hash list" where
  "ConsistencyProof C log firstSize secondSize =
     (if firstSize < 1 \<or> secondSize < firstSize \<or> int (length (tl_hashes log)) < secondSize
      then Inl ErrInvalidTreeSize
      else if firstSize = secondSize then Inr []
      else Inr (computeSubProof C (take (nat secondSize) (tl_hashes log)) firstSize True))"

text \<open>A log is what a sequence of entries makes of the empty one.\<close>

definition log_of :: "crypto \<Rightarrow> bytes list \<Rightarrow> TransparencyLog" where
  "log_of C ds = fold (\<lambda>d log. fst (AppendEntry C d log)) ds NewTransparencyLog"

lemma log_of_rows: "tl_leaves (log_of C ds) = ds" "tl_hashes (log_of C ds) = map (HashLeaf C) ds"
proof -
  have "tl_leaves (fold (\<lambda>d log. fst (AppendEntry C d log)) ds log) = tl_leaves log @ ds \<and>
    tl_hashes (fold (\<lambda>d log. fst (AppendEntry C d log)) ds log) = tl_hashes log @ map (HashLeaf C) ds" for log
    by (induction ds arbitrary: log) (simp_all add: AppendEntry_def Let_def)
  from this [of NewTransparencyLog] show "tl_leaves (log_of C ds) = ds"
    "tl_hashes (log_of C ds) = map (HashLeaf C) ds"
    by (simp_all add: log_of_def NewTransparencyLog_def)
qed

lemma proof_sized:
  assumes "sha256_sized C" "sized hs"
  shows "length (subTreeHash C hs) = 32" "sized (computeInclusionProof C hs m)" "sized (computeSubProof C hs k b)"
proof -
  have root: "length (subTreeHash C hs) = 32" if "sized hs" for hs
    by (subst subTreeHash.simps)
      (use assms(1) that in \<open>cases hs; simp add: Let_def; simp add: sha256_sized_def\<close>)
  then show "length (subTreeHash C hs) = 32" using assms(2) by blast
  have sub: "sized (take n hs)" "sized (drop n hs)" if "sized hs" for n and hs :: "hash list"
    using that by (auto dest: in_set_takeD in_set_dropD)
  have join: "sized (ps @ [subTreeHash C q])" if "sized ps" "sized q" for ps q
    using that(1) root [OF that(2)] by auto
  show "sized (computeInclusionProof C hs m)"
    using assms(2)
  proof (induction "length hs" arbitrary: hs m rule: less_induct)
    case less
    let ?k = "largestPowerOf2LessThan (int (length hs))"
    show ?case
    proof (cases "Suc 0 < length hs")
      case True
      have "sized (computeInclusionProof C (take (nat ?k) hs) m)"
        "sized (computeInclusionProof C (drop (nat ?k) hs) (m - ?k))"
        by (rule less.hyps, use split_list [OF True] in simp, rule sub [OF less.prems])+
      then show ?thesis
        using join sub [OF less.prems] True
        unfolding computeInclusionProof.simps [of C hs m] Let_def by presburger
    qed (auto simp: computeInclusionProof.simps [of C hs m])
  qed
  show "sized (computeSubProof C hs k b)"
    using assms(2)
  proof (induction "length hs" arbitrary: hs k b rule: less_induct)
    case less
    let ?k = "largestPowerOf2LessThan (int (length hs))"
    show ?case
    proof (cases "Suc 0 < length hs")
      case True
      have "sized (computeSubProof C (take (nat ?k) hs) k b)"
        "sized (computeSubProof C (drop (nat ?k) hs) (k - ?k) False)"
        by (rule less.hyps, use split_list [OF True] in simp, rule sub [OF less.prems])+
      moreover have "sized [subTreeHash C hs]" "sized []" using root [OF less.prems] by simp_all
      ultimately show ?thesis
        using join sub [OF less.prems] True
        unfolding computeSubProof.simps [of C hs k b] Let_def by presburger
    qed (use root [OF less.prems] in \<open>auto simp: computeSubProof.simps [of C hs k b] Let_def split: if_splits\<close>)
  qed
qed

subsection \<open>What an accepted proof means\<close>

text \<open>The strings that a run of a verifier hashes.\<close>

definition inclusion_inputs :: "crypto \<Rightarrow> bytes \<Rightarrow> int64 \<Rightarrow> int64 \<Rightarrow> hash list \<Rightarrow> bytes set" where
  "inclusion_inputs C leaf i n P =
     insert (CHR 0x00 # leaf) (incl_inputs C i (n - 1) (HashLeaf C leaf) P)"

definition consistency_inputs :: "crypto \<Rightarrow> int64 \<Rightarrow> int64 \<Rightarrow> hash \<Rightarrow> hash list \<Rightarrow> bytes set" where
  "consistency_inputs C m n R P =
     (case shift_odd (m - 1) (n - 1) of (fn, sn) \<Rightarrow>
        if isPowerOf2 m then cons_inputs C fn sn R P else cons_inputs C fn sn (hd P) (tl P))"

lemma HashLeaf_inject:
  assumes "HashLeaf C d = HashLeaf C d'" "inj_on (sha256 C) A" "CHR 0x00 # d \<in> A" "CHR 0x00 # d' \<in> A"
  shows "d = d'"
  using inj_onD [OF assms(2) assms(1) [unfolded HashLeaf_def] assms(3,4)] by simp

lemma incl_complete:
  assumes "0 \<le> i" "i < int (length hs)" "int (length hs) \<le> max_int64"
  shows "incl_loop C i (int (length hs) - 1) (hs ! nat i) (computeInclusionProof C hs i) = Some (subTreeHash C hs)"
proof -
  have "length hs \<le> 2 ^ length hs" by simp
  moreover have "hs \<noteq> []" using assms(1,2) by auto
  ultimately show ?thesis using incl_edge [of hs "length hs" i 0 C "[]"] assms by simp
qed

lemma VerifyInclusion_loop:
  assumes "0 \<le> i" "i < n"
  shows "VerifyInclusion C leaf i n R P \<longleftrightarrow> incl_loop C i (n - 1) (HashLeaf C leaf) P = Some R"
proof (cases "n = 1")
  case True
  with assms show ?thesis by (cases P) (auto simp: VerifyInclusion_def incl_loop.simps(2))
qed (use assms in \<open>simp add: VerifyInclusion_def\<close>)

lemma inclusion_exact:
  fixes C ds i n defines "hs \<equiv> map (HashLeaf C) (take (nat n) ds)"
  assumes "0 \<le> i" "i < n" "n \<le> int (length ds)" "int (length ds) \<le> max_int64" "sha256_sized C" "sized P"
    and "inj_on (sha256 C) (inclusion_inputs C leaf i n P \<union>
      inclusion_inputs C (ds ! nat i) i n (computeInclusionProof C hs i))"
  shows "VerifyInclusion C leaf i n (subTreeHash C hs) P \<longleftrightarrow>
    leaf = ds ! nat i \<and> P = computeInclusionProof C hs i"
proof -
  let ?P = "computeInclusionProof C hs i"
  have len: "int (length hs) = n" using assms(2-4) by (simp add: assms(1) min_def, linarith)
  have "hs ! nat i = HashLeaf C (ds ! nat i)"
    using assms(1-4) by (simp add: nat_less_iff)
  with incl_complete [of i hs C] len assms(2-6)
  have honest: "incl_loop C i (n - 1) (HashLeaf C (ds ! nat i)) ?P = Some (subTreeHash C hs)" by simp
  have "sized hs" using assms(6) by (simp add: assms(1))
  note sized = proof_sized(2) [OF assms(6) this, of i]
  let ?A = "inclusion_inputs C leaf i n P \<union> inclusion_inputs C (ds ! nat i) i n ?P"
  have "leaf = ds ! nat i \<and> P = ?P" if "incl_loop C i (n - 1) (HashLeaf C leaf) P = Some (subTreeHash C hs)"
  proof -
    have sub: "incl_inputs C i (n - 1) (HashLeaf C leaf) P \<union>
        incl_inputs C i (n - 1) (HashLeaf C (ds ! nat i)) ?P \<subseteq> ?A"
      "CHR 0x00 # leaf \<in> ?A" "CHR 0x00 # ds ! nat i \<in> ?A"
      unfolding inclusion_inputs_def by blast+
    have *: "HashLeaf C leaf = HashLeaf C (ds ! nat i) \<and> P = ?P"
      using incl_runs_agree [OF that honest assms(8) sub(1) assms(6,7) sized] assms(6) by simp
    then have "leaf = ds ! nat i" using HashLeaf_inject [OF _ assms(8) sub(2,3)] by blast
    with * show ?thesis by simp
  qed
  with honest show ?thesis unfolding VerifyInclusion_loop [OF assms(2,3)] by blast
qed

lemma cons_complete:
  assumes "1 \<le> m" "m < int (length hs)" "int (length hs) \<le> max_int64"
    "computeSubProof C hs m False = st # G"
  shows "cons_run C (m - 1) (int (length hs) - 1) st G =
    Some (subTreeHash C (take (nat m) hs), subTreeHash C hs)"
proof -
  have "length hs \<le> 2 ^ length hs" by simp
  then show ?thesis using cons_edge [of hs "length hs" m 0 C st G "[]"] assms by auto
qed

lemma VerifyConsistency_run:
  assumes "1 \<le> m" "m < n"
  shows "VerifyConsistency C m n R1 R2 P \<longleftrightarrow> P \<noteq> [] \<and>
    (if isPowerOf2 m then cons_run C (m - 1) (n - 1) R1 P else cons_run C (m - 1) (n - 1) (hd P) (tl P)) = Some (R1, R2)"
  using assms by (auto simp: VerifyConsistency_def cons_run_def Let_def split: prod.splits)

text \<open>The proof of the log, as the verifier reads it.\<close>

lemma sub_proof_shape:
  assumes "1 \<le> m" "m < int (length hs)" "int (length hs) \<le> max_int64"
  obtains G where
    "isPowerOf2 m \<Longrightarrow> computeSubProof C hs m True = G \<and> computeSubProof C hs m False = subTreeHash C (take (nat m) hs) # G"
    "\<not> isPowerOf2 m \<Longrightarrow> computeSubProof C hs m True = computeSubProof C hs m False \<and>
       computeSubProof C hs m False = hd (computeSubProof C hs m False) # G"
    "computeSubProof C hs m True \<noteq> []"
proof (cases "isPowerOf2 m")
  case True
  then obtain i where i: "m = 2 ^ i" by (auto simp: isPowerOf2_iff)
  have "computeSubProof C hs m False = subTreeHash C (take (nat m) hs) # computeSubProof C hs m True"
    using sub_power [of i hs C] assms unfolding i by (simp add: nat_power_eq)
  moreover have "computeSubProof C hs m True \<noteq> []"
  proof -
    have "Suc 0 < length hs" using assms by linarith
    then obtain j L R where t: "hs = L @ R" "length L = 2 ^ j" "R \<noteq> []" "length R \<le> 2 ^ j"
      using tree_cases [of hs] assms(3) by blast
    from tree_append(3) [where C = C, OF t(2-4) assms(3) [unfolded t(1)], of m True] assms(2)
    show ?thesis by (simp add: t(1))
  qed
  ultimately show thesis using True by (intro that) auto
next
  case False
  have "computeSubProof C hs m True = computeSubProof C hs m False"
    by (rule sub_no_power) (use assms False in \<open>auto simp: isPowerOf2_iff\<close>)
  with computeSubProof_ne [of m hs C] assms False show thesis
    by (intro that [of "tl (computeSubProof C hs m False)"]) auto
qed

lemma consistency_exact:
  fixes C hs m n R1 P defines "R \<equiv> subTreeHash C (take (nat m) hs)" and "P0 \<equiv> computeSubProof C hs m True"
  assumes "1 \<le> m" "m < n" "n = int (length hs)" "n \<le> max_int64"
    "sha256_sized C" "sized hs" "sized P" "length R1 = 32"
    and "inj_on (sha256 C) (consistency_inputs C m n R1 P \<union> consistency_inputs C m n R P0)"
  shows "VerifyConsistency C m n R1 (subTreeHash C hs) P \<longleftrightarrow> R1 = R \<and> P = P0"
proof -
  have b: "m < int (length hs)" "int (length hs) \<le> max_int64" using assms(4-6) by auto
  obtain G where G: "isPowerOf2 m \<Longrightarrow> P0 = G \<and> computeSubProof C hs m False = R # G"
    "\<not> isPowerOf2 m \<Longrightarrow> P0 = computeSubProof C hs m False \<and>
       computeSubProof C hs m False = hd (computeSubProof C hs m False) # G" "P0 \<noteq> []"
    using sub_proof_shape [OF assms(3) b] assms(1,2) by blast
  let ?st = "hd (computeSubProof C hs m False)"
  have st: "computeSubProof C hs m False = ?st # G" using G(1,2) by (cases "isPowerOf2 m") auto
  have run: "cons_run C (m - 1) (n - 1) ?st G = Some (R, subTreeHash C hs)"
    using cons_complete [OF assms(3) b st] assms(1,5) by simp
  have honest: "VerifyConsistency C m n R (subTreeHash C hs) P0"
    using run G st unfolding VerifyConsistency_run [OF assms(3,4)] by (metis list.sel(1,3))
  have "sized (take (nat m) hs)" using assms(8) by (auto dest: in_set_takeD)
  from proof_sized(1) [OF assms(7) this] proof_sized(3) [OF assms(7,8), of m] st
  have sz: "length R = 32" "sized P0" "sized (?st # G)" unfolding assms(1,2) by metis+
  obtain fn sn where s: "shift_odd (m - 1) (n - 1) = (fn, sn)" by (cases "shift_odd (m - 1) (n - 1)")
  have "R1 = R \<and> P = P0" if v: "VerifyConsistency C m n R1 (subTreeHash C hs) P"
  proof (cases "isPowerOf2 m")
    case True
    with v have "cons_loop C fn sn R1 R1 P = Some (R1, subTreeHash C hs)"
      unfolding VerifyConsistency_run [OF assms(3,4)] by (simp add: cons_run_def s)
    moreover have "cons_loop C fn sn R R P0 = Some (R, subTreeHash C hs)"
      using run G(1) True by (simp add: cons_run_def s)
    ultimately show ?thesis
      by (rule cons_runs_agree [OF _ _ assms(11)])
        (use assms(7,9,10) sz True s in \<open>auto simp: consistency_inputs_def\<close>)
  next
    case False
    with v obtain p ps where P: "P = p # ps" "cons_loop C fn sn p p ps = Some (R1, subTreeHash C hs)"
      unfolding VerifyConsistency_run [OF assms(3,4)] by (cases P) (simp_all add: cons_run_def s)
    have h: "P0 = ?st # G" "cons_loop C fn sn ?st ?st G = Some (R, subTreeHash C hs)"
      using run G(2) False by (simp_all add: cons_run_def s)
    have "p = ?st \<and> ps = G"
      by (rule cons_runs_agree [OF P(2) h(2) assms(11)])
        (use assms(7,9) sz False s P(1) h(1) in \<open>auto simp: consistency_inputs_def\<close>)
    with P h show ?thesis by simp
  qed
  with honest show ?thesis by blast
qed

text \<open>C11: for a log with given entries, the inclusion verifier accepts, against the root of the log at a
  size, exactly the entry at the index together with the audit path of the log: the path of the log
  is accepted, and no other entry and no other path is, unless SHA-256 collides on strings that the
  two checks hash.\<close>

theorem inclusion_proof_exact:
  assumes "int (length ds) \<le> max_int64" "sha256_sized C" "\<forall>p \<in> set P. length p = 32"
    and "InclusionProof C (log_of C ds) i n = Inr P0" "RootHashAt C (log_of C ds) n = Inr R"
    and "inj_on (sha256 C) (inclusion_inputs C leaf i n P \<union> inclusion_inputs C (ds ! nat i) i n P0)"
  shows "VerifyInclusion C leaf i n R P \<longleftrightarrow> leaf = ds ! nat i \<and> P = P0"
proof -
  let ?hs = "map (HashLeaf C) (take (nat n) ds)"
  have i: "0 \<le> i" "i < n" "n \<le> int (length ds)" and P0: "P0 = computeInclusionProof C ?hs i"
    using assms(4) by (auto simp: InclusionProof_def log_of_rows take_map split: if_splits)
  have R: "R = subTreeHash C ?hs"
    using assms(5) by (auto simp: RootHashAt_def log_of_rows take_map split: if_splits)
  show ?thesis
    unfolding R P0 by (rule inclusion_exact [OF i assms(1,2,3)]) (use assms(6) in \<open>simp add: P0\<close>)
qed

text \<open>C12: the consistency verifier accepts, against the root of the log at the newer size, exactly the
  root that the log had at the older size together with the proof of the log: a log that was changed
  anywhere before the older size has another older root and is refused, unless SHA-256 collides on
  strings that the two checks hash.\<close>

theorem consistency_proof_exact:
  assumes "int (length ds) \<le> max_int64" "sha256_sized C" "\<forall>p \<in> set P. length p = 32" "length R1 = 32"
    and "ConsistencyProof C (log_of C ds) m n = Inr P0"
    and "RootHashAt C (log_of C ds) m = Inr R0" "RootHashAt C (log_of C ds) n = Inr R"
    and "inj_on (sha256 C) (consistency_inputs C m n R1 P \<union> consistency_inputs C m n R0 P0)"
  shows "VerifyConsistency C m n R1 R P \<longleftrightarrow> R1 = R0 \<and> P = P0"
proof (cases "m = n")
  case True
  with assms(5-7) show ?thesis
    by (auto simp: VerifyConsistency_def ConsistencyProof_def split: if_splits)
next
  case False
  let ?hs = "map (HashLeaf C) (take (nat n) ds)"
  have m: "1 \<le> m" "m < n" "n \<le> int (length ds)" and P0: "P0 = computeSubProof C ?hs m True"
    using assms(5) False by (auto simp: ConsistencyProof_def log_of_rows take_map split: if_splits)
  have R: "R = subTreeHash C ?hs" "R0 = subTreeHash C (take (nat m) ?hs)"
    using assms(6,7) m by (auto simp: RootHashAt_def log_of_rows take_map min_def split: if_splits)
  have hs: "n = int (length ?hs)" "n \<le> max_int64" "sized ?hs"
    using m assms(1,2) by (auto simp: min_def)
  show ?thesis
    unfolding R P0 by (rule consistency_exact [OF m(1,2) hs(1,2) assms(2) hs(3) assms(3,4)])
      (use assms(8) in \<open>simp add: R P0\<close>)
qed

text \<open>A log of two entries under a hash that keeps the first 32 bytes, filled up, for the witnesses.\<close>

definition demo_hash :: crypto where
  "demo_hash = \<lparr>sha256 = \<lambda>x. take 32 (x @ replicate 32 (CHR 0x00)), hmac_sha256 = \<lambda>k x. [],
     ed25519_verify = \<lambda>k x s. False\<rparr>"

lemma demo_hash_sized: "sha256_sized demo_hash"
  by (auto simp: sha256_sized_def demo_hash_def min_def)

lemma tree_pair:
  "subTreeHash C [x, y] = HashChildren C x y"
  "computeInclusionProof C [x, y] 0 = [y]"
  "computeSubProof C [x, y] 1 True = [y]"
  using tree_append(1) [of "[x]" 0 "[y]" C] tree_append(2) [of "[x]" 0 "[y]" C 0] tree_append(3) [of "[x]" 0 "[y]" 1 C True]
    computeSubProof_refl [of C "[x]" True]
  by (simp_all add: max_int64_def tree_single)

definition demo_log :: TransparencyLog where
  "demo_log = log_of demo_hash [''a'', ''b'']"

lemmas demo_log_eval = demo_log_def InclusionProof_def ConsistencyProof_def RootHashAt_def log_of_rows
  tree_pair tree_single inclusion_inputs_def consistency_inputs_def shift_odd_even isPowerOf2_def
  HashChildren_def HashLeaf_def demo_hash_def

lemma inclusion_proof_exact_witness:
  "\<not> VerifyInclusion demo_hash ''c'' 0 2 (RootHash demo_hash demo_log) [HashLeaf demo_hash ''b'']"
proof -
  let ?R = "HashChildren demo_hash (HashLeaf demo_hash ''a'') (HashLeaf demo_hash ''b'')"
  have log: "InclusionProof demo_hash (log_of demo_hash [''a'', ''b'']) 0 2 = Inr [HashLeaf demo_hash ''b'']"
    "RootHashAt demo_hash (log_of demo_hash [''a'', ''b'']) 2 = Inr ?R"
    by (simp_all add: InclusionProof_def RootHashAt_def log_of_rows tree_pair)
  have inj: "inj_on (sha256 demo_hash) (inclusion_inputs demo_hash ''c'' 0 2 [HashLeaf demo_hash ''b''] \<union>
      inclusion_inputs demo_hash ([''a'', ''b''] ! nat 0) 0 2 [HashLeaf demo_hash ''b''])"
    by (simp add: inj_on_def demo_log_eval)
  have "VerifyInclusion demo_hash ''c'' 0 2 ?R [HashLeaf demo_hash ''b''] \<longleftrightarrow>
    ''c'' = [''a'', ''b''] ! nat 0 \<and> [HashLeaf demo_hash ''b''] = [HashLeaf demo_hash ''b'']"
    by (rule inclusion_proof_exact [OF _ demo_hash_sized _ log inj])
      (use sized_HashChildren(2) [OF demo_hash_sized] in \<open>simp_all add: max_int64_def\<close>)
  then show ?thesis by (simp add: RootHash_def demo_log_def log_of_rows tree_pair)
qed

lemma consistency_proof_exact_witness:
  "\<not> VerifyConsistency demo_hash 1 2 (HashLeaf demo_hash ''c'') (RootHash demo_hash demo_log)
       [HashLeaf demo_hash ''b'']"
proof -
  let ?R = "HashChildren demo_hash (HashLeaf demo_hash ''a'') (HashLeaf demo_hash ''b'')"
  have log: "ConsistencyProof demo_hash (log_of demo_hash [''a'', ''b'']) 1 2 = Inr [HashLeaf demo_hash ''b'']"
    "RootHashAt demo_hash (log_of demo_hash [''a'', ''b'']) 1 = Inr (HashLeaf demo_hash ''a'')"
    "RootHashAt demo_hash (log_of demo_hash [''a'', ''b'']) 2 = Inr ?R"
    by (simp_all add: ConsistencyProof_def RootHashAt_def log_of_rows tree_pair tree_single)
  have inj: "inj_on (sha256 demo_hash)
      (consistency_inputs demo_hash 1 2 (HashLeaf demo_hash ''c'') [HashLeaf demo_hash ''b''] \<union>
       consistency_inputs demo_hash 1 2 (HashLeaf demo_hash ''a'') [HashLeaf demo_hash ''b''])"
    by (simp add: inj_on_def demo_log_eval)
  have "VerifyConsistency demo_hash 1 2 (HashLeaf demo_hash ''c'') ?R [HashLeaf demo_hash ''b''] \<longleftrightarrow>
    HashLeaf demo_hash ''c'' = HashLeaf demo_hash ''a'' \<and> [HashLeaf demo_hash ''b''] = [HashLeaf demo_hash ''b'']"
    by (rule consistency_proof_exact [OF _ demo_hash_sized _ _ log inj])
      (use sized_HashChildren(2) [OF demo_hash_sized] in \<open>simp_all add: max_int64_def\<close>)
  then show ?thesis by (simp add: RootHash_def demo_log_def log_of_rows tree_pair HashLeaf_def demo_hash_def)
qed

end
