(* ===== verification/Byte_Encoding.thy ===== *)
theory Byte_Encoding
  imports Go_Prelude
begin

text \<open>
  Fixed-width big-endian numbers as \<open>binary.Write\<close> of \<open>encoding/binary\<close> writes them, length-prefixed
  strings, and the DER integers that \<open>encoding/asn1\<close> reads. Each encoding comes with the lemma that a
  concatenation which starts with it can be taken apart again.
\<close>

primrec be_bytes :: "nat \<Rightarrow> nat \<Rightarrow> bytes" where
  "be_bytes 0 v = []"
| "be_bytes (Suc n) v = char_of (v div 256 ^ n mod 256) # be_bytes n v"

definition be64 :: "uint64 \<Rightarrow> bytes" where "be64 w = be_bytes 8 (unat w)"

text \<open>\<open>int64\<close> is written in two's complement; a length is cut to the width of its field.\<close>

definition be64_int :: "int64 \<Rightarrow> bytes" where "be64_int i = be64 (word_of_int i)"
definition be32 :: "nat \<Rightarrow> bytes" where "be32 n = be_bytes 4 (n mod 2 ^ 32)"
definition be16 :: "nat \<Rightarrow> bytes" where "be16 n = be_bytes 2 (n mod 2 ^ 16)"

lemma length_be_bytes [simp]: "length (be_bytes n v) = n"
  by (induction n) simp_all

lemma be_bytes_inject:
  assumes "be_bytes n v = be_bytes n w"
  shows "v mod 256 ^ n = w mod 256 ^ n"
  using assms
proof (induction n)
  case (Suc n)
  have "(of_char (char_of (v div 256 ^ n mod 256)) :: nat) = of_char (char_of (w div 256 ^ n mod 256))"
    using Suc.prems by simp
  then have "v div 256 ^ n mod 256 = w div 256 ^ n mod 256" by simp
  moreover have "v mod 256 ^ n = w mod 256 ^ n" using Suc by simp
  moreover have "x mod 256 ^ Suc n = 256 ^ n * (x div 256 ^ n mod 256) + x mod 256 ^ n" for x :: nat
    by (metis mod_mult2_eq mult.commute power_Suc)
  ultimately show ?case by metis
qed simp

lemma length_be [simp]: "length (be64 w) = 8" "length (be64_int i) = 8" "length (be32 n) = 4" "length (be16 n) = 2"
  by (simp_all add: be64_def be64_int_def be32_def be16_def)

lemma be64_inject [simp]: "be64 v = be64 w \<longleftrightarrow> v = w"
proof
  assume "be64 v = be64 w"
  then have "unat v mod 256 ^ 8 = unat w mod 256 ^ 8" unfolding be64_def by (rule be_bytes_inject)
  moreover have "unat x mod 256 ^ 8 = unat x" for x :: uint64
    using unsigned_less [of x, where ?'a = nat] by simp
  ultimately show "v = w" by (simp add: word_unat_eq_iff)
qed simp

lemma be64_int_inject:
  assumes "be64_int i = be64_int j" "in_int64 i" "in_int64 j"
  shows "i = j"
proof -
  have "(word_of_int i :: uint64) = word_of_int j" using assms(1) by (simp add: be64_int_def)
  then have "sint (word_of_int i :: uint64) = sint (word_of_int j :: uint64)" by simp
  moreover have "sint (word_of_int k :: uint64) = k" if "in_int64 k" for k
  proof -
    have "sint (word_of_int k :: uint64) = signed_take_bit 63 k" by (simp add: sint_sbintrunc')
    also have "\<dots> = k"
      using that by (intro signed_take_bit_int_eq_self) (simp_all add: in_int64_def min_int64_def max_int64_def)
    finally show ?thesis .
  qed
  ultimately show ?thesis using assms(2,3) by simp
qed

lemma be16_inject: "be16 m = be16 n \<Longrightarrow> m < 2 ^ 16 \<Longrightarrow> n < 2 ^ 16 \<Longrightarrow> m = n"
  unfolding be16_def by (drule be_bytes_inject) simp

lemma be32_inject: "be32 m = be32 n \<Longrightarrow> m < 2 ^ 32 \<Longrightarrow> n < 2 ^ 32 \<Longrightarrow> m = n"
  unfolding be32_def by (drule be_bytes_inject) simp

lemma append_same_length: "length xs = length ys \<Longrightarrow> xs @ us = ys @ vs \<longleftrightarrow> xs = ys \<and> us = vs"
  by simp

text \<open>A string with its length in two bytes in front: what follows can be told apart as long as the
  length fits.\<close>

definition length_prefixed :: "string \<Rightarrow> bytes" where
  "length_prefixed s = be16 (length s) @ s"

lemma length_prefixed_inject:
  assumes "length_prefixed s @ us = length_prefixed t @ vs" "length s < 2 ^ 16" "length t < 2 ^ 16"
  shows "s = t \<and> us = vs"
proof -
  have "be16 (length s) @ s @ us = be16 (length t) @ t @ vs" using assms(1) by (simp add: length_prefixed_def)
  then have "be16 (length s) = be16 (length t)" and rest: "s @ us = t @ vs"
    using append_same_length [of "be16 (length s)" "be16 (length t)"] by auto
  then have "length s = length t" using be16_inject assms(2,3) by blast
  with rest show ?thesis by simp
qed

subsection \<open>DER integers\<close>

definition be_value :: "bytes \<Rightarrow> nat" where
  "be_value bs = foldl (\<lambda>n b. 256 * n + of_char b) 0 bs"

fun der_long :: "nat \<Rightarrow> nat \<Rightarrow> bytes \<Rightarrow> (nat \<times> bytes) option" where
  "der_long 0 len bs = (if len < 128 then None else Some (len, bs))"
| "der_long (Suc n) len [] = None"
| "der_long (Suc n) len (b # bs) =
     (if 2 ^ 23 \<le> len then None
      else let len' = 256 * len + of_char b in if len' = 0 then None else der_long n len' bs)"

definition der_length :: "bytes \<Rightarrow> (nat \<times> bytes) option" where
  "der_length bs =
     (case bs of
        [] \<Rightarrow> None
      | b # rest \<Rightarrow>
          if (of_char b :: nat) < 128 then Some (of_char b, rest)
          else if (of_char b :: nat) = 128 then None else der_long (of_char b - 128) 0 rest)"

text \<open>The content of the element with the given identifier byte at the front, and what follows it.\<close>

definition der_element :: "nat \<Rightarrow> bytes \<Rightarrow> (bytes \<times> bytes) option" where
  "der_element tag bs =
     (case bs of
        [] \<Rightarrow> None
      | b # rest \<Rightarrow>
          if of_char b \<noteq> tag then None
          else (case der_length rest of
              None \<Rightarrow> None
            | Some (len, body) \<Rightarrow>
                if length body < len then None else Some (take len body, drop len body)))"

definition der_integer :: "bytes \<Rightarrow> int option" where
  "der_integer bs =
     (case bs of
        [] \<Rightarrow> None
      | [b] \<Rightarrow> Some (if (of_char b :: nat) < 128 then of_char b else of_char b - 256)
      | b # c # cs \<Rightarrow>
          if (of_char b :: nat) = 0 \<and> (of_char c :: nat) < 128 \<or>
             (of_char b :: nat) = 255 \<and> 128 \<le> (of_char c :: nat) then None
          else Some (if (of_char b :: nat) < 128 then int (be_value bs)
                     else int (be_value bs) - 256 ^ length bs))"

text \<open>\<open>asn1.Unmarshal\<close> into a structure of two integers: bytes after the second integer inside the
  sequence are accepted, bytes after the sequence are the rest.\<close>

definition der_two_integers :: "bytes \<Rightarrow> ((int \<times> int) \<times> bytes) option" where
  "der_two_integers bs =
     (case der_element 0x30 bs of
        None \<Rightarrow> None
      | Some (body, rest) \<Rightarrow>
         (case der_element 2 body of
            None \<Rightarrow> None
          | Some (r, body') \<Rightarrow>
             (case (der_integer r, der_element 2 body') of
                (Some i, Some (s, _)) \<Rightarrow> (case der_integer s of None \<Rightarrow> None | Some j \<Rightarrow> Some ((i, j), rest))
              | _ \<Rightarrow> None)))"

end
