(* ===== verification/Field_Trust.thy ===== *)
theory Field_Trust
  imports Byte_Encoding "HOL-Library.List_Lexorder" "HOL-Library.Multiset"
begin

text \<open>
  The field-trust protocol of \<open>pkg/domain/fieldtrust.go\<close>: time-horizon tokens, the execution time they
  allow, the competency gate, the seal of a submission and the escrow override that two officers sign.

  \<^item> Every digest is the hash of a message; message and hash are separate definitions, so that what a
    signature binds can be said without the hash.
  \<^item> The signing algorithms of \<open>crypto/ed25519\<close> and \<open>crypto/ecdsa\<close> extend the record of primitives;
    \<open>ecdsa.SignASN1\<close> draws randomness and may fail. \<open>sort.Slice\<close> is an argument, since it leaves
    the order of equal keys open.
  \<^item> Wrapped errors keep both sentinels (\<open>Wrap\<close>). The text of a refusal of the gate is a \<open>gate_failure\<close>.
\<close>

record trust_crypto = crypto +
  ed25519_sign :: "bytes \<Rightarrow> bytes \<Rightarrow> bytes"
  ecdsa_sign :: "bytes \<Rightarrow> nat \<Rightarrow> bytes \<Rightarrow> bytes option"
  ecdsa_verify :: "bytes \<Rightarrow> bytes \<Rightarrow> int \<Rightarrow> int \<Rightarrow> bool"

datatype public_key = Ed25519Public bytes | EcdsaPublic bytes | OtherPublic
datatype signer = Ed25519Private bytes | EcdsaPrivate bytes | OtherSigner

datatype trust_error =
    HorizonExpired | WallClockSkewExceeded | MonotonicBroken | RebootGraceExpired
  | InvalidIssuerSignature | StaleAuthorityEpoch | HorizonCapExceeded | SkewCapExceeded
  | BootTamperDetected | CheckpointMissing | UnknownCriticality | InvalidSeal | MalformedP256Sig
  | DomainContextMismatch | StatutoryHardwareSealMissing | TombstoneStaleSequence
  | EscrowPermanentFlagRequired | UnsupportedKey | SigningFailed | SLANotReached
  | TDSignatureMissing | SSOSignatureMissing | InvalidTDSignature | InvalidSSOSignature
  | Ed25519VerificationFailed | EcdsaVerificationFailed | Wrap trust_error trust_error

subsection \<open>Policies\<close>

definition TagHorizonToken :: bytes where "TagHorizonToken = ''INTEGIN-HORIZON-v1'' @ [CHR 0x00]"
definition TagSubmissionSeal :: bytes where "TagSubmissionSeal = ''INTEGIN-SEAL-v1'' @ [CHR 0x00]"
definition TagEscrowOverride :: bytes where "TagEscrowOverride = ''INTEGIN-OVERRIDE-v1'' @ [CHR 0x00]"

definition CriticalityLifeSafety :: string where "CriticalityLifeSafety = ''LIFE_SAFETY''"
definition CriticalitySecondary :: string where "CriticalitySecondary = ''SECONDARY''"

definition minute :: duration where "minute = 60 * second"
definition hour :: duration where "hour = 60 * minute"

record TTLPolicy =
  tp_AuthorityTTL :: duration
  tp_MaxHorizon :: duration
  tp_MaxAllowableSkew :: duration
  tp_MaxRebootGrace :: duration
  tp_CompetencySlack :: duration

definition CriticalityPolicies :: "string \<Rightarrow> TTLPolicy option" where
  "CriticalityPolicies c =
     (if c = CriticalityLifeSafety then
        Some \<lparr>tp_AuthorityTTL = 12 * hour, tp_MaxHorizon = 8 * hour, tp_MaxAllowableSkew = 5 * minute,
              tp_MaxRebootGrace = 15 * minute, tp_CompetencySlack = 0\<rparr>
      else if c = CriticalitySecondary then
        Some \<lparr>tp_AuthorityTTL = 96 * hour, tp_MaxHorizon = 72 * hour, tp_MaxAllowableSkew = 30 * minute,
              tp_MaxRebootGrace = 30 * minute, tp_CompetencySlack = 24 * hour\<rparr>
      else None)"

text \<open>Reading a missing key of a Go map gives the zero value.\<close>

definition policy_or_zero :: "string \<Rightarrow> TTLPolicy" where
  "policy_or_zero c = (case CriticalityPolicies c of
      Some p \<Rightarrow> p
    | None \<Rightarrow> \<lparr>tp_AuthorityTTL = 0, tp_MaxHorizon = 0, tp_MaxAllowableSkew = 0, tp_MaxRebootGrace = 0,
                tp_CompetencySlack = 0\<rparr>)"

subsection \<open>Signatures\<close>

definition parseP256Signature :: "bytes \<Rightarrow> trust_error + int \<times> int" where
  "parseP256Signature sig =
     (if length sig = 64 then Inr (int (be_value (take 32 sig)), int (be_value (drop 32 sig)))
      else (case der_two_integers sig of
          None \<Rightarrow> Inl MalformedP256Sig
        | Some (rs, rest) \<Rightarrow> if rest \<noteq> [] then Inl MalformedP256Sig else Inr rs))"

definition verifySignature :: "trust_crypto \<Rightarrow> public_key \<Rightarrow> bytes \<Rightarrow> bytes \<Rightarrow> trust_error option" where
  "verifySignature C pub digest sig =
     (case pub of
        Ed25519Public k \<Rightarrow> if \<not> ed25519_verify C k digest sig then Some Ed25519VerificationFailed else None
      | EcdsaPublic k \<Rightarrow>
         (case parseP256Signature sig of
            Inl e \<Rightarrow> Some e
          | Inr (r, s) \<Rightarrow> if \<not> ecdsa_verify C k digest r s then Some EcdsaVerificationFailed else None)
      | OtherPublic \<Rightarrow> Some UnsupportedKey)"

subsection \<open>Time-horizon tokens\<close>

record TimeHorizonToken =
  th_TokenID :: string
  th_WorkPackageID :: string
  th_InspectorID :: string
  th_CriticalityClass :: string
  th_AnchorWallTime :: gotime
  th_AnchorMonoNanos :: int64
  th_MaxSkewAllowed :: duration
  th_HorizonDuration :: duration
  th_AuthorityEpoch :: uint64
  th_IssuerSignature :: bytes

record CheckpointLedgerEntry =
  cl_WallTimestamp :: gotime
  cl_MonotonicNanos :: int64
  cl_BootSessionID :: string

definition token_message :: "TimeHorizonToken \<Rightarrow> bytes" where
  "token_message t =
     TagHorizonToken @ th_TokenID t @ th_WorkPackageID t @ th_InspectorID t @ th_CriticalityClass t @
     be64_int (time_UnixNano (th_AnchorWallTime t)) @ be64_int (th_AnchorMonoNanos t) @
     be64_int (th_MaxSkewAllowed t) @ be64_int (th_HorizonDuration t) @ be64 (th_AuthorityEpoch t)"

definition TimeHorizonToken_Digest :: "trust_crypto \<Rightarrow> TimeHorizonToken \<Rightarrow> bytes" where
  "TimeHorizonToken_Digest C t = sha256 C (token_message t)"

definition IssueTimeHorizonToken ::
    "trust_crypto \<Rightarrow> nat \<Rightarrow> string \<Rightarrow> string \<Rightarrow> string \<Rightarrow> string \<Rightarrow> gotime \<Rightarrow> int64 \<Rightarrow> duration \<Rightarrow> duration \<Rightarrow>
     uint64 \<Rightarrow> signer \<Rightarrow> trust_error + TimeHorizonToken" where
  "IssueTimeHorizonToken C entropy tokenID workPackageID inspectorID criticality anchorWall anchorMono
     maxSkew requestedDuration currentEpoch key =
     (case CriticalityPolicies criticality of
        None \<Rightarrow> Inl UnknownCriticality
      | Some policy \<Rightarrow>
          if tp_MaxHorizon policy < requestedDuration then Inl HorizonCapExceeded
          else if tp_MaxAllowableSkew policy < maxSkew then Inl SkewCapExceeded
          else let tok = \<lparr>th_TokenID = tokenID, th_WorkPackageID = workPackageID,
                 th_InspectorID = inspectorID, th_CriticalityClass = criticality,
                 th_AnchorWallTime = anchorWall, th_AnchorMonoNanos = anchorMono,
                 th_MaxSkewAllowed = maxSkew, th_HorizonDuration = requestedDuration,
                 th_AuthorityEpoch = currentEpoch, th_IssuerSignature = []\<rparr> in
            (case key of
               Ed25519Private k \<Rightarrow>
                 Inr (tok\<lparr>th_IssuerSignature := ed25519_sign C k (TimeHorizonToken_Digest C tok)\<rparr>)
             | EcdsaPrivate k \<Rightarrow>
                (case ecdsa_sign C k entropy (TimeHorizonToken_Digest C tok) of
                   None \<Rightarrow> Inl SigningFailed
                 | Some sig \<Rightarrow> Inr (tok\<lparr>th_IssuerSignature := sig\<rparr>))
             | OtherSigner \<Rightarrow> Inl UnsupportedKey))"

definition VerifyToken :: "trust_crypto \<Rightarrow> public_key \<Rightarrow> uint64 \<Rightarrow> TimeHorizonToken \<Rightarrow> trust_error option" where
  "VerifyToken C issuerPubKey edgeHighWaterEpoch t =
     (if th_AuthorityEpoch t < edgeHighWaterEpoch then Some StaleAuthorityEpoch
      else let digest = TimeHorizonToken_Digest C t in
        (case issuerPubKey of
           Ed25519Public k \<Rightarrow>
             if \<not> ed25519_verify C k digest (th_IssuerSignature t) then Some InvalidIssuerSignature else None
         | EcdsaPublic k \<Rightarrow>
            (case parseP256Signature (th_IssuerSignature t) of
               Inl e \<Rightarrow> Some (Wrap InvalidIssuerSignature e)
             | Inr (r, s) \<Rightarrow> if \<not> ecdsa_verify C k digest r s then Some InvalidIssuerSignature else None)
         | OtherPublic \<Rightarrow> Some UnsupportedKey))"

definition ValidateExecutionTime ::
    "TimeHorizonToken \<Rightarrow> gotime \<Rightarrow> int64 \<Rightarrow> CheckpointLedgerEntry \<Rightarrow> string \<Rightarrow> trust_error option" where
  "ValidateExecutionTime t currentWall currentMono checkpoint activeBoot =
     (let policy = policy_or_zero (th_CriticalityClass t) in
      if time_IsZero (cl_WallTimestamp checkpoint) then Some CheckpointMissing
      else let elapsedWall = time_Sub currentWall (th_AnchorWallTime t) in
        if elapsedWall < 0 \<or> 0 < th_MaxSkewAllowed t \<and>
           wrap64 (th_HorizonDuration t + th_MaxSkewAllowed t) < elapsedWall then Some WallClockSkewExceeded
        else if currentMono < cl_MonotonicNanos checkpoint \<or> activeBoot \<noteq> cl_BootSessionID checkpoint then
          (if activeBoot = [] then Some BootTamperDetected
           else let remaining = wrap64 (th_HorizonDuration t -
                  time_Sub (cl_WallTimestamp checkpoint) (th_AnchorWallTime t)) in
             if remaining < 0 then Some HorizonExpired
             else let grace = (if remaining < tp_MaxRebootGrace policy then remaining
                               else tp_MaxRebootGrace policy) in
               if grace < currentMono then Some RebootGraceExpired else None)
        else let elapsedMono = wrap64 (currentMono - th_AnchorMonoNanos t) in
          if elapsedMono < 0 then Some MonotonicBroken
          else if th_HorizonDuration t < elapsedMono then Some HorizonExpired
          else None)"

subsection \<open>Leases, manifests and tombstones\<close>

record SubAssemblyLease =
  sl_SubAssemblyID :: string
  sl_ParentAssetDID :: string
  sl_AssignedDeviceID :: string
  sl_InspectorID :: string
  sl_RequiredSkill :: string
  sl_CriticalityClass :: string
  sl_LeaseEpoch :: uint64
  sl_LeaseStart :: gotime
  sl_ValidUntil :: gotime
  sl_State :: string

record LegacyOnboardingManifest =
  lm_ManifestID :: string
  lm_TenantID :: string
  lm_AssignedDeviceID :: string
  lm_InspectorID :: string
  lm_AuthorityEpoch :: uint64
  lm_ValidUntil :: gotime

record FieldManifest =
  fm_ManifestID :: string
  fm_TenantID :: string
  fm_AssignedDeviceID :: string
  fm_InspectorID :: string
  fm_AuthorityEpoch :: uint64
  fm_TimeHorizon :: TimeHorizonToken
  fm_LeasedComponents :: "SubAssemblyLease list"
  fm_ValidUntil :: gotime

definition ToOnboardingManifest :: "FieldManifest \<Rightarrow> LegacyOnboardingManifest" where
  "ToOnboardingManifest m =
     \<lparr>lm_ManifestID = fm_ManifestID m, lm_TenantID = fm_TenantID m,
      lm_AssignedDeviceID = fm_AssignedDeviceID m, lm_InspectorID = fm_InspectorID m,
      lm_AuthorityEpoch = fm_AuthorityEpoch m, lm_ValidUntil = fm_ValidUntil m\<rparr>"

definition FromOnboardingManifest ::
    "LegacyOnboardingManifest \<Rightarrow> TimeHorizonToken \<Rightarrow> SubAssemblyLease list \<Rightarrow> FieldManifest" where
  "FromOnboardingManifest legacy token leases =
     \<lparr>fm_ManifestID = lm_ManifestID legacy, fm_TenantID = lm_TenantID legacy,
      fm_AssignedDeviceID = lm_AssignedDeviceID legacy, fm_InspectorID = lm_InspectorID legacy,
      fm_AuthorityEpoch = lm_AuthorityEpoch legacy, fm_TimeHorizon = token,
      fm_LeasedComponents = leases, fm_ValidUntil = lm_ValidUntil legacy\<rparr>"

record LeaseTombstoneRecord =
  lt_SubAssemblyID :: string
  lt_LeaseEpoch :: uint64
  lt_TombstoneSequence :: uint64
  lt_RevokedDeviceID :: string
  lt_RevocationTimestamp :: gotime
  lt_AuthorizingDID :: string
  lt_Reason :: string

definition AssertsSupremacy :: "string \<Rightarrow> uint64 \<Rightarrow> LeaseTombstoneRecord \<Rightarrow> bool" where
  "AssertsSupremacy incomingDeviceID incomingEpoch t =
     (if lt_RevokedDeviceID t \<noteq> incomingDeviceID then False else incomingEpoch \<le> lt_LeaseEpoch t)"

subsection \<open>The execution gate\<close>

record InspectorCompetency =
  ic_SkillCode :: string
  ic_ValidFrom :: gotime
  ic_ValidThrough :: gotime
  ic_IsRevoked :: bool

datatype gate_failure =
    InspectorMismatch
  | CriticalityMismatch string string
  | UnregisteredClass string
  | NoCredential string
  | CredentialRevoked string
  | CompetencyExpired string gotime duration

record ExecutionGateResult =
  eg_SubAssemblyID :: string
  eg_SkillCode :: string
  eg_Allowed :: bool
  eg_PartialBlock :: bool
  eg_FailureReason :: "gate_failure option"

definition gate_refuses :: "SubAssemblyLease \<Rightarrow> gate_failure \<Rightarrow> ExecutionGateResult" where
  "gate_refuses lease why = \<lparr>eg_SubAssemblyID = sl_SubAssemblyID lease,
     eg_SkillCode = sl_RequiredSkill lease, eg_Allowed = False, eg_PartialBlock = True,
     eg_FailureReason = Some why\<rparr>"

definition EvaluateExecutionGate ::
    "string \<Rightarrow> SubAssemblyLease \<Rightarrow> TimeHorizonToken \<Rightarrow> InspectorCompetency list \<Rightarrow> gotime \<Rightarrow>
     ExecutionGateResult" where
  "EvaluateExecutionGate inspectorID lease token competencies currentValidatedTime =
     (if sl_InspectorID lease \<noteq> inspectorID \<or> th_InspectorID token \<noteq> inspectorID then
        gate_refuses lease InspectorMismatch
      else if sl_CriticalityClass lease \<noteq> th_CriticalityClass token then
        gate_refuses lease (CriticalityMismatch (sl_CriticalityClass lease) (th_CriticalityClass token))
      else (case CriticalityPolicies (sl_CriticalityClass lease) of
          None \<Rightarrow> gate_refuses lease (UnregisteredClass (sl_CriticalityClass lease))
        | Some policy \<Rightarrow>
           (case List.find (\<lambda>c. ic_SkillCode c = sl_RequiredSkill lease) competencies of
              None \<Rightarrow> gate_refuses lease (NoCredential (sl_RequiredSkill lease))
            | Some matched \<Rightarrow>
                if ic_IsRevoked matched then gate_refuses lease (CredentialRevoked (sl_RequiredSkill lease))
                else let effectiveExpiry = ic_ValidThrough matched + tp_CompetencySlack policy in
                  if currentValidatedTime < ic_ValidFrom matched \<or> effectiveExpiry < currentValidatedTime then
                    gate_refuses lease (CompetencyExpired (ic_SkillCode matched) (ic_ValidThrough matched)
                      (tp_CompetencySlack policy))
                  else \<lparr>eg_SubAssemblyID = sl_SubAssemblyID lease, eg_SkillCode = sl_RequiredSkill lease,
                        eg_Allowed = True, eg_PartialBlock = False, eg_FailureReason = None\<rparr>)))"

subsection \<open>The seal of a submission\<close>

record MediaArtifactDigest =
  ma_ArtifactID :: string
  ma_ArtifactType :: string
  ma_SHA256Digest :: bytes

definition nonStatutoryRouteAllowlist :: "string list" where
  "nonStatutoryRouteAllowlist =
     [''/api/v1/field/telemetry'', ''/api/v1/field/drafts'', ''/api/v1/field/notes'']"

definition IsStatutoryRoute :: "string \<Rightarrow> bool" where
  "IsStatutoryRoute route \<longleftrightarrow> route \<notin> set nonStatutoryRouteAllowlist"

record SubmissionSeal =
  se_DeviceKeyDID :: string
  se_TokenID :: string
  se_LeaseEpoch :: uint64
  se_MediaDigests :: "MediaArtifactDigest list"
  se_DataPayload :: bytes
  se_AppEd25519Sig :: bytes
  se_HwP256Sig :: bytes

definition media_entry :: "MediaArtifactDigest \<Rightarrow> bytes" where
  "media_entry a = length_prefixed (ma_ArtifactID a) @ length_prefixed (ma_ArtifactType a) @ ma_SHA256Digest a"

definition seal_message ::
    "(MediaArtifactDigest list \<Rightarrow> MediaArtifactDigest list) \<Rightarrow> SubmissionSeal \<Rightarrow> bytes" where
  "seal_message sortSlice s =
     (let sorted = sortSlice (se_MediaDigests s) in
      TagSubmissionSeal @ length_prefixed (se_DeviceKeyDID s) @ length_prefixed (se_TokenID s) @
      be64 (se_LeaseEpoch s) @ be16 (length sorted) @ concat (map media_entry sorted) @
      se_DataPayload s @ se_AppEd25519Sig s)"

definition DeriveCompositeDigest ::
    "trust_crypto \<Rightarrow> (MediaArtifactDigest list \<Rightarrow> MediaArtifactDigest list) \<Rightarrow> SubmissionSeal \<Rightarrow> bytes" where
  "DeriveCompositeDigest C sortSlice s = sha256 C (seal_message sortSlice s)"

definition SubmissionSeal_Verify ::
    "trust_crypto \<Rightarrow> (MediaArtifactDigest list \<Rightarrow> MediaArtifactDigest list) \<Rightarrow> string \<Rightarrow> string \<Rightarrow> string \<Rightarrow> uint64 \<Rightarrow>
     bytes \<Rightarrow> bytes option \<Rightarrow> SubmissionSeal \<Rightarrow> trust_error option" where
  "SubmissionSeal_Verify C sortSlice endpointRoute expectedDeviceDID expectedTokenID expectedLeaseEpoch
     appPubKey hwPubKey s =
     (if se_DeviceKeyDID s \<noteq> expectedDeviceDID then Some DomainContextMismatch
      else if se_TokenID s \<noteq> expectedTokenID \<or> se_LeaseEpoch s \<noteq> expectedLeaseEpoch then
        Some DomainContextMismatch
      else if \<not> ed25519_verify C appPubKey (se_DataPayload s) (se_AppEd25519Sig s) then Some InvalidSeal
      else if \<not> IsStatutoryRoute endpointRoute then None
      else (case hwPubKey of
          None \<Rightarrow> Some StatutoryHardwareSealMissing
        | Some hw \<Rightarrow>
            if se_HwP256Sig s = [] then Some StatutoryHardwareSealMissing
            else (case parseP256Signature (se_HwP256Sig s) of
                Inl e \<Rightarrow> Some (Wrap InvalidSeal e)
              | Inr (r, sBig) \<Rightarrow>
                  if \<not> ecdsa_verify C hw (DeriveCompositeDigest C sortSlice s) r sBig then Some InvalidSeal
                  else None)))"

subsection \<open>Escrow overrides\<close>

record EscrowOverrideRecord =
  eo_OverrideID :: string
  eo_SubAssemblyID :: string
  eo_LeaseEpoch :: uint64
  eo_TombstoneSequence :: uint64
  eo_DraftWorkOrderID :: string
  eo_OriginalInspectorID :: string
  eo_TechnicalDirectorID :: string
  eo_TdKeyDID :: string
  eo_SiteSafetyOfficerID :: string
  eo_SsoKeyDID :: string
  eo_RootCause :: string
  eo_TdSignature :: bytes
  eo_SsoSignature :: bytes
  eo_PermanentFlag :: bool

definition override_message :: "EscrowOverrideRecord \<Rightarrow> bytes" where
  "override_message e =
     TagEscrowOverride @ eo_OverrideID e @ eo_SubAssemblyID e @ be64 (eo_LeaseEpoch e) @
     be64 (eo_TombstoneSequence e) @ eo_DraftWorkOrderID e @ eo_OriginalInspectorID e @
     eo_TechnicalDirectorID e @ eo_TdKeyDID e @ eo_SiteSafetyOfficerID e @ eo_SsoKeyDID e @
     eo_RootCause e @ (if eo_PermanentFlag e then [CHR 0x01] else [CHR 0x00])"

definition CanonicalDigest :: "trust_crypto \<Rightarrow> EscrowOverrideRecord \<Rightarrow> bytes" where
  "CanonicalDigest C e = sha256 C (override_message e)"

definition ValidateQuorum ::
    "trust_crypto \<Rightarrow> public_key \<Rightarrow> public_key \<Rightarrow> duration \<Rightarrow> uint64 \<Rightarrow> gotime \<Rightarrow> gotime \<Rightarrow>
     EscrowOverrideRecord \<Rightarrow> trust_error option" where
  "ValidateQuorum C tdPubKey ssoPubKey configuredSLA storedSequence tombstoneTime edgeArrival e =
     (if \<not> eo_PermanentFlag e then Some EscrowPermanentFlagRequired
      else if eo_TombstoneSequence e \<noteq> storedSequence then Some TombstoneStaleSequence
      else if time_Sub edgeArrival tombstoneTime < configuredSLA then Some SLANotReached
      else if eo_TdKeyDID e = [] \<or> eo_TdSignature e = [] then Some TDSignatureMissing
      else if eo_SsoKeyDID e = [] \<or> eo_SsoSignature e = [] then Some SSOSignatureMissing
      else let digest = CanonicalDigest C e in
        (case verifySignature C tdPubKey digest (eo_TdSignature e) of
           Some x \<Rightarrow> Some (Wrap InvalidTDSignature x)
         | None \<Rightarrow>
            (case verifySignature C ssoPubKey digest (eo_SsoSignature e) of
               Some x \<Rightarrow> Some (Wrap InvalidSSOSignature x)
             | None \<Rightarrow> None)))"

record MerkleOverrideEvent =
  mo_EventID :: string
  mo_Timestamp :: gotime
  mo_EventType :: string
  mo_AuthorityEpoch :: uint64
  mo_LeaseEpoch :: uint64
  mo_PayloadHash :: bytes
  mo_OverrideEscrow :: EscrowOverrideRecord
  mo_PrevRecordHash :: bytes

subsection \<open>What a token allows\<close>

lemmas durations = minute_def hour_def second_def

lemma CriticalityPolicies_cases:
  assumes "CriticalityPolicies c = Some p"
  obtains "c = CriticalityLifeSafety" "tp_MaxHorizon p = 8 * hour" "tp_MaxAllowableSkew p = 5 * minute"
      "tp_MaxRebootGrace p = 15 * minute" "tp_CompetencySlack p = 0"
  | "c = CriticalitySecondary" "tp_MaxHorizon p = 72 * hour" "tp_MaxAllowableSkew p = 30 * minute"
      "tp_MaxRebootGrace p = 30 * minute" "tp_CompetencySlack p = 24 * hour"
  using assms by (auto simp: CriticalityPolicies_def split: if_splits)

lemma policy_bounds:
  assumes "CriticalityPolicies c = Some p"
  shows "0 < tp_MaxHorizon p" "tp_MaxHorizon p \<le> 72 * hour" "tp_MaxAllowableSkew p \<le> 30 * minute"
    "0 < tp_MaxRebootGrace p" "tp_MaxRebootGrace p \<le> 30 * minute"
  using assms by (elim CriticalityPolicies_cases; simp add: durations)+

lemma IssueTimeHorizonToken_Inr:
  assumes "IssueTimeHorizonToken C n i w u c wall tick skew len e key = Inr t"
  obtains p where "CriticalityPolicies c = Some p" "th_CriticalityClass t = c" "th_InspectorID t = u"
    "th_AnchorWallTime t = wall" "th_AnchorMonoNanos t = tick" "th_MaxSkewAllowed t = skew"
    "th_HorizonDuration t = len" "th_AuthorityEpoch t = e"
    "len \<le> tp_MaxHorizon p" "skew \<le> tp_MaxAllowableSkew p"
  using assms by (auto simp: IssueTimeHorizonToken_def Let_def split: option.splits signer.splits if_splits)

text \<open>The two ways in which an execution time can pass.\<close>

lemma ValidateExecutionTime_None:
  "ValidateExecutionTime t wall tick cp boot = None \<longleftrightarrow>
     cl_WallTimestamp cp \<noteq> 0 \<and> 0 \<le> time_Sub wall (th_AnchorWallTime t) \<and>
     (0 < th_MaxSkewAllowed t \<longrightarrow>
        time_Sub wall (th_AnchorWallTime t) \<le> wrap64 (th_HorizonDuration t + th_MaxSkewAllowed t)) \<and>
     (if tick < cl_MonotonicNanos cp \<or> boot \<noteq> cl_BootSessionID cp then
        boot \<noteq> [] \<and>
        (let remaining = wrap64 (th_HorizonDuration t - time_Sub (cl_WallTimestamp cp) (th_AnchorWallTime t)) in
           0 \<le> remaining \<and> tick \<le> remaining \<and> tick \<le> tp_MaxRebootGrace (policy_or_zero (th_CriticalityClass t)))
      else 0 \<le> wrap64 (tick - th_AnchorMonoNanos t) \<and> wrap64 (tick - th_AnchorMonoNanos t) \<le> th_HorizonDuration t)"
  by (auto simp: ValidateExecutionTime_def Let_def time_IsZero_def not_less)

lemma time_Sub_nonneg: "0 \<le> time_Sub t u \<longleftrightarrow> u \<le> t"
  by (auto simp: time_Sub_def min_int64_def max_int64_def)

lemma time_Sub_le: "time_Sub t u \<le> d \<Longrightarrow> d < max_int64 \<Longrightarrow> t - u \<le> d"
  by (auto simp: time_Sub_def min_int64_def max_int64_def)

lemma wrap64_diff:
  assumes "0 \<le> a" "a \<le> max_int64" "0 \<le> b" "b \<le> max_int64"
  shows "wrap64 (a - b) = a - b"
  by (rule wrap64_id) (use assms in \<open>simp add: in_int64_def min_int64_def max_int64_def\<close>)


text \<open>A skew that is not positive turns the upper bound on the wall clock off: the check then does not
  depend on how late it is. The issuer caps the skew from above only.\<close>

lemma no_skew_no_deadline:
  assumes "th_MaxSkewAllowed t \<le> 0" "th_AnchorWallTime t \<le> wall" "th_AnchorWallTime t \<le> wall'"
  shows "ValidateExecutionTime t wall tick cp boot = ValidateExecutionTime t wall' tick cp boot"
  using assms time_Sub_nonneg [of wall "th_AnchorWallTime t"] time_Sub_nonneg [of wall' "th_AnchorWallTime t"]
  by (simp add: ValidateExecutionTime_def Let_def not_less [symmetric])

text \<open>What the signatures of a token and of an override do not tell apart: text fields that stand next to
  each other are hashed without a separator.\<close>

lemma token_boundary_moves:
  "token_message (t\<lparr>th_TokenID := a, th_WorkPackageID := b @ c\<rparr>) =
   token_message (t\<lparr>th_TokenID := a @ b, th_WorkPackageID := c\<rparr>)"
  "token_message (t\<lparr>th_WorkPackageID := a, th_InspectorID := b @ c\<rparr>) =
   token_message (t\<lparr>th_WorkPackageID := a @ b, th_InspectorID := c\<rparr>)"
  by (simp_all add: token_message_def)

lemma override_boundary_moves:
  "override_message (e\<lparr>eo_OverrideID := a, eo_SubAssemblyID := b @ c\<rparr>) =
   override_message (e\<lparr>eo_OverrideID := a @ b, eo_SubAssemblyID := c\<rparr>)"
  by (simp add: override_message_def)

lemma VerifyToken_cong:
  assumes "token_message t = token_message u" "th_AuthorityEpoch t = th_AuthorityEpoch u"
    "th_IssuerSignature t = th_IssuerSignature u"
  shows "VerifyToken C pub epoch t = VerifyToken C pub epoch u"
  unfolding VerifyToken_def TimeHorizonToken_Digest_def assms by (rule refl)

lemma ValidateQuorum_cong:
  assumes "override_message e = override_message f" "eo_PermanentFlag e = eo_PermanentFlag f"
    "eo_TombstoneSequence e = eo_TombstoneSequence f" "eo_TdKeyDID e = eo_TdKeyDID f"
    "eo_SsoKeyDID e = eo_SsoKeyDID f" "eo_TdSignature e = eo_TdSignature f" "eo_SsoSignature e = eo_SsoSignature f"
  shows "ValidateQuorum C td sso sla stored tomb arrival e = ValidateQuorum C td sso sla stored tomb arrival f"
  unfolding ValidateQuorum_def CanonicalDigest_def assms by (rule refl)

text \<open>A signature does not bind the text fields of a token or of an override one by one. A token that
  verifies also verifies for another work package and another inspector, when the boundary between
  the fields is moved, and the two signatures of an override also release another sub-assembly.\<close>

theorem signatures_cover_moved_fields:
  "VerifyToken C pub epoch (t\<lparr>th_WorkPackageID := a, th_InspectorID := b @ c\<rparr>) =
     VerifyToken C pub epoch (t\<lparr>th_WorkPackageID := a @ b, th_InspectorID := c\<rparr>) \<and>
   ValidateQuorum C td sso sla stored tomb arrival (o1\<lparr>eo_OverrideID := a, eo_SubAssemblyID := b @ c\<rparr>) =
     ValidateQuorum C td sso sla stored tomb arrival (o1\<lparr>eo_OverrideID := a @ b, eo_SubAssemblyID := c\<rparr>)"
  by (intro conjI VerifyToken_cong ValidateQuorum_cong token_boundary_moves(2) override_boundary_moves) simp_all

subsection \<open>The gate\<close>

text \<open>The gate allows an execution exactly for the inspector of lease and token, on hardware of the
  class of the token, with the first competency on file for the skill neither revoked nor out of
  date, where the concession after the last day is one day for secondary hardware and nothing for
  life-safety hardware. It blocks whatever it does not allow.\<close>

theorem gate_allows:
  "(eg_Allowed (EvaluateExecutionGate u lease token cs now) \<longleftrightarrow>
     sl_InspectorID lease = u \<and> th_InspectorID token = u \<and>
     th_CriticalityClass token = sl_CriticalityClass lease \<and>
     (\<exists>c. List.find (\<lambda>c. ic_SkillCode c = sl_RequiredSkill lease) cs = Some c \<and> \<not> ic_IsRevoked c \<and>
        ic_ValidFrom c \<le> now \<and>
        (sl_CriticalityClass lease = CriticalityLifeSafety \<and> now \<le> ic_ValidThrough c \<or>
         sl_CriticalityClass lease = CriticalitySecondary \<and> now \<le> ic_ValidThrough c + 24 * hour))) \<and>
   eg_PartialBlock (EvaluateExecutionGate u lease token cs now) =
     (\<not> eg_Allowed (EvaluateExecutionGate u lease token cs now))"
proof (cases "th_CriticalityClass token = sl_CriticalityClass lease")
  case False
  then show ?thesis by (auto simp: EvaluateExecutionGate_def gate_refuses_def)
next
  case cls: True
  show ?thesis
  proof (cases "CriticalityPolicies (sl_CriticalityClass lease)")
    case None
    then have "sl_CriticalityClass lease \<noteq> CriticalityLifeSafety" "sl_CriticalityClass lease \<noteq> CriticalitySecondary"
      by (auto simp: CriticalityPolicies_def)
    with None cls show ?thesis by (simp add: EvaluateExecutionGate_def gate_refuses_def)
  next
    case (Some p)
    have ne: "CriticalityLifeSafety \<noteq> CriticalitySecondary"
      by (simp add: CriticalityLifeSafety_def CriticalitySecondary_def)
    show ?thesis
    proof (cases "List.find (\<lambda>c. ic_SkillCode c = sl_RequiredSkill lease) cs")
      case None
      with Some cls show ?thesis by (simp add: EvaluateExecutionGate_def gate_refuses_def)
    next
      case (Some c)
      have "(at_last \<longleftrightarrow> now \<le> ic_ValidThrough c + tp_CompetencySlack p) \<longleftrightarrow>
        (at_last \<longleftrightarrow> sl_CriticalityClass lease = CriticalityLifeSafety \<and> now \<le> ic_ValidThrough c \<or>
         sl_CriticalityClass lease = CriticalitySecondary \<and> now \<le> ic_ValidThrough c + 24 * hour)" for at_last
        using \<open>CriticalityPolicies _ = Some p\<close> ne by (elim CriticalityPolicies_cases) auto
      then have last: "now \<le> ic_ValidThrough c + tp_CompetencySlack p \<longleftrightarrow>
        sl_CriticalityClass lease = CriticalityLifeSafety \<and> now \<le> ic_ValidThrough c \<or>
         sl_CriticalityClass lease = CriticalitySecondary \<and> now \<le> ic_ValidThrough c + 24 * hour" by blast
      show ?thesis
        using Some \<open>CriticalityPolicies _ = Some p\<close> cls
        by (auto simp: EvaluateExecutionGate_def gate_refuses_def Let_def last [symmetric] not_less)
    qed
  qed
qed

subsection \<open>What a seal binds\<close>

text \<open>The lengths with which a seal can be encoded without loss.\<close>

definition seal_fits :: "SubmissionSeal \<Rightarrow> bool" where
  "seal_fits s \<longleftrightarrow> length (se_DeviceKeyDID s) < 2 ^ 16 \<and> length (se_TokenID s) < 2 ^ 16 \<and>
     length (se_MediaDigests s) < 2 ^ 16 \<and> length (se_AppEd25519Sig s) = 64 \<and>
     (\<forall>a \<in> set (se_MediaDigests s). length (ma_ArtifactID a) < 2 ^ 16 \<and>
        length (ma_ArtifactType a) < 2 ^ 16 \<and> length (ma_SHA256Digest a) = 32)"

lemma media_entries_inject:
  assumes "length xs = length ys" "concat (map media_entry xs) @ us = concat (map media_entry ys) @ vs"
    "\<forall>a \<in> set xs \<union> set ys. length (ma_ArtifactID a) < 2 ^ 16 \<and> length (ma_ArtifactType a) < 2 ^ 16 \<and>
       length (ma_SHA256Digest a) = 32"
  shows "xs = ys \<and> us = vs"
  using assms
proof (induction xs ys rule: list_induct2)
  case (Cons x xs y ys)
  from Cons.prems(1) have "length_prefixed (ma_ArtifactID x) @ length_prefixed (ma_ArtifactType x) @
      ma_SHA256Digest x @ concat (map media_entry xs) @ us =
    length_prefixed (ma_ArtifactID y) @ length_prefixed (ma_ArtifactType y) @
      ma_SHA256Digest y @ concat (map media_entry ys) @ vs"
    by (simp add: media_entry_def [of x] media_entry_def [of y])
  then have i: "ma_ArtifactID x = ma_ArtifactID y" "ma_ArtifactType x = ma_ArtifactType y" and
    r: "ma_SHA256Digest x @ concat (map media_entry xs) @ us = ma_SHA256Digest y @ concat (map media_entry ys) @ vs"
    using length_prefixed_inject Cons.prems(2) by (metis Un_iff list.set_intros(1))+
  moreover from r have "ma_SHA256Digest x = ma_SHA256Digest y"
    "concat (map media_entry xs) @ us = concat (map media_entry ys) @ vs"
    using Cons.prems(2) by simp_all
  ultimately show ?case using Cons.IH Cons.prems(2) by (simp add: MediaArtifactDigest.equality)
qed simp

text \<open>C20: The hardware signature of a seal binds the whole submission: two seals of encodable length with
  one composite digest agree in device, token, lease epoch, payload and app signature and carry the
  same artifacts up to their order, unless SHA-256 collides on the two messages. Any sort that keeps
  the artifacts will do.\<close>

theorem seal_binds_submission:
  assumes "\<And>xs. mset (sortSlice xs) = mset xs" and "seal_fits s" "seal_fits t"
    and "inj_on (sha256 C) {seal_message sortSlice s, seal_message sortSlice t}"
    and "DeriveCompositeDigest C sortSlice s = DeriveCompositeDigest C sortSlice t"
  shows "se_DeviceKeyDID s = se_DeviceKeyDID t \<and> se_TokenID s = se_TokenID t \<and>
    se_LeaseEpoch s = se_LeaseEpoch t \<and> mset (se_MediaDigests s) = mset (se_MediaDigests t) \<and>
    se_DataPayload s = se_DataPayload t \<and> se_AppEd25519Sig s = se_AppEd25519Sig t"
proof -
  let ?x = "sortSlice (se_MediaDigests s)" and ?y = "sortSlice (se_MediaDigests t)"
  have set: "set ?x = set (se_MediaDigests s)" "set ?y = set (se_MediaDigests t)"
    and len: "length ?x = length (se_MediaDigests s)" "length ?y = length (se_MediaDigests t)"
    using assms(1) by (metis set_mset_mset, metis set_mset_mset, metis size_mset, metis size_mset)
  note fs = assms(2) [unfolded seal_fits_def] and ft = assms(3) [unfolded seal_fits_def]
  have "seal_message sortSlice s = seal_message sortSlice t"
    using inj_onD [OF assms(4) assms(5) [unfolded DeriveCompositeDigest_def]] by simp
  then have "length_prefixed (se_DeviceKeyDID s) @ length_prefixed (se_TokenID s) @ be64 (se_LeaseEpoch s) @
      be16 (length ?x) @ concat (map media_entry ?x) @ se_DataPayload s @ se_AppEd25519Sig s =
    length_prefixed (se_DeviceKeyDID t) @ length_prefixed (se_TokenID t) @ be64 (se_LeaseEpoch t) @
      be16 (length ?y) @ concat (map media_entry ?y) @ se_DataPayload t @ se_AppEd25519Sig t"
    by (simp add: seal_message_def Let_def)
  then have 1: "se_DeviceKeyDID s = se_DeviceKeyDID t" "se_TokenID s = se_TokenID t"
    and r: "be64 (se_LeaseEpoch s) @ be16 (length ?x) @ concat (map media_entry ?x) @ se_DataPayload s @ se_AppEd25519Sig s =
      be64 (se_LeaseEpoch t) @ be16 (length ?y) @ concat (map media_entry ?y) @ se_DataPayload t @ se_AppEd25519Sig t"
    using length_prefixed_inject fs ft by metis+
  from r have 2: "se_LeaseEpoch s = se_LeaseEpoch t" "be16 (length ?x) = be16 (length ?y)"
    and c: "concat (map media_entry ?x) @ se_DataPayload s @ se_AppEd25519Sig s =
      concat (map media_entry ?y) @ se_DataPayload t @ se_AppEd25519Sig t"
    by simp_all
  have "length ?x = length ?y" using be16_inject [OF 2(2)] len fs ft by simp
  then have "?x = ?y \<and> se_DataPayload s @ se_AppEd25519Sig s = se_DataPayload t @ se_AppEd25519Sig t"
    by (rule media_entries_inject [OF _ c]) (use fs ft set in auto)
  then show ?thesis using 1 2(1) assms(1) fs ft by (metis append_eq_append_conv)
qed

subsection \<open>A token and a seal, for the witnesses\<close>

definition demo_trust :: trust_crypto where
  "demo_trust = \<lparr>sha256 = \<lambda>x. x, hmac_sha256 = \<lambda>k x. [], ed25519_verify = \<lambda>k x s. s = k @ x,
     ed25519_sign = \<lambda>k x. k @ x, ecdsa_sign = \<lambda>k n x. None, ecdsa_verify = \<lambda>k x r s. False\<rparr>"

definition demo_token :: TimeHorizonToken where
  "demo_token = \<lparr>th_TokenID = ''t1'', th_WorkPackageID = ''w1'', th_InspectorID = ''u1'',
     th_CriticalityClass = CriticalityLifeSafety, th_AnchorWallTime = unix_epoch, th_AnchorMonoNanos = 0,
     th_MaxSkewAllowed = minute, th_HorizonDuration = hour, th_AuthorityEpoch = 3, th_IssuerSignature = []\<rparr>"

lemma demo_token_issued:
  "IssueTimeHorizonToken demo_trust 0 ''t1'' ''w1'' ''u1'' CriticalityLifeSafety unix_epoch 0 minute hour 3
     (Ed25519Private ''k'') = Inr (demo_token\<lparr>th_IssuerSignature := ''k'' @ token_message demo_token\<rparr>)"
  by (simp add: IssueTimeHorizonToken_def CriticalityPolicies_def demo_trust_def demo_token_def durations
      TimeHorizonToken_Digest_def Let_def)


definition demo_seal :: SubmissionSeal where
  "demo_seal = \<lparr>se_DeviceKeyDID = ''d1'', se_TokenID = ''t1'', se_LeaseEpoch = 3, se_MediaDigests = [],
     se_DataPayload = ''x'', se_AppEd25519Sig = replicate 64 (CHR ''s''), se_HwP256Sig = ''h''\<rparr>"

lemma seal_binds_submission_witness:
  "se_DataPayload (demo_seal\<lparr>se_HwP256Sig := ''h2''\<rparr>) = se_DataPayload demo_seal"
  using seal_binds_submission [of id "demo_seal\<lparr>se_HwP256Sig := ''h2''\<rparr>" demo_seal demo_trust]
  by (simp add: seal_fits_def demo_seal_def seal_message_def DeriveCompositeDigest_def Let_def)

end
