(* ===== verification/Postgres.thy ===== *)
theory Postgres
  imports Contracts
begin

text \<open>
  Scoped transactions, \<open>internal/shared/pgtx/tx.go\<close>: the circuit breaker in front of the database and
  \<open>BeginScope\<close>, with which the repositories open a transaction for a tenant and an organization.

  \<^item> The breaker is one value; a call reads its clock at \<open>now\<close>. The counter of failures is a
    32-bit word and wraps around. What the database answers to \<open>BEGIN\<close> and to the setting of the
    session variables is the argument \<open>db_answer\<close>.
  \<^item> A \<open>TIMESTAMPTZ\<close> column holds whole microseconds (\<open>pg_time\<close>), a \<open>BIGINT\<close> column 64 signed bits.
\<close>

subsection \<open>Columns\<close>

definition pg_time :: "gotime \<Rightarrow> gotime" where
  "pg_time t = t div 1000 * 1000"

definition bigint_ok :: "uint64 \<Rightarrow> bool" where
  "bigint_ok w \<longleftrightarrow> unat w < 2 ^ 63"

lemma pg_time_le: "pg_time t \<le> t"
  using pos_mod_sign [of 1000 t] mult_div_mod_eq [of 1000 t] by (simp add: pg_time_def mult.commute)

lemma pg_time_mono: "t \<le> u \<Longrightarrow> pg_time t \<le> pg_time u"
  by (simp add: pg_time_def zdiv_mono1)

lemma pg_time_idem [simp]: "pg_time (pg_time t) = pg_time t"
  by (simp add: pg_time_def)

text \<open>An update keeps what it does not set.\<close>

lemma map_map_keeps: "(\<And>x. x \<in> set xs \<Longrightarrow> g (f x) = g x) \<Longrightarrow> map g (map f xs) = map g xs"
  by simp

subsection \<open>The circuit breaker\<close>

datatype breaker_state = Closed | HalfOpen | Open

record CircuitBreaker =
  cb_maxFailures :: "32 word"
  cb_cooldown :: duration
  cb_state :: breaker_state
  cb_failCount :: "32 word"
  cb_lastFailure :: gotime

definition NewCircuitBreaker :: "32 word \<Rightarrow> duration \<Rightarrow> CircuitBreaker" where
  "NewCircuitBreaker maxFailures cooldown = \<lparr>cb_maxFailures = maxFailures, cb_cooldown = cooldown,
     cb_state = Closed, cb_failCount = 0, cb_lastFailure = unix_epoch\<rparr>"

datatype tx_error = ErrNilDB | ErrInvalidScope | ErrCircuitOpen | BeginFailed | ConfigFailed

definition Allow :: "gotime \<Rightarrow> CircuitBreaker \<Rightarrow> tx_error option \<times> CircuitBreaker" where
  "Allow now cb =
     (case cb_state cb of
        Closed \<Rightarrow> (None, cb)
      | HalfOpen \<Rightarrow> (None, cb)
      | Open \<Rightarrow>
          if cb_cooldown cb < time_Sub now (cb_lastFailure cb) then (None, cb\<lparr>cb_state := HalfOpen\<rparr>)
          else (Some ErrCircuitOpen, cb))"

definition RecordSuccess :: "CircuitBreaker \<Rightarrow> CircuitBreaker" where
  "RecordSuccess cb = cb\<lparr>cb_failCount := 0, cb_state := Closed\<rparr>"

definition RecordFailure :: "gotime \<Rightarrow> CircuitBreaker \<Rightarrow> CircuitBreaker" where
  "RecordFailure now cb =
     (let n = cb_failCount cb + 1;
          cb' = cb\<lparr>cb_lastFailure := now, cb_failCount := n\<rparr> in
      if cb_maxFailures cb \<le> n then cb'\<lparr>cb_state := Open\<rparr> else cb')"

datatype db_answer = NoDB | RefusesBegin | RefusesConfig | Begins

type_synonym scope = "string \<times> string"

definition BeginScopeOpts ::
    "gotime \<Rightarrow> db_answer \<Rightarrow> string \<Rightarrow> string \<Rightarrow> CircuitBreaker \<Rightarrow> (tx_error + scope) \<times> CircuitBreaker" where
  "BeginScopeOpts now db tenantID organizationID cb =
     (case Allow now cb of
        (Some e, cb') \<Rightarrow> (Inl e, cb')
      | (None, cb') \<Rightarrow>
          if db = NoDB then (Inl ErrNilDB, cb')
          else if blank tenantID \<or> blank organizationID then (Inl ErrInvalidScope, cb')
          else if db = RefusesBegin then (Inl BeginFailed, RecordFailure now cb')
          else if db = RefusesConfig then (Inl ConfigFailed, RecordFailure now cb')
          else (Inr (tenantID, organizationID), RecordSuccess cb'))"

subsection \<open>Runs of the breaker\<close>

text \<open>One call: when, what the database would answer, and for whom.\<close>

type_synonym tx_call = "gotime \<times> db_answer \<times> string \<times> string"

primrec begin_next :: "tx_call \<Rightarrow> CircuitBreaker \<Rightarrow> CircuitBreaker" where
  "begin_next (now, rest) cb = (case rest of (db, ten, org) \<Rightarrow> snd (BeginScopeOpts now db ten org cb))"

definition breaker_ok :: "32 word \<Rightarrow> duration \<Rightarrow> CircuitBreaker \<Rightarrow> bool" where
  "breaker_ok m d cb \<longleftrightarrow> cb_maxFailures cb = m \<and> cb_cooldown cb = d \<and>
     (cb_state cb = Closed \<longrightarrow> cb_failCount cb < m)"

lemma breaker_ok_step: "0 < m \<Longrightarrow> breaker_ok m d cb \<Longrightarrow> breaker_ok m d (begin_next p cb)"
  by (cases p)
    (auto simp: breaker_ok_def BeginScopeOpts_def Allow_def RecordSuccess_def RecordFailure_def Let_def
      split: breaker_state.splits)

lemma breaker_ok_run: "0 < m \<Longrightarrow> breaker_ok m d cb \<Longrightarrow> breaker_ok m d (run_ops begin_next ps cb)"
  by (induction ps arbitrary: cb) (simp_all add: breaker_ok_step del: begin_next.simps)

text \<open>A call that the database refuses.\<close>

definition refused_call :: "tx_call \<Rightarrow> bool" where
  "refused_call p \<longleftrightarrow> (case p of (now, db, ten, org) \<Rightarrow>
     db \<in> {RefusesBegin, RefusesConfig} \<and> \<not> blank ten \<and> \<not> blank org)"

lemma refused_step:
  assumes "refused_call p" "cb_state cb = Closed" "breaker_ok m d cb" "0 < m"
  shows "cb_lastFailure (begin_next p cb) = fst p"
    "cb_state (begin_next p cb) \<in> {Closed, Open}"
    "cb_state (begin_next p cb) = Open \<longleftrightarrow> unat m \<le> Suc (unat (cb_failCount cb))"
    "cb_state (begin_next p cb) = Closed \<Longrightarrow> unat (cb_failCount (begin_next p cb)) = Suc (unat (cb_failCount cb))"
proof -
  have less: "cb_failCount cb < m" and m: "cb_maxFailures cb = m" using assms(2,3) by (simp_all add: breaker_ok_def)
  then have "unat (cb_failCount cb) < unat m" by (simp add: word_less_nat_alt)
  moreover have "unat m < 2 ^ 32" using unsigned_less [of m] by simp
  ultimately have suc: "unat (cb_failCount cb + 1) = Suc (unat (cb_failCount cb))"
    by (simp add: unat_word_ariths)
  obtain now db ten org where p: "p = (now, db, ten, org)" by (cases p)
  have call: "begin_next p cb = RecordFailure now cb"
    using assms(1,2) p by (auto simp: refused_call_def BeginScopeOpts_def Allow_def)
  show "cb_lastFailure (begin_next p cb) = fst p"
    "cb_state (begin_next p cb) \<in> {Closed, Open}"
    "cb_state (begin_next p cb) = Open \<longleftrightarrow> unat m \<le> Suc (unat (cb_failCount cb))"
    "cb_state (begin_next p cb) = Closed \<Longrightarrow> unat (cb_failCount (begin_next p cb)) = Suc (unat (cb_failCount cb))"
    unfolding call using assms(2) p m suc
    by (auto simp: RecordFailure_def Let_def word_le_nat_alt split: if_splits)
qed

lemma refused_run:
  assumes "\<forall>p \<in> set ps. refused_call p" "cb_state cb = Closed" "breaker_ok m d cb" "0 < m"
    and "unat m \<le> unat (cb_failCount cb) + length ps" "length ps \<le> unat m - unat (cb_failCount cb)"
  shows "cb_state (run_ops begin_next ps cb) = Open \<and> cb_lastFailure (run_ops begin_next ps cb) = fst (last ps)"
  using assms
proof (induction ps arbitrary: cb)
  case Nil
  then have "cb_failCount cb < m" by (simp add: breaker_ok_def)
  with Nil.prems(5) show ?case by (simp add: word_less_nat_alt)
next
  case (Cons p ps)
  have p: "refused_call p" using Cons.prems(1) by simp
  note step = refused_step [OF p Cons.prems(2-4)]
  show ?case
  proof (cases ps)
    case Nil
    with Cons.prems(5) step show ?thesis by simp
  next
    case (Cons q qs)
    with Cons.prems(6) have "\<not> unat m \<le> Suc (unat (cb_failCount cb))" by simp
    with step(2,3) have c: "cb_state (begin_next p cb) = Closed" by blast
    have "breaker_ok m d (begin_next p cb)" by (rule breaker_ok_step [OF Cons.prems(4,3)])
    from Cons.IH [OF _ c this Cons.prems(4)] Cons.prems(1,5,6) step(4) [OF c] Cons
    show ?thesis by simp
  qed
qed

text \<open>The breaker protects the database and lets go again. From a closed breaker without failures, the
  configured number of refused transactions in a row opens it; while it is open and the cooldown
  since the last failure has not passed, every call is refused without a change and without reaching
  the database; after the cooldown the next call goes through, and its success closes the breaker
  with the counter at zero. These hold after any calls before, since a breaker that is closed has
  counted fewer failures than it allows.\<close>

theorem breaker_opens_and_recovers:
  assumes "0 < m" "\<forall>p \<in> set fs. refused_call p" "length fs = unat m"
    and "cb = run_ops begin_next ps (NewCircuitBreaker m d)" "cb_state cb = Closed" "cb_failCount cb = 0"
    and "cb' = run_ops begin_next fs cb"
  shows "(time_Sub now (fst (last fs)) \<le> d \<longrightarrow> BeginScopeOpts now db ten org cb' = (Inl ErrCircuitOpen, cb')) \<and>
    (d < time_Sub now (fst (last fs)) \<and> \<not> blank ten \<and> \<not> blank org \<longrightarrow>
      (\<exists>cb''. BeginScopeOpts now Begins ten org cb' = (Inr (ten, org), cb'') \<and>
         cb_state cb'' = Closed \<and> cb_failCount cb'' = 0))"
proof -
  have "breaker_ok m d (NewCircuitBreaker m d)" using assms(1) by (simp add: breaker_ok_def NewCircuitBreaker_def)
  then have ok: "breaker_ok m d cb" unfolding assms(4) by (rule breaker_ok_run [OF assms(1)])
  have "cb_state cb' = Open" "cb_lastFailure cb' = fst (last fs)"
    using refused_run [OF assms(2,5) ok assms(1)] assms(3,6,7) by simp_all
  moreover have "cb_cooldown cb' = d"
    using breaker_ok_run [OF assms(1) ok, of fs] assms(7) by (simp add: breaker_ok_def)
  ultimately show ?thesis by (simp add: BeginScopeOpts_def Allow_def RecordSuccess_def)
qed

lemma breaker_opens_and_recovers_witness:
  "BeginScopeOpts 3000000007 Begins ''t1'' ''o1''
     (run_ops begin_next [(5, RefusesBegin, ''t1'', ''o1''), (7, RefusesConfig, ''t1'', ''o1'')]
       (NewCircuitBreaker 2 3000000000)) =
   (Inl ErrCircuitOpen, run_ops begin_next [(5, RefusesBegin, ''t1'', ''o1''), (7, RefusesConfig, ''t1'', ''o1'')]
       (NewCircuitBreaker 2 3000000000))"
  using breaker_opens_and_recovers [of 2 "[(5, RefusesBegin, ''t1'', ''o1''), (7, RefusesConfig, ''t1'', ''o1'')]"
      "NewCircuitBreaker 2 3000000000" "[]" 3000000000 _ 3000000007]
  by (simp add: refused_call_def NewCircuitBreaker_def not_blank_graphic graphic_code time_Sub_def max_int64_def
      min_int64_def del: begin_next.simps)

end
