(* ===== verification/Edge_Coordinator.thy ===== *)
theory Edge_Coordinator
  imports Field_Trust Postgres "HOL-Library.AList"
begin

text \<open>
  The lease coordinator of the edge appliance, \<open>pkg/edgecoordinator/coordinator.go\<close>, on its six tables
  (migration 0085): leases, drafts, tombstones, the log of authority epochs, device revocations and
  the audit log of overrides.

  \<^item> A table with a primary key is an association list under that key, the drafts and the audit log
    are lists of rows; the rows of the log stand in the order of their sequence numbers. Every
    statement names the tenant of its coordinator, which is the tenant that the row-level security
    of the transaction admits.
  \<^item> A call is one transaction. What the database may refuse besides what is written out (a column
    width, a lost connection, a failed commit) is the predicate \<open>ed_admits\<close> on the tables to be
    committed; an error leaves the tables as they were. \<open>BIGINT\<close> columns hold numbers below 2^63,
    \<open>TIMESTAMPTZ\<close> columns whole microseconds (\<open>pg_time\<close>).
  \<^item> \<open>SubmitInspection\<close> reads again after its update has matched no row, and others may commit in
    between; its two statements are two operations of the model, \<open>submit_update\<close> and
    \<open>submit_diagnose\<close>.
  \<^item> Whether the database takes a locking clause on an aggregate is a field of the session
    (\<open>ed_aggregate_lock\<close>): PostgreSQL documents that it does not.
\<close>

datatype edge_error =
    ErrStaleBundleEpoch | ErrInvalidBundleSignature trust_error | ErrBundleExpired | ErrBundleFutureDated
  | ErrBundleInvalidWindow | ErrPathTraversal | BundleUnreadable | BundleMalformed
  | ErrLeaseNotFound | ErrLeaseNotActive string | ErrLeaseExpired | ErrLeaseEpochMismatch
  | ErrDraftNotFound | ErrCorruptedMerkleChain | ErrLeaseActiveConflict
  | QuorumFailed trust_error | DatabaseFailure

record LeaseRow =
  lr_OrganizationID :: string
  lr_ParentAssetDID :: string
  lr_AssignedDeviceID :: string
  lr_InspectorID :: string
  lr_RequiredSkill :: string
  lr_CriticalityClass :: string
  lr_LeaseEpoch :: uint64
  lr_LeaseStart :: gotime
  lr_ValidUntil :: gotime
  lr_State :: string
  lr_UpdatedAt :: gotime

record DraftRow =
  dw_TenantID :: string
  dw_OrganizationID :: string
  dw_DraftID :: string
  dw_SubAssemblyID :: string
  dw_ParentAssetDID :: string
  dw_OriginalInspectorID :: string
  dw_LeaseEpoch :: uint64
  dw_State :: string
  dw_OverrideID :: "string option"
  dw_CreatedAt :: gotime
  dw_UpdatedAt :: gotime

record TombstoneRow =
  tb_OrganizationID :: string
  tb_LeaseEpoch :: uint64
  tb_Sequence :: uint64
  tb_RevokedDeviceID :: string
  tb_RevocationTimestamp :: gotime
  tb_AuthorizingDID :: string
  tb_Reason :: string

record EpochRow =
  er_OrganizationID :: string
  er_AuthorityRootDID :: string
  er_AppliedAt :: gotime
  er_BundleDigest :: bytes

record RevocationRow =
  rv_OrganizationID :: string
  rv_RevokedAtEpoch :: uint64
  rv_Reason :: string
  rv_RecordedAt :: gotime

record MerkleRow =
  mk_TenantID :: string
  mk_OrganizationID :: string
  mk_SequenceID :: int
  mk_SubAssemblyID :: string
  mk_LeaseEpoch :: uint64
  mk_AuthorityEpoch :: uint64
  mk_EventType :: string
  mk_PayloadHash :: bytes
  mk_PrevEventHash :: bytes
  mk_EventHash :: bytes
  mk_PermanentFlag :: bool
  mk_CommittedAt :: gotime

type_synonym row_key = "string \<times> string"

record EdgeStore =
  es_leases :: "(row_key \<times> LeaseRow) list"
  es_drafts :: "DraftRow list"
  es_tombstones :: "(row_key \<times> TombstoneRow) list"
  es_epochs :: "((string \<times> uint64) \<times> EpochRow) list"
  es_revocations :: "(row_key \<times> RevocationRow) list"
  es_log :: "MerkleRow list"
  es_nextSequence :: int

record LeaseCoordinator =
  co_tenantID :: string
  co_orgID :: string
  co_edgeAuthorityDID :: string

record edge_session =
  ed_admits :: "EdgeStore \<Rightarrow> bool"
  ed_aggregate_lock :: bool
  ed_uuid :: "string \<Rightarrow> string"

subsection \<open>Leases\<close>

definition lease_row :: "LeaseCoordinator \<Rightarrow> SubAssemblyLease \<Rightarrow> LeaseRow" where
  "lease_row c lease = \<lparr>lr_OrganizationID = co_orgID c, lr_ParentAssetDID = sl_ParentAssetDID lease,
     lr_AssignedDeviceID = sl_AssignedDeviceID lease, lr_InspectorID = sl_InspectorID lease,
     lr_RequiredSkill = sl_RequiredSkill lease, lr_CriticalityClass = sl_CriticalityClass lease,
     lr_LeaseEpoch = sl_LeaseEpoch lease, lr_LeaseStart = pg_time (sl_LeaseStart lease),
     lr_ValidUntil = pg_time (sl_ValidUntil lease), lr_State = ''ACTIVE'',
     lr_UpdatedAt = pg_time (sl_LeaseStart lease)\<rparr>"

definition commit_lease :: "edge_session \<Rightarrow> EdgeStore \<Rightarrow> EdgeStore \<Rightarrow> edge_error option \<times> EdgeStore" where
  "commit_lease db old new = (if ed_admits db new then (None, new) else (Some DatabaseFailure, old))"

definition DispatchLease ::
    "LeaseCoordinator \<Rightarrow> edge_session \<Rightarrow> SubAssemblyLease \<Rightarrow> EdgeStore \<Rightarrow> edge_error option \<times> EdgeStore" where
  "DispatchLease c db lease s =
     (let k = (co_tenantID c, sl_SubAssemblyID lease); row = lease_row c lease in
      if \<not> bigint_ok (sl_LeaseEpoch lease) then (Some DatabaseFailure, s)
      else (case map_of (es_leases s) k of
          None \<Rightarrow> commit_lease db s (s\<lparr>es_leases := AList.update k row (es_leases s)\<rparr>)
        | Some r \<Rightarrow>
            if lr_State r \<in> {''RELEASED'', ''COMPLETED''} \<and> lr_LeaseEpoch r < sl_LeaseEpoch lease then
              commit_lease db s (s\<lparr>es_leases :=
                AList.update k (row\<lparr>lr_OrganizationID := lr_OrganizationID r\<rparr>) (es_leases s)\<rparr>)
            else (Some ErrLeaseActiveConflict, s)))"

record transitionRecord =
  tr_subAssemblyID :: string
  tr_parentAssetDID :: string
  tr_assignedDeviceID :: string
  tr_inspectorID :: string
  tr_leaseEpoch :: uint64

definition upsert_tombstone ::
    "LeaseCoordinator \<Rightarrow> transitionRecord \<Rightarrow> gotime \<Rightarrow> EdgeStore \<Rightarrow> edge_error + EdgeStore" where
  "upsert_tombstone c t edgeNow s =
     (let k = (co_tenantID c, tr_subAssemblyID t);
          row = \<lparr>tb_OrganizationID = co_orgID c, tb_LeaseEpoch = tr_leaseEpoch t, tb_Sequence = 1,
                 tb_RevokedDeviceID = tr_assignedDeviceID t, tb_RevocationTimestamp = pg_time edgeNow,
                 tb_AuthorizingDID = co_edgeAuthorityDID c, tb_Reason = ''LEASE_OVERRUN_EXPIRED''\<rparr> in
      (case map_of (es_tombstones s) k of
         None \<Rightarrow> Inr (s\<lparr>es_tombstones := AList.update k row (es_tombstones s)\<rparr>)
       | Some r \<Rightarrow>
           if \<not> bigint_ok (tb_Sequence r + 1) then Inl DatabaseFailure
           else Inr (s\<lparr>es_tombstones := AList.update k
             (row\<lparr>tb_OrganizationID := tb_OrganizationID r, tb_Sequence := tb_Sequence r + 1\<rparr>)
             (es_tombstones s)\<rparr>)))"

definition insert_draft ::
    "LeaseCoordinator \<Rightarrow> edge_session \<Rightarrow> transitionRecord \<Rightarrow> gotime \<Rightarrow> EdgeStore \<Rightarrow> edge_error + EdgeStore" where
  "insert_draft c db t edgeNow s =
     (let row = \<lparr>dw_TenantID = co_tenantID c, dw_OrganizationID = co_orgID c,
                 dw_DraftID = ed_uuid db (tr_subAssemblyID t), dw_SubAssemblyID = tr_subAssemblyID t,
                 dw_ParentAssetDID = tr_parentAssetDID t, dw_OriginalInspectorID = tr_inspectorID t,
                 dw_LeaseEpoch = tr_leaseEpoch t, dw_State = ''AWAITING_RECONCILIATION'',
                 dw_OverrideID = None, dw_CreatedAt = pg_time edgeNow, dw_UpdatedAt = pg_time edgeNow\<rparr> in
      if list_ex (\<lambda>d. dw_TenantID d = co_tenantID c \<and> dw_SubAssemblyID d = tr_subAssemblyID t \<and>
                      dw_LeaseEpoch d = tr_leaseEpoch t) (es_drafts s) then Inr s
      else if list_ex (\<lambda>d. dw_TenantID d = co_tenantID c \<and> dw_DraftID d = dw_DraftID row) (es_drafts s)
        then Inl DatabaseFailure
      else Inr (s\<lparr>es_drafts := es_drafts s @ [row]\<rparr>))"

definition provisionOverrunArtifacts ::
    "LeaseCoordinator \<Rightarrow> edge_session \<Rightarrow> transitionRecord \<Rightarrow> gotime \<Rightarrow> EdgeStore \<Rightarrow> edge_error + EdgeStore" where
  "provisionOverrunArtifacts c db t edgeNow s =
     (case upsert_tombstone c t edgeNow s of
        Inl e \<Rightarrow> Inl e
      | Inr s' \<Rightarrow> insert_draft c db t edgeNow s')"

definition transition_of :: "string \<Rightarrow> LeaseRow \<Rightarrow> transitionRecord" where
  "transition_of sub r = \<lparr>tr_subAssemblyID = sub, tr_parentAssetDID = lr_ParentAssetDID r,
     tr_assignedDeviceID = lr_AssignedDeviceID r, tr_inspectorID = lr_InspectorID r,
     tr_leaseEpoch = lr_LeaseEpoch r\<rparr>"

text \<open>The first statement of a submission: \<open>None\<close> when it matched no row, and the submission goes on.\<close>

definition submit_update ::
    "LeaseCoordinator \<Rightarrow> edge_session \<Rightarrow> string \<Rightarrow> gotime \<Rightarrow> EdgeStore \<Rightarrow>
     (edge_error option \<times> EdgeStore) option" where
  "submit_update c db sub edgeNow s =
     (let k = (co_tenantID c, sub) in
      case map_of (es_leases s) k of
        None \<Rightarrow> None
      | Some r \<Rightarrow>
          if lr_State r = ''ACTIVE'' \<and> pg_time edgeNow \<le> lr_ValidUntil r then
            Some (commit_lease db s (s\<lparr>es_leases := AList.update k
              (r\<lparr>lr_State := ''COMPLETED'', lr_UpdatedAt := pg_time edgeNow\<rparr>) (es_leases s)\<rparr>))
          else None)"

definition submit_diagnose ::
    "LeaseCoordinator \<Rightarrow> edge_session \<Rightarrow> string \<Rightarrow> gotime \<Rightarrow> EdgeStore \<Rightarrow> edge_error option \<times> EdgeStore" where
  "submit_diagnose c db sub edgeNow s =
     (let k = (co_tenantID c, sub) in
      case map_of (es_leases s) k of
        None \<Rightarrow> (Some ErrLeaseNotFound, s)
      | Some r \<Rightarrow>
          if lr_State r = ''ACTIVE'' then
            if lr_ValidUntil r < edgeNow then
              (let s' = s\<lparr>es_leases := AList.update k
                     (r\<lparr>lr_State := ''OVERRUN_DRAFT'', lr_UpdatedAt := pg_time edgeNow\<rparr>) (es_leases s)\<rparr> in
               case provisionOverrunArtifacts c db (transition_of sub r) edgeNow s' of
                 Inl e \<Rightarrow> (Some e, s)
               | Inr s'' \<Rightarrow>
                   if ed_admits db s'' then (Some ErrLeaseExpired, s'') else (Some DatabaseFailure, s))
            else (Some (ErrLeaseNotActive (lr_State r)), s)
          else (Some (ErrLeaseNotActive (lr_State r)), s))"

text \<open>The call, with what others commit between its statements.\<close>

definition SubmitInspection ::
    "LeaseCoordinator \<Rightarrow> edge_session \<Rightarrow> (EdgeStore \<Rightarrow> EdgeStore) \<Rightarrow> string \<Rightarrow> gotime \<Rightarrow> EdgeStore \<Rightarrow>
     edge_error option \<times> EdgeStore" where
  "SubmitInspection c db others sub edgeNow s =
     (case submit_update c db sub edgeNow s of
        Some r \<Rightarrow> r
      | None \<Rightarrow> submit_diagnose c db sub edgeNow (others s))"

definition lease_expired :: "LeaseCoordinator \<Rightarrow> gotime \<Rightarrow> row_key \<times> LeaseRow \<Rightarrow> bool" where
  "lease_expired c edgeNow e \<longleftrightarrow> fst (fst e) = co_tenantID c \<and> lr_State (snd e) = ''ACTIVE'' \<and>
     lr_ValidUntil (snd e) \<le> pg_time edgeNow"

definition overrun_row :: "gotime \<Rightarrow> LeaseRow \<Rightarrow> LeaseRow" where
  "overrun_row edgeNow r = r\<lparr>lr_State := ''OVERRUN_DRAFT'', lr_UpdatedAt := pg_time edgeNow\<rparr>"

fun provision_all ::
    "LeaseCoordinator \<Rightarrow> edge_session \<Rightarrow> gotime \<Rightarrow> transitionRecord list \<Rightarrow> EdgeStore \<Rightarrow> edge_error + EdgeStore" where
  "provision_all c db edgeNow [] s = Inr s"
| "provision_all c db edgeNow (t # ts) s =
     (case provisionOverrunArtifacts c db t edgeNow s of
        Inl e \<Rightarrow> Inl e
      | Inr s' \<Rightarrow> provision_all c db edgeNow ts s')"

definition SweepExpiredLeases ::
    "LeaseCoordinator \<Rightarrow> edge_session \<Rightarrow> gotime \<Rightarrow> EdgeStore \<Rightarrow> edge_error option \<times> EdgeStore" where
  "SweepExpiredLeases c db edgeNow s =
     (let expired = filter (lease_expired c edgeNow) (es_leases s);
          transitions = map (\<lambda>((tenant, sub), r). transition_of sub r) expired;
          s' = s\<lparr>es_leases := map (\<lambda>e. if lease_expired c edgeNow e
                   then (fst e, overrun_row edgeNow (snd e)) else e) (es_leases s)\<rparr> in
      case provision_all c db edgeNow transitions s' of
        Inl e \<Rightarrow> (Some e, s)
      | Inr s'' \<Rightarrow> commit_lease db s s'')"

subsection \<open>Authority epochs\<close>

record RevocationEntry =
  re_DeviceID :: string
  re_Reason :: string

record EpochBundleManifest =
  eb_NewEpoch :: uint64
  eb_IssuedAt :: gotime
  eb_ValidUntil :: gotime
  eb_RevokedDevices :: "RevocationEntry list"
  eb_AuthorityRootDID :: string

record SignedEpochBundle =
  sb_Manifest :: EpochBundleManifest
  sb_Signature :: bytes

definition TagEpochBundle :: bytes where "TagEpochBundle = ''INTEGIN-EPOCH-BUNDLE-v1'' @ [CHR 0x00]"
definition maxBundleFutureSkew :: duration where "maxBundleFutureSkew = 5 * minute"

definition bundle_message :: "EpochBundleManifest \<Rightarrow> bytes" where
  "bundle_message m =
     TagEpochBundle @ eb_AuthorityRootDID m @ be64 (eb_NewEpoch m) @
     be64_int (time_UnixNano (eb_IssuedAt m)) @ be64_int (time_UnixNano (eb_ValidUntil m)) @
     be32 (length (eb_RevokedDevices m)) @
     concat (map (\<lambda>d. re_DeviceID d @ re_Reason d) (eb_RevokedDevices m))"

definition bundle_Digest :: "trust_crypto \<Rightarrow> EpochBundleManifest \<Rightarrow> bytes" where
  "bundle_Digest C m = sha256 C (bundle_message m)"

record EpochIngester =
  in_tenantID :: string
  in_orgID :: string
  in_rootPubKey :: public_key
  in_bundleDir :: string

text \<open>
  Paths are cleaned lists of components, the file system gives the working directory, what a path
  is after its symbolic links, and the contents; \<open>json.Unmarshal\<close> into the bundle is an argument.
\<close>

record filesystem =
  fs_cwd :: "string list option"
  fs_EvalSymlinks :: "string list \<Rightarrow> string list option"
  fs_ReadFile :: "string list \<Rightarrow> bytes option"

fun split_slash :: "string \<Rightarrow> string \<Rightarrow> string list" where
  "split_slash acc [] = [rev acc]"
| "split_slash acc (c # cs) = (if c = CHR ''/'' then rev acc # split_slash [] cs else split_slash (c # acc) cs)"

fun clean_from :: "string list \<Rightarrow> string list \<Rightarrow> string list" where
  "clean_from base [] = base"
| "clean_from base (p # ps) =
     (if p = [] \<or> p = ''.'' then clean_from base ps
      else if p = ''..'' then clean_from (butlast base) ps
      else clean_from (base @ [p]) ps)"

definition filepath_Abs :: "filesystem \<Rightarrow> string \<Rightarrow> string list option" where
  "filepath_Abs fs p =
     (if p \<noteq> [] \<and> hd p = CHR ''/'' then Some (clean_from [] (split_slash [] p))
      else (case fs_cwd fs of None \<Rightarrow> None | Some cwd \<Rightarrow> Some (clean_from cwd (split_slash [] p))))"

text \<open>\<open>filepath.Rel\<close> of two absolute paths: up from the base to the common prefix, down to the target.\<close>

fun filepath_Rel :: "string list \<Rightarrow> string list \<Rightarrow> string list" where
  "filepath_Rel (b # bs) (t # ts) =
     (if b = t then filepath_Rel bs ts else replicate (Suc (length bs)) ''..'' @ t # ts)"
| "filepath_Rel base target = replicate (length base) ''..'' @ target"

definition escapes :: "string list \<Rightarrow> bool" where
  "escapes rel \<longleftrightarrow> rel \<noteq> [] \<and> hd rel = ''..''"

definition resolveBundlePath :: "filesystem \<Rightarrow> string \<Rightarrow> string \<Rightarrow> edge_error + string list" where
  "resolveBundlePath fs bundleDir bundlePath =
     (case filepath_Abs fs bundleDir of
        None \<Rightarrow> Inl BundleUnreadable
      | Some base \<Rightarrow>
         (case filepath_Abs fs bundlePath of
            None \<Rightarrow> Inl BundleUnreadable
          | Some target \<Rightarrow>
              if escapes (filepath_Rel base target) then Inl ErrPathTraversal
              else (case fs_EvalSymlinks fs base of
                  None \<Rightarrow> Inl BundleUnreadable
                | Some realBase \<Rightarrow>
                   (case fs_EvalSymlinks fs target of
                      None \<Rightarrow> Inl BundleUnreadable
                    | Some realTarget \<Rightarrow>
                        if escapes (filepath_Rel realBase realTarget) then Inl ErrPathTraversal
                        else Inr realTarget))))"

definition high_water :: "string \<Rightarrow> EdgeStore \<Rightarrow> uint64" where
  "high_water tenant s = foldr max (map (snd \<circ> fst) (filter (\<lambda>e. fst (fst e) = tenant) (es_epochs s))) 0"

fun upsert_revocations ::
    "string \<Rightarrow> string \<Rightarrow> uint64 \<Rightarrow> gotime \<Rightarrow> RevocationEntry list \<Rightarrow> EdgeStore \<Rightarrow> EdgeStore" where
  "upsert_revocations tenant org epoch edgeNow [] s = s"
| "upsert_revocations tenant org epoch edgeNow (d # ds) s =
     (let k = (tenant, re_DeviceID d);
          row = \<lparr>rv_OrganizationID = (case map_of (es_revocations s) k of
                   None \<Rightarrow> org | Some r \<Rightarrow> rv_OrganizationID r),
                 rv_RevokedAtEpoch = epoch, rv_Reason = re_Reason d, rv_RecordedAt = pg_time edgeNow\<rparr>
      in upsert_revocations tenant org epoch edgeNow ds
           (s\<lparr>es_revocations := AList.update k row (es_revocations s)\<rparr>))"

definition ingest_bundle ::
    "trust_crypto \<Rightarrow> EpochIngester \<Rightarrow> edge_session \<Rightarrow> SignedEpochBundle \<Rightarrow> gotime \<Rightarrow> EdgeStore \<Rightarrow>
     edge_error option \<times> EdgeStore" where
  "ingest_bundle C ing db bundle edgeNow s =
     (let m = sb_Manifest bundle; tenant = in_tenantID ing in
      if eb_ValidUntil m < eb_IssuedAt m then (Some ErrBundleInvalidWindow, s)
      else if eb_ValidUntil m < edgeNow then (Some ErrBundleExpired, s)
      else if edgeNow + maxBundleFutureSkew < eb_IssuedAt m then (Some ErrBundleFutureDated, s)
      else let digest = bundle_Digest C m in
        (case verifySignature C (in_rootPubKey ing) digest (sb_Signature bundle) of
           Some e \<Rightarrow> (Some (ErrInvalidBundleSignature e), s)
         | None \<Rightarrow>
             if \<not> ed_aggregate_lock db then (Some DatabaseFailure, s)
             else if eb_NewEpoch m \<le> high_water tenant s then (Some ErrStaleBundleEpoch, s)
             else if \<not> bigint_ok (eb_NewEpoch m) then (Some DatabaseFailure, s)
             else commit_lease db s
               (upsert_revocations tenant (in_orgID ing) (eb_NewEpoch m) edgeNow (eb_RevokedDevices m)
                 (s\<lparr>es_epochs := AList.update (tenant, eb_NewEpoch m)
                    \<lparr>er_OrganizationID = in_orgID ing, er_AuthorityRootDID = eb_AuthorityRootDID m,
                     er_AppliedAt = pg_time edgeNow, er_BundleDigest = digest\<rparr> (es_epochs s)\<rparr>))))"

definition IngestFromPath ::
    "trust_crypto \<Rightarrow> filesystem \<Rightarrow> (bytes \<Rightarrow> SignedEpochBundle option) \<Rightarrow> EpochIngester \<Rightarrow> edge_session \<Rightarrow>
     string \<Rightarrow> gotime \<Rightarrow> EdgeStore \<Rightarrow> edge_error option \<times> EdgeStore" where
  "IngestFromPath C fs unmarshal ing db bundlePath edgeNow s =
     (case resolveBundlePath fs (in_bundleDir ing) bundlePath of
        Inl e \<Rightarrow> (Some e, s)
      | Inr targetPath \<Rightarrow>
         (case fs_ReadFile fs targetPath of
            None \<Rightarrow> (Some BundleUnreadable, s)
          | Some data \<Rightarrow>
             (case unmarshal data of
                None \<Rightarrow> (Some BundleMalformed, s)
              | Some bundle \<Rightarrow> ingest_bundle C ing db bundle edgeNow s)))"

subsection \<open>Escrow overrides\<close>

definition zero_hash :: bytes where "zero_hash = replicate 32 (CHR 0x00)"

definition previous_root :: "string \<Rightarrow> EdgeStore \<Rightarrow> edge_error + bytes" where
  "previous_root tenant s =
     (case filter (\<lambda>r. mk_TenantID r = tenant) (es_log s) of
        [] \<Rightarrow> Inr zero_hash
      | r # rs \<Rightarrow>
         (let h = mk_EventHash (last (r # rs)) in
          if h = [] then Inr zero_hash
          else if length h \<noteq> 32 then Inl ErrCorruptedMerkleChain else Inr h))"

definition event_message :: "bytes \<Rightarrow> bytes \<Rightarrow> uint64 \<Rightarrow> uint64 \<Rightarrow> gotime \<Rightarrow> bytes" where
  "event_message prev payload authorityEpoch leaseEpoch arrival =
     prev @ payload @ be64 authorityEpoch @ be64 leaseEpoch @ be64_int (time_UnixNano arrival)"

definition merged_draft :: "EscrowOverrideRecord \<Rightarrow> gotime \<Rightarrow> DraftRow \<Rightarrow> DraftRow" where
  "merged_draft rec arrival d = d\<lparr>dw_State := ''MERGED_VIA_ESCROW'',
     dw_OverrideID := Some (eo_OverrideID rec), dw_UpdatedAt := pg_time arrival\<rparr>"

definition open_draft :: "string \<Rightarrow> string \<Rightarrow> DraftRow \<Rightarrow> bool" where
  "open_draft tenant draftID d \<longleftrightarrow> dw_TenantID d = tenant \<and> dw_DraftID d = draftID \<and>
     dw_State d = ''AWAITING_RECONCILIATION''"

definition release_lease :: "string \<Rightarrow> string \<Rightarrow> gotime \<Rightarrow> EdgeStore \<Rightarrow> EdgeStore" where
  "release_lease tenant sub arrival s =
     (case map_of (es_leases s) (tenant, sub) of
        None \<Rightarrow> s
      | Some r \<Rightarrow> s\<lparr>es_leases := AList.update (tenant, sub)
          (r\<lparr>lr_State := ''RELEASED'', lr_UpdatedAt := pg_time arrival\<rparr>) (es_leases s)\<rparr>)"

definition merkle_row ::
    "trust_crypto \<Rightarrow> string \<Rightarrow> string \<Rightarrow> EscrowOverrideRecord \<Rightarrow> uint64 \<Rightarrow> bytes \<Rightarrow> gotime \<Rightarrow> int \<Rightarrow> MerkleRow" where
  "merkle_row C tenant org rec authorityEpoch prev arrival seq =
     \<lparr>mk_TenantID = tenant, mk_OrganizationID = org, mk_SequenceID = seq,
      mk_SubAssemblyID = eo_SubAssemblyID rec, mk_LeaseEpoch = eo_LeaseEpoch rec,
      mk_AuthorityEpoch = authorityEpoch, mk_EventType = ''LEASE_OVERRUN_ADMIN_OVERRIDE'',
      mk_PayloadHash = CanonicalDigest C rec, mk_PrevEventHash = prev,
      mk_EventHash = sha256 C (event_message prev (CanonicalDigest C rec) authorityEpoch (eo_LeaseEpoch rec) arrival),
      mk_PermanentFlag = eo_PermanentFlag rec, mk_CommittedAt = pg_time arrival\<rparr>"

text \<open>
  The sequence of the log is not given back when the transaction fails after the insert.
\<close>

definition CommitEscrowOverride ::
    "trust_crypto \<Rightarrow> string \<Rightarrow> string \<Rightarrow> edge_session \<Rightarrow> EscrowOverrideRecord \<Rightarrow> public_key \<Rightarrow> public_key \<Rightarrow>
     duration \<Rightarrow> gotime \<Rightarrow> EdgeStore \<Rightarrow> (edge_error + MerkleOverrideEvent) \<times> EdgeStore" where
  "CommitEscrowOverride C tenant org db rec tdPubKey ssoPubKey configuredSLA arrival s =
     (case map_of (es_tombstones s) (tenant, eo_SubAssemblyID rec) of
        None \<Rightarrow> (Inl ErrLeaseNotFound, s)
      | Some stored \<Rightarrow>
          if tb_LeaseEpoch stored \<noteq> eo_LeaseEpoch rec then (Inl ErrLeaseEpochMismatch, s)
          else (case ValidateQuorum C tdPubKey ssoPubKey configuredSLA (tb_Sequence stored)
                   (tb_RevocationTimestamp stored) arrival rec of
              Some e \<Rightarrow> (Inl (QuorumFailed e), s)
            | None \<Rightarrow>
               (case previous_root tenant s of
                  Inl e \<Rightarrow> (Inl e, s)
                | Inr prev \<Rightarrow>
                   (let authorityEpoch = high_water tenant s;
                        row = merkle_row C tenant org rec authorityEpoch prev arrival (es_nextSequence s);
                        numbered = s\<lparr>es_nextSequence := es_nextSequence s + 1\<rparr> in
                    if length (filter (open_draft tenant (eo_DraftWorkOrderID rec)) (es_drafts s)) \<noteq> 1
                      then (Inl ErrDraftNotFound, numbered)
                    else let s' = release_lease tenant (eo_SubAssemblyID rec) arrival
                           (numbered\<lparr>es_log := es_log s @ [row],
                              es_drafts := map (\<lambda>d. if open_draft tenant (eo_DraftWorkOrderID rec) d
                                then merged_draft rec arrival d else d) (es_drafts s)\<rparr>) in
                      if \<not> ed_admits db s' then (Inl DatabaseFailure, numbered)
                      else (Inr \<lparr>mo_EventID = ''seq-'' @ show_int (es_nextSequence s), mo_Timestamp = arrival,
                                 mo_EventType = ''LEASE_OVERRUN_ADMIN_OVERRIDE'',
                                 mo_AuthorityEpoch = authorityEpoch, mo_LeaseEpoch = eo_LeaseEpoch rec,
                                 mo_PayloadHash = CanonicalDigest C rec, mo_OverrideEscrow = rec,
                                 mo_PrevRecordHash = prev\<rparr>, s')))))"

end
