(* ===== verification/Edge_Guarantees.thy ===== *)
theory Edge_Guarantees
  imports Edge_Coordinator
begin

text \<open>
  What the edge coordinator guarantees, over any sequence of its transactions.

  The lifecycle of a lease is specified by an abstract machine on epoch and phase (\<open>lease_step\<close>),
  which the tables refine. The invariant \<open>edge_ok\<close> ties overrun leases to their tombstones and
  drafts, and the audit log to the merged drafts.
\<close>

datatype edge_op =
    Dispatch LeaseCoordinator edge_session SubAssemblyLease
  | SubmitUpdate LeaseCoordinator edge_session string gotime
  | SubmitDiagnose LeaseCoordinator edge_session string gotime
  | Sweep LeaseCoordinator edge_session gotime
  | Ingest EpochIngester edge_session SignedEpochBundle gotime
  | Override string string edge_session EscrowOverrideRecord public_key public_key duration gotime

primrec edge_next :: "trust_crypto \<Rightarrow> edge_op \<Rightarrow> EdgeStore \<Rightarrow> EdgeStore" where
  "edge_next C (Dispatch c db lease) s = snd (DispatchLease c db lease s)"
| "edge_next C (SubmitUpdate c db sub now) s = (case submit_update c db sub now s of None \<Rightarrow> s | Some r \<Rightarrow> snd r)"
| "edge_next C (SubmitDiagnose c db sub now) s = snd (submit_diagnose c db sub now s)"
| "edge_next C (Sweep c db now) s = snd (SweepExpiredLeases c db now s)"
| "edge_next C (Ingest ing db bundle now) s = snd (ingest_bundle C ing db bundle now s)"
| "edge_next C (Override tenant org db rec td sso sla now) s =
     snd (CommitEscrowOverride C tenant org db rec td sso sla now s)"

definition edge_run :: "trust_crypto \<Rightarrow> edge_op list \<Rightarrow> EdgeStore \<Rightarrow> EdgeStore" where
  "edge_run C ops s = fold (edge_next C) ops s"

subsection \<open>The lifecycle of a lease\<close>

datatype lease_phase = Leased | Overrun | Submitted | Freed

definition phase_of :: "string \<Rightarrow> lease_phase" where
  "phase_of st = (if st = ''ACTIVE'' then Leased else if st = ''OVERRUN_DRAFT'' then Overrun
     else if st = ''COMPLETED'' then Submitted else Freed)"

definition lease_abs :: "row_key \<Rightarrow> EdgeStore \<Rightarrow> (uint64 \<times> lease_phase) option" where
  "lease_abs k s = map_option (\<lambda>r. (lr_LeaseEpoch r, phase_of (lr_State r))) (map_of (es_leases s) k)"

inductive lease_step :: "(uint64 \<times> lease_phase) option \<Rightarrow> (uint64 \<times> lease_phase) option \<Rightarrow> bool" where
  granted: "lease_step None (Some (e, Leased))"
| granted_again: "p \<in> {Submitted, Freed} \<Longrightarrow> e < e' \<Longrightarrow> lease_step (Some (e, p)) (Some (e', Leased))"
| submitted: "lease_step (Some (e, Leased)) (Some (e, Submitted))"
| overrun: "lease_step (Some (e, Leased)) (Some (e, Overrun))"
| released: "lease_step (Some (e, p)) (Some (e, Freed))"

inductive_cases lease_step_SomeE: "lease_step (Some (e, p)) b"

primrec phase_rank :: "lease_phase \<Rightarrow> nat" where
  "phase_rank Leased = 0"
| "phase_rank Overrun = 1"
| "phase_rank Submitted = 1"
| "phase_rank Freed = 2"

lemma lease_step_advances:
  assumes "lease_step\<^sup>*\<^sup>* a b" "a = Some (e, p)"
  shows "\<exists>e' p'. b = Some (e', p') \<and> (e < e' \<or> e = e' \<and> (p = p' \<or> phase_rank p < phase_rank p' \<or> p' = Freed))"
  using assms(1)
proof (induction rule: rtranclp_induct)
  case base
  with assms(2) show ?case by blast
next
  case (step b c)
  then obtain e' p' where b: "b = Some (e', p')"
    "e < e' \<or> e = e' \<and> (p = p' \<or> phase_rank p < phase_rank p' \<or> p' = Freed)" by blast
  from step.hyps(2) b(1) show ?case
    using b(2) by (cases rule: lease_step.cases) (auto intro: less_trans)
qed

lemma map_of_update: "map_of (AList.update k v al) k' = (if k' = k then Some v else map_of al k')"
  by (simp add: update_conv')

lemma phase_simps [simp]: "phase_of ''ACTIVE'' = Leased" "phase_of ''OVERRUN_DRAFT'' = Overrun"
  "phase_of ''COMPLETED'' = Submitted" "phase_of ''RELEASED'' = Freed"
  by (simp_all add: phase_of_def)

lemma phase_active: "phase_of st = Leased \<longleftrightarrow> st = ''ACTIVE''"
  by (simp add: phase_of_def)

text \<open>What the helpers leave alone.\<close>

lemma provision_leases:
  "provisionOverrunArtifacts c db t now s = Inr s' \<Longrightarrow> es_leases s' = es_leases s"
  by (auto simp: provisionOverrunArtifacts_def upsert_tombstone_def insert_draft_def Let_def
      split: option.splits if_splits)

lemma provision_all_leases: "provision_all c db now ts s = Inr s' \<Longrightarrow> es_leases s' = es_leases s"
  by (induction ts arbitrary: s) (auto dest: provision_leases)

lemma upsert_revocations_other [simp]:
  "es_leases (upsert_revocations ten org e now ds s) = es_leases s"
  "es_drafts (upsert_revocations ten org e now ds s) = es_drafts s"
  "es_tombstones (upsert_revocations ten org e now ds s) = es_tombstones s"
  "es_epochs (upsert_revocations ten org e now ds s) = es_epochs s"
  "es_log (upsert_revocations ten org e now ds s) = es_log s"
  by (induction ds arbitrary: s) (simp_all add: Let_def)

lemma ingest_leases [simp]:
  "es_leases (snd (ingest_bundle C ing db b now s)) = es_leases s"
  "es_drafts (snd (ingest_bundle C ing db b now s)) = es_drafts s"
  "es_tombstones (snd (ingest_bundle C ing db b now s)) = es_tombstones s"
  "es_log (snd (ingest_bundle C ing db b now s)) = es_log s"
  by (simp_all add: ingest_bundle_def commit_lease_def Let_def split: option.splits)

text \<open>One transaction is one step of the machine, or none, for every lease.\<close>

lemma map_of_marked:
  "map_of (map (\<lambda>e. if P e then (fst e, f (snd e)) else e) al) k =
     map_option (\<lambda>r. if P (k, r) then f r else r) (map_of al k)"
  by (induction al) (auto simp: prod_eq_iff)

definition marked :: "LeaseCoordinator \<Rightarrow> gotime \<Rightarrow> EdgeStore \<Rightarrow> EdgeStore" where
  "marked c now s = s\<lparr>es_leases := map (\<lambda>e. if lease_expired c now e
     then (fst e, overrun_row now (snd e)) else e) (es_leases s)\<rparr>"

definition expirations :: "LeaseCoordinator \<Rightarrow> gotime \<Rightarrow> EdgeStore \<Rightarrow> transitionRecord list" where
  "expirations c now s = map (\<lambda>((tenant, sub), r). transition_of sub r) (filter (lease_expired c now) (es_leases s))"

lemma Sweep_eq:
  "SweepExpiredLeases c db now s =
     (case provision_all c db now (expirations c now s) (marked c now s) of
        Inl e \<Rightarrow> (Some e, s)
      | Inr s' \<Rightarrow> commit_lease db s s')"
  by (simp add: SweepExpiredLeases_def marked_def expirations_def Let_def)

lemma Sweep_leases:
  assumes "SweepExpiredLeases c db now s = (e, s')"
  shows "s' = s \<and> e \<noteq> None \<or> e = None \<and> map_of (es_leases s') k =
    map_option (\<lambda>r. if lease_expired c now (k, r) then overrun_row now r else r) (map_of (es_leases s) k)"
  using assms map_of_marked [where P = "lease_expired c now" and f = "overrun_row now" and al = "es_leases s" and k = k]
  by (auto simp: Sweep_eq commit_lease_def marked_def dest!: provision_all_leases split: sum.splits if_splits)

lemma edge_step_refines:
  "lease_abs k (edge_next C op s) = lease_abs k s \<or> lease_step (lease_abs k s) (lease_abs k (edge_next C op s))"
proof (cases op)
  case (Dispatch c db lease)
  then show ?thesis
    by (auto simp: DispatchLease_def commit_lease_def Let_def lease_abs_def map_of_update lease_row_def
        intro: lease_step.intros split: option.splits)
next
  case (SubmitUpdate c db sub now)
  then show ?thesis
    by (auto simp: submit_update_def commit_lease_def Let_def lease_abs_def map_of_update
        intro: lease_step.intros split: option.splits)
next
  case (SubmitDiagnose c db sub now)
  then show ?thesis
    by (auto simp: submit_diagnose_def commit_lease_def Let_def lease_abs_def map_of_update provision_leases
        intro: lease_step.intros split: option.splits sum.splits)
next
  case (Sweep c db now)
  obtain e s' where w: "SweepExpiredLeases c db now s = (e, s')" by (cases "SweepExpiredLeases c db now s")
  have "lease_abs k s' = lease_abs k s \<or> lease_step (lease_abs k s) (lease_abs k s')"
    using Sweep_leases [OF w, of k]
    by (auto simp: lease_abs_def lease_expired_def overrun_row_def map_option_case lease_step.overrun
        split: option.splits)
  with Sweep w show ?thesis by simp
next
  case (Ingest ing db b now)
  then show ?thesis by (simp add: lease_abs_def)
next
  case (Override ten org db rec td sso sla now)
  then show ?thesis
    by (auto simp: CommitEscrowOverride_def Let_def lease_abs_def map_of_update release_lease_def
        intro: lease_step.intros split: option.splits sum.splits)
qed

lemma edge_run_refines:
  shows "lease_step\<^sup>*\<^sup>* (lease_abs k s) (lease_abs k (edge_run C ops s))"
    "lease_abs k s = Some (e, p) \<Longrightarrow> \<exists>e' p'. lease_abs k (edge_run C ops s) = Some (e', p') \<and> e \<le> e' \<and>
       (e' = e \<and> p \<noteq> Leased \<longrightarrow> p' \<noteq> Leased)"
proof -
  have run: "lease_step\<^sup>*\<^sup>* (lease_abs k s) (lease_abs k (edge_run C ops s))" for s
  proof (induction ops arbitrary: s)
    case (Cons op ops)
    have "lease_step\<^sup>*\<^sup>* (lease_abs k s) (lease_abs k (edge_next C op s))"
      using edge_step_refines [of k C op s] by auto
    with Cons.IH [of "edge_next C op s"] show ?case by (auto simp: edge_run_def)
  qed (simp add: edge_run_def)
  show "lease_step\<^sup>*\<^sup>* (lease_abs k s) (lease_abs k (edge_run C ops s))" by (rule run)
  show "lease_abs k s = Some (e, p) \<Longrightarrow> \<exists>e' p'. lease_abs k (edge_run C ops s) = Some (e', p') \<and> e \<le> e' \<and>
       (e' = e \<and> p \<noteq> Leased \<longrightarrow> p' \<noteq> Leased)"
    using lease_step_advances [OF run] by (fastforce simp: less_imp_le)
qed

text \<open>C3: the tables refine the abstract lease machine. Along any sequence of transactions of any
  coordinators, failed ones included, every lease makes steps of that machine only: it is granted,
  submitted or overrun once, released, and granted again under a larger epoch only; so the epoch of
  a lease never falls, and within one epoch a lease that has been submitted, overrun or released is
  never active again.\<close>

theorem lease_machine_refined:
  "lease_step\<^sup>*\<^sup>* (lease_abs k s) (lease_abs k (edge_run C ops s)) \<and>
   (\<forall>e p. lease_abs k s = Some (e, p) \<longrightarrow>
     (\<exists>e' p'. lease_abs k (edge_run C ops s) = Some (e', p') \<and> e \<le> e' \<and>
        (e' = e \<and> p \<noteq> Leased \<longrightarrow> p' \<noteq> Leased)))"
  using edge_run_refines by blast

subsection \<open>Overrun leases leave evidence\<close>

definition tombstone_record :: "string \<Rightarrow> TombstoneRow \<Rightarrow> LeaseTombstoneRecord" where
  "tombstone_record sub t = \<lparr>lt_SubAssemblyID = sub, lt_LeaseEpoch = tb_LeaseEpoch t,
     lt_TombstoneSequence = tb_Sequence t, lt_RevokedDeviceID = tb_RevokedDeviceID t,
     lt_RevocationTimestamp = tb_RevocationTimestamp t, lt_AuthorizingDID = tb_AuthorizingDID t,
     lt_Reason = tb_Reason t\<rparr>"

text \<open>The tombstone suppresses the device up to the epoch, and a draft waits for the work.\<close>

definition evidence :: "EdgeStore \<Rightarrow> row_key \<Rightarrow> uint64 \<Rightarrow> string \<Rightarrow> bool" where
  "evidence s k epoch device \<longleftrightarrow>
     (\<exists>t. map_of (es_tombstones s) k = Some t \<and> tb_LeaseEpoch t = epoch \<and> tb_RevokedDeviceID t = device) \<and>
     (\<exists>d \<in> set (es_drafts s). dw_TenantID d = fst k \<and> dw_SubAssemblyID d = snd k \<and> dw_LeaseEpoch d = epoch)"

definition draft_id :: "DraftRow \<Rightarrow> string \<times> string" where
  "draft_id d = (dw_TenantID d, dw_DraftID d)"

definition leases_ok :: "EdgeStore \<Rightarrow> bool" where
  "leases_ok s \<longleftrightarrow> distinct (map fst (es_leases s)) \<and> distinct (map draft_id (es_drafts s)) \<and>
     (\<forall>k r. map_of (es_leases s) k = Some r \<and> lr_State r = ''OVERRUN_DRAFT'' \<longrightarrow>
        evidence s k (lr_LeaseEpoch r) (lr_AssignedDeviceID r))"

lemma leases_okD:
  "leases_ok s \<Longrightarrow> map_of (es_leases s) k = Some r \<Longrightarrow> lr_State r = ''OVERRUN_DRAFT'' \<Longrightarrow>
    evidence s k (lr_LeaseEpoch r) (lr_AssignedDeviceID r)"
  by (simp add: leases_ok_def del: split_paired_All)

text \<open>What a step may do to drafts: it keeps their identities, states excepted, and adds to them.\<close>

definition drafts_grow :: "EdgeStore \<Rightarrow> EdgeStore \<Rightarrow> bool" where
  "drafts_grow s s' \<longleftrightarrow> (\<exists>ds. es_drafts s' = es_drafts s @ ds \<and>
     (\<forall>d \<in> set ds. dw_State d = ''AWAITING_RECONCILIATION'')) \<and>
     (distinct (map draft_id (es_drafts s)) \<longrightarrow> distinct (map draft_id (es_drafts s')))"

lemma drafts_grow_refl [simp]: "drafts_grow s s" "es_drafts s' = es_drafts s \<Longrightarrow> drafts_grow s s'"
  by (simp_all add: drafts_grow_def)

lemma drafts_grow_trans: "drafts_grow s s' \<Longrightarrow> drafts_grow s' s'' \<Longrightarrow> drafts_grow s s''"
  by (auto simp: drafts_grow_def)

lemma evidence_mono:
  assumes "evidence s k e d" "map_of (es_tombstones s') k = map_of (es_tombstones s) k" "drafts_grow s s'"
  shows "evidence s' k e d"
  using assms by (auto simp: evidence_def drafts_grow_def)

lemma provision_spec:
  assumes "provisionOverrunArtifacts c db t now s = Inr s'"
  shows "evidence s' (co_tenantID c, tr_subAssemblyID t) (tr_leaseEpoch t) (tr_assignedDeviceID t)"
    "k \<noteq> (co_tenantID c, tr_subAssemblyID t) \<Longrightarrow> map_of (es_tombstones s') k = map_of (es_tombstones s) k"
    "drafts_grow s s'" "es_log s' = es_log s"
  using assms
  by (auto simp: provisionOverrunArtifacts_def upsert_tombstone_def insert_draft_def evidence_def Let_def
      map_of_update list_ex_iff drafts_grow_def draft_id_def split: option.splits if_splits) blast+

lemma provision_all_spec:
  assumes "provision_all c db now ts s = Inr s'" "distinct (map tr_subAssemblyID ts)"
  shows "(\<forall>t \<in> set ts. evidence s' (co_tenantID c, tr_subAssemblyID t) (tr_leaseEpoch t) (tr_assignedDeviceID t)) \<and>
    (\<forall>k. k \<notin> (\<lambda>t. (co_tenantID c, tr_subAssemblyID t)) ` set ts \<longrightarrow>
      map_of (es_tombstones s') k = map_of (es_tombstones s) k) \<and>
    drafts_grow s s' \<and> es_log s' = es_log s"
  using assms
proof (induction ts arbitrary: s)
  case (Cons t ts)
  then obtain s1 where s1: "provisionOverrunArtifacts c db t now s = Inr s1" "provision_all c db now ts s1 = Inr s'"
    by auto
  note p = provision_spec [OF s1(1)]
  have IH: "\<forall>t \<in> set ts. evidence s' (co_tenantID c, tr_subAssemblyID t) (tr_leaseEpoch t) (tr_assignedDeviceID t)"
    "\<And>k. k \<notin> (\<lambda>t. (co_tenantID c, tr_subAssemblyID t)) ` set ts \<Longrightarrow>
      map_of (es_tombstones s') k = map_of (es_tombstones s1) k"
    "drafts_grow s1 s'" "es_log s' = es_log s1"
    using Cons.IH [OF s1(2)] Cons.prems(2) by (simp_all del: split_paired_All)
  have "(co_tenantID c, tr_subAssemblyID t) \<notin> (\<lambda>t. (co_tenantID c, tr_subAssemblyID t)) ` set ts"
    using Cons.prems(2) by auto
  then have "evidence s' (co_tenantID c, tr_subAssemblyID t) (tr_leaseEpoch t) (tr_assignedDeviceID t)"
    by (intro evidence_mono [OF p(1) IH(2) IH(3)])
  moreover have "drafts_grow s s'" by (rule drafts_grow_trans [OF p(3) IH(3)])
  ultimately show ?case using IH p(2,4) by auto
qed simp

lemma expirations_distinct:
  assumes "distinct (map fst (es_leases s))"
  shows "distinct (map tr_subAssemblyID (expirations c now s))"
proof -
  have "distinct (map snd (map fst (filter (lease_expired c now) al)))" if "distinct (map fst al)"
    for al :: "(row_key \<times> LeaseRow) list"
    using that
  proof (induction al)
    case (Cons e al)
    have "snd (fst e) \<noteq> snd (fst f)" if "f \<in> set al" "lease_expired c now e" "lease_expired c now f" for f
    proof
      assume "snd (fst e) = snd (fst f)"
      with that(2,3) have "fst e = fst f" by (simp add: lease_expired_def prod_eq_iff)
      with that(1) Cons.prems show False by auto
    qed
    with Cons show ?case by auto
  qed simp
  from this [OF assms] show ?thesis
    by (simp add: expirations_def transition_of_def comp_def case_prod_beta)
qed

lemma in_expirations:
  assumes "map_of (es_leases s) k = Some r" "lease_expired c now (k, r)"
  shows "transition_of (snd k) r \<in> set (expirations c now s)"
  unfolding expirations_def set_map set_filter
  using map_of_SomeD [OF assms(1)] assms(2) by (intro image_eqI [of _ _ "(k, r)"]) (auto simp: case_prod_beta)

lemma expirations_keys:
  assumes "distinct (map fst (es_leases s))" "k \<in> (\<lambda>t. (co_tenantID c, tr_subAssemblyID t)) ` set (expirations c now s)"
  shows "\<exists>r. map_of (es_leases s) k = Some r \<and> lease_expired c now (k, r)"
  using assms by (auto simp: expirations_def lease_expired_def transition_of_def dest: map_of_is_SomeI)

lemma Sweep_ok:
  assumes "leases_ok s" "SweepExpiredLeases c db now s = (None, s')"
  shows "leases_ok s'" "\<And>k r. map_of (es_leases s) k = Some r \<Longrightarrow> lease_expired c now (k, r) \<Longrightarrow>
    map_of (es_leases s') k = Some (overrun_row now r) \<and>
    evidence s' k (lr_LeaseEpoch r) (lr_AssignedDeviceID r)"
    "es_log s' = es_log s" "drafts_grow s s'"
proof -
  have pa: "provision_all c db now (expirations c now s) (marked c now s) = Inr s'"
    using assms(2) by (auto simp: Sweep_eq commit_lease_def split: sum.splits if_splits)
  have keys: "distinct (map fst (es_leases s))" using assms(1) by (simp add: leases_ok_def)
  note p = provision_all_spec [OF pa expirations_distinct [OF keys]]
  have m: "es_drafts (marked c now s) = es_drafts s" "es_tombstones (marked c now s) = es_tombstones s"
    "es_log (marked c now s) = es_log s"
    by (simp_all add: marked_def)
  show log: "es_log s' = es_log s" using p m by simp
  show grow: "drafts_grow s s'" using p m by (simp add: drafts_grow_def)
  have lookup: "map_of (es_leases s') k =
      map_option (\<lambda>r. if lease_expired c now (k, r) then overrun_row now r else r) (map_of (es_leases s) k)" for k
    using Sweep_leases [OF assms(2), of k] by simp
  show ex: "map_of (es_leases s') k = Some (overrun_row now r) \<and>
    evidence s' k (lr_LeaseEpoch r) (lr_AssignedDeviceID r)"
    if "map_of (es_leases s) k = Some r" "lease_expired c now (k, r)" for k r
  proof -
    from in_expirations [OF that] p
    have "evidence s' (co_tenantID c, snd k) (lr_LeaseEpoch r) (lr_AssignedDeviceID r)"
      by (fastforce simp: transition_of_def)
    with that lookup show ?thesis by (cases k) (simp add: lease_expired_def)
  qed
  have "map fst (es_leases s') = map fst (es_leases s)"
    using provision_all_leases [OF pa] by (auto simp: marked_def)
  moreover have "evidence s' k (lr_LeaseEpoch r') (lr_AssignedDeviceID r')"
    if k: "map_of (es_leases s') k = Some r'" "lr_State r' = ''OVERRUN_DRAFT''" for k r'
  proof -
    obtain r where r: "map_of (es_leases s) k = Some r"
      "r' = (if lease_expired c now (k, r) then overrun_row now r else r)"
      using k(1) lookup [of k] by auto
    show ?thesis
    proof (cases "lease_expired c now (k, r)")
      case True
      with ex [OF r(1)] r(2) show ?thesis by (simp add: overrun_row_def)
    next
      case False
      have "k \<notin> (\<lambda>t. (co_tenantID c, tr_subAssemblyID t)) ` set (expirations c now s)"
        using expirations_keys [OF keys] False r(1) by (metis option.inject)
      then have "map_of (es_tombstones s') k = map_of (es_tombstones s) k" using p m(2) by metis
      moreover have "evidence s k (lr_LeaseEpoch r) (lr_AssignedDeviceID r)"
        using leases_okD [OF assms(1) r(1)] r(2) False k(2) by simp
      ultimately show ?thesis using evidence_mono [OF _ _ grow] r(2) False by simp
    qed
  qed
  ultimately show "leases_ok s'"
    using keys assms(1) grow by (simp add: leases_ok_def drafts_grow_def del: split_paired_All)
qed

lemma Dispatch_ok:
  assumes "leases_ok s"
  shows "leases_ok (snd (DispatchLease c db lease s)) \<and> es_log (snd (DispatchLease c db lease s)) = es_log s \<and>
    es_drafts (snd (DispatchLease c db lease s)) = es_drafts s"
proof -
  have upd: "leases_ok (s\<lparr>es_leases := AList.update k r (es_leases s)\<rparr>)" if "lr_State r = ''ACTIVE''" for k r
    using assms that
    by (auto simp: leases_ok_def distinct_update map_of_update evidence_def simp del: split_paired_All)
  show ?thesis
    using assms upd by (simp add: DispatchLease_def commit_lease_def Let_def lease_row_def split: option.splits)
qed

lemma state_update_ok:
  assumes "leases_ok s" "map_of (es_leases s) k = Some r" "st \<noteq> ''OVERRUN_DRAFT''"
  shows "leases_ok (s\<lparr>es_leases := AList.update k (r\<lparr>lr_State := st, lr_UpdatedAt := at\<rparr>) (es_leases s)\<rparr>)"
  using assms
  by (auto simp: leases_ok_def distinct_update map_of_update evidence_def simp del: split_paired_All)

lemma Update_ok:
  assumes "leases_ok s" "submit_update c db sub now s = Some (e, s')"
  shows "leases_ok s' \<and> es_log s' = es_log s \<and> es_drafts s' = es_drafts s"
  using assms state_update_ok [OF assms(1)]
  by (auto simp: submit_update_def commit_lease_def Let_def split: option.splits if_splits)

lemma Diagnose_ok:
  assumes "leases_ok s" "submit_diagnose c db sub now s = (e, s')"
  shows "leases_ok s' \<and> es_log s' = es_log s \<and> drafts_grow s s' \<and>
    (s' = s \<and> e \<noteq> Some ErrLeaseExpired \<or> e = Some ErrLeaseExpired \<and>
      (\<exists>r. map_of (es_leases s) (co_tenantID c, sub) = Some r \<and> lr_State r = ''ACTIVE'' \<and> lr_ValidUntil r < now \<and>
        map_of (es_leases s') (co_tenantID c, sub) = Some (overrun_row now r) \<and>
        evidence s' (co_tenantID c, sub) (lr_LeaseEpoch r) (lr_AssignedDeviceID r)))"
proof (cases "s' = s \<and> e \<noteq> Some ErrLeaseExpired")
  case True
  with assms(1) show ?thesis by simp
next
  case False
  let ?k = "(co_tenantID c, sub)"
  have nf: "provisionOverrunArtifacts c db t now u \<noteq> Inl ErrLeaseExpired" for t u
    by (auto simp: provisionOverrunArtifacts_def upsert_tombstone_def insert_draft_def Let_def split: option.splits sum.splits if_splits)
  obtain r where r: "map_of (es_leases s) ?k = Some r" "lr_State r = ''ACTIVE''" "lr_ValidUntil r < now"
    and p: "provisionOverrunArtifacts c db (transition_of sub r) now
      (s\<lparr>es_leases := AList.update ?k (overrun_row now r) (es_leases s)\<rparr>) = Inr s'" and e: "e = Some ErrLeaseExpired"
    using assms(2) False nf
    by (auto simp: submit_diagnose_def Let_def overrun_row_def split: option.splits if_splits sum.splits)
  let ?s = "s\<lparr>es_leases := AList.update ?k (overrun_row now r) (es_leases s)\<rparr>"
  note ps = provision_spec [OF p] and pl = provision_leases [OF p]
  have grow: "drafts_grow s s'" and log: "es_log s' = es_log s" using ps(3,4) by (simp_all add: drafts_grow_def)
  have ev: "evidence s' ?k (lr_LeaseEpoch r) (lr_AssignedDeviceID r)" using ps(1) by (simp add: transition_of_def)
  have "evidence s' k (lr_LeaseEpoch r') (lr_AssignedDeviceID r')"
    if k: "map_of (es_leases s') k = Some r'" "lr_State r' = ''OVERRUN_DRAFT''" for k r'
  proof (cases "k = ?k")
    case True
    then have "r' = overrun_row now r" using k(1) pl by (simp add: map_of_update)
    with ev True show ?thesis by (simp add: overrun_row_def)
  next
    case False
    then have "map_of (es_leases s) k = Some r'" using k(1) pl by (simp add: map_of_update)
    from leases_okD [OF assms(1) this k(2)] evidence_mono [OF _ _ grow] ps(2) [of k] False
    show ?thesis by (simp add: transition_of_def)
  qed
  then have "leases_ok s'"
    using assms(1) grow pl by (simp add: leases_ok_def drafts_grow_def distinct_update del: split_paired_All)
  with r e log grow ev pl show ?thesis by (simp add: map_of_update)
qed

text \<open>An accepted override, step by step.\<close>

lemma Override_cases:
  assumes "CommitEscrowOverride C ten org db rec td sso sla now s = (res, s')"
  obtains (refused) x where "res = Inl x" "s' = s \<or> s' = s\<lparr>es_nextSequence := es_nextSequence s + 1\<rparr>"
  | (committed) ev prev t where "res = Inr ev" "previous_root ten s = Inr prev"
    "map_of (es_tombstones s) (ten, eo_SubAssemblyID rec) = Some t" "tb_LeaseEpoch t = eo_LeaseEpoch rec"
    "ValidateQuorum C td sso sla (tb_Sequence t) (tb_RevocationTimestamp t) now rec = None"
    "length (filter (open_draft ten (eo_DraftWorkOrderID rec)) (es_drafts s)) = 1"
    "s' = release_lease ten (eo_SubAssemblyID rec) now
      (s\<lparr>es_nextSequence := es_nextSequence s + 1,
         es_log := es_log s @ [merkle_row C ten org rec (high_water ten s) prev now (es_nextSequence s)],
         es_drafts := map (\<lambda>d. if open_draft ten (eo_DraftWorkOrderID rec) d
           then merged_draft rec now d else d) (es_drafts s)\<rparr>)"
proof (cases "\<exists>x. res = Inl x")
  case True
  then obtain x where "res = Inl x" by blast
  moreover from this assms have "s' = s \<or> s' = s\<lparr>es_nextSequence := es_nextSequence s + 1\<rparr>"
    unfolding CommitEscrowOverride_def Let_def by (simp split: option.splits sum.splits if_split_asm)
  ultimately show thesis by (rule refused)
next
  case False
  then obtain ev where res: "res = Inr ev" by (cases res) auto
  note eq = assms [unfolded CommitEscrowOverride_def Let_def res]
  obtain t where t: "map_of (es_tombstones s) (ten, eo_SubAssemblyID rec) = Some t"
    using eq by (cases "map_of (es_tombstones s) (ten, eo_SubAssemblyID rec)") simp_all
  have 1: "tb_LeaseEpoch t = eo_LeaseEpoch rec"
    using eq t by (simp split: if_split_asm)
  have 2: "ValidateQuorum C td sso sla (tb_Sequence t) (tb_RevocationTimestamp t) now rec = None"
    using eq t 1 by (cases "ValidateQuorum C td sso sla (tb_Sequence t) (tb_RevocationTimestamp t) now rec") simp_all
  obtain prev where 3: "previous_root ten s = Inr prev"
    using eq t 1 2 by (cases "previous_root ten s") simp_all
  show thesis
    by (rule committed [OF res 3 t 1 2]) (use eq t 1 2 3 in \<open>simp_all split: if_split_asm\<close>)
qed

lemma release_other [simp]:
  "es_log (release_lease ten sub now s) = es_log s" "es_drafts (release_lease ten sub now s) = es_drafts s"
  "es_tombstones (release_lease ten sub now s) = es_tombstones s"
  by (simp_all add: release_lease_def split: option.splits)

lemma merge_keeps [simp]:
  "draft_id (merged_draft rec now d) = draft_id d" "dw_TenantID (merged_draft rec now d) = dw_TenantID d"
  "dw_SubAssemblyID (merged_draft rec now d) = dw_SubAssemblyID d"
  "dw_LeaseEpoch (merged_draft rec now d) = dw_LeaseEpoch d" "dw_DraftID (merged_draft rec now d) = dw_DraftID d"
  by (simp_all add: merged_draft_def draft_id_def)

lemma evidence_map:
  assumes "evidence s k e v" "es_drafts s' = map f (es_drafts s)" "es_tombstones s' = es_tombstones s"
    "\<And>d. dw_TenantID (f d) = dw_TenantID d \<and> dw_SubAssemblyID (f d) = dw_SubAssemblyID d \<and>
       dw_LeaseEpoch (f d) = dw_LeaseEpoch d"
  shows "evidence s' k e v"
  using assms by (auto simp: evidence_def)

lemma distinct_map_keeps: "(\<And>x. g (f x) = g x) \<Longrightarrow> distinct (map g (map f xs)) = distinct (map g xs)"
  by (simp add: comp_def)

lemma Override_ok:
  assumes "leases_ok s" "CommitEscrowOverride C ten org db rec td sso sla now s = (res, s')"
  shows "leases_ok s'"
  using assms(2)
proof (cases rule: Override_cases)
  case refused
  moreover have "evidence (s\<lparr>es_nextSequence := n\<rparr>) = evidence s" for n
    by (intro ext) (simp add: evidence_def)
  ultimately show ?thesis using assms(1) by (auto simp: leases_ok_def simp del: split_paired_All)
next
  case (committed ev prev t)
  let ?drafts = "map (\<lambda>d. if open_draft ten (eo_DraftWorkOrderID rec) d then merged_draft rec now d else d) (es_drafts s)"
  let ?s = "s\<lparr>es_nextSequence := es_nextSequence s + 1,
         es_log := es_log s @ [merkle_row C ten org rec (high_water ten s) prev now (es_nextSequence s)],
         es_drafts := ?drafts\<rparr>"
  have "distinct (map draft_id ?drafts) = distinct (map draft_id (es_drafts s))" by (rule distinct_map_keeps) simp
  moreover have "evidence ?s k e d" if "evidence s k e d" for k e d
    using that by (rule evidence_map [where f = "\<lambda>d. if open_draft ten (eo_DraftWorkOrderID rec) d
      then merged_draft rec now d else d"]) simp_all
  ultimately have "leases_ok ?s"
    using assms(1) by (simp add: leases_ok_def del: split_paired_All map_map)
  then show ?thesis
    using committed(7) state_update_ok [of ?s] by (auto simp: release_lease_def split: option.splits)
qed

lemma edge_next_ok: "leases_ok s \<Longrightarrow> leases_ok (edge_next C op s)"
proof (cases op)
  case (SubmitUpdate c db sub now)
  then show "leases_ok s \<Longrightarrow> ?thesis" using Update_ok by (fastforce split: option.splits)
next
  case (SubmitDiagnose c db sub now)
  then show "leases_ok s \<Longrightarrow> ?thesis" using Diagnose_ok by (metis edge_next.simps(3) prod.collapse)
next
  case (Sweep c db now)
  obtain e s' where w: "SweepExpiredLeases c db now s = (e, s')" by (cases "SweepExpiredLeases c db now s")
  then show "leases_ok s \<Longrightarrow> ?thesis"
    using Sweep_ok(1) Sweep_leases [OF w] Sweep by (cases e) fastforce+
next
  case (Ingest ing db b now)
  then show "leases_ok s \<Longrightarrow> ?thesis" by (simp add: leases_ok_def evidence_def)
next
  case (Override ten org db rec td sso sla now)
  then show "leases_ok s \<Longrightarrow> ?thesis" using Override_ok by (metis edge_next.simps(6) prod.collapse)
qed (use Dispatch_ok in simp)

lemma edge_run_ok: "leases_ok s \<Longrightarrow> leases_ok (edge_run C ops s)"
  by (induction ops arbitrary: s) (simp_all add: edge_run_def edge_next_ok)

text \<open>C21: an overrun lease always leaves its evidence. Along any sequence of transactions, from tables in
  which it holds, every lease in overrun has a tombstone under its epoch that suppresses its device for
  this and every earlier epoch, and a draft in which its work is kept.\<close>

theorem overrun_leaves_evidence:
  assumes "leases_ok s" and "map_of (es_leases (edge_run C ops s)) (ten, sub) = Some r"
    and "lr_State r = ''OVERRUN_DRAFT''"
  shows "\<exists>t. map_of (es_tombstones (edge_run C ops s)) (ten, sub) = Some t \<and>
    (\<forall>epoch \<le> lr_LeaseEpoch r. AssertsSupremacy (lr_AssignedDeviceID r) epoch (tombstone_record sub t)) \<and>
    (\<exists>d \<in> set (es_drafts (edge_run C ops s)). dw_TenantID d = ten \<and> dw_SubAssemblyID d = sub \<and>
       dw_LeaseEpoch d = lr_LeaseEpoch r)"
  using leases_okD [OF edge_run_ok [OF assms(1)] assms(2,3)]
  by (auto simp: evidence_def AssertsSupremacy_def tombstone_record_def)

text \<open>A submission counts exactly within the lease. The call succeeds only on a lease that was active
  when it began and had not run out by its clock, and completes it; a submission that comes too late
  turns the lease, as the call finds it after whatever others committed in between, into an overrun
  with tombstone and draft, all in one transaction; every other answer changes nothing.\<close>

theorem submission_within_lease:
  assumes "SubmitInspection c db others sub now s = (res, s')" and "leases_ok (others s)"
  shows "res = None \<and> (\<exists>r. map_of (es_leases s) (co_tenantID c, sub) = Some r \<and> lr_State r = ''ACTIVE'' \<and>
        pg_time now \<le> lr_ValidUntil r \<and> lease_abs (co_tenantID c, sub) s' = Some (lr_LeaseEpoch r, Submitted)) \<or>
    res = Some ErrLeaseExpired \<and> (\<exists>r. map_of (es_leases (others s)) (co_tenantID c, sub) = Some r \<and>
        lr_State r = ''ACTIVE'' \<and> lr_ValidUntil r < now \<and>
        lease_abs (co_tenantID c, sub) s' = Some (lr_LeaseEpoch r, Overrun) \<and>
        evidence s' (co_tenantID c, sub) (lr_LeaseEpoch r) (lr_AssignedDeviceID r)) \<or>
    res \<notin> {None, Some ErrLeaseExpired} \<and> s' \<in> {s, others s}"
proof (cases "submit_update c db sub now s")
  case None
  then have d: "submit_diagnose c db sub now (others s) = (res, s')"
    using assms(1) by (simp add: SubmitInspection_def)
  have "res \<noteq> None"
    using d by (auto simp: submit_diagnose_def Let_def split: option.splits if_splits sum.splits)
  with Diagnose_ok [OF assms(2) d] show ?thesis
    by (auto simp: lease_abs_def overrun_row_def)
next
  case (Some r)
  with assms(1) have "submit_update c db sub now s = Some (res, s')" by (simp add: SubmitInspection_def)
  then show ?thesis
    by (auto simp: submit_update_def commit_lease_def Let_def lease_abs_def map_of_update
        split: option.splits if_splits)
qed

subsection \<open>Expired leases do not stay active\<close>

lemma insert_draft_ok:
  assumes "ed_uuid db (tr_subAssemblyID t) \<notin> dw_DraftID ` set (es_drafts s)"
  shows "\<exists>s'. insert_draft c db t now s = Inr s'"
proof -
  have "\<not> list_ex (\<lambda>d. dw_TenantID d = co_tenantID c \<and> dw_DraftID d = ed_uuid db (tr_subAssemblyID t)) (es_drafts s)"
    using assms by (force simp: list_ex_iff)
  then show ?thesis by (simp add: insert_draft_def Let_def)
qed

lemma provision_ok:
  assumes "ed_uuid db (tr_subAssemblyID t) \<notin> dw_DraftID ` set (es_drafts s)"
    and "\<And>r. map_of (es_tombstones s) (co_tenantID c, tr_subAssemblyID t) = Some r \<Longrightarrow> bigint_ok (tb_Sequence r + 1)"
  shows "\<exists>s'. provisionOverrunArtifacts c db t now s = Inr s' \<and>
    dw_DraftID ` set (es_drafts s') \<subseteq> insert (ed_uuid db (tr_subAssemblyID t)) (dw_DraftID ` set (es_drafts s))"
proof -
  obtain s1 where s1: "upsert_tombstone c t now s = Inr s1" "es_drafts s1 = es_drafts s"
    using assms(2) by (cases "map_of (es_tombstones s) (co_tenantID c, tr_subAssemblyID t)")
      (simp_all add: upsert_tombstone_def Let_def)
  with insert_draft_ok [of db t s1 c now] assms(1) obtain s' where s': "insert_draft c db t now s1 = Inr s'" by auto
  moreover have "dw_DraftID ` set (es_drafts s') \<subseteq> insert (ed_uuid db (tr_subAssemblyID t)) (dw_DraftID ` set (es_drafts s1))"
    using s' by (auto simp: insert_draft_def Let_def split: if_splits)
  ultimately show ?thesis using s1 by (simp add: provisionOverrunArtifacts_def)
qed

lemma provision_all_ok:
  assumes "distinct (map tr_subAssemblyID ts)" "inj (ed_uuid db)"
    and "\<forall>t \<in> set ts. ed_uuid db (tr_subAssemblyID t) \<notin> dw_DraftID ` set (es_drafts s)"
    and "\<forall>t \<in> set ts. \<forall>r. map_of (es_tombstones s) (co_tenantID c, tr_subAssemblyID t) = Some r \<longrightarrow> bigint_ok (tb_Sequence r + 1)"
  shows "\<exists>s'. provision_all c db now ts s = Inr s'"
  using assms
proof (induction ts arbitrary: s)
  case (Cons t ts)
  obtain s1 where s1: "provisionOverrunArtifacts c db t now s = Inr s1"
    "dw_DraftID ` set (es_drafts s1) \<subseteq> insert (ed_uuid db (tr_subAssemblyID t)) (dw_DraftID ` set (es_drafts s))"
    using provision_ok [of db t s c now] Cons.prems(3,4) by auto
  have other: "tr_subAssemblyID u \<noteq> tr_subAssemblyID t" if "u \<in> set ts" for u
  proof -
    have "tr_subAssemblyID u \<in> set (map tr_subAssemblyID ts)" using that by simp
    with Cons.prems(1) show ?thesis by (metis distinct.simps(2) list.map(2))
  qed
  have "\<exists>s'. provision_all c db now ts s1 = Inr s'"
  proof (rule Cons.IH)
    show "\<forall>u \<in> set ts. ed_uuid db (tr_subAssemblyID u) \<notin> dw_DraftID ` set (es_drafts s1)"
    proof
      fix u assume u: "u \<in> set ts"
      have "ed_uuid db (tr_subAssemblyID u) \<noteq> ed_uuid db (tr_subAssemblyID t)"
        using other [OF u] injD [OF Cons.prems(2)] by metis
      moreover have "ed_uuid db (tr_subAssemblyID u) \<notin> dw_DraftID ` set (es_drafts s)" using Cons.prems(3) u by simp
      ultimately show "ed_uuid db (tr_subAssemblyID u) \<notin> dw_DraftID ` set (es_drafts s1)" using s1(2) by blast
    qed
    show "\<forall>u \<in> set ts. \<forall>r. map_of (es_tombstones s1) (co_tenantID c, tr_subAssemblyID u) = Some r \<longrightarrow> bigint_ok (tb_Sequence r + 1)"
      using provision_spec(2) [OF s1(1)] Cons.prems(4) other by simp
  qed (use Cons.prems(1,2) in simp_all)
  with s1(1) show ?case by simp
qed simp

text \<open>C25: no expired lease stays active. When the database takes the transaction, draws fresh draft ids
  and has sequence numbers left, a sweep succeeds, and it overruns every active lease of the tenant
  whose time is up, with tombstone and draft; and whatever transactions follow, such a lease is never
  active again under its epoch.\<close>

theorem sweep_ends_expired_leases:
  assumes "leases_ok s" and "\<And>u. ed_admits db u" and "inj (ed_uuid db)"
    and "\<And>sub. ed_uuid db sub \<notin> dw_DraftID ` set (es_drafts s)"
    and "\<And>k t. map_of (es_tombstones s) k = Some t \<Longrightarrow> bigint_ok (tb_Sequence t + 1)"
  shows "\<exists>s'. SweepExpiredLeases c db now s = (None, s') \<and>
    (\<forall>sub r. map_of (es_leases s) (co_tenantID c, sub) = Some r \<and> lr_State r = ''ACTIVE'' \<and>
        lr_ValidUntil r \<le> pg_time now \<longrightarrow>
      lease_abs (co_tenantID c, sub) s' = Some (lr_LeaseEpoch r, Overrun) \<and>
      evidence s' (co_tenantID c, sub) (lr_LeaseEpoch r) (lr_AssignedDeviceID r) \<and>
      (\<forall>ops. lease_abs (co_tenantID c, sub) (edge_run C ops s') \<noteq> Some (lr_LeaseEpoch r, Leased)))"
proof -
  have keys: "distinct (map fst (es_leases s))" using assms(1) by (simp add: leases_ok_def)
  have "\<exists>s'. provision_all c db now (expirations c now s) (marked c now s) = Inr s'"
    by (rule provision_all_ok [OF expirations_distinct [OF keys] assms(3)])
      (use assms(4,5) in \<open>simp_all add: marked_def\<close>)
  then obtain s' where s': "SweepExpiredLeases c db now s = (None, s')"
    using assms(2) by (auto simp: Sweep_eq commit_lease_def)
  have "lease_abs (co_tenantID c, sub) s' = Some (lr_LeaseEpoch r, Overrun) \<and>
      evidence s' (co_tenantID c, sub) (lr_LeaseEpoch r) (lr_AssignedDeviceID r) \<and>
      (\<forall>ops. lease_abs (co_tenantID c, sub) (edge_run C ops s') \<noteq> Some (lr_LeaseEpoch r, Leased))"
    if r: "map_of (es_leases s) (co_tenantID c, sub) = Some r" "lr_State r = ''ACTIVE''" "lr_ValidUntil r \<le> pg_time now"
    for sub r
  proof -
    have x: "lease_expired c now ((co_tenantID c, sub), r)" using r(2,3) by (simp add: lease_expired_def)
    note ex = Sweep_ok(2) [OF assms(1) s' r(1) x]
    then have a: "lease_abs (co_tenantID c, sub) s' = Some (lr_LeaseEpoch r, Overrun)"
      by (simp add: lease_abs_def overrun_row_def)
    have "lease_abs (co_tenantID c, sub) (edge_run C ops s') \<noteq> Some (lr_LeaseEpoch r, Leased)" for ops
      using edge_run_refines(2) [OF a, of C ops] by auto
    with a ex show ?thesis by blast
  qed
  with s' show ?thesis by blast
qed

subsection \<open>The log of overrides\<close>

text \<open>A chain of audit rows from a previous root, with the arrival times that were hashed.\<close>

fun chained :: "trust_crypto \<Rightarrow> bytes \<Rightarrow> MerkleRow list \<Rightarrow> gotime list \<Rightarrow> bool" where
  "chained C prev [] [] = True"
| "chained C prev (r # rs) (t # ts) \<longleftrightarrow> mk_PrevEventHash r = prev \<and> mk_CommittedAt r = pg_time t \<and>
     length (mk_PayloadHash r) = 32 \<and>
     mk_EventHash r = sha256 C (event_message prev (mk_PayloadHash r) (mk_AuthorityEpoch r) (mk_LeaseEpoch r) t) \<and>
     chained C (mk_EventHash r) rs ts"
| "chained C prev _ _ = False"

definition chain_end :: "bytes \<Rightarrow> MerkleRow list \<Rightarrow> bytes" where
  "chain_end prev rs = (if rs = [] then prev else mk_EventHash (last rs))"

fun chain_inputs :: "bytes \<Rightarrow> MerkleRow list \<Rightarrow> gotime list \<Rightarrow> bytes set" where
  "chain_inputs prev (r # rs) (t # ts) =
     insert (event_message prev (mk_PayloadHash r) (mk_AuthorityEpoch r) (mk_LeaseEpoch r) t)
       (chain_inputs (mk_EventHash r) rs ts)"
| "chain_inputs prev _ _ = {}"

lemma chained_tail: "chained C prev (r # rs) (t # ts) \<Longrightarrow> chained C (mk_EventHash r) rs ts"
  unfolding chained.simps by (elim conjE) assumption

lemma chained_append:
  "chained C prev (rs @ [r]) (ts @ [t]) \<longleftrightarrow> chained C prev rs ts \<and> chained C (chain_end prev rs) [r] [t]"
proof (induction rs arbitrary: prev ts)
  case Nil
  then show ?case by (cases ts; cases "tl ts") (auto simp: chain_end_def)
next
  case (Cons u us)
  then show ?case by (cases ts; cases us) (auto simp: chain_end_def)
qed

lemma chain_end_sized:
  "chained C prev rs ts \<Longrightarrow> \<forall>x. length (sha256 C x) = 32 \<Longrightarrow> length prev = 32 \<Longrightarrow> length (chain_end prev rs) = 32"
  by (induction C prev rs ts rule: chained.induct) (auto simp: chain_end_def)

definition rows_of :: "string \<Rightarrow> EdgeStore \<Rightarrow> MerkleRow list" where
  "rows_of ten s = filter (\<lambda>r. mk_TenantID r = ten) (es_log s)"

definition merged_in :: "string \<Rightarrow> DraftRow \<Rightarrow> bool" where
  "merged_in ten d \<longleftrightarrow> dw_TenantID d = ten \<and> dw_State d = ''MERGED_VIA_ESCROW''"

definition merged_of :: "string \<Rightarrow> EdgeStore \<Rightarrow> DraftRow list" where
  "merged_of ten s = filter (merged_in ten) (es_drafts s)"

definition log_ok :: "trust_crypto \<Rightarrow> EdgeStore \<Rightarrow> bool" where
  "log_ok C s \<longleftrightarrow> (\<forall>ten. (\<exists>ts. chained C zero_hash (rows_of ten s) ts) \<and>
     length (rows_of ten s) = length (merged_of ten s))"

lemma previous_root_end:
  assumes "\<forall>x. length (sha256 C x) = 32" "chained C zero_hash (rows_of ten s) ts" "previous_root ten s = Inr prev"
  shows "prev = chain_end zero_hash (rows_of ten s)"
proof (cases "rows_of ten s")
  case Nil
  with assms(3) show ?thesis by (simp add: previous_root_def rows_of_def chain_end_def)
next
  case (Cons r rs)
  then have e: "chain_end zero_hash (rows_of ten s) = mk_EventHash (last (rows_of ten s))"
    by (simp add: chain_end_def)
  have "length (chain_end zero_hash (rows_of ten s)) = 32"
    by (rule chain_end_sized [OF assms(2,1)]) (simp add: zero_hash_def)
  then have "previous_root ten s = Inr (mk_EventHash (last (rows_of ten s)))"
    using Cons unfolding e by (cases rs) (auto simp: previous_root_def rows_of_def Let_def)
  with assms(3) e show ?thesis by simp
qed

lemma merged_grow: "drafts_grow s s' \<Longrightarrow> merged_of ten s' = merged_of ten s"
  by (auto simp: drafts_grow_def merged_of_def merged_in_def filter_empty_conv)

lemma merged_in_merge:
  "merged_in ten' (if open_draft ten k d then merged_draft rec now d else d) \<longleftrightarrow>
     merged_in ten' d \<or> ten' = ten \<and> open_draft ten k d"
  "open_draft ten k d \<Longrightarrow> \<not> merged_in ten' d"
  by (auto simp: merged_in_def open_draft_def merged_draft_def)

lemma merge_counts:
  "length (filter (merged_in ten') (map (\<lambda>d. if open_draft ten k d then merged_draft rec now d else d) ds)) =
    length (filter (merged_in ten') ds) + (if ten' = ten then length (filter (open_draft ten k) ds) else 0)"
proof (induction ds)
  case (Cons d ds)
  show ?case
    using Cons.IH merged_in_merge(2) [of ten k d ten'] by (cases "ten' = ten") (auto simp: merged_in_merge(1))
qed simp

lemma log_ok_same: "es_log s' = es_log s \<Longrightarrow> drafts_grow s s' \<Longrightarrow> log_ok C s \<Longrightarrow> log_ok C s'"
  by (simp add: log_ok_def rows_of_def merged_grow)

lemma Override_log_ok:
  assumes "\<forall>x. length (sha256 C x) = 32" "log_ok C s"
    and "CommitEscrowOverride C ten org db rec td sso sla now s = (res, s')"
  shows "log_ok C s' \<and> (\<exists>rows. es_log s' = es_log s @ rows)"
  using assms(3)
proof (cases rule: Override_cases)
  case refused
  then have "es_log s' = es_log s" "es_drafts s' = es_drafts s" by auto
  with log_ok_same [OF _ _ assms(2)] show ?thesis by simp
next
  case (committed ev prev t)
  let ?row = "merkle_row C ten org rec (high_water ten s) prev now (es_nextSequence s)"
  have log: "es_log s' = es_log s @ [?row]" using committed(7) by simp
  have drafts: "es_drafts s' = map (\<lambda>d. if open_draft ten (eo_DraftWorkOrderID rec) d
      then merged_draft rec now d else d) (es_drafts s)" using committed(7) by simp
  have rows: "rows_of ten' s' = rows_of ten' s @ (if ten' = ten then [?row] else [])" for ten'
    by (simp add: rows_of_def log merkle_row_def)
  have "length (merged_of ten' s') = length (merged_of ten' s) + (if ten' = ten then 1 else 0)" for ten'
    unfolding merged_of_def drafts merge_counts using committed(6) by simp
  moreover have "\<exists>ts. chained C zero_hash (rows_of ten' s') ts" for ten'
  proof -
    obtain ts where ts: "chained C zero_hash (rows_of ten' s) ts" using assms(2) by (auto simp: log_ok_def)
    show ?thesis
    proof (cases "ten' = ten")
      case True
      then have "prev = chain_end zero_hash (rows_of ten' s)"
        using previous_root_end [OF assms(1)] ts committed(2) by blast
      then have "chained C zero_hash (rows_of ten' s @ [?row]) (ts @ [now])"
        unfolding chained_append using ts assms(1) by (simp add: merkle_row_def CanonicalDigest_def)
      with True rows show ?thesis by auto
    next
      case False
      with ts rows show ?thesis by auto
    qed
  qed
  ultimately have "log_ok C s'" using assms(2) by (simp add: log_ok_def rows)
  with log show ?thesis by blast
qed

lemma edge_next_log:
  assumes "\<forall>x. length (sha256 C x) = 32" "leases_ok s" "log_ok C s"
  shows "log_ok C (edge_next C op s) \<and> (\<exists>rows. es_log (edge_next C op s) = es_log s @ rows)"
proof -
  have same: ?thesis if "es_log (edge_next C op s) = es_log s" "drafts_grow s (edge_next C op s)"
    using that log_ok_same assms(3) by (metis append_Nil2)
  show ?thesis
  proof (cases op)
    case (Dispatch c db lease)
    with Dispatch_ok [OF assms(2), of c db lease] show ?thesis by (intro same) simp_all
  next
    case (SubmitUpdate c db sub now)
    with Update_ok [OF assms(2)] show ?thesis
      by (intro same) (fastforce split: option.splits)+
  next
    case (SubmitDiagnose c db sub now)
    obtain e s' where "submit_diagnose c db sub now s = (e, s')" by (cases "submit_diagnose c db sub now s")
    with SubmitDiagnose Diagnose_ok [OF assms(2)] show ?thesis by (intro same) fastforce+
  next
    case (Sweep c db now)
    obtain e s' where w: "SweepExpiredLeases c db now s = (e, s')" by (cases "SweepExpiredLeases c db now s")
    show ?thesis
    proof (cases e)
      case None
      with Sweep w Sweep_ok(3,4) [OF assms(2)] show ?thesis by (intro same) simp_all
    next
      case (Some x)
      with Sweep w Sweep_leases [OF w] show ?thesis by (intro same) simp_all
    qed
  next
    case (Ingest ing db b now)
    then show ?thesis by (intro same) simp_all
  next
    case (Override ten org db rec td sso sla now)
    with Override_log_ok [OF assms(1,3)] show ?thesis by (metis edge_next.simps(6) prod.collapse)
  qed
qed


text \<open>The chain seals its contents. Two chains of audit rows of the same length that end in the same
  event hash agree in every payload hash and in both epochs of every row, whichever roots they start
  from, unless SHA-256 collides on two of the hashed events.\<close>

theorem override_chain_sealed:
  assumes "chained C p rs ts" "chained C q us vs" "length rs = length us"
    and "chain_end p rs = chain_end q us" "rs \<noteq> []" "length p = 32" "length q = 32"
    and "\<forall>x. length (sha256 C x) = 32" "inj_on (sha256 C) (chain_inputs p rs ts \<union> chain_inputs q us vs)"
  shows "p = q \<and> map (\<lambda>r. (mk_PayloadHash r, mk_AuthorityEpoch r, mk_LeaseEpoch r)) rs =
    map (\<lambda>r. (mk_PayloadHash r, mk_AuthorityEpoch r, mk_LeaseEpoch r)) us"
  using assms
proof (induction C p rs ts arbitrary: q us vs rule: chained.induct)
  case (2 C p r rs t ts)
  obtain u us' where us: "us = u # us'" using "2.prems"(3) by (cases us) auto
  obtain v vs' where vs: "vs = v # vs'" using "2.prems"(2) us by (cases vs) auto
  have len: "length (mk_EventHash r) = 32" "length (mk_EventHash u) = 32"
    using "2.prems"(1,2,8) us vs by auto
  have same: "mk_EventHash r = mk_EventHash u \<and>
    map (\<lambda>r. (mk_PayloadHash r, mk_AuthorityEpoch r, mk_LeaseEpoch r)) rs =
    map (\<lambda>r. (mk_PayloadHash r, mk_AuthorityEpoch r, mk_LeaseEpoch r)) us'"
  proof (cases "rs = []")
    case True
    with "2.prems"(3,4) us show ?thesis by (simp add: chain_end_def)
  next
    case False
    then have "us' \<noteq> []" using "2.prems"(3) us by auto
    with False "2.prems"(4) us have "chain_end (mk_EventHash r) rs = chain_end (mk_EventHash u) us'"
      by (simp add: chain_end_def)
    moreover have "chained C (mk_EventHash r) rs ts" "chained C (mk_EventHash u) us' vs'" "length rs = length us'"
      using "2.prems"(1-3) us vs by (auto dest: chained_tail)
    moreover have "inj_on (sha256 C) (chain_inputs (mk_EventHash r) rs ts \<union> chain_inputs (mk_EventHash u) us' vs')"
      by (rule inj_on_subset [OF "2.prems"(9)]) (auto simp: us vs)
    ultimately show ?thesis
      using "2.IH" False len "2.prems"(8) by blast
  qed
  then have "sha256 C (event_message p (mk_PayloadHash r) (mk_AuthorityEpoch r) (mk_LeaseEpoch r) t) =
      sha256 C (event_message q (mk_PayloadHash u) (mk_AuthorityEpoch u) (mk_LeaseEpoch u) v)"
    using "2.prems"(1,2) us vs by simp
  then have "event_message p (mk_PayloadHash r) (mk_AuthorityEpoch r) (mk_LeaseEpoch r) t =
      event_message q (mk_PayloadHash u) (mk_AuthorityEpoch u) (mk_LeaseEpoch u) v"
    by (rule inj_onD [OF "2.prems"(9)]) (simp_all add: us vs)
  then have "p = q \<and> mk_PayloadHash r = mk_PayloadHash u \<and> mk_AuthorityEpoch r = mk_AuthorityEpoch u \<and>
      mk_LeaseEpoch r = mk_LeaseEpoch u"
    using "2.prems"(1,2,6,7) us vs by (simp add: event_message_def)
  with same us show ?case by simp
qed auto

subsection \<open>Runs of the coordinator\<close>

definition demo_coordinator :: LeaseCoordinator where
  "demo_coordinator = \<lparr>co_tenantID = ''t1'', co_orgID = ''o1'', co_edgeAuthorityDID = ''did:edge''\<rparr>"

definition demo_session :: edge_session where
  "demo_session = \<lparr>ed_admits = \<lambda>s. True, ed_aggregate_lock = False, ed_uuid = \<lambda>sub. ''draft-'' @ sub\<rparr>"

definition demo_lease :: SubAssemblyLease where
  "demo_lease = \<lparr>sl_SubAssemblyID = ''hull'', sl_ParentAssetDID = ''did:ship'', sl_AssignedDeviceID = ''d1'',
     sl_InspectorID = ''u1'', sl_RequiredSkill = ''NDT'', sl_CriticalityClass = ''STRUCTURAL'',
     sl_LeaseEpoch = 3, sl_LeaseStart = 1000, sl_ValidUntil = 5000, sl_State = ''ACTIVE''\<rparr>"

definition no_edge_rows :: EdgeStore where
  "no_edge_rows = \<lparr>es_leases = [], es_drafts = [], es_tombstones = [], es_epochs = [], es_revocations = [],
     es_log = [], es_nextSequence = 1\<rparr>"

definition demo_leased :: EdgeStore where
  "demo_leased = no_edge_rows\<lparr>es_leases := [((''t1'', ''hull''), lease_row demo_coordinator demo_lease)]\<rparr>"

lemmas demo_edge = demo_coordinator_def demo_session_def demo_lease_def no_edge_rows_def lease_row_def pg_time_def

lemma demo_ok: "leases_ok no_edge_rows" "leases_ok demo_leased" "log_ok C no_edge_rows"
  by (auto simp: leases_ok_def log_ok_def rows_of_def merged_of_def demo_leased_def demo_edge intro: exI [of _ "[]"])

lemma demo_dispatched: "edge_next C (Dispatch demo_coordinator demo_session demo_lease) no_edge_rows = demo_leased"
  by (simp add: DispatchLease_def commit_lease_def bigint_ok_def demo_leased_def demo_edge Let_def)

lemma demo_swept:
  "map_of (es_leases (edge_next C (Sweep demo_coordinator demo_session 9000) demo_leased)) (''t1'', ''hull'') =
     Some (overrun_row 9000 (lease_row demo_coordinator demo_lease))"
  by (simp add: SweepExpiredLeases_def commit_lease_def lease_expired_def provisionOverrunArtifacts_def
      upsert_tombstone_def insert_draft_def transition_of_def demo_leased_def demo_edge Let_def)

lemma lease_machine_refined_witness:
  "\<exists>e' p'. lease_abs (''t1'', ''hull'')
      (edge_run demo_trust [Sweep demo_coordinator demo_session 9000] demo_leased) = Some (e', p') \<and> 3 \<le> e'"
proof -
  have "lease_abs (''t1'', ''hull'') demo_leased = Some (3, Leased)"
    by (simp add: lease_abs_def demo_leased_def demo_edge)
  then show ?thesis
    using lease_machine_refined [of "(''t1'', ''hull'')" demo_leased demo_trust] by blast
qed

lemma overrun_leaves_evidence_witness:
  "\<exists>t. AssertsSupremacy ''d1'' 3 (tombstone_record ''hull'' t) \<and>
    map_of (es_tombstones (edge_run demo_trust [Dispatch demo_coordinator demo_session demo_lease,
      Sweep demo_coordinator demo_session 9000] no_edge_rows)) (''t1'', ''hull'') = Some t"
  (is "\<exists>t. _ \<and> map_of (es_tombstones (edge_run _ ?ops _)) _ = _")
proof -
  have "map_of (es_leases (edge_run demo_trust ?ops no_edge_rows)) (''t1'', ''hull'') =
      Some (overrun_row 9000 (lease_row demo_coordinator demo_lease))"
    unfolding edge_run_def by (simp add: demo_dispatched demo_swept del: edge_next.simps)
  from overrun_leaves_evidence [OF demo_ok(1) this] show ?thesis
    by (auto simp: overrun_row_def demo_edge)
qed

lemma submission_within_lease_witness:
  "lease_abs (''t1'', ''hull'') (snd (SubmitInspection demo_coordinator demo_session id ''hull'' 4000 demo_leased)) =
     Some (3, Submitted)"
proof -
  obtain res s' where e: "SubmitInspection demo_coordinator demo_session id ''hull'' 4000 demo_leased = (res, s')"
    by (cases "SubmitInspection demo_coordinator demo_session id ''hull'' 4000 demo_leased")
  then have "res = None"
    by (simp add: SubmitInspection_def submit_update_def commit_lease_def demo_leased_def demo_edge Let_def)
  with submission_within_lease [OF e] demo_ok(2) e show ?thesis
    by (auto simp: demo_leased_def demo_edge)
qed

lemma sweep_ends_expired_leases_witness:
  "\<exists>s'. SweepExpiredLeases demo_coordinator demo_session 9000 demo_leased = (None, s') \<and>
     (\<forall>ops. lease_abs (''t1'', ''hull'') (edge_run demo_trust ops s') \<noteq> Some (3, Leased))"
proof -
  have inj: "inj (ed_uuid demo_session)" by (simp add: inj_def demo_session_def)
  have r: "map_of (es_leases demo_leased) (co_tenantID demo_coordinator, ''hull'') =
      Some (lease_row demo_coordinator demo_lease)"
    by (simp add: demo_leased_def demo_edge)
  have facts: "ed_admits demo_session u" "ed_uuid demo_session sub \<notin> dw_DraftID ` set (es_drafts demo_leased)"
    "lr_State (lease_row demo_coordinator demo_lease) = ''ACTIVE''"
    "lr_ValidUntil (lease_row demo_coordinator demo_lease) \<le> pg_time 9000" for u sub
    by (simp_all add: demo_leased_def demo_edge)
  have none: "es_tombstones demo_leased = []" by (simp add: demo_leased_def demo_edge)
  obtain s' where s': "SweepExpiredLeases demo_coordinator demo_session 9000 demo_leased = (None, s')"
    "\<forall>ops. lease_abs (co_tenantID demo_coordinator, ''hull'') (edge_run demo_trust ops s') \<noteq>
       Some (lr_LeaseEpoch (lease_row demo_coordinator demo_lease), Leased)"
    using sweep_ends_expired_leases [where c = demo_coordinator and now = 9000 and C = demo_trust,
        OF demo_ok(2) facts(1) inj facts(2)]
      r facts(3,4) by (simp only: none map_of.simps) blast
  then show ?thesis by (auto simp: demo_coordinator_def demo_lease_def lease_row_def)
qed

definition demo_chain_crypto :: trust_crypto where
  "demo_chain_crypto = demo_trust\<lparr>sha256 := \<lambda>x. replicate 32 (CHR 0x07)\<rparr>"


definition demo_event :: MerkleRow where
  "demo_event = \<lparr>mk_TenantID = ''t1'', mk_OrganizationID = ''o1'', mk_SequenceID = 1, mk_SubAssemblyID = ''hull'',
     mk_LeaseEpoch = 3, mk_AuthorityEpoch = 0, mk_EventType = ''LEASE_OVERRUN_ADMIN_OVERRIDE'',
     mk_PayloadHash = zero_hash, mk_PrevEventHash = zero_hash, mk_EventHash = replicate 32 (CHR 0x07),
     mk_PermanentFlag = False, mk_CommittedAt = 0\<rparr>"

lemma override_chain_sealed_witness:
  "chained demo_chain_crypto zero_hash [demo_event] [0] \<and>
   map mk_LeaseEpoch [demo_event] = map mk_LeaseEpoch [demo_event\<lparr>mk_OrganizationID := ''o2''\<rparr>]"
proof
  show c: "chained demo_chain_crypto zero_hash [demo_event] [0]"
    by (simp add: demo_event_def demo_chain_crypto_def zero_hash_def pg_time_def)
  have d: "chained demo_chain_crypto zero_hash [demo_event\<lparr>mk_OrganizationID := ''o2''\<rparr>] [0]"
    by (simp add: demo_event_def demo_chain_crypto_def zero_hash_def pg_time_def)
  from override_chain_sealed [OF c d]
  show "map mk_LeaseEpoch [demo_event] = map mk_LeaseEpoch [demo_event\<lparr>mk_OrganizationID := ''o2''\<rparr>]"
    by (simp add: chain_end_def zero_hash_def demo_chain_crypto_def demo_event_def)
qed

end
