(* ===== verification/Asset_Entitlement.thy ===== *)
theory Asset_Entitlement
  imports Postgres Shared_Kernel
begin

text \<open>
  Asset entitlements, physical tags and offline packages: the types and validations of
  \<open>internal/domain/assetentitlement/entitlement.go\<close> and the repositories of
  \<open>internal/assetentitlementpg/postgres.go\<close> on the tables of migration 0053.

  \<^item> A table is the list of its rows; an entitlement row is an \<open>AssetEntitlement\<close> without tags and
    packages, a tag row an \<open>AssetTag\<close>, a package row an \<open>OfflinePackage\<close>. A nullable text column
    that is read through \<open>COALESCE(_, '')\<close> is the text. Every statement names tenant and organization
    of its actor, which are those of the transaction, so row-level security hides nothing more.
  \<^item> The keys and the CHECK constraints of the three tables are written out; the foreign keys to
    other tables and what else the database may refuse are the predicate \<open>as_admits\<close> of the session,
    the reading of a JSON text by a \<open>JSONB\<close> column is its function \<open>as_jsonb\<close>. An error leaves the
    tables as they were. \<open>time.Now\<close> is an argument; rows keep whole microseconds.
  \<^item> Errors are the sentinels; the text they wrap is left out.
\<close>

datatype entitlement_error =
    EntInvalidActor | EntInvalidEntitlement | EntInvalidTag | EntInvalidPackage | EntInvalidTransition
  | EntStaleRevision | EntNotFound | EntPackageNotFound | EntNotActive | EntPackageStatus string
  | EntTagNotFound | EntScopeFailure | EntDatabaseFailure

record EntActor =
  ea_TenantID :: string
  ea_OrganizationID :: string
  ea_ActorID :: string

definition EntActor_Validate :: "EntActor \<Rightarrow> entitlement_error option" where
  "EntActor_Validate a =
     (if blank (ea_TenantID a) \<or> blank (ea_OrganizationID a) \<or> blank (ea_ActorID a)
      then Some EntInvalidActor else None)"

definition EntitlementTypes :: "string list" where
  "EntitlementTypes = [''INSPECTION'', ''MAINTENANCE'', ''AUDIT'', ''REVIEW'']"

definition TagTypes :: "string list" where
  "TagTypes = [''QR'', ''BARCODE'', ''NFC'', ''RFID'', ''SERIAL_PLATE'']"

record AssetTag =
  at_TenantID :: string
  at_OrganizationID :: string
  at_AssetID :: string
  at_TagType :: string
  at_TagValue :: string
  at_TagDigest :: string
  at_AssignedAt :: gotime
  at_AssignedBy :: string

definition AssetTag_Validate :: "AssetTag \<Rightarrow> entitlement_error option" where
  "AssetTag_Validate t =
     (if blank (at_AssetID t) \<or> blank (at_TagValue t) then Some EntInvalidTag
      else if at_TagType t \<notin> set TagTypes then Some EntInvalidTag
      else if blank (at_TagDigest t) then Some EntInvalidTag
      else if time_IsZero (at_AssignedAt t) then Some EntInvalidTag
      else if blank (at_AssignedBy t) then Some EntInvalidTag
      else None)"

definition ComputeTagDigest :: "(bytes \<Rightarrow> bytes) \<Rightarrow> string \<Rightarrow> string \<Rightarrow> string" where
  "ComputeTagDigest sha tagType tagValue = hex_encode (sha (tagType @ '':'' @ tagValue))"

record OfflinePackage =
  op_ID :: string
  op_TenantID :: string
  op_OrganizationID :: string
  op_EntitlementID :: string
  op_PackageVersion :: int64
  op_FormSnapshot :: bytes
  op_EvidencePolicySnapshot :: bytes
  op_AssetContext :: bytes
  op_PackageHash :: string
  op_Status :: string
  op_GeneratedAt :: "gotime option"
  op_DeliveredAt :: "gotime option"
  op_DeliveredToDeviceID :: string
  op_DeliveredToInspectorID :: string
  op_ExpiresAt :: "gotime option"
  op_RevokedAt :: "gotime option"
  op_RevokedBy :: string
  op_CreatedBy :: string
  op_CreatedAt :: gotime

definition absent_json :: "bytes \<Rightarrow> bool" where
  "absent_json j \<longleftrightarrow> j = [] \<or> j = ''null''"

definition package_status_ok :: "OfflinePackage \<Rightarrow> bool" where
  "package_status_ok p \<longleftrightarrow>
     (if op_Status p = ''PENDING'' then True
      else if op_Status p = ''GENERATED'' then op_GeneratedAt p \<noteq> None
      else if op_Status p = ''DELIVERED'' then
        op_DeliveredAt p \<noteq> None \<and> \<not> blank (op_DeliveredToDeviceID p) \<and> \<not> blank (op_DeliveredToInspectorID p)
      else if op_Status p = ''EXPIRED'' then True
      else if op_Status p = ''REVOKED'' then op_RevokedAt p \<noteq> None \<and> \<not> blank (op_RevokedBy p)
      else False)"

definition OfflinePackage_Validate :: "OfflinePackage \<Rightarrow> entitlement_error option" where
  "OfflinePackage_Validate p =
     (if blank (op_ID p) \<or> blank (op_EntitlementID p) then Some EntInvalidPackage
      else if op_PackageVersion p \<le> 0 then Some EntInvalidPackage
      else if absent_json (op_FormSnapshot p) then Some EntInvalidPackage
      else if absent_json (op_EvidencePolicySnapshot p) then Some EntInvalidPackage
      else if absent_json (op_AssetContext p) then Some EntInvalidPackage
      else if blank (op_PackageHash p) then Some EntInvalidPackage
      else if \<not> package_status_ok p then Some EntInvalidPackage
      else if op_CreatedBy p = [] \<or> time_IsZero (op_CreatedAt p) then Some EntInvalidPackage
      else None)"

definition package_can :: "string \<Rightarrow> string \<Rightarrow> bool" where
  "package_can status target \<longleftrightarrow>
     (if status = ''PENDING'' then target \<in> {''GENERATED'', ''REVOKED''}
      else if status = ''GENERATED'' then target \<in> {''DELIVERED'', ''EXPIRED'', ''REVOKED''}
      else if status = ''DELIVERED'' then target \<in> {''EXPIRED'', ''REVOKED''}
      else False)"

definition OfflinePackage_CanTransitionTo :: "OfflinePackage \<Rightarrow> string \<Rightarrow> entitlement_error option" where
  "OfflinePackage_CanTransitionTo p target =
     (if package_can (op_Status p) target then None else Some EntInvalidTransition)"

record AssetEntitlement =
  ae_ID :: string
  ae_TenantID :: string
  ae_OrganizationID :: string
  ae_WorkOrderID :: string
  ae_ScopeItemID :: string
  ae_AssetID :: string
  ae_AssetType :: string
  ae_EntitlementType :: string
  ae_Status :: string
  ae_FormVersionID :: string
  ae_AssignedInspectorID :: string
  ae_EntitledAt :: gotime
  ae_ExpiresAt :: "gotime option"
  ae_CompletedAt :: "gotime option"
  ae_CreatedBy :: string
  ae_CreatedAt :: gotime
  ae_UpdatedBy :: string
  ae_UpdatedAt :: gotime
  ae_Revision :: int64
  ae_Tags :: "AssetTag list"
  ae_Packages :: "OfflinePackage list"

definition entitlement_status_ok :: "AssetEntitlement \<Rightarrow> bool" where
  "entitlement_status_ok e \<longleftrightarrow>
     (if ae_Status e = ''ACTIVE'' then ae_CompletedAt e = None
      else if ae_Status e = ''COMPLETED'' then ae_CompletedAt e \<noteq> None
      else if ae_Status e = ''CANCELLED'' then ae_CompletedAt e = None
      else if ae_Status e = ''EXPIRED'' then ae_ExpiresAt e \<noteq> None \<and> ae_CompletedAt e = None
      else False)"

primrec first_refusal :: "('a \<Rightarrow> 'e option) \<Rightarrow> 'a list \<Rightarrow> 'e option" where
  "first_refusal f [] = None"
| "first_refusal f (x # xs) = (case f x of Some e \<Rightarrow> Some e | None \<Rightarrow> first_refusal f xs)"

definition AssetEntitlement_Validate :: "AssetEntitlement \<Rightarrow> entitlement_error option" where
  "AssetEntitlement_Validate e =
     (if blank (ae_ID e) \<or> blank (ae_WorkOrderID e) \<or> blank (ae_ScopeItemID e) then Some EntInvalidEntitlement
      else if blank (ae_AssetID e) \<or> blank (ae_AssetType e) then Some EntInvalidEntitlement
      else if ae_EntitlementType e \<notin> set EntitlementTypes then Some EntInvalidEntitlement
      else if \<not> entitlement_status_ok e then Some EntInvalidEntitlement
      else if (case ae_ExpiresAt e of None \<Rightarrow> False | Some t \<Rightarrow> t < ae_EntitledAt e) then Some EntInvalidEntitlement
      else if (case ae_CompletedAt e of None \<Rightarrow> False | Some t \<Rightarrow> t < ae_EntitledAt e) then Some EntInvalidEntitlement
      else if ae_CreatedBy e = [] \<or> time_IsZero (ae_CreatedAt e) \<or> ae_UpdatedBy e = [] \<or>
        time_IsZero (ae_UpdatedAt e) then Some EntInvalidEntitlement
      else if ae_Revision e < 1 then Some EntInvalidEntitlement
      else case first_refusal (\<lambda>t. AssetTag_Validate (t\<lparr>at_TenantID := ae_TenantID e,
          at_OrganizationID := ae_OrganizationID e, at_AssetID := ae_AssetID e\<rparr>)) (ae_Tags e) of
        Some x \<Rightarrow> Some x
      | None \<Rightarrow> first_refusal (\<lambda>p. OfflinePackage_Validate (p\<lparr>op_TenantID := ae_TenantID e,
          op_OrganizationID := ae_OrganizationID e, op_EntitlementID := ae_ID e\<rparr>)) (ae_Packages e))"

definition entitlement_can :: "string \<Rightarrow> string \<Rightarrow> bool" where
  "entitlement_can status target \<longleftrightarrow>
     status = ''ACTIVE'' \<and> target \<in> {''COMPLETED'', ''CANCELLED'', ''EXPIRED''}"

definition AssetEntitlement_CanTransitionTo :: "AssetEntitlement \<Rightarrow> string \<Rightarrow> entitlement_error option" where
  "AssetEntitlement_CanTransitionTo e target =
     (if entitlement_can (ae_Status e) target then None else Some EntInvalidTransition)"

subsection \<open>Tables and transactions\<close>

record AssetStore =
  as_entitlements :: "AssetEntitlement list"
  as_tags :: "AssetTag list"
  as_packages :: "OfflinePackage list"

record asset_session =
  as_begin :: "tx_error option"
  as_admits :: "AssetStore \<Rightarrow> bool"
  as_jsonb :: "bytes \<Rightarrow> bytes option"
  as_sha :: "bytes \<Rightarrow> bytes"

definition asset_begin :: "asset_session \<Rightarrow> EntActor \<Rightarrow> entitlement_error option" where
  "asset_begin sn a =
     (case EntActor_Validate a of
        Some e \<Rightarrow> Some e
      | None \<Rightarrow> (case as_begin sn of Some _ \<Rightarrow> Some EntScopeFailure | None \<Rightarrow> None))"

definition asset_commit :: "asset_session \<Rightarrow> AssetStore \<Rightarrow> AssetStore \<Rightarrow> 'a \<Rightarrow> (entitlement_error + 'a) \<times> AssetStore" where
  "asset_commit sn old new x = (if as_admits sn new then (Inr x, new) else (Inl EntDatabaseFailure, old))"

definition own_entitlement :: "EntActor \<Rightarrow> string \<Rightarrow> AssetEntitlement \<Rightarrow> bool" where
  "own_entitlement a ident e \<longleftrightarrow> ae_TenantID e = ea_TenantID a \<and> ae_OrganizationID e = ea_OrganizationID a \<and>
     ae_ID e = ident"

definition own_tags :: "EntActor \<Rightarrow> string \<Rightarrow> AssetStore \<Rightarrow> AssetTag list" where
  "own_tags a assetID s =
     sort_key at_TagType (sort_key at_TagValue
       (filter (\<lambda>t. at_TenantID t = ea_TenantID a \<and> at_OrganizationID t = ea_OrganizationID a \<and>
          at_AssetID t = assetID) (as_tags s)))"

definition loadEntitlement :: "EntActor \<Rightarrow> string \<Rightarrow> AssetStore \<Rightarrow> entitlement_error + AssetEntitlement" where
  "loadEntitlement a ident s =
     (case List.find (own_entitlement a ident) (as_entitlements s) of
        None \<Rightarrow> Inl EntNotFound
      | Some e \<Rightarrow> Inr (e\<lparr>ae_Tags := own_tags a (ae_AssetID e) s\<rparr>))"

text \<open>The CHECK constraints that a row must satisfy; \<open>now()\<close> of the transaction is \<open>now\<close>.\<close>

definition entitlement_row_ok :: "gotime \<Rightarrow> AssetEntitlement \<Rightarrow> bool" where
  "entitlement_row_ok now e \<longleftrightarrow>
     ae_EntitlementType e \<in> set EntitlementTypes \<and>
     ae_Status e \<in> {''ACTIVE'', ''COMPLETED'', ''CANCELLED'', ''EXPIRED''} \<and>
     0 < ae_Revision e \<and> ae_Revision e \<le> max_int64 \<and>
     (ae_Status e = ''COMPLETED'' \<longleftrightarrow> ae_CompletedAt e \<noteq> None) \<and>
     (ae_Status e = ''EXPIRED'' \<longrightarrow> (case ae_ExpiresAt e of None \<Rightarrow> False | Some t \<Rightarrow> t \<le> now))"

definition entitlement_clash :: "AssetEntitlement \<Rightarrow> AssetEntitlement \<Rightarrow> bool" where
  "entitlement_clash e r \<longleftrightarrow> ae_TenantID r = ae_TenantID e \<and> ae_OrganizationID r = ae_OrganizationID e \<and>
     (ae_ID r = ae_ID e \<or>
      ae_WorkOrderID r = ae_WorkOrderID e \<and> ae_ScopeItemID r = ae_ScopeItemID e \<and> ae_AssetID r = ae_AssetID e)"

text \<open>
  The upsert of a tag: the primary key names the asset, and type and value are unique within the
  organization, so a tag value of another asset is refused.
\<close>

definition same_tag :: "AssetTag \<Rightarrow> AssetTag \<Rightarrow> bool" where
  "same_tag t r \<longleftrightarrow> at_TenantID r = at_TenantID t \<and> at_OrganizationID r = at_OrganizationID t \<and>
     at_TagType r = at_TagType t \<and> at_TagValue r = at_TagValue t"

definition upsert_tag :: "AssetTag \<Rightarrow> AssetStore \<Rightarrow> entitlement_error + AssetStore" where
  "upsert_tag t s =
     (let row = t\<lparr>at_AssignedAt := pg_time (at_AssignedAt t)\<rparr> in
      if at_TagType t \<notin> set TagTypes then Inl EntDatabaseFailure
      else case List.find (same_tag t) (as_tags s) of
        None \<Rightarrow> Inr (s\<lparr>as_tags := as_tags s @ [row]\<rparr>)
      | Some r \<Rightarrow>
          if at_AssetID r \<noteq> at_AssetID t then Inl EntDatabaseFailure
          else Inr (s\<lparr>as_tags := map (\<lambda>x. if same_tag t x then x\<lparr>at_TagDigest := at_TagDigest row,
            at_AssignedAt := at_AssignedAt row, at_AssignedBy := at_AssignedBy row\<rparr> else x) (as_tags s)\<rparr>))"

definition insertTag :: "asset_session \<Rightarrow> EntActor \<Rightarrow> string \<Rightarrow> AssetTag \<Rightarrow> AssetStore \<Rightarrow> entitlement_error + AssetStore" where
  "insertTag sn a assetID t s =
     upsert_tag (t\<lparr>at_TenantID := ea_TenantID a, at_OrganizationID := ea_OrganizationID a, at_AssetID := assetID,
       at_TagDigest := if at_TagDigest t = [] then ComputeTagDigest (as_sha sn) (at_TagType t) (at_TagValue t)
         else at_TagDigest t\<rparr>) s"

primrec insert_tags ::
    "asset_session \<Rightarrow> EntActor \<Rightarrow> string \<Rightarrow> AssetTag list \<Rightarrow> AssetStore \<Rightarrow> entitlement_error + AssetStore" where
  "insert_tags sn a assetID [] s = Inr s"
| "insert_tags sn a assetID (t # ts) s =
     (case insertTag sn a assetID t s of Inl e \<Rightarrow> Inl e | Inr s' \<Rightarrow> insert_tags sn a assetID ts s')"

subsection \<open>Entitlements\<close>

definition registered :: "EntActor \<Rightarrow> gotime \<Rightarrow> AssetEntitlement \<Rightarrow> AssetEntitlement" where
  "registered a now ent = ent\<lparr>ae_Status := ''ACTIVE'', ae_TenantID := ea_TenantID a,
     ae_OrganizationID := ea_OrganizationID a, ae_CreatedBy := ea_ActorID a, ae_CreatedAt := now,
     ae_UpdatedBy := ea_ActorID a, ae_UpdatedAt := now, ae_Revision := 1,
     ae_EntitledAt := if time_IsZero (ae_EntitledAt ent) then now else ae_EntitledAt ent\<rparr>"

definition entitlement_row :: "AssetEntitlement \<Rightarrow> AssetEntitlement" where
  "entitlement_row e = e\<lparr>ae_EntitledAt := pg_time (ae_EntitledAt e), ae_ExpiresAt := map_option pg_time (ae_ExpiresAt e),
     ae_CompletedAt := None, ae_CreatedAt := pg_time (ae_CreatedAt e), ae_UpdatedAt := pg_time (ae_UpdatedAt e),
     ae_Tags := [], ae_Packages := []\<rparr>"

definition Register ::
    "asset_session \<Rightarrow> EntActor \<Rightarrow> gotime \<Rightarrow> AssetEntitlement \<Rightarrow> AssetStore \<Rightarrow>
     (entitlement_error + AssetEntitlement) \<times> AssetStore" where
  "Register sn a now ent s =
     (case EntActor_Validate a of
        Some e \<Rightarrow> (Inl e, s)
      | None \<Rightarrow>
         (let ent' = registered a now ent; row = entitlement_row ent' in
          case AssetEntitlement_Validate ent' of
            Some e \<Rightarrow> (Inl e, s)
          | None \<Rightarrow>
             (case asset_begin sn a of
                Some e \<Rightarrow> (Inl e, s)
              | None \<Rightarrow>
                  if list_ex (entitlement_clash row) (as_entitlements s) \<or> \<not> entitlement_row_ok now row
                    then (Inl EntDatabaseFailure, s)
                  else (case insert_tags sn a (ae_AssetID ent') (ae_Tags ent')
                      (s\<lparr>as_entitlements := as_entitlements s @ [row]\<rparr>) of
                    Inl e \<Rightarrow> (Inl e, s)
                  | Inr s' \<Rightarrow>
                     (case loadEntitlement a (ae_ID ent') s' of
                        Inl e \<Rightarrow> (Inl e, s)
                      | Inr stored \<Rightarrow> asset_commit sn s s' stored)))))"

definition ent_Get :: "asset_session \<Rightarrow> EntActor \<Rightarrow> string \<Rightarrow> AssetStore \<Rightarrow> entitlement_error + AssetEntitlement" where
  "ent_Get sn a ident s =
     (case asset_begin sn a of Some e \<Rightarrow> Inl e | None \<Rightarrow> loadEntitlement a ident s)"

definition GetByWorkOrder ::
    "asset_session \<Rightarrow> EntActor \<Rightarrow> string \<Rightarrow> AssetStore \<Rightarrow> entitlement_error + AssetEntitlement list" where
  "GetByWorkOrder sn a workOrderID s =
     (case asset_begin sn a of
        Some e \<Rightarrow> Inl e
      | None \<Rightarrow> Inr (sort_key ae_CreatedAt (sort_key ae_ID
          (filter (\<lambda>e. ae_TenantID e = ea_TenantID a \<and> ae_OrganizationID e = ea_OrganizationID a \<and>
             ae_WorkOrderID e = workOrderID) (as_entitlements s)))))"

definition GetByAsset ::
    "asset_session \<Rightarrow> EntActor \<Rightarrow> string \<Rightarrow> AssetStore \<Rightarrow> entitlement_error + AssetEntitlement list" where
  "GetByAsset sn a assetID s =
     (case asset_begin sn a of
        Some e \<Rightarrow> Inl e
      | None \<Rightarrow> Inr (sort_key (\<lambda>e. - ae_CreatedAt e) (sort_key ae_ID
          (filter (\<lambda>e. ae_TenantID e = ea_TenantID a \<and> ae_OrganizationID e = ea_OrganizationID a \<and>
             ae_AssetID e = assetID) (as_entitlements s)))))"

text \<open>
  The three guarded updates differ in the columns that they set (\<open>f\<close>): a row of the actor's scope with
  the id, the expected revision and status ACTIVE; when none matched, the row says why.
\<close>

definition update_active ::
    "(AssetEntitlement \<Rightarrow> AssetEntitlement) \<Rightarrow> asset_session \<Rightarrow> EntActor \<Rightarrow> gotime \<Rightarrow> string \<Rightarrow> int64 \<Rightarrow>
     AssetStore \<Rightarrow> (entitlement_error + AssetEntitlement) \<times> AssetStore" where
  "update_active f sn a now ident expectedRevision s =
     (case asset_begin sn a of
        Some e \<Rightarrow> (Inl e, s)
      | None \<Rightarrow>
         (let hit = (\<lambda>e. own_entitlement a ident e \<and> ae_Revision e = expectedRevision \<and> ae_Status e = ''ACTIVE'');
              new = (\<lambda>e. (f e)\<lparr>ae_UpdatedBy := ea_ActorID a, ae_UpdatedAt := pg_time now,
                 ae_Revision := ae_Revision e + 1\<rparr>);
              s' = s\<lparr>as_entitlements := map (\<lambda>e. if hit e then new e else e) (as_entitlements s)\<rparr> in
          if list_ex hit (as_entitlements s) then
            if list_ex (\<lambda>e. hit e \<and> \<not> entitlement_row_ok now (new e)) (as_entitlements s)
              then (Inl EntDatabaseFailure, s)
            else (case loadEntitlement a ident s' of
                Inl e \<Rightarrow> (Inl e, s)
              | Inr stored \<Rightarrow> asset_commit sn s s' stored)
          else (case loadEntitlement a ident s of
              Inl e \<Rightarrow> (Inl e, s)
            | Inr ent \<Rightarrow>
                if ae_Revision ent \<noteq> expectedRevision then (Inl EntStaleRevision, s)
                else (Inl EntNotActive, s))))"

definition ent_Complete ::
    "asset_session \<Rightarrow> EntActor \<Rightarrow> gotime \<Rightarrow> string \<Rightarrow> int64 \<Rightarrow> AssetStore \<Rightarrow>
     (entitlement_error + AssetEntitlement) \<times> AssetStore" where
  "ent_Complete sn a now = update_active (\<lambda>e. e\<lparr>ae_Status := ''COMPLETED'', ae_CompletedAt := Some (pg_time now)\<rparr>) sn a now"

definition ent_Cancel ::
    "asset_session \<Rightarrow> EntActor \<Rightarrow> gotime \<Rightarrow> string \<Rightarrow> int64 \<Rightarrow> AssetStore \<Rightarrow>
     (entitlement_error + AssetEntitlement) \<times> AssetStore" where
  "ent_Cancel sn a now = update_active (\<lambda>e. e\<lparr>ae_Status := ''CANCELLED''\<rparr>) sn a now"

definition AssignInspector ::
    "asset_session \<Rightarrow> EntActor \<Rightarrow> gotime \<Rightarrow> string \<Rightarrow> string \<Rightarrow> int64 \<Rightarrow> AssetStore \<Rightarrow>
     (entitlement_error + AssetEntitlement) \<times> AssetStore" where
  "AssignInspector sn a now ident inspectorID =
     update_active (\<lambda>e. e\<lparr>ae_AssignedInspectorID := inspectorID\<rparr>) sn a now ident"

definition prepared_tag :: "asset_session \<Rightarrow> EntActor \<Rightarrow> gotime \<Rightarrow> AssetTag \<Rightarrow> AssetTag" where
  "prepared_tag sn a now tag = tag\<lparr>at_TenantID := ea_TenantID a, at_OrganizationID := ea_OrganizationID a,
     at_AssignedAt := if time_IsZero (at_AssignedAt tag) then now else at_AssignedAt tag,
     at_AssignedBy := ea_ActorID a,
     at_TagDigest := if at_TagDigest tag = []
       then ComputeTagDigest (as_sha sn) (at_TagType tag) (at_TagValue tag) else at_TagDigest tag\<rparr>"

definition AddTag ::
    "asset_session \<Rightarrow> EntActor \<Rightarrow> gotime \<Rightarrow> AssetTag \<Rightarrow> AssetStore \<Rightarrow> (entitlement_error + AssetTag) \<times> AssetStore" where
  "AddTag sn a now tag s =
     (case EntActor_Validate a of
        Some e \<Rightarrow> (Inl e, s)
      | None \<Rightarrow>
         (let t = prepared_tag sn a now tag in
          case AssetTag_Validate t of
            Some e \<Rightarrow> (Inl e, s)
          | None \<Rightarrow>
             (case asset_begin sn a of
                Some e \<Rightarrow> (Inl e, s)
              | None \<Rightarrow> (case upsert_tag t s of Inl e \<Rightarrow> (Inl e, s) | Inr s' \<Rightarrow> asset_commit sn s s' t))))"

definition ListTags :: "asset_session \<Rightarrow> EntActor \<Rightarrow> string \<Rightarrow> AssetStore \<Rightarrow> entitlement_error + AssetTag list" where
  "ListTags sn a assetID s = (case asset_begin sn a of Some e \<Rightarrow> Inl e | None \<Rightarrow> Inr (own_tags a assetID s))"

definition RemoveTag ::
    "asset_session \<Rightarrow> EntActor \<Rightarrow> string \<Rightarrow> string \<Rightarrow> string \<Rightarrow> AssetStore \<Rightarrow> (entitlement_error + unit) \<times> AssetStore" where
  "RemoveTag sn a assetID tagType tagValue s =
     (case asset_begin sn a of
        Some e \<Rightarrow> (Inl e, s)
      | None \<Rightarrow>
         (let hit = (\<lambda>t. at_TenantID t = ea_TenantID a \<and> at_OrganizationID t = ea_OrganizationID a \<and>
                at_AssetID t = assetID \<and> at_TagType t = tagType \<and> at_TagValue t = tagValue) in
          if list_ex hit (as_tags s) then asset_commit sn s (s\<lparr>as_tags := filter (\<lambda>t. \<not> hit t) (as_tags s)\<rparr>) ()
          else (Inl EntTagNotFound, s)))"

subsection \<open>Offline packages\<close>

definition package_row_ok :: "OfflinePackage \<Rightarrow> bool" where
  "package_row_ok p \<longleftrightarrow> 0 < op_PackageVersion p \<and>
     op_Status p \<in> {''PENDING'', ''GENERATED'', ''DELIVERED'', ''EXPIRED'', ''REVOKED''} \<and>
     (op_Status p = ''GENERATED'' \<longrightarrow> op_GeneratedAt p \<noteq> None) \<and>
     (op_Status p = ''DELIVERED'' \<longrightarrow> op_DeliveredAt p \<noteq> None) \<and>
     (op_Status p = ''REVOKED'' \<longrightarrow> op_RevokedAt p \<noteq> None)"

definition package_clash :: "OfflinePackage \<Rightarrow> OfflinePackage \<Rightarrow> bool" where
  "package_clash p r \<longleftrightarrow> op_TenantID r = op_TenantID p \<and> op_OrganizationID r = op_OrganizationID p \<and>
     (op_ID r = op_ID p \<or> op_EntitlementID r = op_EntitlementID p \<and> op_PackageVersion r = op_PackageVersion p)"

definition own_package :: "EntActor \<Rightarrow> string \<Rightarrow> OfflinePackage \<Rightarrow> bool" where
  "own_package a ident p \<longleftrightarrow> op_TenantID p = ea_TenantID a \<and> op_OrganizationID p = ea_OrganizationID a \<and> op_ID p = ident"

definition loadPackage :: "EntActor \<Rightarrow> string \<Rightarrow> AssetStore \<Rightarrow> entitlement_error + OfflinePackage" where
  "loadPackage a ident s =
     (case List.find (own_package a ident) (as_packages s) of None \<Rightarrow> Inl EntPackageNotFound | Some p \<Rightarrow> Inr p)"

text \<open>The columns of the INSERT: neither \<open>generated_at\<close> nor \<open>expires_at\<close> is among them.\<close>

definition package_row ::
    "EntActor \<Rightarrow> gotime \<Rightarrow> OfflinePackage \<Rightarrow> bytes \<Rightarrow> bytes \<Rightarrow> bytes \<Rightarrow> OfflinePackage" where
  "package_row a now p form policy context =
     \<lparr>op_ID = op_ID p, op_TenantID = ea_TenantID a, op_OrganizationID = ea_OrganizationID a,
      op_EntitlementID = op_EntitlementID p, op_PackageVersion = op_PackageVersion p, op_FormSnapshot = form,
      op_EvidencePolicySnapshot = policy, op_AssetContext = context, op_PackageHash = op_PackageHash p,
      op_Status = ''GENERATED'', op_GeneratedAt = None, op_DeliveredAt = None, op_DeliveredToDeviceID = [],
      op_DeliveredToInspectorID = [], op_ExpiresAt = None, op_RevokedAt = None, op_RevokedBy = [],
      op_CreatedBy = ea_ActorID a, op_CreatedAt = pg_time now\<rparr>"

definition insert_package ::
    "asset_session \<Rightarrow> EntActor \<Rightarrow> gotime \<Rightarrow> OfflinePackage \<Rightarrow> AssetStore \<Rightarrow> entitlement_error + AssetStore" where
  "insert_package sn a now p s =
     (case (as_jsonb sn (op_FormSnapshot p), as_jsonb sn (op_EvidencePolicySnapshot p), as_jsonb sn (op_AssetContext p)) of
        (Some form, Some policy, Some context) \<Rightarrow>
          (let row = package_row a now p form policy context in
           if list_ex (package_clash row) (as_packages s) \<or> \<not> package_row_ok row \<or>
              \<not> list_ex (own_entitlement a (op_EntitlementID p)) (as_entitlements s) then Inl EntDatabaseFailure
           else Inr (s\<lparr>as_packages := as_packages s @ [row]\<rparr>))
      | _ \<Rightarrow> Inl EntDatabaseFailure)"

definition Generate ::
    "asset_session \<Rightarrow> EntActor \<Rightarrow> gotime \<Rightarrow> OfflinePackage \<Rightarrow> AssetStore \<Rightarrow>
     (entitlement_error + OfflinePackage) \<times> AssetStore" where
  "Generate sn a now pkg s =
     (case EntActor_Validate a of
        Some e \<Rightarrow> (Inl e, s)
      | None \<Rightarrow>
         (let p = pkg\<lparr>op_TenantID := ea_TenantID a, op_OrganizationID := ea_OrganizationID a,
               op_Status := ''PENDING'', op_CreatedBy := ea_ActorID a, op_CreatedAt := now\<rparr> in
          case OfflinePackage_Validate p of
            Some e \<Rightarrow> (Inl e, s)
          | None \<Rightarrow>
             (case asset_begin sn a of
                Some e \<Rightarrow> (Inl e, s)
              | None \<Rightarrow>
                 (case insert_package sn a now p s of
                    Inl e \<Rightarrow> (Inl e, s)
                  | Inr s' \<Rightarrow> asset_commit sn s s' (p\<lparr>op_Status := ''GENERATED'', op_GeneratedAt := Some now\<rparr>)))))"

definition pkg_Get :: "asset_session \<Rightarrow> EntActor \<Rightarrow> string \<Rightarrow> AssetStore \<Rightarrow> entitlement_error + OfflinePackage" where
  "pkg_Get sn a ident s = (case asset_begin sn a of Some e \<Rightarrow> Inl e | None \<Rightarrow> loadPackage a ident s)"

definition GetByEntitlement ::
    "asset_session \<Rightarrow> EntActor \<Rightarrow> string \<Rightarrow> AssetStore \<Rightarrow> entitlement_error + OfflinePackage list" where
  "GetByEntitlement sn a entitlementID s =
     (case asset_begin sn a of
        Some e \<Rightarrow> Inl e
      | None \<Rightarrow> Inr (sort_key (\<lambda>p. - op_PackageVersion p)
          (filter (\<lambda>p. op_TenantID p = ea_TenantID a \<and> op_OrganizationID p = ea_OrganizationID a \<and>
             op_EntitlementID p = entitlementID) (as_packages s))))"

definition update_package ::
    "(OfflinePackage \<Rightarrow> bool) \<Rightarrow> (OfflinePackage \<Rightarrow> OfflinePackage) \<Rightarrow> asset_session \<Rightarrow> EntActor \<Rightarrow> string \<Rightarrow>
     AssetStore \<Rightarrow> (entitlement_error + OfflinePackage) \<times> AssetStore" where
  "update_package guard f sn a ident s =
     (case asset_begin sn a of
        Some e \<Rightarrow> (Inl e, s)
      | None \<Rightarrow>
         (let hit = (\<lambda>p. own_package a ident p \<and> guard p);
              s' = s\<lparr>as_packages := map (\<lambda>p. if hit p then f p else p) (as_packages s)\<rparr> in
          if list_ex hit (as_packages s) then
            if list_ex (\<lambda>p. hit p \<and> \<not> package_row_ok (f p)) (as_packages s) then (Inl EntDatabaseFailure, s)
            else (case loadPackage a ident s' of
                Inl e \<Rightarrow> (Inl e, s)
              | Inr p \<Rightarrow> asset_commit sn s s' p)
          else (case loadPackage a ident s of
              Inl e \<Rightarrow> (Inl e, s)
            | Inr p \<Rightarrow> (Inl (EntPackageStatus (op_Status p)), s))))"

definition Deliver ::
    "asset_session \<Rightarrow> EntActor \<Rightarrow> gotime \<Rightarrow> string \<Rightarrow> string \<Rightarrow> string \<Rightarrow> AssetStore \<Rightarrow>
     (entitlement_error + OfflinePackage) \<times> AssetStore" where
  "Deliver sn a now ident deviceID inspectorID =
     update_package (\<lambda>p. op_Status p = ''GENERATED'')
       (\<lambda>p. p\<lparr>op_Status := ''DELIVERED'', op_DeliveredAt := Some (pg_time now),
          op_DeliveredToDeviceID := deviceID, op_DeliveredToInspectorID := inspectorID\<rparr>) sn a ident"

text \<open>The reason that the caller gives is not used.\<close>

definition pkg_Revoke ::
    "asset_session \<Rightarrow> EntActor \<Rightarrow> gotime \<Rightarrow> string \<Rightarrow> string \<Rightarrow> AssetStore \<Rightarrow>
     (entitlement_error + OfflinePackage) \<times> AssetStore" where
  "pkg_Revoke sn a now ident reason =
     update_package (\<lambda>p. op_Status p \<notin> {''EXPIRED'', ''REVOKED''})
       (\<lambda>p. p\<lparr>op_Status := ''REVOKED'', op_RevokedAt := Some (pg_time now), op_RevokedBy := ea_ActorID a\<rparr>) sn a ident"

definition ListByDevice ::
    "asset_session \<Rightarrow> EntActor \<Rightarrow> string \<Rightarrow> AssetStore \<Rightarrow> entitlement_error + OfflinePackage list" where
  "ListByDevice sn a deviceID s =
     (case asset_begin sn a of
        Some e \<Rightarrow> Inl e
      | None \<Rightarrow> Inr (sort_key (\<lambda>p. case op_DeliveredAt p of None \<Rightarrow> 0 | Some t \<Rightarrow> - t)
          (filter (\<lambda>p. op_TenantID p = ea_TenantID a \<and> op_OrganizationID p = ea_OrganizationID a \<and>
             op_DeliveredAt p \<noteq> None \<and> op_DeliveredToDeviceID p = deviceID) (as_packages s))))"

end
