(* ===== verification/Asset_Guarantees.thy ===== *)
theory Asset_Guarantees
  imports Asset_Entitlement
begin

text \<open>
  What the entitlement repositories guarantee over any run of their calls, by any actors, and what
  they never do: a package is never generated.
\<close>

datatype asset_op =
    OpRegister asset_session EntActor gotime AssetEntitlement
  | OpComplete asset_session EntActor gotime string int64
  | OpCancel asset_session EntActor gotime string int64
  | OpAssign asset_session EntActor gotime string string int64
  | OpAddTag asset_session EntActor gotime AssetTag
  | OpRemoveTag asset_session EntActor string string string
  | OpGenerate asset_session EntActor gotime OfflinePackage
  | OpDeliver asset_session EntActor gotime string string string
  | OpRevoke asset_session EntActor gotime string string

primrec asset_next :: "asset_op \<Rightarrow> AssetStore \<Rightarrow> AssetStore" where
  "asset_next (OpRegister sn a now e) s = snd (Register sn a now e s)"
| "asset_next (OpComplete sn a now i r) s = snd (ent_Complete sn a now i r s)"
| "asset_next (OpCancel sn a now i r) s = snd (ent_Cancel sn a now i r s)"
| "asset_next (OpAssign sn a now i who r) s = snd (AssignInspector sn a now i who r s)"
| "asset_next (OpAddTag sn a now t) s = snd (AddTag sn a now t s)"
| "asset_next (OpRemoveTag sn a asset ty v) s = snd (RemoveTag sn a asset ty v s)"
| "asset_next (OpGenerate sn a now p) s = snd (Generate sn a now p s)"
| "asset_next (OpDeliver sn a now i d who) s = snd (Deliver sn a now i d who s)"
| "asset_next (OpRevoke sn a now i reason) s = snd (pkg_Revoke sn a now i reason s)"

primrec asset_actor :: "asset_op \<Rightarrow> EntActor" where
  "asset_actor (OpRegister sn a now e) = a"
| "asset_actor (OpComplete sn a now i r) = a"
| "asset_actor (OpCancel sn a now i r) = a"
| "asset_actor (OpAssign sn a now i who r) = a"
| "asset_actor (OpAddTag sn a now t) = a"
| "asset_actor (OpRemoveTag sn a asset ty v) = a"
| "asset_actor (OpGenerate sn a now p) = a"
| "asset_actor (OpDeliver sn a now i d who) = a"
| "asset_actor (OpRevoke sn a now i reason) = a"

subsection \<open>What a call writes\<close>

lemma asset_commit_cases:
  "snd (asset_commit sn old new x) = old \<or> snd (asset_commit sn old new x) = new \<and> fst (asset_commit sn old new x) = Inr x"
  by (simp add: asset_commit_def)

lemma upsert_tag_other [simp]:
  "upsert_tag t s = Inr s' \<Longrightarrow> as_entitlements s' = as_entitlements s \<and> as_packages s' = as_packages s"
  by (auto simp: upsert_tag_def Let_def split: option.splits if_splits)

lemma insert_tags_other:
  "insert_tags sn a assetID ts s = Inr s' \<Longrightarrow> as_entitlements s' = as_entitlements s \<and> as_packages s' = as_packages s"
proof (induction ts arbitrary: s)
  case (Cons t ts)
  then obtain s1 where "insertTag sn a assetID t s = Inr s1" "insert_tags sn a assetID ts s1 = Inr s'" by auto
  with Cons.IH upsert_tag_other show ?case by (fastforce simp: insertTag_def)
qed simp

lemma update_active_other:
  "as_tags (snd (update_active f sn a now i r s)) = as_tags s"
  "as_packages (snd (update_active f sn a now i r s)) = as_packages s"
  by (simp_all add: update_active_def asset_commit_def Let_def split: option.splits sum.splits)

lemma update_package_other:
  "as_tags (snd (update_package g f sn a i s)) = as_tags s"
  "as_entitlements (snd (update_package g f sn a i s)) = as_entitlements s"
  by (simp_all add: update_package_def asset_commit_def Let_def split: option.splits sum.splits)

text \<open>The changed row of a guarded update.\<close>

definition updated_row :: "EntActor \<Rightarrow> gotime \<Rightarrow> (AssetEntitlement \<Rightarrow> AssetEntitlement) \<Rightarrow> AssetEntitlement \<Rightarrow> AssetEntitlement" where
  "updated_row a now f e = (f e)\<lparr>ae_UpdatedBy := ea_ActorID a, ae_UpdatedAt := pg_time now, ae_Revision := ae_Revision e + 1\<rparr>"

definition guarded :: "EntActor \<Rightarrow> string \<Rightarrow> int64 \<Rightarrow> AssetEntitlement \<Rightarrow> bool" where
  "guarded a i r e \<longleftrightarrow> own_entitlement a i e \<and> ae_Revision e = r \<and> ae_Status e = ''ACTIVE''"

lemma update_active_rows:
  "as_entitlements (snd (update_active f sn a now i r s)) = as_entitlements s \<or>
   as_entitlements (snd (update_active f sn a now i r s)) =
     map (\<lambda>e. if guarded a i r e then updated_row a now f e else e) (as_entitlements s) \<and>
   (\<forall>e \<in> set (as_entitlements s). guarded a i r e \<longrightarrow> entitlement_row_ok now (updated_row a now f e))"
  by (auto simp: update_active_def asset_commit_def Let_def updated_row_def guarded_def list_ex_iff
      split: option.splits sum.splits if_splits)

lemma Register_cases:
  obtains "snd (Register sn a now ent s) = s"
  | s' where "snd (Register sn a now ent s) = s'" "AssetEntitlement_Validate (registered a now ent) = None"
    "\<not> list_ex (entitlement_clash (entitlement_row (registered a now ent))) (as_entitlements s)"
    "insert_tags sn a (ae_AssetID ent) (ae_Tags ent)
       (s\<lparr>as_entitlements := as_entitlements s @ [entitlement_row (registered a now ent)]\<rparr>) = Inr s'"
proof (cases "snd (Register sn a now ent s) = s")
  case True
  then show ?thesis by (rule that(1))
next
  case False
  let ?s = "s\<lparr>as_entitlements := as_entitlements s @ [entitlement_row (registered a now ent)]\<rparr>"
  note d = Register_def Let_def asset_commit_def
  have tags: "ae_Tags (registered a now ent) = ae_Tags ent" "ae_AssetID (registered a now ent) = ae_AssetID ent"
    by (simp_all add: registered_def)
  have 1: "EntActor_Validate a = None" "AssetEntitlement_Validate (registered a now ent) = None"
    using False by (cases "EntActor_Validate a"; cases "AssetEntitlement_Validate (registered a now ent)"; simp add: d)+
  have 2: "\<not> list_ex (entitlement_clash (entitlement_row (registered a now ent))) (as_entitlements s)"
    using False 1 by (cases "asset_begin sn a"; simp add: d split: if_split_asm)
  obtain s' where 3: "insert_tags sn a (ae_AssetID ent) (ae_Tags ent) ?s = Inr s'"
    using False 1 2 tags by (cases "asset_begin sn a"; cases "insert_tags sn a (ae_AssetID ent) (ae_Tags ent) ?s";
      simp add: d split: if_split_asm)
  have "snd (Register sn a now ent s) = s'"
    using False 1 2 3 tags by (cases "asset_begin sn a"; cases "loadEntitlement a (ae_ID (registered a now ent)) s'";
      simp add: d split: if_split_asm)
  then show ?thesis by (rule that(2) [OF _ 1(2) 2 3])
qed

lemma AddTag_cases:
  obtains "snd (AddTag sn a now tag s) = s"
  | "upsert_tag (prepared_tag sn a now tag) s = Inr (snd (AddTag sn a now tag s))"
proof (cases "snd (AddTag sn a now tag s) = s")
  case False
  then have "upsert_tag (prepared_tag sn a now tag) s = Inr (snd (AddTag sn a now tag s))"
    by (cases "EntActor_Validate a"; cases "AssetTag_Validate (prepared_tag sn a now tag)"; cases "asset_begin sn a";
      cases "upsert_tag (prepared_tag sn a now tag) s"; simp add: AddTag_def asset_commit_def Let_def split: if_split_asm)
  then show ?thesis by (rule that(2))
qed (rule that(1))

lemma RemoveTag_cases:
  "snd (RemoveTag sn a asset ty v s) = s \<or> (\<exists>P. snd (RemoveTag sn a asset ty v s) = s\<lparr>as_tags := filter P (as_tags s)\<rparr> \<and>
     (\<forall>t. (at_TenantID t, at_OrganizationID t) \<noteq> (ea_TenantID a, ea_OrganizationID a) \<longrightarrow> P t))"
  by (auto simp: RemoveTag_def asset_commit_def Let_def split: option.splits)

lemma Generate_store [simp]: "snd (Generate sn a now p s) = s"
  by (auto simp: Generate_def insert_package_def package_row_ok_def package_row_def Let_def
      split: option.splits prod.splits sum.splits if_splits)

lemma Generate_refused: "\<exists>e. fst (Generate sn a now p s) = Inl e"
  by (auto simp: Generate_def insert_package_def package_row_ok_def package_row_def Let_def
      split: option.splits prod.splits sum.splits if_splits)

subsection \<open>Packages\<close>

lemma packages_only_updated:
  "as_packages s = [] \<Longrightarrow> as_packages (asset_next op s) = []"
proof (induction op)
  case (OpRegister sn a now e)
  then show ?case
    by (cases rule: Register_cases [of sn a now e s]) (auto dest: insert_tags_other)
next
  case (OpAddTag sn a now t)
  then show ?case by (cases rule: AddTag_cases [of sn a now t s]) (auto dest: upsert_tag_other)
next
  case (OpRemoveTag sn a asset ty v)
  then show ?case using RemoveTag_cases [of sn a asset ty v s] by auto
qed (simp_all add: ent_Complete_def ent_Cancel_def AssignInspector_def update_active_other Deliver_def pkg_Revoke_def,
    simp_all add: update_package_def loadPackage_def Let_def split: option.splits)

text \<open>No offline package ever comes to be. The insert of \<open>Generate\<close> sets the status GENERATED and leaves
  \<open>generated_at\<close> out, which the CHECK constraint of the table refuses; so every call of \<open>Generate\<close>
  fails whatever it is given, and from a table without packages any run of calls leaves it empty,
  so that every delivery and every revocation answers that the package is not found.\<close>

theorem package_never_generated:
  "(\<exists>e. Generate sn a now p s = (Inl e, s)) \<and>
   (as_packages s = [] \<and> asset_begin sn a = None \<longrightarrow>
     Deliver sn a now i d who (run_ops asset_next ops s) = (Inl EntPackageNotFound, run_ops asset_next ops s) \<and>
     pkg_Revoke sn a now i reason (run_ops asset_next ops s) = (Inl EntPackageNotFound, run_ops asset_next ops s))"
proof -
  have "\<exists>e. Generate sn a now p s = (Inl e, s)"
    using Generate_refused [of sn a now p s] Generate_store [of sn a now p s] by (metis prod.collapse)
  moreover have "as_packages s = [] \<Longrightarrow> as_packages (run_ops asset_next ops s) = []"
    by (induction ops arbitrary: s) (simp_all add: packages_only_updated del: asset_next.simps)
  ultimately show ?thesis by (simp add: Deliver_def pkg_Revoke_def update_package_def loadPackage_def Let_def)
qed

subsection \<open>Tags\<close>

definition tags_ok :: "AssetStore \<Rightarrow> bool" where
  "tags_ok s \<longleftrightarrow> distinct (map (\<lambda>t. (at_TenantID t, at_OrganizationID t, at_TagType t, at_TagValue t)) (as_tags s))"

lemma same_tag_key:
  "same_tag t r \<longleftrightarrow> (at_TenantID r, at_OrganizationID r, at_TagType r, at_TagValue r) =
     (at_TenantID t, at_OrganizationID t, at_TagType t, at_TagValue t)"
  by (auto simp: same_tag_def)

lemma upsert_tag_ok:
  assumes "tags_ok s" "upsert_tag t s = Inr s'"
  shows "tags_ok s'"
proof (cases "List.find (same_tag t) (as_tags s)")
  case None
  then have "\<not> same_tag t r" if "r \<in> set (as_tags s)" for r using that by (auto simp: find_None_iff)
  then have "(at_TenantID t, at_OrganizationID t, at_TagType t, at_TagValue t) \<notin>
      (\<lambda>t. (at_TenantID t, at_OrganizationID t, at_TagType t, at_TagValue t)) ` set (as_tags s)"
    by (fastforce simp: same_tag_def)
  moreover have "as_tags s' = as_tags s @ [t\<lparr>at_AssignedAt := pg_time (at_AssignedAt t)\<rparr>]"
    using None assms(2) by (auto simp: upsert_tag_def Let_def split: if_split_asm)
  ultimately show ?thesis using assms(1) by (simp add: tags_ok_def)
next
  case (Some r)
  let ?key = "\<lambda>t. (at_TenantID t, at_OrganizationID t, at_TagType t, at_TagValue t)"
  let ?f = "\<lambda>x. if same_tag t x then x\<lparr>at_TagDigest := at_TagDigest t, at_AssignedAt := pg_time (at_AssignedAt t),
    at_AssignedBy := at_AssignedBy t\<rparr> else x"
  have f: "as_tags s' = map ?f (as_tags s)" "?key (?f x) = ?key x" for x
    using Some assms(2) by (auto simp: upsert_tag_def Let_def split: if_split_asm)
  have "map ?key (as_tags s') = map ?key (as_tags s)" unfolding f(1) by (rule map_map_keeps) (rule f(2))
  with assms(1) show ?thesis by (simp only: tags_ok_def)
qed

lemma insert_tags_ok: "tags_ok s \<Longrightarrow> insert_tags sn a assetID ts s = Inr s' \<Longrightarrow> tags_ok s'"
proof (induction ts arbitrary: s)
  case (Cons t ts)
  then obtain s1 where "insertTag sn a assetID t s = Inr s1" "insert_tags sn a assetID ts s1 = Inr s'" by auto
  with Cons upsert_tag_ok show ?case unfolding insertTag_def by blast
qed simp

lemma distinct_map_filter: "distinct (map f xs) \<Longrightarrow> distinct (map f (filter P xs))"
  by (induction xs) auto

lemma tags_ok_step: "tags_ok s \<Longrightarrow> tags_ok (asset_next op s)"
proof (induction op)
  case (OpRegister sn a now e)
  then have "tags_ok (s\<lparr>as_entitlements := es\<rparr>)" for es by (simp add: tags_ok_def)
  with OpRegister show ?case
    by (cases rule: Register_cases [of sn a now e s]) (auto dest: insert_tags_ok)
next
  case (OpAddTag sn a now t)
  then show ?case by (cases rule: AddTag_cases [of sn a now t s]) (auto dest: upsert_tag_ok)
next
  case (OpRemoveTag sn a asset ty v)
  then show ?case using RemoveTag_cases [of sn a asset ty v s] by (auto simp: tags_ok_def distinct_map_filter)
qed (simp_all add: tags_ok_def ent_Complete_def ent_Cancel_def AssignInspector_def update_active_other Deliver_def
    pkg_Revoke_def update_package_other)

interpretation asset_tags: aggregate asset_next tags_ok
  by unfold_locales (rule tags_ok_step)

text \<open>A tag points to one asset. Whatever actors register, add and remove, from tables in which it holds,
  a tag type and value name at most one asset of an organization.\<close>

theorem tag_points_to_one_asset:
  assumes "tags_ok s" and "t \<in> set (as_tags (run_ops asset_next ops s))" "u \<in> set (as_tags (run_ops asset_next ops s))"
    and "at_TenantID t = at_TenantID u" "at_OrganizationID t = at_OrganizationID u"
    and "at_TagType t = at_TagType u" "at_TagValue t = at_TagValue u"
  shows "t = u"
  using asset_tags.run_inv [OF assms(1), of ops] assms(2-) unfolding tags_ok_def distinct_map inj_on_def by blast

subsection \<open>Entitlements\<close>

definition ent_key :: "AssetEntitlement \<Rightarrow> string \<times> string \<times> string" where
  "ent_key e = (ae_TenantID e, ae_OrganizationID e, ae_ID e)"

text \<open>What a row may become in one call: itself, or its successor revision, changed while it was active.\<close>

definition ent_change :: "AssetEntitlement \<Rightarrow> AssetEntitlement \<Rightarrow> bool" where
  "ent_change e e' \<longleftrightarrow> ent_key e' = ent_key e \<and> ae_WorkOrderID e' = ae_WorkOrderID e \<and>
     ae_ScopeItemID e' = ae_ScopeItemID e \<and> ae_AssetID e' = ae_AssetID e \<and> ae_EntitlementType e' = ae_EntitlementType e \<and>
     ae_CreatedBy e' = ae_CreatedBy e \<and> ae_CreatedAt e' = ae_CreatedAt e \<and> ae_ExpiresAt e' = ae_ExpiresAt e \<and>
     (e' = e \<or> ae_Status e = ''ACTIVE'' \<and> ae_Revision e' = ae_Revision e + 1 \<and>
        (ae_Status e' = ''ACTIVE'' \<or> entitlement_can (ae_Status e) (ae_Status e')))"

definition ent_row_fits :: "AssetEntitlement \<Rightarrow> bool" where
  "ent_row_fits e \<longleftrightarrow> ae_Status e \<in> {''ACTIVE'', ''COMPLETED'', ''CANCELLED''} \<and>
     (ae_Status e = ''COMPLETED'' \<longleftrightarrow> ae_CompletedAt e \<noteq> None) \<and> 1 \<le> ae_Revision e"

definition ent_table_ok :: "AssetStore \<Rightarrow> bool" where
  "ent_table_ok s \<longleftrightarrow> distinct (map ent_key (as_entitlements s)) \<and> (\<forall>e \<in> set (as_entitlements s). ent_row_fits e)"

lemma updated_change:
  assumes "\<And>e. ent_key (f e) = ent_key e" "\<And>e. ae_WorkOrderID (f e) = ae_WorkOrderID e"
    "\<And>e. ae_ScopeItemID (f e) = ae_ScopeItemID e" "\<And>e. ae_AssetID (f e) = ae_AssetID e"
    "\<And>e. ae_EntitlementType (f e) = ae_EntitlementType e" "\<And>e. ae_CreatedBy (f e) = ae_CreatedBy e"
    "\<And>e. ae_CreatedAt (f e) = ae_CreatedAt e" "\<And>e. ae_ExpiresAt (f e) = ae_ExpiresAt e"
    "\<And>e. ae_Status (f e) \<in> {ae_Status e, ''COMPLETED'', ''CANCELLED''}" "guarded a i r e"
  shows "ent_change e (updated_row a now f e)"
  using assms(9) [of e] assms(10)
  by (auto simp: ent_change_def updated_row_def guarded_def entitlement_can_def assms(1-8) ent_key_def [symmetric])
    (use assms(1) [of e] in \<open>simp_all add: ent_key_def\<close>)

text \<open>The rows after a call: each old row changed or kept, then at most one new row.\<close>

definition ent_fresh :: "AssetEntitlement list \<Rightarrow> AssetEntitlement \<Rightarrow> bool" where
  "ent_fresh es e \<longleftrightarrow> ent_key e \<notin> ent_key ` set es \<and> ae_Status e = ''ACTIVE'' \<and> ae_CompletedAt e = None \<and> ae_Revision e = 1"

definition ent_rows_step :: "AssetStore \<Rightarrow> AssetStore \<Rightarrow> bool" where
  "ent_rows_step s s' \<longleftrightarrow> as_entitlements s' = as_entitlements s \<or>
     (\<exists>g now. as_entitlements s' = map g (as_entitlements s) \<and>
        (\<forall>e \<in> set (as_entitlements s). g e = e \<or> ent_change e (g e) \<and> entitlement_row_ok now (g e) \<and>
           ae_Status (g e) \<noteq> ''EXPIRED'')) \<or>
     (\<exists>e. as_entitlements s' = as_entitlements s @ [e] \<and> ent_fresh (as_entitlements s) e)"

lemma update_active_step:
  assumes "\<And>e. guarded a i r e \<Longrightarrow> ent_change e (updated_row a now f e) \<and> ae_Status (updated_row a now f e) \<noteq> ''EXPIRED''"
  shows "ent_rows_step s (snd (update_active f sn a now i r s))"
proof -
  let ?g = "\<lambda>e. if guarded a i r e then updated_row a now f e else e"
  from update_active_rows [of f sn a now i r s] show ?thesis
  proof
    assume "as_entitlements (snd (update_active f sn a now i r s)) = as_entitlements s"
    then show ?thesis by (simp add: ent_rows_step_def)
  next
    assume u: "as_entitlements (snd (update_active f sn a now i r s)) = map ?g (as_entitlements s) \<and>
      (\<forall>e \<in> set (as_entitlements s). guarded a i r e \<longrightarrow> entitlement_row_ok now (updated_row a now f e))"
    then have "\<forall>e \<in> set (as_entitlements s). ?g e = e \<or> ent_change e (?g e) \<and> entitlement_row_ok now (?g e) \<and>
        ae_Status (?g e) \<noteq> ''EXPIRED''"
      using assms by auto
    with u show ?thesis unfolding ent_rows_step_def by blast
  qed
qed

lemma entitlement_row_simps [simp]:
  "ae_TenantID (entitlement_row e) = ae_TenantID e" "ae_OrganizationID (entitlement_row e) = ae_OrganizationID e"
  "ae_ID (entitlement_row e) = ae_ID e" "ae_Status (entitlement_row e) = ae_Status e"
  "ae_CompletedAt (entitlement_row e) = None" "ae_Revision (entitlement_row e) = ae_Revision e"
  by (simp_all add: entitlement_row_def)

lemma asset_step_rows: "ent_rows_step s (asset_next op s)"
proof (induction op)
  case (OpRegister sn a now e)
  show ?case
  proof (cases rule: Register_cases [of sn a now e s])
    case 1
    then show ?thesis by (simp add: ent_rows_step_def)
  next
    case (2 s')
    let ?row = "entitlement_row (registered a now e)"
    have "as_entitlements s' = as_entitlements s @ [?row]" using insert_tags_other [OF 2(4)] by simp
    moreover have "ent_key ?row \<notin> ent_key ` set (as_entitlements s)"
    proof
      assume "ent_key ?row \<in> ent_key ` set (as_entitlements s)"
      then obtain r where "r \<in> set (as_entitlements s)" "ent_key ?row = ent_key r" by blast
      with 2(3) show False unfolding list_ex_iff entitlement_clash_def ent_key_def by (metis prod.inject)
    qed
    then have "ent_fresh (as_entitlements s) ?row" by (simp add: ent_fresh_def registered_def)
    ultimately show ?thesis unfolding ent_rows_step_def asset_next.simps 2(1) by blast
  qed
next
  case (OpComplete sn a now i r)
  show ?case unfolding asset_next.simps ent_Complete_def
    by (rule update_active_step, rule conjI, rule updated_change) (simp_all add: ent_key_def updated_row_def)
next
  case (OpCancel sn a now i r)
  show ?case unfolding asset_next.simps ent_Cancel_def
    by (rule update_active_step, rule conjI, rule updated_change) (simp_all add: ent_key_def updated_row_def)
next
  case (OpAssign sn a now i who r)
  show ?case unfolding asset_next.simps AssignInspector_def
    by (rule update_active_step, rule conjI, rule updated_change [where i = i and r = r])
      (simp_all add: ent_key_def updated_row_def, simp add: guarded_def)
next
  case (OpAddTag sn a now t)
  show ?case by (cases rule: AddTag_cases [of sn a now t s]) (auto simp: ent_rows_step_def dest: upsert_tag_other)
next
  case (OpRemoveTag sn a asset ty v)
  show ?case using RemoveTag_cases [of sn a asset ty v s] by (auto simp: ent_rows_step_def)
qed (simp_all add: ent_rows_step_def Deliver_def pkg_Revoke_def update_package_other)

lemma ent_table_ok_step: "ent_table_ok s \<Longrightarrow> ent_table_ok (asset_next op s)"
proof -
  assume ok: "ent_table_ok s"
  from asset_step_rows [of s op] consider (same) "as_entitlements (asset_next op s) = as_entitlements s"
    | (map) g now where "as_entitlements (asset_next op s) = map g (as_entitlements s)"
      "\<forall>e \<in> set (as_entitlements s). g e = e \<or> ent_change e (g e) \<and> entitlement_row_ok now (g e) \<and>
         ae_Status (g e) \<noteq> ''EXPIRED''"
    | (new) e where "as_entitlements (asset_next op s) = as_entitlements s @ [e]" "ent_fresh (as_entitlements s) e"
    unfolding ent_rows_step_def by blast
  then show ?thesis
  proof cases
    case same
    with ok show ?thesis unfolding ent_table_ok_def by metis
  next
    case map
    have "ent_key (g e) = ent_key e" if "e \<in> set (as_entitlements s)" for e
      using map(2) that by (auto simp: ent_change_def)
    then have "map ent_key (as_entitlements (asset_next op s)) = map ent_key (as_entitlements s)"
      unfolding map(1) by (rule map_map_keeps)
    then have "distinct (map ent_key (as_entitlements (asset_next op s)))"
      using ok unfolding ent_table_ok_def by metis
    moreover have "ent_row_fits (g e)" if "e \<in> set (as_entitlements s)" for e
      using map(2) that ok unfolding ent_table_ok_def entitlement_row_ok_def ent_row_fits_def by (cases "g e = e") auto
    ultimately show ?thesis unfolding ent_table_ok_def map(1) by auto
  next
    case new
    with ok show ?thesis by (auto simp: ent_table_ok_def ent_fresh_def ent_row_fits_def)
  qed
qed

interpretation asset_rows: aggregate asset_next ent_table_ok
  by unfold_locales (rule ent_table_ok_step)

lemma ent_table_unique:
  "ent_table_ok s \<Longrightarrow> e \<in> set (as_entitlements s) \<Longrightarrow> f \<in> set (as_entitlements s) \<Longrightarrow> ent_key e = ent_key f \<Longrightarrow> e = f"
  unfolding ent_table_ok_def distinct_map inj_on_def by blast

text \<open>How a row relates to a later row of its key.\<close>

definition ent_after :: "AssetEntitlement \<Rightarrow> AssetEntitlement \<Rightarrow> bool" where
  "ent_after e e' \<longleftrightarrow> ent_key e' = ent_key e \<and> ae_WorkOrderID e' = ae_WorkOrderID e \<and>
     ae_ScopeItemID e' = ae_ScopeItemID e \<and> ae_AssetID e' = ae_AssetID e \<and> ae_EntitlementType e' = ae_EntitlementType e \<and>
     ae_ExpiresAt e' = ae_ExpiresAt e \<and> (e' = e \<or> ae_Status e = ''ACTIVE'' \<and> ae_Revision e < ae_Revision e')"

lemma ent_after_refl: "ent_after e e"
  by (simp add: ent_after_def)

lemma ent_after_trans: "ent_after e f \<Longrightarrow> ent_after f g \<Longrightarrow> ent_after e g"
  by (auto simp: ent_after_def)

lemma ent_after_step:
  assumes "e \<in> set (as_entitlements s)"
  shows "\<exists>e' \<in> set (as_entitlements (asset_next op s)). ent_after e e'"
proof -
  have change: "ent_after e e'" if "ent_change e e'" for e' using that by (auto simp: ent_after_def ent_change_def)
  from asset_step_rows [of s op] consider (same) "as_entitlements (asset_next op s) = as_entitlements s"
    | (map) g where "as_entitlements (asset_next op s) = map g (as_entitlements s)" "g e = e \<or> ent_change e (g e)"
    | (new) f where "as_entitlements (asset_next op s) = as_entitlements s @ [f]"
    unfolding ent_rows_step_def using assms by blast
  then show ?thesis
  proof cases
    case map
    with change [of "g e"] ent_after_refl [of e] have "ent_after e (g e)" by auto
    with map(1) assms show ?thesis by auto
  qed (use assms ent_after_refl in auto)
qed

lemma ent_after_run:
  "e \<in> set (as_entitlements s) \<Longrightarrow> \<exists>e' \<in> set (as_entitlements (run_ops asset_next ops s)). ent_after e e'"
proof (induction ops arbitrary: e s)
  case Nil
  then show ?case using ent_after_refl by auto
next
  case (Cons op ops)
  then obtain f where "f \<in> set (as_entitlements (asset_next op s))" "ent_after e f" using ent_after_step by blast
  with Cons.IH [of f "asset_next op s"] show ?case using ent_after_trans by (metis run_ops.simps(2))
qed

text \<open>An entitlement advances one revision at a time and ends for good. Along any run of calls of any actors,
  from tables in which ids are unique and statuses fit their completion times, every entitlement
  stays in the table under its key, for its asset and scope, and is unchanged unless its revision
  has grown; once it is completed or cancelled it never changes again; and it is never expired.\<close>

theorem entitlement_advances:
  assumes "ent_table_ok s" and "e \<in> set (as_entitlements s)"
  shows "\<exists>e' \<in> set (as_entitlements (run_ops asset_next ops s)).
    ent_after e e' \<and> (ae_Status e \<noteq> ''ACTIVE'' \<longrightarrow> e' = e) \<and> (ae_Revision e' = ae_Revision e \<longrightarrow> e' = e) \<and>
    ae_Status e' \<in> {''ACTIVE'', ''COMPLETED'', ''CANCELLED''} \<and>
    (ae_Status e' = ''COMPLETED'' \<longleftrightarrow> ae_CompletedAt e' \<noteq> None) \<and>
    (\<forall>f \<in> set (as_entitlements (run_ops asset_next ops s)). ent_key f = ent_key e \<longrightarrow> f = e')"
proof -
  let ?t = "run_ops asset_next ops s"
  obtain e' where e': "e' \<in> set (as_entitlements ?t)" "ent_after e e'" using ent_after_run [OF assms(2)] by blast
  have ok: "ent_table_ok ?t" by (rule asset_rows.run_inv [OF assms(1)])
  have "ent_key e' = ent_key e" using e'(2) by (simp add: ent_after_def)
  then have "f = e'" if "f \<in> set (as_entitlements ?t)" "ent_key f = ent_key e" for f
    using ent_table_unique [OF ok that(1) e'(1)] that(2) by simp
  moreover have "ae_Status e' \<in> {''ACTIVE'', ''COMPLETED'', ''CANCELLED''}"
    "ae_Status e' = ''COMPLETED'' \<longleftrightarrow> ae_CompletedAt e' \<noteq> None"
    using ok e'(1) unfolding ent_table_ok_def ent_row_fits_def by blast+
  moreover have "ae_Status e \<noteq> ''ACTIVE'' \<longrightarrow> e' = e" "ae_Revision e' = ae_Revision e \<longrightarrow> e' = e"
    using e'(2) by (auto simp: ent_after_def)
  ultimately show ?thesis using e' by blast
qed

text \<open>A guarded update that succeeds has found the row at the expected revision.\<close>

lemma update_active_Inr:
  assumes "update_active f sn a now i r s = (Inr x, s')"
  shows "\<exists>e \<in> set (as_entitlements s). guarded a i r e" "asset_begin sn a = None"
    "as_entitlements s' = map (\<lambda>e. if guarded a i r e then updated_row a now f e else e) (as_entitlements s)"
  using assms by (auto simp: update_active_def asset_commit_def Let_def guarded_def updated_row_def list_ex_iff
      split: option.splits sum.splits if_splits)

lemma update_active_stale:
  assumes "asset_begin sn a = None" "e \<in> set (as_entitlements s)" "own_entitlement a i e" "r < ae_Revision e" "ent_table_ok s"
  shows "update_active f sn a now i r s = (Inl EntStaleRevision, s)"
proof -
  have one: "f = e" if "f \<in> set (as_entitlements s)" "own_entitlement a i f" for f
    using ent_table_unique [OF assms(5) that(1) assms(2)] that(2) assms(3) by (simp add: own_entitlement_def ent_key_def)
  obtain f where f: "List.find (own_entitlement a i) (as_entitlements s) = Some f"
    using assms(2,3) by (cases "List.find (own_entitlement a i) (as_entitlements s)") (auto simp: find_None_iff)
  then have "f = e" using one by (auto simp: find_Some_iff)
  with f one assms(1,4) show ?thesis
    by (auto simp: update_active_def loadEntitlement_def Let_def list_ex_iff)
qed

text \<open>No update is lost. A completion that has succeeded for an expected revision makes every later
  completion, cancellation and assignment for that revision fail as stale and change nothing, whatever
  other calls came between.\<close>

theorem entitlement_updated_once:
  assumes "ent_table_ok s" and "ent_Complete sn a now i r s = (Inr x, s')"
    and "asset_begin sn' a = None" and "t = run_ops asset_next ops s'"
  shows "ent_Complete sn' a now' i r t = (Inl EntStaleRevision, t) \<and>
    ent_Cancel sn' a now' i r t = (Inl EntStaleRevision, t) \<and>
    AssignInspector sn' a now' i who r t = (Inl EntStaleRevision, t)"
proof -
  let ?f = "\<lambda>e. e\<lparr>ae_Status := ''COMPLETED'', ae_CompletedAt := Some (pg_time now)\<rparr>"
  obtain e where e: "e \<in> set (as_entitlements s)" "guarded a i r e"
    using update_active_Inr(1) assms(2) unfolding ent_Complete_def by blast
  then have "updated_row a now ?f e \<in> set (as_entitlements s')"
    using update_active_Inr(3) [OF assms(2) [unfolded ent_Complete_def]] by auto
  then obtain e' where e': "e' \<in> set (as_entitlements t)" "ent_after (updated_row a now ?f e) e'"
    using ent_after_run assms(4) by blast
  moreover have "own_entitlement a i e'" "r < ae_Revision e'"
    using e(2) e'(2) by (auto simp: ent_after_def guarded_def updated_row_def own_entitlement_def ent_key_def)
  moreover have "ent_table_ok t"
  proof -
    have "s' = asset_next (OpComplete sn a now i r) s" using assms(2) by simp
    then show ?thesis using assms(1,4) ent_table_ok_step asset_rows.run_inv by metis
  qed
  ultimately show ?thesis
    using update_active_stale [OF assms(3)] by (simp add: ent_Complete_def ent_Cancel_def AssignInspector_def)
qed

subsection \<open>A run, for the witnesses\<close>

definition demo_actor :: EntActor where
  "demo_actor = \<lparr>ea_TenantID = ''t1'', ea_OrganizationID = ''o1'', ea_ActorID = ''u1''\<rparr>"

definition demo_assets :: asset_session where
  "demo_assets = \<lparr>as_begin = None, as_admits = \<lambda>s. True, as_jsonb = Some, as_sha = \<lambda>x. x\<rparr>"

definition demo_entitlement :: AssetEntitlement where
  "demo_entitlement = \<lparr>ae_ID = ''e1'', ae_TenantID = ''t1'', ae_OrganizationID = ''o1'', ae_WorkOrderID = ''w1'',
     ae_ScopeItemID = ''s1'', ae_AssetID = ''a1'', ae_AssetType = ''crane'', ae_EntitlementType = ''INSPECTION'',
     ae_Status = ''ACTIVE'', ae_FormVersionID = [], ae_AssignedInspectorID = [], ae_EntitledAt = 5000, ae_ExpiresAt = None,
     ae_CompletedAt = None, ae_CreatedBy = ''u1'', ae_CreatedAt = 5000, ae_UpdatedBy = ''u1'', ae_UpdatedAt = 5000,
     ae_Revision = 1, ae_Tags = [], ae_Packages = []\<rparr>"

definition demo_tag :: AssetTag where
  "demo_tag = \<lparr>at_TenantID = ''t1'', at_OrganizationID = ''o1'', at_AssetID = ''a1'', at_TagType = ''QR'',
     at_TagValue = ''q1'', at_TagDigest = ''d'', at_AssignedAt = 5000, at_AssignedBy = ''u1''\<rparr>"

definition demo_package :: OfflinePackage where
  "demo_package = \<lparr>op_ID = ''p1'', op_TenantID = ''t1'', op_OrganizationID = ''o1'', op_EntitlementID = ''e1'',
     op_PackageVersion = 1, op_FormSnapshot = ''{}'', op_EvidencePolicySnapshot = ''{}'', op_AssetContext = ''{}'',
     op_PackageHash = ''h'', op_Status = [], op_GeneratedAt = None, op_DeliveredAt = None, op_DeliveredToDeviceID = [],
     op_DeliveredToInspectorID = [], op_ExpiresAt = None, op_RevokedAt = None, op_RevokedBy = [], op_CreatedBy = [],
     op_CreatedAt = 0\<rparr>"

definition demo_asset_store :: AssetStore where
  "demo_asset_store = \<lparr>as_entitlements = [demo_entitlement], as_tags = [demo_tag], as_packages = []\<rparr>"

lemma demo_assets_begin: "asset_begin demo_assets demo_actor = None"
  by (simp add: asset_begin_def EntActor_Validate_def demo_assets_def demo_actor_def)

lemma demo_asset_ok: "ent_table_ok demo_asset_store" "tags_ok demo_asset_store"
  by (simp_all add: ent_table_ok_def ent_row_fits_def tags_ok_def demo_asset_store_def demo_entitlement_def)

lemma demo_completed:
  "\<exists>x s'. ent_Complete demo_assets demo_actor 9000 ''e1'' 1 demo_asset_store = (Inr x, s')"
  by (simp add: ent_Complete_def update_active_def asset_begin_def EntActor_Validate_def demo_asset_store_def demo_entitlement_def
      own_entitlement_def demo_actor_def entitlement_row_ok_def EntitlementTypes_def max_int64_def pg_time_def
      loadEntitlement_def asset_commit_def demo_assets_def Let_def)

lemma package_never_generated_witness:
  "Deliver demo_assets demo_actor 7 ''p1'' ''d1'' ''u1''
     (run_ops asset_next [OpGenerate demo_assets demo_actor 7 demo_package] demo_asset_store) =
   (Inl EntPackageNotFound, run_ops asset_next [OpGenerate demo_assets demo_actor 7 demo_package] demo_asset_store)"
  using package_never_generated [of demo_assets demo_actor 7 demo_package demo_asset_store]
  by (simp add: demo_assets_begin demo_asset_store_def del: run_ops.simps)

lemma tag_points_to_one_asset_witness:
  "demo_tag\<lparr>at_AssetID := ''a2''\<rparr> \<notin> set (as_tags (run_ops asset_next
     [OpAddTag demo_assets demo_actor 9 (demo_tag\<lparr>at_AssetID := ''a2''\<rparr>)] demo_asset_store))"
proof -
  have "demo_tag \<in> set (as_tags (run_ops asset_next [OpAddTag demo_assets demo_actor 9 (demo_tag\<lparr>at_AssetID := ''a2''\<rparr>)]
      demo_asset_store))"
    by (auto simp: AddTag_def upsert_tag_def same_tag_def demo_asset_store_def demo_tag_def prepared_tag_def
        demo_actor_def Let_def split: option.splits)
  note one = tag_points_to_one_asset [OF demo_asset_ok(2) _ this, of "demo_tag\<lparr>at_AssetID := ''a2''\<rparr>"]
  show ?thesis
  proof
    assume "demo_tag\<lparr>at_AssetID := ''a2''\<rparr> \<in> set (as_tags (run_ops asset_next
        [OpAddTag demo_assets demo_actor 9 (demo_tag\<lparr>at_AssetID := ''a2''\<rparr>)] demo_asset_store))"
    from one [OF this] show False by (simp add: demo_tag_def)
  qed
qed

lemma entitlement_advances_witness:
  "\<exists>e' \<in> set (as_entitlements (run_ops asset_next [OpCancel demo_assets demo_actor 9000 ''e1'' 1] demo_asset_store)).
    ent_after demo_entitlement e'"
  using entitlement_advances [OF demo_asset_ok(1), of demo_entitlement
      "[OpCancel demo_assets demo_actor 9000 ''e1'' 1]"]
  by (auto simp: demo_asset_store_def simp del: run_ops.simps)

lemma entitlement_updated_once_witness:
  "\<exists>x s'. ent_Complete demo_assets demo_actor 9000 ''e1'' 1 demo_asset_store = (Inr x, s') \<and>
     ent_Cancel demo_assets demo_actor 9500 ''e1'' 1 (run_ops asset_next [] s') = (Inl EntStaleRevision, run_ops asset_next [] s')"
  using demo_completed entitlement_updated_once [OF demo_asset_ok(1) _ demo_assets_begin refl] by blast

end
