(* ===== verification/Custody_Handover.thy ===== *)
theory Custody_Handover
  imports Postgres Shared_Kernel
begin

text \<open>
  The chain of custody and the handover between sites: \<open>internal/domain/custodyhandover\<close> and its
  repository \<open>internal/custodyhandoverpg/postgres.go\<close> on the tables of migration 0058.

  \<^item> A table is the list of its rows, in the order of their inserts. Every statement names tenant and
    organization of its actor. The keys and CHECK constraints are written out; the foreign keys and
    what else the database may refuse are the predicate \<open>cu_admits\<close> of the session. A column that
    is NULL or empty reads as the empty text. An error leaves the tables as they were.
  \<^item> \<open>UpdateHandoverState\<close> reads the request in a transaction of its own and updates it in another,
    under the revision that it has read; what others commit in between is the argument \<open>others\<close>.
  \<^item> \<open>btrim\<close> of the CHECK constraints removes spaces only, \<open>TrimSpace\<close> of the validation more, so the
    validated texts pass them.
\<close>

datatype custody_error =
    CuInvalidActor | CuInvalidCustody | CuInvalidHandover | CuInvalidTransition | CuStaleRevision | CuNotFound
  | CuScopeFailure | CuDatabaseFailure

record CustodyActor =
  ca_TenantID :: string
  ca_OrganizationID :: string
  ca_ActorID :: string

definition CustodyActor_Validate :: "CustodyActor \<Rightarrow> custody_error option" where
  "CustodyActor_Validate a =
     (if blank (ca_TenantID a) \<or> blank (ca_OrganizationID a) \<or> blank (ca_ActorID a)
      then Some CuInvalidActor else None)"

definition CustodyActions :: "string list" where
  "CustodyActions = [''CHECK_IN'', ''CHECK_OUT'', ''TRANSFER'', ''RELOCATE'', ''DISPOSE'']"

record CustodyRecord =
  cr_ID :: string
  cr_TenantID :: string
  cr_OrganizationID :: string
  cr_AssetID :: string
  cr_WorkOrderID :: string
  cr_LocationID :: string
  cr_SiteName :: string
  cr_CustodianID :: string
  cr_Action :: string
  cr_VerificationHash :: string
  cr_Notes :: string
  cr_RecordedBy :: string
  cr_RecordedAt :: gotime

definition CustodyRecord_Validate :: "CustodyRecord \<Rightarrow> custody_error option" where
  "CustodyRecord_Validate c =
     (if blank (cr_ID c) then Some CuInvalidCustody
      else if blank (cr_TenantID c) \<or> blank (cr_OrganizationID c) then Some CuInvalidCustody
      else if blank (cr_AssetID c) then Some CuInvalidCustody
      else if blank (cr_LocationID c) \<or> blank (cr_SiteName c) then Some CuInvalidCustody
      else if blank (cr_CustodianID c) then Some CuInvalidCustody
      else if cr_Action c \<notin> set CustodyActions then Some CuInvalidCustody
      else if blank (cr_VerificationHash c) then Some CuInvalidCustody
      else if time_IsZero (cr_RecordedAt c) then Some CuInvalidCustody
      else if blank (cr_RecordedBy c) then Some CuInvalidCustody
      else None)"

definition custody_message :: "string \<Rightarrow> string \<Rightarrow> string \<Rightarrow> string \<Rightarrow> string \<Rightarrow> string \<Rightarrow> gotime \<Rightarrow> string" where
  "custody_message tenantID orgID assetID locationID custodianID action ts =
     tenantID @ '':'' @ orgID @ '':'' @ assetID @ '':'' @ locationID @ '':'' @ custodianID @ '':'' @ action @ '':'' @
     show_int (time_UnixNano ts)"

definition ComputeVerificationHash ::
    "(bytes \<Rightarrow> bytes) \<Rightarrow> string \<Rightarrow> string \<Rightarrow> string \<Rightarrow> string \<Rightarrow> string \<Rightarrow> string \<Rightarrow> gotime \<Rightarrow> string" where
  "ComputeVerificationHash sha tenantID orgID assetID locationID custodianID action ts =
     hex_encode (sha (custody_message tenantID orgID assetID locationID custodianID action ts))"

record HandoverRequest =
  hr_ID :: string
  hr_TenantID :: string
  hr_OrganizationID :: string
  hr_WorkOrderID :: string
  hr_AssetID :: string
  hr_FromAssignmentID :: string
  hr_ToAssignmentID :: string
  hr_FromSiteID :: string
  hr_ToSiteID :: string
  hr_State :: string
  hr_Reason :: string
  hr_RequestedBy :: string
  hr_RequestedAt :: gotime
  hr_AcknowledgedBy :: string
  hr_AcknowledgedAt :: "gotime option"
  hr_ApprovedBy :: string
  hr_ApprovedAt :: "gotime option"
  hr_TransferredBy :: string
  hr_TransferredAt :: "gotime option"
  hr_RejectionReason :: string
  hr_Revision :: int64
  hr_CreatedAt :: gotime
  hr_UpdatedAt :: gotime

definition handover_state_ok :: "HandoverRequest \<Rightarrow> bool" where
  "handover_state_ok h \<longleftrightarrow>
     (if hr_State h = ''REQUESTED'' then True
      else if hr_State h = ''ACKNOWLEDGED'' then \<not> blank (hr_AcknowledgedBy h) \<and> hr_AcknowledgedAt h \<noteq> None
      else if hr_State h = ''APPROVED'' then \<not> blank (hr_ApprovedBy h) \<and> hr_ApprovedAt h \<noteq> None
      else if hr_State h = ''TRANSFERRED'' then \<not> blank (hr_TransferredBy h) \<and> hr_TransferredAt h \<noteq> None
      else if hr_State h = ''REJECTED'' then \<not> blank (hr_RejectionReason h)
      else hr_State h = ''CANCELLED'')"

definition HandoverRequest_Validate :: "HandoverRequest \<Rightarrow> custody_error option" where
  "HandoverRequest_Validate h =
     (if blank (hr_ID h) then Some CuInvalidHandover
      else if blank (hr_TenantID h) \<or> blank (hr_OrganizationID h) then Some CuInvalidHandover
      else if blank (hr_WorkOrderID h) then Some CuInvalidHandover
      else if blank (hr_FromAssignmentID h) \<or> blank (hr_ToAssignmentID h) then Some CuInvalidHandover
      else if hr_FromAssignmentID h = hr_ToAssignmentID h then Some CuInvalidHandover
      else if blank (hr_FromSiteID h) \<or> blank (hr_ToSiteID h) then Some CuInvalidHandover
      else if hr_Revision h < 1 then Some CuInvalidHandover
      else if blank (hr_RequestedBy h) \<or> time_IsZero (hr_RequestedAt h) then Some CuInvalidHandover
      else if \<not> handover_state_ok h then Some CuInvalidHandover
      else None)"

definition site_CanTransition :: "string \<Rightarrow> string \<Rightarrow> bool" where
  "site_CanTransition current target \<longleftrightarrow>
     current = target \<or>
     (if current = ''REQUESTED'' then target \<in> {''ACKNOWLEDGED'', ''APPROVED'', ''REJECTED'', ''CANCELLED''}
      else if current = ''ACKNOWLEDGED'' then target \<in> {''APPROVED'', ''REJECTED'', ''CANCELLED''}
      else if current = ''APPROVED'' then target \<in> {''TRANSFERRED'', ''CANCELLED''}
      else False)"

record HandoverTransitionMetadata =
  tm_AcknowledgedBy :: string
  tm_AcknowledgedAt :: "gotime option"
  tm_ApprovedBy :: string
  tm_ApprovedAt :: "gotime option"
  tm_TransferredBy :: string
  tm_TransferredAt :: "gotime option"
  tm_RejectionReason :: string

subsection \<open>Tables\<close>

record CustodyStore =
  cu_chain :: "CustodyRecord list"
  cu_handovers :: "HandoverRequest list"

record custody_session =
  cu_begin :: "tx_error option"
  cu_admits :: "CustodyStore \<Rightarrow> bool"
  cu_sha :: "bytes \<Rightarrow> bytes"

definition custody_begin :: "custody_session \<Rightarrow> CustodyActor \<Rightarrow> custody_error option" where
  "custody_begin sn a =
     (case CustodyActor_Validate a of
        Some e \<Rightarrow> Some e
      | None \<Rightarrow> (case cu_begin sn of Some _ \<Rightarrow> Some CuScopeFailure | None \<Rightarrow> None))"

definition custody_commit :: "custody_session \<Rightarrow> CustodyStore \<Rightarrow> CustodyStore \<Rightarrow> 'a \<Rightarrow> (custody_error + 'a) \<times> CustodyStore" where
  "custody_commit sn old new x = (if cu_admits sn new then (Inr x, new) else (Inl CuDatabaseFailure, old))"

definition prepared_custody :: "custody_session \<Rightarrow> CustodyActor \<Rightarrow> gotime \<Rightarrow> CustodyRecord \<Rightarrow> CustodyRecord" where
  "prepared_custody sn a now r =
     (let r1 = r\<lparr>cr_TenantID := ca_TenantID a, cr_OrganizationID := ca_OrganizationID a, cr_RecordedBy := ca_ActorID a,
            cr_RecordedAt := if time_IsZero (cr_RecordedAt r) then now else cr_RecordedAt r\<rparr> in
      if cr_VerificationHash r1 \<noteq> [] then r1
      else r1\<lparr>cr_VerificationHash := ComputeVerificationHash (cu_sha sn) (cr_TenantID r1) (cr_OrganizationID r1)
        (cr_AssetID r1) (cr_LocationID r1) (cr_CustodianID r1) (cr_Action r1) (cr_RecordedAt r1)\<rparr>)"

definition RecordCustody ::
    "custody_session \<Rightarrow> CustodyActor \<Rightarrow> gotime \<Rightarrow> CustodyRecord \<Rightarrow> CustodyStore \<Rightarrow>
     (custody_error + CustodyRecord) \<times> CustodyStore" where
  "RecordCustody sn a now r s =
     (case CustodyActor_Validate a of
        Some e \<Rightarrow> (Inl e, s)
      | None \<Rightarrow>
         (let rec = prepared_custody sn a now r in
          case CustodyRecord_Validate rec of
            Some e \<Rightarrow> (Inl e, s)
          | None \<Rightarrow>
             (case custody_begin sn a of
                Some e \<Rightarrow> (Inl e, s)
              | None \<Rightarrow>
                  if list_ex (\<lambda>c. cr_TenantID c = cr_TenantID rec \<and> cr_OrganizationID c = cr_OrganizationID rec \<and>
                       cr_ID c = cr_ID rec) (cu_chain s) then (Inl CuDatabaseFailure, s)
                  else custody_commit sn s (s\<lparr>cu_chain := cu_chain s @
                    [rec\<lparr>cr_RecordedAt := pg_time (cr_RecordedAt rec)\<rparr>]\<rparr>) rec)))"

subsection \<open>Handovers\<close>

definition own_handover :: "CustodyActor \<Rightarrow> string \<Rightarrow> HandoverRequest \<Rightarrow> bool" where
  "own_handover a ident h \<longleftrightarrow> hr_TenantID h = ca_TenantID a \<and> hr_OrganizationID h = ca_OrganizationID a \<and> hr_ID h = ident"

definition prepared_handover :: "CustodyActor \<Rightarrow> gotime \<Rightarrow> HandoverRequest \<Rightarrow> HandoverRequest" where
  "prepared_handover a now req =
     (let at = if time_IsZero (hr_RequestedAt req) then now else hr_RequestedAt req in
      req\<lparr>hr_TenantID := ca_TenantID a, hr_OrganizationID := ca_OrganizationID a, hr_RequestedBy := ca_ActorID a,
        hr_RequestedAt := at, hr_State := ''REQUESTED'', hr_Revision := 1, hr_CreatedAt := at, hr_UpdatedAt := at\<rparr>)"

definition handover_row :: "HandoverRequest \<Rightarrow> HandoverRequest" where
  "handover_row h = h\<lparr>hr_RequestedAt := pg_time (hr_RequestedAt h), hr_AcknowledgedBy := [], hr_AcknowledgedAt := None,
     hr_ApprovedBy := [], hr_ApprovedAt := None, hr_TransferredBy := [], hr_TransferredAt := None,
     hr_RejectionReason := [], hr_CreatedAt := pg_time (hr_CreatedAt h), hr_UpdatedAt := pg_time (hr_UpdatedAt h)\<rparr>"

definition RequestHandover ::
    "custody_session \<Rightarrow> CustodyActor \<Rightarrow> gotime \<Rightarrow> HandoverRequest \<Rightarrow> CustodyStore \<Rightarrow>
     (custody_error + HandoverRequest) \<times> CustodyStore" where
  "RequestHandover sn a now r s =
     (case CustodyActor_Validate a of
        Some e \<Rightarrow> (Inl e, s)
      | None \<Rightarrow>
         (let req = prepared_handover a now r in
          case HandoverRequest_Validate req of
            Some e \<Rightarrow> (Inl e, s)
          | None \<Rightarrow>
             (case custody_begin sn a of
                Some e \<Rightarrow> (Inl e, s)
              | None \<Rightarrow>
                  if list_ex (own_handover a (hr_ID req)) (cu_handovers s) then (Inl CuDatabaseFailure, s)
                  else custody_commit sn s (s\<lparr>cu_handovers := cu_handovers s @ [handover_row req]\<rparr>) req)))"

definition GetHandover :: "custody_session \<Rightarrow> CustodyActor \<Rightarrow> string \<Rightarrow> CustodyStore \<Rightarrow> custody_error + HandoverRequest" where
  "GetHandover sn a ident s =
     (case custody_begin sn a of
        Some e \<Rightarrow> Inl e
      | None \<Rightarrow> (case List.find (own_handover a ident) (cu_handovers s) of None \<Rightarrow> Inl CuNotFound | Some h \<Rightarrow> Inr h))"

definition advanced ::
    "gotime \<Rightarrow> string \<Rightarrow> int64 \<Rightarrow> HandoverTransitionMetadata \<Rightarrow> HandoverRequest \<Rightarrow> HandoverRequest" where
  "advanced now target expectedRev extra current =
     (let h = current\<lparr>hr_State := target, hr_Revision := expectedRev + 1, hr_UpdatedAt := now\<rparr> in
      if target = ''ACKNOWLEDGED'' then
        h\<lparr>hr_AcknowledgedBy := tm_AcknowledgedBy extra, hr_AcknowledgedAt := tm_AcknowledgedAt extra\<rparr>
      else if target = ''APPROVED'' then h\<lparr>hr_ApprovedBy := tm_ApprovedBy extra, hr_ApprovedAt := tm_ApprovedAt extra\<rparr>
      else if target = ''TRANSFERRED'' then
        h\<lparr>hr_TransferredBy := tm_TransferredBy extra, hr_TransferredAt := tm_TransferredAt extra\<rparr>
      else if target = ''REJECTED'' then h\<lparr>hr_RejectionReason := tm_RejectionReason extra\<rparr>
      else h)"

text \<open>The columns that the update sets, on the row as it then is.\<close>

definition handover_update :: "HandoverRequest \<Rightarrow> HandoverRequest \<Rightarrow> HandoverRequest" where
  "handover_update h row = row\<lparr>hr_State := hr_State h, hr_AcknowledgedBy := hr_AcknowledgedBy h,
     hr_AcknowledgedAt := map_option pg_time (hr_AcknowledgedAt h), hr_ApprovedBy := hr_ApprovedBy h,
     hr_ApprovedAt := map_option pg_time (hr_ApprovedAt h), hr_TransferredBy := hr_TransferredBy h,
     hr_TransferredAt := map_option pg_time (hr_TransferredAt h), hr_RejectionReason := hr_RejectionReason h,
     hr_Revision := hr_Revision h, hr_UpdatedAt := pg_time (hr_UpdatedAt h)\<rparr>"

text \<open>What the first half of an update decides to write, and the write.\<close>

definition plan_handover ::
    "custody_session \<Rightarrow> CustodyActor \<Rightarrow> gotime \<Rightarrow> string \<Rightarrow> string \<Rightarrow> int64 \<Rightarrow> HandoverTransitionMetadata \<Rightarrow>
     CustodyStore \<Rightarrow> custody_error + HandoverRequest" where
  "plan_handover sn a now ident target expectedRev extra s =
     (case GetHandover sn a ident s of
        Inl e \<Rightarrow> Inl e
      | Inr current \<Rightarrow>
          if hr_Revision current \<noteq> expectedRev then Inl CuStaleRevision
          else if \<not> site_CanTransition (hr_State current) target then Inl CuInvalidTransition
          else if expectedRev = max_int64 then Inl CuInvalidHandover
          else let h = advanced now target expectedRev extra current in
            (case HandoverRequest_Validate h of Some e \<Rightarrow> Inl e | None \<Rightarrow> Inr h))"

definition write_handover ::
    "custody_session \<Rightarrow> CustodyActor \<Rightarrow> int64 \<Rightarrow> HandoverRequest \<Rightarrow> CustodyStore \<Rightarrow>
     (custody_error + HandoverRequest) \<times> CustodyStore" where
  "write_handover sn a expectedRev h t =
     (let hit = (\<lambda>r. own_handover a (hr_ID h) r \<and> hr_Revision r = expectedRev) in
      if list_ex hit (cu_handovers t) then
        custody_commit sn t (t\<lparr>cu_handovers := map (\<lambda>r. if hit r then handover_update h r else r) (cu_handovers t)\<rparr>) h
      else (Inl CuStaleRevision, t))"

definition UpdateHandoverState ::
    "custody_session \<Rightarrow> CustodyActor \<Rightarrow> (CustodyStore \<Rightarrow> CustodyStore) \<Rightarrow> gotime \<Rightarrow> string \<Rightarrow> string \<Rightarrow> int64 \<Rightarrow>
     HandoverTransitionMetadata \<Rightarrow> CustodyStore \<Rightarrow> (custody_error + HandoverRequest) \<times> CustodyStore" where
  "UpdateHandoverState sn a others now ident target expectedRev extra s =
     (case plan_handover sn a now ident target expectedRev extra s of
        Inl e \<Rightarrow> (Inl e, s)
      | Inr h \<Rightarrow> write_handover sn a expectedRev h (others s))"

subsection \<open>Interleaved updates\<close>

text \<open>
  A run interleaves requests, custody records, the first halves of updates, whose plans are kept, and
  their second halves, in any order; a plan may be written late, or never.
\<close>

record custody_system =
  sy_store :: CustodyStore
  sy_plans :: "(CustodyActor \<times> int64 \<times> HandoverRequest) list"

datatype custody_op =
    CRecord custody_session CustodyActor gotime CustodyRecord
  | CRequest custody_session CustodyActor gotime HandoverRequest
  | CPlan custody_session CustodyActor gotime string string int64 HandoverTransitionMetadata
  | CWrite custody_session nat

primrec custody_next :: "custody_op \<Rightarrow> custody_system \<Rightarrow> custody_system" where
  "custody_next (CRecord sn a now r) y = y\<lparr>sy_store := snd (RecordCustody sn a now r (sy_store y))\<rparr>"
| "custody_next (CRequest sn a now r) y = y\<lparr>sy_store := snd (RequestHandover sn a now r (sy_store y))\<rparr>"
| "custody_next (CPlan sn a now ident target rv extra) y =
     (case plan_handover sn a now ident target rv extra (sy_store y) of
        Inl e \<Rightarrow> y
      | Inr h \<Rightarrow> y\<lparr>sy_plans := sy_plans y @ [(a, rv, h)]\<rparr>)"
| "custody_next (CWrite sn n) y =
     (if n < length (sy_plans y) then
        (case sy_plans y ! n of (a, rv, h) \<Rightarrow> y\<lparr>sy_store := snd (write_handover sn a rv h (sy_store y))\<rparr>)
      else y)"

definition handover_key :: "HandoverRequest \<Rightarrow> string \<times> string \<times> string" where
  "handover_key h = (hr_TenantID h, hr_OrganizationID h, hr_ID h)"

definition site_rank :: "string \<Rightarrow> nat" where
  "site_rank st = (if st = ''REQUESTED'' then 0 else if st = ''ACKNOWLEDGED'' then 1 else if st = ''APPROVED'' then 2 else 3)"

lemma site_can_rank: "site_CanTransition s t \<Longrightarrow> s = t \<or> site_rank s < site_rank t"
  by (cases "s = ''REQUESTED''"; cases "s = ''ACKNOWLEDGED''"; cases "s = ''APPROVED''";
      simp add: site_CanTransition_def; elim disjE; simp add: site_rank_def)

interpretation site_handover: lifecycle site_CanTransition site_rank
  by unfold_locales (rule site_can_rank)

text \<open>What a handover keeps from its request on.\<close>

definition handover_terms :: "HandoverRequest \<Rightarrow> string \<times> string \<times> string \<times> string \<times> string \<times> string \<times> string \<times> gotime" where
  "handover_terms h = (hr_WorkOrderID h, hr_AssetID h, hr_FromAssignmentID h, hr_ToAssignmentID h, hr_FromSiteID h,
     hr_ToSiteID h, hr_RequestedBy h, hr_RequestedAt h)"

definition handover_step :: "HandoverRequest \<Rightarrow> HandoverRequest \<Rightarrow> bool" where
  "handover_step h h' \<longleftrightarrow> handover_key h' = handover_key h \<and> handover_terms h' = handover_terms h \<and>
     site_CanTransition (hr_State h) (hr_State h') \<and> hr_Revision h' = hr_Revision h + 1 \<and> handover_state_ok h'"

text \<open>The row that a plan was made on, which later revisions replace.\<close>

definition plan_of :: "HandoverRequest list \<Rightarrow> CustodyActor \<times> int64 \<times> HandoverRequest \<Rightarrow> bool" where
  "plan_of rows p \<longleftrightarrow> (case p of (a, rv, h) \<Rightarrow>
     handover_key h = (ca_TenantID a, ca_OrganizationID a, hr_ID h) \<and>
     (\<forall>r \<in> set rows. handover_key r = handover_key h \<longrightarrow> rv \<le> hr_Revision r \<and>
        (hr_Revision r = rv \<longrightarrow> site_CanTransition (hr_State r) (hr_State h) \<and> hr_Revision h = rv + 1 \<and>
           handover_state_ok h)) \<and>
     handover_key h \<in> handover_key ` set rows)"

definition custody_ok :: "custody_system \<Rightarrow> bool" where
  "custody_ok y \<longleftrightarrow> distinct (map handover_key (cu_handovers (sy_store y))) \<and>
     (\<forall>p \<in> set (sy_plans y). plan_of (cu_handovers (sy_store y)) p)"

lemma own_handover_key: "own_handover a i r \<longleftrightarrow> handover_key r = (ca_TenantID a, ca_OrganizationID a, i)"
  by (auto simp: own_handover_def handover_key_def)

lemma state_ok_cong:
  "hr_State h' = hr_State h \<Longrightarrow> hr_AcknowledgedBy h' = hr_AcknowledgedBy h \<Longrightarrow> hr_ApprovedBy h' = hr_ApprovedBy h \<Longrightarrow>
   hr_TransferredBy h' = hr_TransferredBy h \<Longrightarrow> hr_RejectionReason h' = hr_RejectionReason h \<Longrightarrow>
   hr_AcknowledgedAt h' = map_option f (hr_AcknowledgedAt h) \<Longrightarrow> hr_ApprovedAt h' = map_option f (hr_ApprovedAt h) \<Longrightarrow>
   hr_TransferredAt h' = map_option f (hr_TransferredAt h) \<Longrightarrow> handover_state_ok h' = handover_state_ok h"
  by (simp add: handover_state_ok_def)

lemma handover_update_simps [simp]:
  "handover_key (handover_update h r) = handover_key r" "handover_terms (handover_update h r) = handover_terms r"
  "hr_State (handover_update h r) = hr_State h" "hr_Revision (handover_update h r) = hr_Revision h"
  "handover_state_ok (handover_update h r) = handover_state_ok h"
proof -
  show "handover_state_ok (handover_update h r) = handover_state_ok h"
    by (rule state_ok_cong [where f = pg_time]) (simp_all add: handover_update_def)
qed (simp_all add: handover_update_def handover_key_def handover_terms_def)

lemma advanced_simps [simp]:
  "hr_State (advanced now target rv extra c) = target" "hr_Revision (advanced now target rv extra c) = rv + 1"
  "handover_key (advanced now target rv extra c) = handover_key c" "hr_ID (advanced now target rv extra c) = hr_ID c"
  by (simp_all add: advanced_def handover_key_def Let_def)

text \<open>The rows after a step.\<close>

lemma write_rows:
  assumes "plan_of (cu_handovers t) (a, rv, h)"
  shows "cu_handovers (snd (write_handover sn a rv h t)) = cu_handovers t \<or>
    (\<exists>g. cu_handovers (snd (write_handover sn a rv h t)) = map g (cu_handovers t) \<and>
      (\<forall>r \<in> set (cu_handovers t). if handover_key r = handover_key h \<and> hr_Revision r = rv then handover_step r (g r)
         else g r = r))"
proof -
  let ?g = "\<lambda>r. if own_handover a (hr_ID h) r \<and> hr_Revision r = rv then handover_update h r else r"
  have key: "handover_key h = (ca_TenantID a, ca_OrganizationID a, hr_ID h)" using assms by (simp add: plan_of_def)
  have "if handover_key r = handover_key h \<and> hr_Revision r = rv then handover_step r (?g r) else ?g r = r"
    if "r \<in> set (cu_handovers t)" for r
    using assms that by (auto simp: plan_of_def own_handover_key key handover_step_def)
  moreover have "cu_handovers (snd (write_handover sn a rv h t)) = cu_handovers t \<or>
      cu_handovers (snd (write_handover sn a rv h t)) = map ?g (cu_handovers t)"
    by (simp add: write_handover_def custody_commit_def Let_def)
  ultimately show ?thesis by blast
qed

lemma Record_rows [simp]: "cu_handovers (snd (RecordCustody sn a now r s)) = cu_handovers s"
  by (simp add: RecordCustody_def custody_commit_def Let_def split: option.splits)

lemma Request_rows:
  "cu_handovers (snd (RequestHandover sn a now r s)) = cu_handovers s \<or>
   (\<exists>h. cu_handovers (snd (RequestHandover sn a now r s)) = cu_handovers s @ [h] \<and>
      handover_key h \<notin> handover_key ` set (cu_handovers s) \<and> handover_state_ok h)"
proof -
  let ?h = "prepared_handover a now r"
  have key: "handover_key (handover_row ?h) = (ca_TenantID a, ca_OrganizationID a, hr_ID ?h)"
    "handover_state_ok (handover_row ?h)"
    by (simp_all add: handover_key_def handover_row_def prepared_handover_def handover_state_ok_def Let_def)
  have "cu_handovers (snd (RequestHandover sn a now r s)) = cu_handovers s \<or>
      cu_handovers (snd (RequestHandover sn a now r s)) = cu_handovers s @ [handover_row ?h] \<and>
      \<not> list_ex (own_handover a (hr_ID ?h)) (cu_handovers s)"
    by (auto simp: RequestHandover_def custody_commit_def Let_def split: option.splits)
  moreover have "handover_key (handover_row ?h) \<notin> handover_key ` set (cu_handovers s)"
    if "\<not> list_ex (own_handover a (hr_ID ?h)) (cu_handovers s)"
    using that key by (auto simp: list_ex_iff own_handover_key)
  ultimately show ?thesis using key(2) by blast
qed

text \<open>How the rows may change in one step.\<close>

definition rows_step :: "HandoverRequest list \<Rightarrow> HandoverRequest list \<Rightarrow> bool" where
  "rows_step rs rs' \<longleftrightarrow> rs' = rs \<or> (\<exists>g. rs' = map g rs \<and> (\<forall>r \<in> set rs. g r = r \<or> handover_step r (g r))) \<or>
     (\<exists>h. rs' = rs @ [h] \<and> handover_key h \<notin> handover_key ` set rs \<and> handover_state_ok h)"

lemma custody_step_rows:
  assumes "custody_ok y"
  shows "rows_step (cu_handovers (sy_store y)) (cu_handovers (sy_store (custody_next op y)))"
proof (cases op)
  case (CRequest sn a now r)
  then show ?thesis using Request_rows [of sn a now r "sy_store y"] by (auto simp: rows_step_def)
next
  case (CWrite sn n)
  show ?thesis
  proof (cases "n < length (sy_plans y)")
    case True
    obtain a rv h where p: "sy_plans y ! n = (a, rv, h)" by (cases "sy_plans y ! n")
    then have "plan_of (cu_handovers (sy_store y)) (a, rv, h)"
      using assms True unfolding custody_ok_def by (metis nth_mem)
    from write_rows [OF this, of sn] CWrite True p show ?thesis
      unfolding rows_step_def by (simp split: if_split_asm) metis
  qed (use CWrite in \<open>simp add: rows_step_def\<close>)
qed (simp_all add: rows_step_def split: sum.splits)

text \<open>Plans stay valid while rows are replaced by later revisions only.\<close>

lemma plan_of_grows:
  assumes "plan_of rs p" "handover_key ` set rs \<subseteq> handover_key ` set rs'"
    and old: "\<And>r'. r' \<in> set rs' \<Longrightarrow> handover_key r' \<in> handover_key ` set rs \<Longrightarrow>
      \<exists>r \<in> set rs. handover_key r = handover_key r' \<and> (r' = r \<or> hr_Revision r < hr_Revision r')"
  shows "plan_of rs' p"
proof -
  obtain a rv h where p: "p = (a, rv, h)" by (cases p)
  note plan = assms(1) [unfolded p plan_of_def prod.case]
  have "rv \<le> hr_Revision r' \<and> (hr_Revision r' = rv \<longrightarrow> site_CanTransition (hr_State r') (hr_State h) \<and>
      hr_Revision h = rv + 1 \<and> handover_state_ok h)"
    if r': "r' \<in> set rs'" "handover_key r' = handover_key h" for r'
  proof -
    obtain r where r: "r \<in> set rs" "handover_key r = handover_key h" "r' = r \<or> hr_Revision r < hr_Revision r'"
      using old [OF r'(1)] plan r'(2) by metis
    then have "rv \<le> hr_Revision r" "hr_Revision r = rv \<longrightarrow> site_CanTransition (hr_State r) (hr_State h) \<and>
        hr_Revision h = rv + 1 \<and> handover_state_ok h" using plan by blast+
    with r(3) show ?thesis by auto
  qed
  moreover have "handover_key h \<in> handover_key ` set rs'" using plan assms(2) by blast
  ultimately show ?thesis using plan unfolding p plan_of_def prod.case by blast
qed

lemma rows_step_cases:
  assumes "rows_step rs rs'"
  obtains (mapped) g where "rs' = map g rs" "\<And>r. r \<in> set rs \<Longrightarrow> g r = r \<or> handover_step r (g r)"
      "map handover_key rs' = map handover_key rs"
  | (new) h where "rs' = rs @ [h]" "handover_key h \<notin> handover_key ` set rs"
proof -
  consider (same) "rs' = rs" | (map) g where "rs' = map g rs" "\<forall>r \<in> set rs. g r = r \<or> handover_step r (g r)"
    | (new) h where "rs' = rs @ [h]" "handover_key h \<notin> handover_key ` set rs"
    using assms unfolding rows_step_def by blast
  then show thesis
  proof cases
    case same
    then show ?thesis using mapped [of "\<lambda>r. r"] by simp
  next
    case map
    have "handover_key (g r) = handover_key r" if "r \<in> set rs" for r
      using map(2) that unfolding handover_step_def by metis
    then have "map handover_key rs' = map handover_key rs" unfolding map(1) by (rule map_map_keeps)
    with map show ?thesis using mapped [of g] by blast
  qed (rule that(2))
qed

lemma rows_step_distinct:
  assumes "rows_step rs rs'" "distinct (map handover_key rs)"
  shows "distinct (map handover_key rs')"
  using assms(1)
proof (cases rule: rows_step_cases)
  case (mapped g)
  show ?thesis unfolding mapped(3) by (rule assms(2))
next
  case (new h)
  then show ?thesis using assms(2) by simp
qed

lemma rows_step_later:
  assumes "rows_step rs rs'" "r \<in> set rs"
  shows "\<exists>r' \<in> set rs'. r' = r \<or> handover_step r r'"
  using assms(1)
proof (cases rule: rows_step_cases)
  case (mapped g)
  have "g r \<in> set rs'" unfolding mapped(1) using assms(2) by simp
  with mapped(2) [OF assms(2)] show ?thesis by blast
next
  case (new h)
  then show ?thesis using assms(2) by auto
qed

lemma rows_step_plan:
  assumes "rows_step rs rs'" "plan_of rs p"
  shows "plan_of rs' p"
  using assms(1)
proof (cases rule: rows_step_cases)
  case (mapped g)
  show ?thesis
  proof (rule plan_of_grows [OF assms(2)])
    show "handover_key ` set rs \<subseteq> handover_key ` set rs'" using mapped(3) by (metis list.set_map order_refl)
    fix r' assume "r' \<in> set rs'"
    then obtain r where "r \<in> set rs" "r' = g r" using mapped(1) by auto
    then show "\<exists>r \<in> set rs. handover_key r = handover_key r' \<and> (r' = r \<or> hr_Revision r < hr_Revision r')"
      using mapped(2) [of r] by (auto simp: handover_step_def)
  qed
next
  case (new h)
  show ?thesis by (rule plan_of_grows [OF assms(2)]) (use new in auto)
qed

lemma plan_made:
  assumes "plan_handover sn a now ident target rv extra s = Inr h" "distinct (map handover_key (cu_handovers s))"
  shows "plan_of (cu_handovers s) (a, rv, h)"
proof -
  obtain c where get: "GetHandover sn a ident s = Inr c"
    using assms(1) by (cases "GetHandover sn a ident s") (simp_all add: plan_handover_def)
  then have c: "hr_Revision c = rv" "site_CanTransition (hr_State c) target"
    "h = advanced now target rv extra c" "HandoverRequest_Validate h = None"
    using assms(1) by (auto simp: plan_handover_def Let_def split: if_split_asm option.splits)
  have row: "c \<in> set (cu_handovers s)" "own_handover a ident c"
    using get by (auto simp: GetHandover_def find_Some_iff split: option.splits)
  have key: "handover_key c = (ca_TenantID a, ca_OrganizationID a, hr_ID c)"
    using row(2) by (simp add: handover_key_def own_handover_def)
  have "r = c" if "r \<in> set (cu_handovers s)" "handover_key r = handover_key c" for r
    using assms(2) that row(1) unfolding distinct_map inj_on_def by blast
  moreover have "handover_state_ok h" using c(4) by (simp add: HandoverRequest_Validate_def split: if_split_asm)
  moreover have "handover_key h = handover_key c" "hr_ID h = hr_ID c" "hr_State h = target" "hr_Revision h = rv + 1"
    unfolding c(3) by simp_all
  ultimately show ?thesis unfolding plan_of_def prod.case using c(1,2) key row(1) by (metis image_eqI order_refl)
qed

lemma custody_ok_step: "custody_ok y \<Longrightarrow> custody_ok (custody_next op y)"
proof -
  assume ok: "custody_ok y"
  note rows = custody_step_rows [OF ok, of op]
  have kept: "plan_of (cu_handovers (sy_store (custody_next op y))) p" if "p \<in> set (sy_plans y)" for p
    using rows_step_plan [OF rows] ok that by (simp add: custody_ok_def)
  have "plan_of (cu_handovers (sy_store (custody_next op y))) p" if now: "p \<in> set (sy_plans (custody_next op y))" for p
  proof (cases "p \<in> set (sy_plans y)")
    case False
    then obtain sn a now ident target rv extra where op: "op = CPlan sn a now ident target rv extra"
      using now by (cases op) (auto split: prod.splits if_split_asm)
    with False now obtain h where "plan_handover sn a now ident target rv extra (sy_store y) = Inr h" "p = (a, rv, h)"
      by (cases "plan_handover sn a now ident target rv extra (sy_store y)") auto
    with plan_made ok op show ?thesis by (simp add: custody_ok_def)
  qed (rule kept)
  with rows_step_distinct [OF rows] ok show ?thesis by (simp add: custody_ok_def)
qed

interpretation custody: aggregate custody_next custody_ok
  by unfold_locales (rule custody_ok_step)

text \<open>How a row relates to a later row of its key.\<close>

definition handover_after :: "HandoverRequest \<Rightarrow> HandoverRequest \<Rightarrow> bool" where
  "handover_after h h' \<longleftrightarrow> handover_key h' = handover_key h \<and> handover_terms h' = handover_terms h \<and>
     site_CanTransition\<^sup>*\<^sup>* (hr_State h) (hr_State h') \<and> (h' = h \<or> hr_Revision h < hr_Revision h' \<and> handover_state_ok h')"

lemma handover_after_step: "h' = h \<or> handover_step h h' \<Longrightarrow> handover_after h h'"
  by (auto simp: handover_after_def handover_step_def)

lemma handover_after_trans: "handover_after h g \<Longrightarrow> handover_after g f \<Longrightarrow> handover_after h f"
  by (auto simp: handover_after_def)

lemma handover_after_run:
  "custody_ok y \<Longrightarrow> h \<in> set (cu_handovers (sy_store y)) \<Longrightarrow>
    \<exists>h' \<in> set (cu_handovers (sy_store (run_ops custody_next ops y))). handover_after h h'"
proof (induction ops arbitrary: y h)
  case Nil
  then show ?case using handover_after_step by auto
next
  case (Cons op ops)
  from rows_step_later [OF custody_step_rows [OF Cons.prems(1)] Cons.prems(2)]
  obtain g where g: "g \<in> set (cu_handovers (sy_store (custody_next op y)))" "handover_after h g"
    using handover_after_step by blast
  from Cons.IH [OF custody_ok_step [OF Cons.prems(1)] g(1)] g(2) show ?case
    using handover_after_trans by (metis run_ops.simps(2))
qed

text \<open>Concurrent updates of a handover act one after the other. Although an update reads the request in a
  transaction of its own and writes it in another, any interleaving of the halves of any number of
  updates, with requests and custody records between, leaves every handover in the table under its
  key and with the assignments, sites and requester of its request; its state has moved along the
  transitions only, so it never returns to a state it has left; a plan made on a revision that is no
  longer current writes nothing; and every state that was written carries its evidence.\<close>

theorem handovers_interleave_safely:
  assumes "custody_ok y" and "h \<in> set (cu_handovers (sy_store y))"
  shows "\<exists>h' \<in> set (cu_handovers (sy_store (run_ops custody_next ops y))).
    handover_after h h' \<and> (site_CanTransition\<^sup>*\<^sup>* (hr_State h') (hr_State h) \<longrightarrow> hr_State h' = hr_State h) \<and>
    (\<forall>g \<in> set (cu_handovers (sy_store (run_ops custody_next ops y))). handover_key g = handover_key h \<longrightarrow> g = h')"
proof -
  let ?rows = "cu_handovers (sy_store (run_ops custody_next ops y))"
  obtain h' where h': "h' \<in> set ?rows" "handover_after h h'" using handover_after_run [OF assms] by blast
  have "distinct (map handover_key ?rows)" using custody.run_inv [OF assms(1), of ops] by (simp add: custody_ok_def)
  then have "g = h'" if "g \<in> set ?rows" "handover_key g = handover_key h" for g
    using that h' unfolding distinct_map inj_on_def handover_after_def by metis
  moreover have "site_CanTransition\<^sup>*\<^sup>* (hr_State h') (hr_State h) \<longrightarrow> hr_State h' = hr_State h"
    using h'(2) site_handover.no_return unfolding handover_after_def by metis
  ultimately show ?thesis using h' by blast
qed

subsection \<open>The chain\<close>

definition chain_ok :: "CustodyStore \<Rightarrow> bool" where
  "chain_ok s \<longleftrightarrow> distinct (map (\<lambda>c. (cr_TenantID c, cr_OrganizationID c, cr_ID c)) (cu_chain s)) \<and>
     (\<forall>c \<in> set (cu_chain s). \<not> blank (cr_RecordedBy c) \<and> \<not> blank (cr_CustodianID c) \<and>
        \<not> blank (cr_VerificationHash c) \<and> cr_Action c \<in> set CustodyActions)"

lemma Record_chain:
  "cu_chain (snd (RecordCustody sn a now r s)) = cu_chain s \<or>
   (\<exists>c. cu_chain (snd (RecordCustody sn a now r s)) = cu_chain s @ [c] \<and> (chain_ok s \<longrightarrow> chain_ok (s\<lparr>cu_chain := cu_chain s @ [c]\<rparr>)))"
proof -
  let ?r = "prepared_custody sn a now r"
  let ?c = "?r\<lparr>cr_RecordedAt := pg_time (cr_RecordedAt ?r)\<rparr>"
  have "cu_chain (snd (RecordCustody sn a now r s)) = cu_chain s \<or>
     cu_chain (snd (RecordCustody sn a now r s)) = cu_chain s @ [?c] \<and> CustodyRecord_Validate ?r = None \<and>
     \<not> list_ex (\<lambda>c. cr_TenantID c = cr_TenantID ?r \<and> cr_OrganizationID c = cr_OrganizationID ?r \<and> cr_ID c = cr_ID ?r) (cu_chain s)"
    by (auto simp: RecordCustody_def custody_commit_def Let_def split: option.splits)
  moreover have "chain_ok (s\<lparr>cu_chain := cu_chain s @ [?c]\<rparr>)"
    if "chain_ok s" "CustodyRecord_Validate ?r = None"
      "\<not> list_ex (\<lambda>c. cr_TenantID c = cr_TenantID ?r \<and> cr_OrganizationID c = cr_OrganizationID ?r \<and> cr_ID c = cr_ID ?r) (cu_chain s)"
    using that by (auto simp: chain_ok_def list_ex_iff CustodyRecord_Validate_def split: if_split_asm)
  ultimately show ?thesis by blast
qed

lemma other_chain:
  "cu_chain (snd (RequestHandover sn a now r s)) = cu_chain s" "cu_chain (snd (write_handover sn a rv h s)) = cu_chain s"
  by (simp_all add: RequestHandover_def write_handover_def custody_commit_def Let_def split: option.splits)

lemma custody_chain_step:
  "cu_chain (sy_store (custody_next op y)) = cu_chain (sy_store y) \<or>
   (\<exists>c. cu_chain (sy_store (custody_next op y)) = cu_chain (sy_store y) @ [c] \<and>
      (chain_ok (sy_store y) \<longrightarrow> chain_ok ((sy_store y)\<lparr>cu_chain := cu_chain (sy_store y) @ [c]\<rparr>)))"
  by (cases op) (use Record_chain other_chain in \<open>auto split: sum.splits prod.splits\<close>)

interpretation custody_chain: trail custody_next "\<lambda>y. chain_ok (sy_store y)" "\<lambda>y. cu_chain (sy_store y)"
proof unfold_locales
  fix y :: custody_system and op
  assume "chain_ok (sy_store y)"
  then show "chain_ok (sy_store (custody_next op y))"
    using custody_chain_step [of op y] by (auto simp: chain_ok_def)
  show "prefix (cu_chain (sy_store y)) (cu_chain (sy_store (custody_next op y)))"
    using custody_chain_step [of op y] by auto
qed

text \<open>The chain of custody is append-only and stays attributable. Along any run of the repository's
  calls, whoever makes them and whatever the database refuses, the chain that was there remains a
  prefix of the chain, no two of its records share tenant, organization and id, and every record
  names who recorded it, its custodian, one of the five actions and a verification hash.\<close>

theorem custody_chain_grows:
  assumes "chain_ok (sy_store y)"
  shows "prefix (cu_chain (sy_store y)) (cu_chain (sy_store (run_ops custody_next ops y))) \<and>
    chain_ok (sy_store (run_ops custody_next ops y))"
  using custody_chain.run_prefix [OF assms] custody_chain.run_inv [OF assms] by blast

subsection \<open>Witnesses\<close>

definition demo_custody_actor :: CustodyActor where
  "demo_custody_actor = \<lparr>ca_TenantID = ''t1'', ca_OrganizationID = ''o1'', ca_ActorID = ''u1''\<rparr>"

definition demo_custody :: custody_session where
  "demo_custody = \<lparr>cu_begin = None, cu_admits = \<lambda>s. True, cu_sha = \<lambda>x. x\<rparr>"

definition demo_handover :: HandoverRequest where
  "demo_handover = \<lparr>hr_ID = ''h1'', hr_TenantID = ''t1'', hr_OrganizationID = ''o1'', hr_WorkOrderID = ''w1'',
     hr_AssetID = ''a1'', hr_FromAssignmentID = ''f1'', hr_ToAssignmentID = ''f2'', hr_FromSiteID = ''s1'',
     hr_ToSiteID = ''s2'', hr_State = ''REQUESTED'', hr_Reason = [], hr_RequestedBy = ''u1'', hr_RequestedAt = 5000,
     hr_AcknowledgedBy = [], hr_AcknowledgedAt = None, hr_ApprovedBy = [], hr_ApprovedAt = None,
     hr_TransferredBy = [], hr_TransferredAt = None, hr_RejectionReason = [], hr_Revision = 1,
     hr_CreatedAt = 5000, hr_UpdatedAt = 5000\<rparr>"

definition demo_link :: CustodyRecord where
  "demo_link = \<lparr>cr_ID = ''c1'', cr_TenantID = ''t1'', cr_OrganizationID = ''o1'', cr_AssetID = ''a1'', cr_WorkOrderID = ''w1'',
     cr_LocationID = ''l1'', cr_SiteName = ''North'', cr_CustodianID = ''u1'', cr_Action = ''CHECK_IN'',
     cr_VerificationHash = ''00'', cr_Notes = [], cr_RecordedBy = ''u1'', cr_RecordedAt = 4000\<rparr>"

text \<open>Two clerks decide on the same revision, one to cancel and one to approve; the cancellation is written first.\<close>

definition demo_approval :: HandoverTransitionMetadata where
  "demo_approval = \<lparr>tm_AcknowledgedBy = [], tm_AcknowledgedAt = None, tm_ApprovedBy = ''u2'', tm_ApprovedAt = Some 9000,
     tm_TransferredBy = [], tm_TransferredAt = None, tm_RejectionReason = []\<rparr>"

definition demo_custody_system :: custody_system where
  "demo_custody_system = \<lparr>sy_store = \<lparr>cu_chain = [demo_link], cu_handovers = [demo_handover]\<rparr>, sy_plans = []\<rparr>"

definition demo_race :: "custody_op list" where
  "demo_race = [CPlan demo_custody demo_custody_actor 9000 ''h1'' ''APPROVED'' 1 demo_approval,
     CPlan demo_custody demo_custody_actor 9000 ''h1'' ''CANCELLED'' 1 demo_approval,
     CWrite demo_custody 1, CWrite demo_custody 0]"

lemma handovers_interleave_safely_witness:
  "\<exists>h' \<in> set (cu_handovers (sy_store (run_ops custody_next demo_race demo_custody_system))). handover_after demo_handover h'"
proof -
  have "custody_ok demo_custody_system" "demo_handover \<in> set (cu_handovers (sy_store demo_custody_system))"
    by (simp_all add: custody_ok_def demo_custody_system_def)
  from handovers_interleave_safely [OF this, of demo_race] show ?thesis by blast
qed

lemma custody_chain_grows_witness:
  "demo_link \<in> set (cu_chain (sy_store (run_ops custody_next
     [CRecord demo_custody demo_custody_actor 9000 (demo_link\<lparr>cr_ID := ''c2''\<rparr>)] demo_custody_system)))"
proof -
  have "chain_ok (sy_store demo_custody_system)"
    by (simp add: chain_ok_def demo_custody_system_def demo_link_def CustodyActions_def)
  from custody_chain_grows [OF this] have "prefix [demo_link] (cu_chain (sy_store (run_ops custody_next
     [CRecord demo_custody demo_custody_actor 9000 (demo_link\<lparr>cr_ID := ''c2''\<rparr>)] demo_custody_system)))"
    by (simp add: demo_custody_system_def del: run_ops.simps)
  then show ?thesis using set_mono_prefix by fastforce
qed

lemma demo_race_outcome:
  "map hr_State (cu_handovers (sy_store (run_ops custody_next demo_race demo_custody_system))) = [''CANCELLED'']"
  by (simp add: demo_race_def demo_custody_system_def demo_handover_def demo_approval_def demo_custody_def
      demo_custody_actor_def plan_handover_def GetHandover_def custody_begin_def CustodyActor_Validate_def own_handover_def
      site_CanTransition_def max_int64_def advanced_def HandoverRequest_Validate_def handover_state_ok_def
      write_handover_def custody_commit_def handover_update_def time_IsZero_def Let_def)

end
