(* ===== verification/Ring_Buffer.thy ===== *)
theory Ring_Buffer
  imports Contracts
begin

text \<open>
  The bounded queue for several producers and consumers, \<open>pkg/perf/ring/ring.go\<close>.

  \<^item> A thread is its program counter: where it stands in \<open>TryPush\<close> or \<open>TryPop\<close> with the values it
    has loaded. One step is one atomic operation of the code; the atomics of Go are sequentially
    consistent, so the threads interleave. The store and the load of a slot's value are steps of
    their own.
  \<^item> Positions and sequence numbers are 64-bit words, the capacity a 32-bit word.
  \<^item> The specification is a bounded queue with the calls that are under way. A push takes effect
    when it advances \<open>head\<close>, a pop when it advances \<open>tail\<close>.
  \<^item> \<open>NewRingBuffer\<close> allocates its slots; whether there is the memory for them is \<open>fits\<close>.
\<close>

unbundle bit_operations_syntax

subsection \<open>The ring\<close>

record 'a ring_cell =
  rc_seq :: "64 word"
  rc_val :: 'a

record 'a RingBuffer =
  rb_cap :: "32 word"
  rb_mask :: "64 word"
  rb_head :: "64 word"
  rb_tail :: "64 word"
  rb_cells :: "'a ring_cell list"

datatype ring_error = CapacityNotPositive | MakePanics

fun bits_Len64 :: "nat \<Rightarrow> nat" where
  "bits_Len64 m = (if m = 0 then 0 else Suc (bits_Len64 (m div 2)))"

declare bits_Len64.simps [simp del]

definition NewRingBuffer :: "(nat \<Rightarrow> bool) \<Rightarrow> 'a \<Rightarrow> int64 \<Rightarrow> ring_error + 'a RingBuffer" where
  "NewRingBuffer fits zero capacity =
     (if capacity \<le> 0 then Inl CapacityNotPositive
      else let n = 2 ^ bits_Len64 (nat (capacity - 1)) in
        if 2 ^ 63 \<le> n \<or> \<not> fits n then Inl MakePanics
        else Inr \<lparr>rb_cap = of_nat n, rb_mask = of_nat (n - 1), rb_head = 0, rb_tail = 0,
          rb_cells = map (\<lambda>i. \<lparr>rc_seq = of_nat i, rc_val = zero\<rparr>) [0..<n]\<rparr>)"

definition slot :: "'a RingBuffer \<Rightarrow> 64 word \<Rightarrow> nat" where
  "slot r pos = unat (pos AND rb_mask r)"

definition load_seq :: "'a RingBuffer \<Rightarrow> 64 word \<Rightarrow> 64 word" where
  "load_seq r pos = rc_seq (rb_cells r ! slot r pos)"

definition load_val :: "'a RingBuffer \<Rightarrow> 64 word \<Rightarrow> 'a" where
  "load_val r pos = rc_val (rb_cells r ! slot r pos)"

definition store_seq :: "64 word \<Rightarrow> 64 word \<Rightarrow> 'a RingBuffer \<Rightarrow> 'a RingBuffer" where
  "store_seq pos w r = r\<lparr>rb_cells := (rb_cells r)[slot r pos := (rb_cells r ! slot r pos)\<lparr>rc_seq := w\<rparr>]\<rparr>"

definition store_val :: "64 word \<Rightarrow> 'a \<Rightarrow> 'a RingBuffer \<Rightarrow> 'a RingBuffer" where
  "store_val pos x r = r\<lparr>rb_cells := (rb_cells r)[slot r pos := (rb_cells r ! slot r pos)\<lparr>rc_val := x\<rparr>]\<rparr>"

subsection \<open>Threads\<close>

datatype 'a pc =
    Idle
  | PushLoad 'a
  | PushSeq 'a "64 word"
  | PushCas 'a "64 word"
  | PushWrite 'a "64 word"
  | PushPublish "64 word"
  | PushDone bool
  | PopLoad
  | PopSeq "64 word"
  | PopCas "64 word"
  | PopRead "64 word"
  | PopRelease "64 word" 'a
  | PopDone "'a option"

datatype 'a ring_event = Pushed 'a | Published | RefusedFull | Taken | Returned 'a | RefusedEmpty

text \<open>One atomic operation of \<open>TryPush\<close>.\<close>

fun push_step :: "'a RingBuffer \<Rightarrow> 'a pc \<Rightarrow> 'a RingBuffer \<times> 'a pc \<times> 'a ring_event option" where
  "push_step r (PushLoad x) = (r, PushSeq x (rb_head r), None)"
| "push_step r (PushSeq x pos) =
     (let seq = load_seq r pos in
      if seq = pos then (r, PushCas x pos, None)
      else if sint (seq - pos) < 0 then (r, PushDone False, Some RefusedFull)
      else (r, PushLoad x, None))"
| "push_step r (PushCas x pos) =
     (if rb_head r = pos then (r\<lparr>rb_head := pos + 1\<rparr>, PushWrite x pos, Some (Pushed x)) else (r, PushLoad x, None))"
| "push_step r (PushWrite x pos) = (store_val pos x r, PushPublish pos, None)"
| "push_step r (PushPublish pos) = (store_seq pos (pos + 1) r, PushDone True, Some Published)"
| "push_step r pc = (r, pc, None)"

text \<open>One atomic operation of \<open>TryPop\<close>.\<close>

fun pop_step :: "'a RingBuffer \<Rightarrow> 'a pc \<Rightarrow> 'a RingBuffer \<times> 'a pc \<times> 'a ring_event option" where
  "pop_step r PopLoad = (r, PopSeq (rb_tail r), None)"
| "pop_step r (PopSeq pos) =
     (let seq = load_seq r pos in
      if seq = pos + 1 then (r, PopCas pos, None)
      else if sint (seq - (pos + 1)) < 0 then (r, PopDone None, Some RefusedEmpty)
      else (r, PopLoad, None))"
| "pop_step r (PopCas pos) =
     (if rb_tail r = pos then (r\<lparr>rb_tail := pos + 1\<rparr>, PopRead pos, Some Taken) else (r, PopLoad, None))"
| "pop_step r (PopRead pos) = (r, PopRelease pos (load_val r pos), None)"
| "pop_step r (PopRelease pos v) = (store_seq pos (pos + ucast (rb_cap r)) r, PopDone (Some v), Some (Returned v))"
| "pop_step r pc = (r, pc, None)"

definition is_push :: "'a pc \<Rightarrow> bool" where
  "is_push pc \<longleftrightarrow> (case pc of PushLoad _ \<Rightarrow> True | PushSeq _ _ \<Rightarrow> True | PushCas _ _ \<Rightarrow> True | PushWrite _ _ \<Rightarrow> True
     | PushPublish _ \<Rightarrow> True | _ \<Rightarrow> False)"

definition at_rest :: "'a pc \<Rightarrow> bool" where
  "at_rest pc \<longleftrightarrow> (case pc of Idle \<Rightarrow> True | PushDone _ \<Rightarrow> True | PopDone _ \<Rightarrow> True | _ \<Rightarrow> False)"

definition thread_step :: "'a RingBuffer \<Rightarrow> 'a pc \<Rightarrow> 'a RingBuffer \<times> 'a pc \<times> 'a ring_event option" where
  "thread_step r pc = (if is_push pc then push_step r pc else pop_step r pc)"

record 'a ring_system =
  rs_ring :: "'a RingBuffer"
  rs_threads :: "nat \<Rightarrow> 'a pc"

inductive ring_step :: "'a ring_system \<Rightarrow> (nat \<times> 'a ring_event) option \<Rightarrow> 'a ring_system \<Rightarrow> bool" where
  call_push: "at_rest (rs_threads s i) \<Longrightarrow> ring_step s None (s\<lparr>rs_threads := (rs_threads s)(i := PushLoad x)\<rparr>)"
| call_pop: "at_rest (rs_threads s i) \<Longrightarrow> ring_step s None (s\<lparr>rs_threads := (rs_threads s)(i := PopLoad)\<rparr>)"
| move: "\<not> at_rest (rs_threads s i) \<Longrightarrow> thread_step (rs_ring s) (rs_threads s i) = (r', pc', ev) \<Longrightarrow>
    ring_step s (map_option (Pair i) ev) \<lparr>rs_ring = r', rs_threads = (rs_threads s)(i := pc')\<rparr>"

inductive ring_run :: "'a ring_system \<Rightarrow> (nat \<times> 'a ring_event) list \<Rightarrow> 'a ring_system \<Rightarrow> bool" for s0 where
  start: "ring_run s0 [] s0"
| more: "ring_run s0 evs s \<Longrightarrow> ring_step s ev s' \<Longrightarrow> ring_run s0 (evs @ (case ev of None \<Rightarrow> [] | Some e \<Rightarrow> [e])) s'"

subsection \<open>The specification\<close>

record 'a queue_spec =
  qs_items :: "'a list"
  qs_writers :: "nat set"
  qs_claims :: "nat \<rightharpoonup> 'a"

text \<open>A push may be refused although there is room only while a pop is under way, and a pop although there is
  an item only while a push is.\<close>

fun spec_step :: "nat \<Rightarrow> nat \<times> 'a ring_event \<Rightarrow> 'a queue_spec \<Rightarrow> 'a queue_spec option" where
  "spec_step n (i, Pushed x) a =
     (if length (qs_items a) < n then Some (a\<lparr>qs_items := qs_items a @ [x], qs_writers := insert i (qs_writers a)\<rparr>) else None)"
| "spec_step n (i, Published) a = (if i \<in> qs_writers a then Some (a\<lparr>qs_writers := qs_writers a - {i}\<rparr>) else None)"
| "spec_step n (i, RefusedFull) a = (if length (qs_items a) = n \<or> qs_claims a \<noteq> Map.empty then Some a else None)"
| "spec_step n (i, Taken) a =
     (case qs_items a of
        [] \<Rightarrow> None
      | x # xs \<Rightarrow> if qs_claims a i = None then Some (a\<lparr>qs_items := xs, qs_claims := (qs_claims a)(i \<mapsto> x)\<rparr>) else None)"
| "spec_step n (i, Returned v) a = (if qs_claims a i = Some v then Some (a\<lparr>qs_claims := (qs_claims a)(i := None)\<rparr>) else None)"
| "spec_step n (i, RefusedEmpty) a = (if qs_items a = [] \<or> qs_writers a \<noteq> {} then Some a else None)"

fun spec_run :: "nat \<Rightarrow> (nat \<times> 'a ring_event) list \<Rightarrow> 'a queue_spec \<Rightarrow> 'a queue_spec option" where
  "spec_run n [] a = Some a"
| "spec_run n (e # es) a = (case spec_step n e a of None \<Rightarrow> None | Some b \<Rightarrow> spec_run n es b)"

lemma spec_run_append:
  "spec_run n (es @ fs) a = (case spec_run n es a of None \<Rightarrow> None | Some b \<Rightarrow> spec_run n fs b)"
  by (induction es arbitrary: a) (auto split: option.splits)

definition empty_queue :: "'a queue_spec" where
  "empty_queue = \<lparr>qs_items = [], qs_writers = {}, qs_claims = Map.empty\<rparr>"

subsection \<open>One thread alone\<close>

fun solo :: "nat \<Rightarrow> 'a RingBuffer \<Rightarrow> 'a pc \<Rightarrow> 'a RingBuffer \<times> 'a pc \<times> 'a ring_event list" where
  "solo 0 r pc = (r, pc, [])"
| "solo (Suc m) r pc =
     (if at_rest pc then (r, pc, [])
      else case thread_step r pc of (r', pc', ev) \<Rightarrow>
        case solo m r' pc' of (r'', pc'', evs) \<Rightarrow> (r'', pc'', (case ev of None \<Rightarrow> evs | Some e \<Rightarrow> e # evs)))"

subsection \<open>Calls on a ring at rest\<close>

definition TryPush :: "'a \<Rightarrow> 'a RingBuffer \<Rightarrow> bool \<times> 'a RingBuffer" where
  "TryPush x r = (case solo 5 r (PushLoad x) of (r', pc, _) \<Rightarrow> (pc = PushDone True, r'))"

definition TryPop :: "'a RingBuffer \<Rightarrow> 'a option \<times> 'a RingBuffer" where
  "TryPop r = (case solo 5 r PopLoad of (r', pc, _) \<Rightarrow> (case pc of PopDone v \<Rightarrow> v | _ \<Rightarrow> None, r'))"

fun PushBatch :: "'a list \<Rightarrow> 'a RingBuffer \<Rightarrow> nat \<times> 'a RingBuffer" where
  "PushBatch [] r = (0, r)"
| "PushBatch (x # xs) r =
     (case TryPush x r of
        (False, r') \<Rightarrow> (0, r')
      | (True, r') \<Rightarrow> (case PushBatch xs r' of (m, r'') \<Rightarrow> (Suc m, r'')))"

text \<open>\<open>PopBatch\<close> fills a slice of \<open>m\<close> places; its result is the part that it filled.\<close>

fun PopBatch :: "nat \<Rightarrow> 'a RingBuffer \<Rightarrow> 'a list \<times> 'a RingBuffer" where
  "PopBatch 0 r = ([], r)"
| "PopBatch (Suc m) r =
     (case TryPop r of
        (None, r') \<Rightarrow> ([], r')
      | (Some v, r') \<Rightarrow> (case PopBatch m r' of (vs, r'') \<Rightarrow> (v # vs, r'')))"

text \<open>The snapshots load \<open>head\<close> and then \<open>tail\<close>; their arguments are what they have loaded.\<close>

definition ring_Len :: "64 word \<Rightarrow> 64 word \<Rightarrow> 32 word \<Rightarrow> nat" where
  "ring_Len head tail cap =
     (if head < tail then 0 else let n = head - tail in unat (if ucast cap < n then ucast cap else n))"

definition IsEmpty :: "64 word \<Rightarrow> 64 word \<Rightarrow> bool" where
  "IsEmpty head tail \<longleftrightarrow> head = tail"

definition IsFull :: "64 word \<Rightarrow> 64 word \<Rightarrow> 32 word \<Rightarrow> bool" where
  "IsFull head tail cap \<longleftrightarrow> tail \<le> head \<and> ucast cap \<le> head - tail"

end
