(* ===== verification/Ring_Refinement.thy ===== *)
theory Ring_Refinement
  imports Ring_Buffer
begin

text \<open>
  The ring refines its specification: the invariant of the slots (\<open>slots_ok\<close>), which holds the
  sequence numbers against the positions of the threads, the items between \<open>tail\<close> and \<open>head\<close>
  (\<open>items_ok\<close>), and the simulation of every step of a thread (\<open>ring_step_ok\<close>).
\<close>

subsection \<open>Positions\<close>

lemma window_inject:
  assumes "a \<le> (p::nat)" "p < a + n" "a \<le> q" "q < a + n" "p mod n = q mod n"
  shows "p = q"
proof -
  have close: "u = v" if "v \<le> u" "u < v + n" "u mod n = v mod n" for u v :: nat
  proof -
    have "n dvd u - v" using that mod_eq_dvd_iff_nat by blast
    moreover have "u - v < n" using that by linarith
    ultimately have "u - v = 0" using dvd_imp_le by fastforce
    with that show ?thesis by simp
  qed
  show ?thesis
  proof (cases "p \<le> q")
    case True
    have "q < p + n" using assms(1,4) by linarith
    with True assms(5) show ?thesis using close [of p q] by simp
  next
    case False
    have "p < q + n" using assms(2,3) by linarith
    with False assms(5) show ?thesis using close [of q p] by simp
  qed
qed

lemma unat_mask:
  assumes "k \<le> 63"
  shows "unat (pos AND (of_nat (2 ^ k - 1) :: 64 word)) = unat pos mod 2 ^ k"
proof -
  have "(of_nat (2 ^ k - 1) :: 64 word) = mask k" by (simp add: mask_eq_decr_exp of_nat_diff)
  then have "unat (pos AND of_nat (2 ^ k - 1)) = unat (take_bit k pos)" by (simp only: take_bit_eq_mask)
  also have "\<dots> = take_bit k (unat pos)" by (rule unsigned_take_bit_eq)
  finally show ?thesis by (simp only: take_bit_eq_mod)
qed

lemma unat_next: "unat (pos :: 64 word) < 2 ^ 63 \<Longrightarrow> unat (pos + 1) = unat pos + 1"
  by (simp add: unat_word_ariths)

lemma sint_below:
  assumes "unat (a :: 64 word) < 2 ^ 63" "unat b < 2 ^ 63"
  shows "sint (a - b) < 0 \<longleftrightarrow> unat a < unat b"
proof -
  let ?k = "int (unat a) - int (unat b)"
  have "a - b = word_of_int ?k" by simp
  then have "sint (a - b) = signed_take_bit 63 ?k" by (simp only: sint_sbintrunc') simp
  also have "\<dots> = ?k"
  proof (rule signed_take_bit_int_eq_self)
    have "int (unat a) < int (2 ^ 63)" "int (unat b) < int (2 ^ 63)" using assms by (simp_all only: of_nat_less_iff)
    then show "- (2 ^ 63) \<le> ?k" "?k < 2 ^ 63"
      using of_nat_0_le_iff [of "unat a", where 'a = int] of_nat_0_le_iff [of "unat b", where 'a = int]
      by (simp_all only: of_nat_power of_nat_numeral)
  qed
  finally show ?thesis by (simp only: diff_less_0_iff_less of_nat_less_iff)
qed

lemma window_position:
  assumes "p < (T::nat)" "0 < n"
  obtains q where "T \<le> q" "q < T + n" "q mod n = p mod n" "p + n \<le> q"
proof -
  let ?q = "T + (p + n * T - T) mod n"
  have pos: "T \<le> p + n * T" using assms(2) by (simp add: trans_le_add2)
  have mod: "?q mod n = p mod n" using pos by (simp add: mod_add_right_eq)
  then have "n dvd ?q - p" using assms(1) mod_eq_dvd_iff_nat [of p ?q n] by simp
  then have "n \<le> ?q - p" using assms(1) by (intro dvd_imp_le) auto
  then have "p + n \<le> ?q" using assms(1) by linarith
  moreover have "?q < T + n" using assms(2) by simp
  ultimately show ?thesis using that [of ?q] mod by simp
qed

subsection \<open>Slots\<close>

text \<open>
  \<open>slots_ok n H T S w r\<close> for \<open>n\<close> slots with the sequence numbers \<open>S\<close>, \<open>head\<close> at \<open>H\<close> and \<open>tail\<close>
  at \<open>T\<close>, where thread \<open>i\<close> is writing the slot of position \<open>w i\<close> and reading that of \<open>r i\<close>. Every slot is
  the slot of exactly one position from \<open>T\<close> to \<open>T + n\<close>.
\<close>

definition slots_ok ::
    "nat \<Rightarrow> nat \<Rightarrow> nat \<Rightarrow> (nat \<Rightarrow> nat) \<Rightarrow> (nat \<Rightarrow> nat option) \<Rightarrow> (nat \<Rightarrow> nat option) \<Rightarrow> bool" where
  "slots_ok n H T S w r \<longleftrightarrow> 2 \<le> n \<and> T \<le> H \<and> H \<le> T + n \<and>
     (\<forall>p. T \<le> p \<longrightarrow> p < H \<longrightarrow> S (p mod n) = (if Some p \<in> range w then p else p + 1)) \<and>
     (\<forall>q. H \<le> q \<longrightarrow> q < T + n \<longrightarrow> S (q mod n) = (if n \<le> q \<and> Some (q - n) \<in> range r then q - n + 1 else q)) \<and>
     (\<forall>i p. w i = Some p \<longrightarrow> T \<le> p \<and> p < H) \<and> (\<forall>i p. r i = Some p \<longrightarrow> p < T \<and> H \<le> p + n) \<and>
     (\<forall>i j p. w i = Some p \<longrightarrow> w j = Some p \<longrightarrow> i = j) \<and> (\<forall>i j p. r i = Some p \<longrightarrow> r j = Some p \<longrightarrow> i = j)"

lemma slots_okI:
  assumes "2 \<le> n" "T \<le> H" "H \<le> T + n"
    and "\<And>p. T \<le> p \<Longrightarrow> p < H \<Longrightarrow> S (p mod n) = (if Some p \<in> range w then p else p + 1)"
    and "\<And>q. H \<le> q \<Longrightarrow> q < T + n \<Longrightarrow> S (q mod n) = (if n \<le> q \<and> Some (q - n) \<in> range r then q - n + 1 else q)"
    and "\<And>i p. w i = Some p \<Longrightarrow> T \<le> p \<and> p < H" and "\<And>i p. r i = Some p \<Longrightarrow> p < T \<and> H \<le> p + n"
    and "\<And>i j p. w i = Some p \<Longrightarrow> w j = Some p \<Longrightarrow> i = j" and "\<And>i j p. r i = Some p \<Longrightarrow> r j = Some p \<Longrightarrow> i = j"
  shows "slots_ok n H T S w r"
  unfolding slots_ok_def by (intro conjI allI impI; meson assms)

lemma slots_okD:
  assumes "slots_ok n H T S w r"
  shows "2 \<le> n" "T \<le> H" "H \<le> T + n"
    and "T \<le> p \<Longrightarrow> p < H \<Longrightarrow> S (p mod n) = (if Some p \<in> range w then p else p + 1)"
    and "H \<le> q \<Longrightarrow> q < T + n \<Longrightarrow> S (q mod n) = (if n \<le> q \<and> Some (q - n) \<in> range r then q - n + 1 else q)"
    and "w i = Some p \<Longrightarrow> T \<le> p" "w i = Some p \<Longrightarrow> p < H" and "r i = Some p \<Longrightarrow> p < T" "r i = Some p \<Longrightarrow> H \<le> p + n"
    and "w i = Some p \<Longrightarrow> w j = Some p \<Longrightarrow> i = j" and "r i = Some p \<Longrightarrow> r j = Some p \<Longrightarrow> i = j"
  using assms unfolding slots_ok_def by blast+

lemma slots_full:
  assumes "slots_ok n H T S w r" "S (H mod n) \<noteq> H"
  shows "H = T + n \<or> (\<exists>i. r i \<noteq> None)"
proof (cases "H < T + n")
  case True
  then have "n \<le> H \<and> Some (H - n) \<in> range r" using assms unfolding slots_ok_def by (metis order_refl)
  then obtain i where "r i = Some (H - n)" by (metis imageE)
  then show ?thesis by auto
next
  case False
  then show ?thesis using assms(1) unfolding slots_ok_def by linarith
qed

lemma slots_room:
  assumes ok: "slots_ok n H T S w r" and s: "S (H mod n) = H"
  shows "H < T + n" "n \<le> H \<Longrightarrow> Some (H - n) \<notin> range r"
proof -
  have n: "2 \<le> n" and le: "T \<le> H" "H \<le> T + n" using ok by (simp_all add: slots_ok_def)
  show room: "H < T + n"
  proof (rule ccontr)
    assume "\<not> H < T + n"
    then have H: "H = T + n" using le by simp
    then have "S (T mod n) = (if Some T \<in> range w then T else T + 1)" using ok n unfolding slots_ok_def by simp
    with s H n show False by (simp split: if_split_asm)
  qed
  have "S (H mod n) = (if n \<le> H \<and> Some (H - n) \<in> range r then H - n + 1 else H)"
    using ok room unfolding slots_ok_def by blast
  with s n show "n \<le> H \<Longrightarrow> Some (H - n) \<notin> range r" by (auto split: if_split_asm)
qed

lemma slots_item:
  assumes ok: "slots_ok n H T S w r" and s: "S (T mod n) = T + 1"
  shows "T < H" "Some T \<notin> range w"
proof -
  have n: "2 \<le> n" and le: "T \<le> H" using ok by (simp_all add: slots_ok_def)
  show item: "T < H"
  proof (rule ccontr)
    assume "\<not> T < H"
    then have H: "H = T" using le by simp
    then have "S (T mod n) = (if n \<le> T \<and> Some (T - n) \<in> range r then T - n + 1 else T)"
      using ok n unfolding slots_ok_def by simp
    with s n show False by (simp split: if_split_asm)
  qed
  have "S (T mod n) = (if Some T \<in> range w then T else T + 1)" using ok item unfolding slots_ok_def by blast
  with s show "Some T \<notin> range w" by (simp split: if_split_asm)
qed

lemma slots_empty:
  assumes "slots_ok n H T S w r" "S (T mod n) \<noteq> T + 1"
  shows "T = H \<or> (\<exists>i. w i \<noteq> None)"
proof (cases "T < H")
  case True
  then have "Some T \<in> range w" using assms unfolding slots_ok_def by (metis order_refl)
  then obtain i where "w i = Some T" by (metis imageE)
  then show ?thesis by auto
next
  case False
  then show ?thesis using assms(1) unfolding slots_ok_def by linarith
qed

text \<open>A sequence number is never behind a position that has been passed.\<close>

lemma slots_passed:
  assumes ok: "slots_ok n H T S w r" and p: "p < T"
  shows "p + 1 \<le> S (p mod n)"
proof -
  have "0 < n" using ok by (simp add: slots_ok_def)
  then obtain q where q: "T \<le> q" "q < T + n" "q mod n = p mod n" "p + n \<le> q" by (rule window_position [OF p])
  show ?thesis
  proof (cases "q < H")
    case True
    then have "S (q mod n) = (if Some q \<in> range w then q else q + 1)" by (rule slots_okD(4) [OF ok q(1)])
    with q \<open>0 < n\<close> show ?thesis by simp
  next
    case False
    then have "S (q mod n) = (if n \<le> q \<and> Some (q - n) \<in> range r then q - n + 1 else q)"
      by (intro slots_okD(5) [OF ok _ q(2)]) simp
    moreover have "p + 1 \<le> q - n + 1" "p + 1 \<le> q" using q(4) \<open>0 < n\<close> by linarith+
    ultimately show ?thesis unfolding q(3) by presburger
  qed
qed

lemma slots_behind:
  assumes ok: "slots_ok n H T S w r" and p: "p < H"
  shows "p \<le> S (p mod n)"
proof (cases "p < T")
  case True
  then show ?thesis using slots_passed [OF ok] by fastforce
next
  case False
  then have "S (p mod n) = (if Some p \<in> range w then p else p + 1)" using ok p unfolding slots_ok_def by simp
  then show ?thesis by simp
qed

lemma slots_ahead:
  assumes ok: "slots_ok n H T S w r"
  shows "S (H mod n) \<le> H" "S (T mod n) \<le> T + 1"
proof -
  have n: "2 \<le> n" and le: "T \<le> H" "H \<le> T + n" using ok by (simp_all add: slots_ok_def)
  have T: "S (T mod n) = (if T < H then (if Some T \<in> range w then T else T + 1)
      else if n \<le> T \<and> Some (T - n) \<in> range r then T - n + 1 else T)"
    using ok n le unfolding slots_ok_def by auto
  then show "S (T mod n) \<le> T + 1" by simp
  show "S (H mod n) \<le> H"
  proof (cases "H < T + n")
    case True
    then have "S (H mod n) = (if n \<le> H \<and> Some (H - n) \<in> range r then H - n + 1 else H)"
      using ok unfolding slots_ok_def by blast
    moreover have "n \<le> H \<Longrightarrow> H - n + 1 \<le> H" using n by linarith
    ultimately show ?thesis by presburger
  next
    case False
    with le have "H = T + n" by simp
    with T n show ?thesis by simp
  qed
qed

text \<open>The four operations that matter to the slots.\<close>

lemma slots_claim_push:
  assumes ok: "slots_ok n H T S w r" and s: "S (H mod n) = H" and i: "w i = None"
  shows "slots_ok n (H + 1) T S (w(i := Some H)) r"
proof (rule slots_okI)
  note D = slots_okD [OF ok] and room = slots_room [OF ok s]
  have w: "Some p \<in> range (w(i := Some H)) \<longleftrightarrow> p = H \<or> Some p \<in> range w" for p
    using i by (auto simp: image_iff) (metis option.distinct(1))
  show "2 \<le> n" "T \<le> H + 1" "H + 1 \<le> T + n" using D(1,2) room(1) by simp_all
  show "S (p mod n) = (if Some p \<in> range (w(i := Some H)) then p else p + 1)" if "T \<le> p" "p < H + 1" for p
    using D(4) [OF that(1)] that(2) s unfolding w by (cases "p = H") simp_all
  show "S (q mod n) = (if n \<le> q \<and> Some (q - n) \<in> range r then q - n + 1 else q)" if "H + 1 \<le> q" "q < T + n" for q
    using D(5) [OF _ that(2)] that(1) by simp
  show "T \<le> p \<and> p < H + 1" if "(w(i := Some H)) j = Some p" for j p
    using that D(2) D(6,7) [of j p] by (cases "j = i") simp_all
  show "p < T \<and> H + 1 \<le> p + n" if "r j = Some p" for j p
  proof -
    have "H \<noteq> p + n" using that room(2) by (metis add_diff_cancel_right' le_add2 rangeI)
    with D(8,9) [OF that] show ?thesis by simp
  qed
  show "j = k" if "(w(i := Some H)) j = Some p" "(w(i := Some H)) k = Some p" for j k p
    using that D(10) [of j p k] D(7) [of j p] D(7) [of k p] by (cases "j = i"; cases "k = i") auto
  show "j = k" if "r j = Some p" "r k = Some p" for j k p using D(11) that by blast
qed

lemma range_dropped:
  assumes "f i = Some p" "\<And>j. f j = Some p \<Longrightarrow> j = i"
  shows "Some q \<in> range (f(i := None)) \<longleftrightarrow> q \<noteq> p \<and> Some q \<in> range f"
proof
  assume "Some q \<in> range (f(i := None))"
  then obtain j where "(f(i := None)) j = Some q" by (metis imageE)
  then have "j \<noteq> i" "f j = Some q" by (simp_all split: if_split_asm)
  then show "q \<noteq> p \<and> Some q \<in> range f" using assms(2) by (metis rangeI)
next
  assume q: "q \<noteq> p \<and> Some q \<in> range f"
  then obtain j where "f j = Some q" by (metis imageE)
  with q assms(1) have "(f(i := None)) j = Some q" by auto
  then show "Some q \<in> range (f(i := None))" by (metis rangeI)
qed

lemma slots_publish:
  assumes ok: "slots_ok n H T S w r" and i: "w i = Some p"
  shows "slots_ok n H T (S(p mod n := p + 1)) (w(i := None)) r"
proof (rule slots_okI)
  note D = slots_okD [OF ok]
  have w: "Some q \<in> range (w(i := None)) \<longleftrightarrow> q \<noteq> p \<and> Some q \<in> range w" for q
    by (rule range_dropped [where f = w, OF i]) (rule D(10) [OF _ i])
  have p: "T \<le> p" "p < H" "p < T + n" using D(6,7) [OF i] D(3) by simp_all
  have other: "q mod n = p mod n \<longleftrightarrow> q = p" if "T \<le> q" "q < T + n" for q
    using window_inject [of T q n p] that p by blast
  show "2 \<le> n" "T \<le> H" "H \<le> T + n" by (fact D)+
  show "(S(p mod n := p + 1)) (q mod n) = (if Some q \<in> range (w(i := None)) then q else q + 1)" if "T \<le> q" "q < H" for q
    using D(4) [OF that] other [OF that(1)] that(2) D(3) unfolding w by simp
  show "(S(p mod n := p + 1)) (q mod n) = (if n \<le> q \<and> Some (q - n) \<in> range r then q - n + 1 else q)"
    if "H \<le> q" "q < T + n" for q
    using D(5) [OF that] other [OF _ that(2)] that(1) D(2) p(2) by simp
  show "T \<le> q \<and> q < H" if "(w(i := None)) j = Some q" for j q
    using that D(6,7) [of j q] by (simp split: if_split_asm)
  show "q < T \<and> H \<le> q + n" if "r j = Some q" for j q using D(8,9) [OF that] by simp
  show "j = k" if "(w(i := None)) j = Some q" "(w(i := None)) k = Some q" for j k q
    using that D(10) [of j q k] by (simp split: if_split_asm)
  show "j = k" if "r j = Some q" "r k = Some q" for j k q using D(11) that by blast
qed

lemma slots_claim_pop:
  assumes ok: "slots_ok n H T S w r" and s: "S (T mod n) = T + 1" and i: "r i = None"
  shows "slots_ok n H (T + 1) S w (r(i := Some T))"
proof (rule slots_okI)
  note D = slots_okD [OF ok] and item = slots_item [OF ok s]
  have r: "Some p \<in> range (r(i := Some T)) \<longleftrightarrow> p = T \<or> Some p \<in> range r" for p
    using i by (auto simp: image_iff) (metis option.distinct(1))
  show "2 \<le> n" "T + 1 \<le> H" "H \<le> T + 1 + n" using D(1,3) item(1) by simp_all
  show "S (p mod n) = (if Some p \<in> range w then p else p + 1)" if "T + 1 \<le> p" "p < H" for p
    using D(4) [OF _ that(2)] that(1) by simp
  show "S (q mod n) = (if n \<le> q \<and> Some (q - n) \<in> range (r(i := Some T)) then q - n + 1 else q)"
    if "H \<le> q" "q < T + 1 + n" for q
  proof (cases "q = T + n")
    case True
    then show ?thesis using s unfolding r by simp
  next
    case False
    then have "q < T + n" using that(2) by simp
    with D(5) [OF that(1) this] show ?thesis unfolding r by auto
  qed
  show "T + 1 \<le> p \<and> p < H" if "w j = Some p" for j p
  proof -
    have "p \<noteq> T" using item(2) that by (metis rangeI)
    with D(6,7) [OF that] show ?thesis by simp
  qed
  show "p < T + 1 \<and> H \<le> p + n" if "(r(i := Some T)) j = Some p" for j p
    using that D(3) D(8,9) [of j p] by (cases "j = i") auto
  show "j = k" if "w j = Some p" "w k = Some p" for j k p using D(10) that by blast
  show "j = k" if "(r(i := Some T)) j = Some p" "(r(i := Some T)) k = Some p" for j k p
    using that D(11) [of j p k] D(8) [of j p] D(8) [of k p] by (cases "j = i"; cases "k = i") auto
qed

lemma slots_release:
  assumes ok: "slots_ok n H T S w r" and i: "r i = Some p"
  shows "slots_ok n H T (S(p mod n := p + n)) w (r(i := None))"
proof (rule slots_okI)
  note D = slots_okD [OF ok]
  have r: "Some q \<in> range (r(i := None)) \<longleftrightarrow> q \<noteq> p \<and> Some q \<in> range r" for q
    by (rule range_dropped [where f = r, OF i]) (rule D(11) [OF _ i])
  have p: "p < T" "H \<le> p + n" "p + n < T + n" using D(8,9) [OF i] by simp_all
  have other: "q mod n = p mod n \<longleftrightarrow> q = p + n" if "T \<le> q" "q < T + n" for q
    using window_inject [of T q n "p + n"] that p D(2) by auto
  show "2 \<le> n" "T \<le> H" "H \<le> T + n" by (fact D)+
  show "(S(p mod n := p + n)) (q mod n) = (if Some q \<in> range w then q else q + 1)" if "T \<le> q" "q < H" for q
    using D(4) [OF that] other [OF that(1)] that(2) D(3) p(2) by simp
  show "(S(p mod n := p + n)) (q mod n) = (if n \<le> q \<and> Some (q - n) \<in> range (r(i := None)) then q - n + 1 else q)"
    if "H \<le> q" "q < T + n" for q
    using D(5) [OF that] other [OF _ that(2)] that(1) D(2) unfolding r by auto
  show "T \<le> q \<and> q < H" if "w j = Some q" for j q using D(6,7) [OF that] by simp
  show "q < T \<and> H \<le> q + n" if "(r(i := None)) j = Some q" for j q
    using that D(8,9) [of j q] by (simp split: if_split_asm)
  show "j = k" if "w j = Some q" "w k = Some q" for j k q using D(10) that by blast
  show "j = k" if "(r(i := None)) j = Some q" "(r(i := None)) k = Some q" for j k q
    using that D(11) [of j q k] by (simp split: if_split_asm)
qed

lemma slots_bound:
  assumes ok: "slots_ok n H T S w r" and p: "p \<le> H"
  shows "S (p mod n) \<le> H + n"
proof -
  note D = slots_okD [OF ok]
  consider "p < T" | "T \<le> p" "p < H" | "p = H" using p by linarith
  then show ?thesis
  proof cases
    case 1
    have "0 < n" using D(1) by simp
    then obtain q where q: "T \<le> q" "q < T + n" "q mod n = p mod n" by (rule window_position [OF 1])
    show ?thesis
    proof (cases "q < H")
      case True
      with D(4) [OF q(1) True] q D(1) show ?thesis by (simp split: if_split_asm)
    next
      case False
      have "S (q mod n) = (if n \<le> q \<and> Some (q - n) \<in> range r then q - n + 1 else q)"
        using D(5) [OF _ q(2)] False by simp
      moreover have "q - n + 1 \<le> H + n" "q \<le> H + n" using q(2) D(1,2) by linarith+
      ultimately show ?thesis unfolding q(3) by presburger
    qed
  next
    case 2
    with D(4) [OF 2] D(1) show ?thesis by (simp split: if_split_asm)
  next
    case 3
    with slots_ahead(1) [OF ok] show ?thesis by simp
  qed
qed

text \<open>The items from \<open>tail\<close> to \<open>head\<close>; \<open>f i\<close> is the item that thread \<open>i\<close> is about to store, with its position.\<close>

definition items_ok :: "nat \<Rightarrow> nat \<Rightarrow> nat \<Rightarrow> (nat \<Rightarrow> 'a) \<Rightarrow> (nat \<Rightarrow> (nat \<times> 'a) option) \<Rightarrow> 'a list \<Rightarrow> bool" where
  "items_ok n H T V f xs \<longleftrightarrow> length xs = H - T \<and>
     (\<forall>p. T \<le> p \<longrightarrow> p < H \<longrightarrow> (\<forall>i x. f i \<noteq> Some (p, x)) \<longrightarrow> xs ! (p - T) = V (p mod n)) \<and>
     (\<forall>i p x. f i = Some (p, x) \<longrightarrow> T \<le> p \<and> p < H \<and> xs ! (p - T) = x)"

lemma items_push:
  assumes "items_ok n H T V f xs" "T \<le> H" "f i = None"
  shows "items_ok n (H + 1) T V (f(i := Some (H, x))) (xs @ [x])"
proof -
  have len: "length xs = H - T" using assms(1) by (simp add: items_ok_def)
  have "(xs @ [x]) ! (p - T) = V (p mod n)" if "T \<le> p" "p < H + 1" "\<forall>j y. (f(i := Some (H, x))) j \<noteq> Some (p, y)" for p
  proof -
    have "p \<noteq> H" using that(3) by (metis fun_upd_same)
    with that(2) have "p < H" by simp
    moreover have "\<forall>j y. f j \<noteq> Some (p, y)" using that(3) assms(3) by (metis fun_upd_other option.distinct(1))
    ultimately have "xs ! (p - T) = V (p mod n)" using assms(1) that(1) unfolding items_ok_def by blast
    with \<open>p < H\<close> that(1) len show ?thesis by (simp add: nth_append diff_less_mono)
  qed
  moreover have "T \<le> p \<and> p < H + 1 \<and> (xs @ [x]) ! (p - T) = y" if "(f(i := Some (H, x))) j = Some (p, y)" for j p y
  proof (cases "j = i")
    case True
    then show ?thesis using that assms(2) len by (simp add: nth_append)
  next
    case False
    then have "T \<le> p \<and> p < H \<and> xs ! (p - T) = y" using that assms(1) unfolding items_ok_def by simp
    then show ?thesis using len by (simp add: nth_append diff_less_mono)
  qed
  ultimately show ?thesis using len assms(2) unfolding items_ok_def by simp
qed

lemma items_write:
  assumes ok: "items_ok n H T V f xs" and f: "f i = Some (p, x)" and one: "\<And>j y. f j = Some (p, y) \<Longrightarrow> j = i"
    and room: "H \<le> T + n"
  shows "items_ok n H T (V(p mod n := x)) (f(i := None)) xs"
proof -
  have p: "T \<le> p" "p < H" "xs ! (p - T) = x" using ok f unfolding items_ok_def by blast+
  have "xs ! (q - T) = (V(p mod n := x)) (q mod n)" if "T \<le> q" "q < H" "\<forall>j y. (f(i := None)) j \<noteq> Some (q, y)" for q
  proof (cases "q = p")
    case True
    then show ?thesis using p by simp
  next
    case False
    then have "q mod n \<noteq> p mod n" using window_inject [of T q n p] that p room by auto
    moreover have "\<forall>j y. f j \<noteq> Some (q, y)" using that(3) False f by (metis fun_upd_other option.inject prod.inject)
    ultimately show ?thesis using ok that unfolding items_ok_def by simp
  qed
  moreover have "T \<le> q \<and> q < H \<and> xs ! (q - T) = y" if "(f(i := None)) j = Some (q, y)" for j q y
    using that ok unfolding items_ok_def by (simp split: if_split_asm)
  ultimately show ?thesis using ok unfolding items_ok_def by simp
qed

lemma items_pop:
  assumes ok: "items_ok n H T V f xs" and "T < H" and free: "\<And>i x. f i \<noteq> Some (T, x)"
  obtains ys where "xs = V (T mod n) # ys" "items_ok n H (T + 1) V f ys"
proof -
  have "length xs = H - T" using ok by (simp add: items_ok_def)
  with assms(2) obtain y ys where xs: "xs = y # ys" by (cases xs) auto
  have "xs ! (T - T) = V (T mod n)" using ok assms(2) free unfolding items_ok_def by blast
  then have y: "y = V (T mod n)" by (simp add: xs)
  have "items_ok n H (T + 1) V f ys"
    unfolding items_ok_def
  proof (intro conjI allI impI)
    show "length ys = H - (T + 1)" using \<open>length xs = H - T\<close> by (simp add: xs)
    fix p
    assume "T + 1 \<le> p" "p < H" "\<forall>i x. f i \<noteq> Some (p, x)"
    then have "xs ! (p - T) = V (p mod n)" using ok unfolding items_ok_def by simp
    with \<open>T + 1 \<le> p\<close> show "ys ! (p - (T + 1)) = V (p mod n)" by (simp add: xs nth_Cons')
  next
    fix i p x
    assume f: "f i = Some (p, x)"
    then have *: "T \<le> p" "p < H" "xs ! (p - T) = x" using ok unfolding items_ok_def by blast+
    moreover have "p \<noteq> T" using f free by blast
    ultimately show "T + 1 \<le> p" "p < H" "ys ! (p - (T + 1)) = x" by (simp_all add: xs nth_Cons')
  qed
  with xs y show ?thesis using that by blast
qed

subsection \<open>The system\<close>

fun writing :: "'a pc \<Rightarrow> nat option" where
  "writing (PushWrite x pos) = Some (unat pos)"
| "writing (PushPublish pos) = Some (unat pos)"
| "writing _ = None"

fun storing :: "'a pc \<Rightarrow> (nat \<times> 'a) option" where
  "storing (PushWrite x pos) = Some (unat pos, x)"
| "storing _ = None"

fun reading :: "'a pc \<Rightarrow> nat option" where
  "reading (PopRead pos) = Some (unat pos)"
| "reading (PopRelease pos v) = Some (unat pos)"
| "reading _ = None"

fun claim :: "nat \<Rightarrow> (nat \<Rightarrow> 'a) \<Rightarrow> 'a pc \<Rightarrow> 'a option" where
  "claim n V (PopRead pos) = Some (V (unat pos mod n))"
| "claim n V (PopRelease pos v) = Some v"
| "claim n V _ = None"

fun pc_ok :: "nat \<Rightarrow> nat \<Rightarrow> nat \<Rightarrow> (nat \<Rightarrow> nat) \<Rightarrow> 'a pc \<Rightarrow> bool" where
  "pc_ok n H T S (PushSeq x pos) \<longleftrightarrow> unat pos \<le> H"
| "pc_ok n H T S (PushCas x pos) \<longleftrightarrow> unat pos \<le> H \<and> (unat pos = H \<longrightarrow> S (H mod n) = H)"
| "pc_ok n H T S (PopSeq pos) \<longleftrightarrow> unat pos \<le> T"
| "pc_ok n H T S (PopCas pos) \<longleftrightarrow> unat pos \<le> T \<and> (unat pos = T \<longrightarrow> S (T mod n) = T + 1)"
| "pc_ok n H T S _ \<longleftrightarrow> True"

definition ring_shape :: "nat \<Rightarrow> 'a RingBuffer \<Rightarrow> bool" where
  "ring_shape k r \<longleftrightarrow> 1 \<le> k \<and> k \<le> 31 \<and> length (rb_cells r) = 2 ^ k \<and> rb_mask r = of_nat (2 ^ k - 1) \<and> rb_cap r = of_nat (2 ^ k)"

definition seqs :: "'a RingBuffer \<Rightarrow> nat \<Rightarrow> nat" where
  "seqs r j = unat (rc_seq (rb_cells r ! j))"

definition vals :: "'a RingBuffer \<Rightarrow> nat \<Rightarrow> 'a" where
  "vals r j = rc_val (rb_cells r ! j)"

abbreviation hd_pos :: "'a RingBuffer \<Rightarrow> nat" where "hd_pos r \<equiv> unat (rb_head r)"
abbreviation tl_pos :: "'a RingBuffer \<Rightarrow> nat" where "tl_pos r \<equiv> unat (rb_tail r)"

definition system_ok :: "nat \<Rightarrow> 'a ring_system \<Rightarrow> bool" where
  "system_ok k s \<longleftrightarrow> (let r = rs_ring s in
     ring_shape k r \<and> slots_ok (2 ^ k) (hd_pos r) (tl_pos r) (seqs r) (writing \<circ> rs_threads s) (reading \<circ> rs_threads s) \<and>
     (\<forall>i. pc_ok (2 ^ k) (hd_pos r) (tl_pos r) (seqs r) (rs_threads s i)))"

definition represents :: "nat \<Rightarrow> 'a ring_system \<Rightarrow> 'a queue_spec \<Rightarrow> bool" where
  "represents k s a \<longleftrightarrow> (let r = rs_ring s in
     items_ok (2 ^ k) (hd_pos r) (tl_pos r) (vals r) (storing \<circ> rs_threads s) (qs_items a) \<and>
     qs_writers a = {i. writing (rs_threads s i) \<noteq> None} \<and>
     qs_claims a = (\<lambda>i. claim (2 ^ k) (vals r) (rs_threads s i)))"

lemma ring_access:
  assumes "ring_shape k r"
  shows "slot r pos = unat pos mod 2 ^ k" "unat (load_seq r pos) = seqs r (unat pos mod 2 ^ k)"
    "load_val r pos = vals r (unat pos mod 2 ^ k)"
proof -
  show slot: "slot r pos = unat pos mod 2 ^ k" using assms unat_mask [of k pos] by (simp add: slot_def ring_shape_def)
  show "unat (load_seq r pos) = seqs r (unat pos mod 2 ^ k)" "load_val r pos = vals r (unat pos mod 2 ^ k)"
    by (simp_all add: load_seq_def load_val_def seqs_def vals_def slot)
qed

lemma ring_capacity:
  assumes "ring_shape k r"
  shows "unat (ucast (rb_cap r) :: 64 word) = 2 ^ k" "(2::nat) ^ k < 2 ^ 32"
proof -
  have k: "k \<le> 31" and cap: "rb_cap r = of_nat (2 ^ k)" using assms by (simp_all add: ring_shape_def)
  have "(2::nat) ^ k \<le> 2 ^ 31" using k by (intro power_increasing) simp_all
  then show small: "(2::nat) ^ k < 2 ^ 32" by simp
  then have "unat (rb_cap r) = 2 ^ k" by (subst cap, subst unat_of_nat) simp
  then show "unat (ucast (rb_cap r) :: 64 word) = 2 ^ k"
    using k by (simp add: unsigned_ucast_eq unsigned_take_bit_eq take_bit_nat_eq_self)
qed

lemma ring_store:
  assumes "ring_shape k r"
  shows "seqs (store_seq pos v r) = (seqs r)(unat pos mod 2 ^ k := unat v)" "vals (store_seq pos v r) = vals r"
    "seqs (store_val pos x r) = seqs r" "vals (store_val pos x r) = (vals r)(unat pos mod 2 ^ k := x)"
    "ring_shape k (store_seq pos v r)" "ring_shape k (store_val pos x r)"
    "rb_head (store_seq pos v r) = rb_head r" "rb_tail (store_seq pos v r) = rb_tail r"
    "rb_head (store_val pos x r) = rb_head r" "rb_tail (store_val pos x r) = rb_tail r"
proof -
  have "unat pos mod 2 ^ k < length (rb_cells r)" using assms by (simp add: ring_shape_def)
  then show "seqs (store_seq pos v r) = (seqs r)(unat pos mod 2 ^ k := unat v)" "vals (store_seq pos v r) = vals r"
    "seqs (store_val pos x r) = seqs r" "vals (store_val pos x r) = (vals r)(unat pos mod 2 ^ k := x)"
    by (auto simp: fun_eq_iff seqs_def vals_def store_seq_def store_val_def ring_access(1) [OF assms] nth_list_update)
qed (use assms in \<open>simp_all add: ring_shape_def store_seq_def store_val_def\<close>)

lemma ring_claim [simp]:
  "seqs (r\<lparr>rb_head := h\<rparr>) = seqs r" "vals (r\<lparr>rb_head := h\<rparr>) = vals r" "ring_shape k (r\<lparr>rb_head := h\<rparr>) = ring_shape k r"
  "seqs (r\<lparr>rb_tail := h\<rparr>) = seqs r" "vals (r\<lparr>rb_tail := h\<rparr>) = vals r" "ring_shape k (r\<lparr>rb_tail := h\<rparr>) = ring_shape k r"
  by (simp_all add: seqs_def vals_def ring_shape_def fun_eq_iff)

lemma comp_upd: "g \<circ> h(i := x) = (g \<circ> h)(i := g x)"
  by auto

lemma same_upd: "g (h i) = g x \<Longrightarrow> g \<circ> h(i := x) = g \<circ> h"
  by auto

text \<open>A step that only moves a thread on.\<close>

lemma quiet_step:
  assumes "system_ok k s" "represents k s a"
    and "writing pc = writing (rs_threads s i)" "reading pc = reading (rs_threads s i)" "storing pc = storing (rs_threads s i)"
      "claim (2 ^ k) (vals (rs_ring s)) pc = claim (2 ^ k) (vals (rs_ring s)) (rs_threads s i)"
    and "pc_ok (2 ^ k) (hd_pos (rs_ring s)) (tl_pos (rs_ring s)) (seqs (rs_ring s)) pc"
    and s': "s' = s\<lparr>rs_threads := (rs_threads s)(i := pc)\<rparr>"
  shows "system_ok k s' \<and> represents k s' a"
proof -
  let ?ths = "(rs_threads s)(i := pc)"
  have "writing \<circ> ?ths = writing \<circ> rs_threads s" "reading \<circ> ?ths = reading \<circ> rs_threads s"
    "storing \<circ> ?ths = storing \<circ> rs_threads s"
    using assms(3-5) by (intro same_upd; simp)+
  moreover have "writing (?ths j) = writing (rs_threads s j)" for j using assms(3) by simp
  moreover have "claim (2 ^ k) (vals (rs_ring s)) (?ths j) = claim (2 ^ k) (vals (rs_ring s)) (rs_threads s j)" for j
    using assms(6) by simp
  ultimately show ?thesis
    using assms(1,2,7) unfolding s' system_ok_def represents_def Let_def by simp
qed

definition step_ok :: "nat \<Rightarrow> nat \<Rightarrow> 'a queue_spec \<Rightarrow> 'a ring_system \<Rightarrow> 'a ring_event option \<Rightarrow> bool" where
  "step_ok k i a s' ev \<longleftrightarrow> system_ok k s' \<and>
     (case ev of None \<Rightarrow> represents k s' a
      | Some e \<Rightarrow> (\<exists>b. spec_step (2 ^ k) (i, e) a = Some b \<and> represents k s' b))"

lemmas system_parts = system_ok_def Let_def

lemma system_pc:
  "system_ok k s \<Longrightarrow> pc_ok (2 ^ k) (hd_pos (rs_ring s)) (tl_pos (rs_ring s)) (seqs (rs_ring s)) (rs_threads s i)"
  unfolding system_parts by blast

lemma seq_bound:
  assumes "system_ok k s" "unat pos \<le> hd_pos (rs_ring s)" "hd_pos (rs_ring s) < 2 ^ 62"
  shows "unat (load_seq (rs_ring s) pos) < 2 ^ 63"
proof -
  have shape: "ring_shape k (rs_ring s)" and k: "k \<le> 31" using assms(1) by (simp_all add: system_parts ring_shape_def)
  have "seqs (rs_ring s) (unat pos mod 2 ^ k) \<le> hd_pos (rs_ring s) + 2 ^ k"
    using assms(1,2) slots_bound unfolding system_parts by blast
  moreover have "(2::nat) ^ k \<le> 2 ^ 31" using k by (intro power_increasing) simp_all
  ultimately show ?thesis using assms(3) unfolding ring_access(2) [OF shape] by simp
qed

lemma step_push_seq:
  assumes ok: "system_ok k s" and a: "represents k s a" and h: "hd_pos (rs_ring s) < 2 ^ 62"
    and pc: "rs_threads s i = PushSeq x pos" and st: "push_step (rs_ring s) (PushSeq x pos) = (r', pc', ev)"
  shows "step_ok k i a \<lparr>rs_ring = r', rs_threads = (rs_threads s)(i := pc')\<rparr> ev"
proof -
  let ?r = "rs_ring s" and ?s' = "\<lambda>pc'. \<lparr>rs_ring = rs_ring s, rs_threads = (rs_threads s)(i := pc')\<rparr>"
  have shape: "ring_shape k ?r" and slots: "slots_ok (2 ^ k) (hd_pos ?r) (tl_pos ?r) (seqs ?r)
      (writing \<circ> rs_threads s) (reading \<circ> rs_threads s)"
    using ok by (simp_all add: system_parts)
  have pos: "unat pos \<le> hd_pos ?r" using system_pc [OF ok, of i] pc by simp
  have quiet: "system_ok k (?s' pc) \<and> represents k (?s' pc) a"
    if "pc \<in> {PushCas x pos, PushDone False, PushLoad x}" "pc_ok (2 ^ k) (hd_pos ?r) (tl_pos ?r) (seqs ?r) pc" for pc
    by (rule quiet_step [where i = i, OF ok a _ _ _ _ that(2)]) (use that(1) pc in auto)
  consider (cas) "load_seq ?r pos = pos" "r' = ?r" "pc' = PushCas x pos" "ev = None"
    | (full) "sint (load_seq ?r pos - pos) < 0" "r' = ?r" "pc' = PushDone False" "ev = Some RefusedFull"
    | (again) "r' = ?r" "pc' = PushLoad x" "ev = None"
    using st by (auto simp: Let_def split: if_split_asm)
  then show ?thesis
  proof cases
    case cas
    have "pc_ok (2 ^ k) (hd_pos ?r) (tl_pos ?r) (seqs ?r) (PushCas x pos)"
      using pos cas(1) ring_access(2) [OF shape, of pos] by auto
    with quiet cas show ?thesis unfolding step_ok_def by simp
  next
    case full
    then have less: "seqs ?r (unat pos mod 2 ^ k) < unat pos"
      using sint_below [OF seq_bound [OF ok pos h]] pos h ring_access(2) [OF shape, of pos] by simp
    have "unat pos = hd_pos ?r"
    proof (rule ccontr)
      assume "unat pos \<noteq> hd_pos ?r"
      with pos slots_behind [OF slots, of "unat pos"] less show False by simp
    qed
    with less slots_full [OF slots] have "hd_pos ?r = tl_pos ?r + 2 ^ k \<or> (\<exists>j. reading (rs_threads s j) \<noteq> None)" by simp
    then have "length (qs_items a) = 2 ^ k \<or> qs_claims a \<noteq> Map.empty"
    proof
      assume "hd_pos ?r = tl_pos ?r + 2 ^ k"
      then show ?thesis using a by (simp add: represents_def items_ok_def Let_def)
    next
      assume "\<exists>j. reading (rs_threads s j) \<noteq> None"
      then obtain j where "reading (rs_threads s j) \<noteq> None" by blast
      then have "qs_claims a j \<noteq> None"
        using a by (cases "rs_threads s j") (simp_all add: represents_def Let_def)
      then show ?thesis by auto
    qed
    with quiet full show ?thesis unfolding step_ok_def by simp
  next
    case again
    with quiet show ?thesis unfolding step_ok_def by simp
  qed
qed

lemma step_pop_seq:
  assumes ok: "system_ok k s" and a: "represents k s a" and h: "hd_pos (rs_ring s) < 2 ^ 62"
    and pc: "rs_threads s i = PopSeq pos" and st: "pop_step (rs_ring s) (PopSeq pos) = (r', pc', ev)"
  shows "step_ok k i a \<lparr>rs_ring = r', rs_threads = (rs_threads s)(i := pc')\<rparr> ev"
proof -
  let ?r = "rs_ring s" and ?s' = "\<lambda>pc'. \<lparr>rs_ring = rs_ring s, rs_threads = (rs_threads s)(i := pc')\<rparr>"
  have shape: "ring_shape k ?r" and slots: "slots_ok (2 ^ k) (hd_pos ?r) (tl_pos ?r) (seqs ?r)
      (writing \<circ> rs_threads s) (reading \<circ> rs_threads s)"
    using ok by (simp_all add: system_parts)
  have pos: "unat pos \<le> tl_pos ?r" using system_pc [OF ok, of i] pc by simp
  then have posh: "unat pos \<le> hd_pos ?r" using slots_okD(2) [OF slots] by simp
  have suc: "unat (pos + 1) = unat pos + 1" using posh h by (intro unat_next) simp
  have quiet: "system_ok k (?s' pc) \<and> represents k (?s' pc) a"
    if "pc \<in> {PopCas pos, PopDone None, PopLoad}" "pc_ok (2 ^ k) (hd_pos ?r) (tl_pos ?r) (seqs ?r) pc" for pc
    by (rule quiet_step [where i = i, OF ok a _ _ _ _ that(2)]) (use that(1) pc in auto)
  consider (cas) "load_seq ?r pos = pos + 1" "r' = ?r" "pc' = PopCas pos" "ev = None"
    | (empty) "sint (load_seq ?r pos - (pos + 1)) < 0" "r' = ?r" "pc' = PopDone None" "ev = Some RefusedEmpty"
    | (again) "r' = ?r" "pc' = PopLoad" "ev = None"
    using st by (auto simp: Let_def split: if_split_asm)
  then show ?thesis
  proof cases
    case cas
    have "pc_ok (2 ^ k) (hd_pos ?r) (tl_pos ?r) (seqs ?r) (PopCas pos)"
      using pos cas(1) ring_access(2) [OF shape, of pos] suc by auto
    with quiet cas show ?thesis unfolding step_ok_def by simp
  next
    case empty
    then have less: "seqs ?r (unat pos mod 2 ^ k) < unat pos + 1"
      using sint_below [OF seq_bound [OF ok posh h], of "pos + 1"] posh h ring_access(2) [OF shape, of pos] suc by simp
    have "unat pos = tl_pos ?r"
    proof (rule ccontr)
      assume "unat pos \<noteq> tl_pos ?r"
      with pos slots_passed [OF slots, of "unat pos"] less show False by simp
    qed
    with less slots_empty [OF slots] have "tl_pos ?r = hd_pos ?r \<or> (\<exists>j. writing (rs_threads s j) \<noteq> None)" by auto
    then have "qs_items a = [] \<or> qs_writers a \<noteq> {}"
    proof
      assume "tl_pos ?r = hd_pos ?r"
      then show ?thesis using a by (simp add: represents_def items_ok_def Let_def)
    qed (use a in \<open>auto simp: represents_def Let_def\<close>)
    with quiet empty show ?thesis unfolding step_ok_def by simp
  next
    case again
    with quiet show ?thesis unfolding step_ok_def by simp
  qed
qed

text \<open>A step that changes the slots.\<close>

lemma pcs_elsewhere:
  assumes "\<And>j. pc_ok n H T S (ths j)" "pc_ok n H' T' S' pc"
    and "\<And>j. j \<noteq> i \<Longrightarrow> pc_ok n H T S (ths j) \<Longrightarrow> pc_ok n H' T' S' (ths j)"
  shows "pc_ok n H' T' S' ((ths(i := pc)) j)"
  using assms by (cases "j = i") simp_all

lemma claims_elsewhere:
  assumes "c = (\<lambda>j. claim n V (ths j))" "\<And>j. j \<noteq> i \<Longrightarrow> claim n V' (ths j) = claim n V (ths j)"
  shows "(\<lambda>j. claim n V' ((ths(i := pc)) j)) = c(i := claim n V' pc)"
  using assms by (auto simp: fun_eq_iff)

lemma step_push_cas:
  assumes ok: "system_ok k s" and a: "represents k s a" and h: "hd_pos (rs_ring s) < 2 ^ 62"
    and pc: "rs_threads s i = PushCas x pos" and st: "push_step (rs_ring s) (PushCas x pos) = (r', pc', ev)"
  shows "step_ok k i a \<lparr>rs_ring = r', rs_threads = (rs_threads s)(i := pc')\<rparr> ev"
proof (cases "rb_head (rs_ring s) = pos")
  case False
  then have st: "r' = rs_ring s" "pc' = PushLoad x" "ev = None" using st by auto
  have "system_ok k \<lparr>rs_ring = r', rs_threads = (rs_threads s)(i := pc')\<rparr> \<and>
      represents k \<lparr>rs_ring = r', rs_threads = (rs_threads s)(i := pc')\<rparr> a"
    by (rule quiet_step [where i = i and pc = pc', OF ok a]) (simp_all add: st pc)
  then show ?thesis by (simp add: step_ok_def st)
next
  case True
  let ?r = "rs_ring s" and ?ths = "rs_threads s" and ?n = "2 ^ k :: nat"
  have slots: "slots_ok ?n (hd_pos ?r) (tl_pos ?r) (seqs ?r) (writing \<circ> ?ths) (reading \<circ> ?ths)"
    and shape: "ring_shape k ?r" using ok by (simp_all add: system_parts)
  have st: "r' = ?r\<lparr>rb_head := pos + 1\<rparr>" "pc' = PushWrite x pos" "ev = Some (Pushed x)" using st True by auto
  have free: "seqs ?r (hd_pos ?r mod ?n) = hd_pos ?r" using system_pc [OF ok, of i] pc True by simp
  have H: "unat (pos + 1) = hd_pos ?r + 1" unfolding True [symmetric] using h by (intro unat_next) simp
  have pos: "unat pos = hd_pos ?r" using True by simp
  note items = a [unfolded represents_def Let_def]
  have 1: "slots_ok ?n (hd_pos ?r + 1) (tl_pos ?r) (seqs ?r) (writing \<circ> ?ths(i := pc')) (reading \<circ> ?ths(i := pc'))"
    using slots_claim_push [OF slots free, of i] pc by (simp add: comp_upd st pos fun_upd_idem)
  have 2: "items_ok ?n (hd_pos ?r + 1) (tl_pos ?r) (vals ?r) (storing \<circ> ?ths(i := pc')) (qs_items a @ [x])"
    using items_push [of ?n "hd_pos ?r" "tl_pos ?r" "vals ?r" "storing \<circ> ?ths" "qs_items a" i x]
      items slots_okD(2) [OF slots] pc by (simp add: comp_upd st pos)
  have 3: "pc_ok ?n (hd_pos ?r + 1) (tl_pos ?r) (seqs ?r) ((?ths(i := pc')) j)" for j
  proof (rule pcs_elsewhere [OF system_pc [OF ok]])
    fix j assume "pc_ok ?n (hd_pos ?r) (tl_pos ?r) (seqs ?r) (?ths j)"
    then show "pc_ok ?n (hd_pos ?r + 1) (tl_pos ?r) (seqs ?r) (?ths j)" by (cases "?ths j") auto
  qed (simp add: st)
  have 4: "(\<lambda>j. claim ?n (vals ?r) ((?ths(i := pc')) j)) = qs_claims a"
  proof -
    have "(\<lambda>j. claim ?n (vals ?r) ((?ths(i := pc')) j)) = (qs_claims a)(i := claim ?n (vals ?r) pc')"
      using items by (intro claims_elsewhere) simp_all
    moreover have "qs_claims a i = None" using items pc by simp
    ultimately show ?thesis by (simp add: st fun_upd_idem)
  qed
  have "length (qs_items a) < ?n"
    using items slots_room(1) [OF slots free] by (simp add: items_ok_def less_diff_conv2 slots_okD(2) [OF slots])
  moreover have "insert i (qs_writers a) = {j. writing ((?ths(i := pc')) j) \<noteq> None}"
    using items by (auto simp: st)
  ultimately show ?thesis
    using 1 2 3 4 shape H by (simp add: step_ok_def system_parts represents_def st)
qed

lemma step_push_write:
  assumes ok: "system_ok k s" and a: "represents k s a"
    and pc: "rs_threads s i = PushWrite x pos" and st: "push_step (rs_ring s) (PushWrite x pos) = (r', pc', ev)"
  shows "step_ok k i a \<lparr>rs_ring = r', rs_threads = (rs_threads s)(i := pc')\<rparr> ev"
proof -
  let ?r = "rs_ring s" and ?ths = "rs_threads s" and ?n = "2 ^ k :: nat"
  have slots: "slots_ok ?n (hd_pos ?r) (tl_pos ?r) (seqs ?r) (writing \<circ> ?ths) (reading \<circ> ?ths)"
    and shape: "ring_shape k ?r" using ok by (simp_all add: system_parts)
  have st: "r' = store_val pos x ?r" "pc' = PushPublish pos" "ev = None" using st by simp_all
  note D = slots_okD [OF slots] and ring = ring_store [OF shape]
  note items = a [unfolded represents_def Let_def]
  have w: "(writing \<circ> ?ths) i = Some (unat pos)" using pc by simp
  have one: "j = i" if "storing (?ths j) = Some (unat pos, y)" for j y
  proof -
    have "(writing \<circ> ?ths) j = Some (unat pos)" using that by (cases "?ths j") simp_all
    then show ?thesis by (rule D(10) [OF _ w])
  qed
  have "items_ok ?n (hd_pos ?r) (tl_pos ?r) ((vals ?r)(unat pos mod ?n := x)) ((storing \<circ> ?ths)(i := None)) (qs_items a)"
    by (rule items_write [where x = x]) (use items pc one D(3) in auto)
  then have 1: "items_ok ?n (hd_pos ?r) (tl_pos ?r) ((vals ?r)(unat pos mod ?n := x)) (storing \<circ> ?ths(i := pc')) (qs_items a)"
    by (simp add: comp_upd st)
  have 2: "(\<lambda>j. claim ?n ((vals ?r)(unat pos mod ?n := x)) ((?ths(i := pc')) j)) = qs_claims a"
  proof -
    have "claim ?n ((vals ?r)(unat pos mod ?n := x)) (?ths j) = claim ?n (vals ?r) (?ths j)" for j
    proof (cases "?ths j")
      case (PopRead q)
      then have "(reading \<circ> ?ths) j = Some (unat q)" by simp
      from D(8,9) [OF this] D(6,7) [OF w] have "unat q + ?n \<noteq> unat pos" "unat q < tl_pos ?r" "tl_pos ?r \<le> unat q + ?n"
        "unat q + ?n < tl_pos ?r + ?n" "tl_pos ?r \<le> unat pos" "unat pos < tl_pos ?r + ?n" using D(2,3) by linarith+
      then have "unat q mod ?n \<noteq> unat pos mod ?n"
        using window_inject [of "tl_pos ?r" "unat q + ?n" ?n "unat pos"] by auto
      with PopRead show ?thesis by simp
    qed simp_all
    then have "(\<lambda>j. claim ?n ((vals ?r)(unat pos mod ?n := x)) ((?ths(i := pc')) j)) =
        (qs_claims a)(i := claim ?n ((vals ?r)(unat pos mod ?n := x)) pc')"
      using items by (intro claims_elsewhere) simp_all
    moreover have "qs_claims a i = None" using items pc by simp
    ultimately show ?thesis by (simp add: st fun_upd_idem)
  qed
  have 3: "writing \<circ> ?ths(i := pc') = writing \<circ> ?ths" "reading \<circ> ?ths(i := pc') = reading \<circ> ?ths"
    by (rule same_upd, simp add: pc st)+
  have 4: "pc_ok ?n (hd_pos ?r) (tl_pos ?r) (seqs ?r) ((?ths(i := pc')) j)" for j
    by (rule pcs_elsewhere [OF system_pc [OF ok]]) (simp_all add: st)
  have "writing ((?ths(i := pc')) j) = writing (?ths j)" for j using 3(1) by (metis comp_apply)
  then show ?thesis
    using slots shape items 1 2 3 4 ring by (simp add: step_ok_def system_parts represents_def st)
qed

lemma step_push_publish:
  assumes ok: "system_ok k s" and a: "represents k s a" and h: "hd_pos (rs_ring s) < 2 ^ 62"
    and pc: "rs_threads s i = PushPublish pos" and st: "push_step (rs_ring s) (PushPublish pos) = (r', pc', ev)"
  shows "step_ok k i a \<lparr>rs_ring = r', rs_threads = (rs_threads s)(i := pc')\<rparr> ev"
proof -
  let ?r = "rs_ring s" and ?ths = "rs_threads s" and ?n = "2 ^ k :: nat"
  have slots: "slots_ok ?n (hd_pos ?r) (tl_pos ?r) (seqs ?r) (writing \<circ> ?ths) (reading \<circ> ?ths)"
    and shape: "ring_shape k ?r" using ok by (simp_all add: system_parts)
  have st: "r' = store_seq pos (pos + 1) ?r" "pc' = PushDone True" "ev = Some Published" using st by simp_all
  note D = slots_okD [OF slots] and ring = ring_store [OF shape]
  note items = a [unfolded represents_def Let_def]
  have w: "(writing \<circ> ?ths) i = Some (unat pos)" using pc by simp
  note p = D(6,7) [OF w]
  have suc: "unat (pos + 1) = unat pos + 1" using p h by (intro unat_next) simp
  let ?S = "(seqs ?r)(unat pos mod ?n := unat pos + 1)"
  have 1: "slots_ok ?n (hd_pos ?r) (tl_pos ?r) ?S (writing \<circ> ?ths(i := pc')) (reading \<circ> ?ths(i := pc'))"
  proof -
    have "reading \<circ> ?ths(i := pc') = reading \<circ> ?ths" by (rule same_upd) (simp add: pc st)
    moreover have "writing \<circ> ?ths(i := pc') = (writing \<circ> ?ths)(i := None)" by (simp add: comp_upd st)
    ultimately show ?thesis using slots_publish [OF slots w] by (simp only:)
  qed
  have busy: "seqs ?r (unat pos mod ?n) = unat pos" using D(4) [OF p] w by (metis rangeI)
  have 2: "pc_ok ?n (hd_pos ?r) (tl_pos ?r) ?S ((?ths(i := pc')) j)" for j
  proof (rule pcs_elsewhere [OF system_pc [OF ok]])
    fix j assume *: "pc_ok ?n (hd_pos ?r) (tl_pos ?r) (seqs ?r) (?ths j)"
    have "hd_pos ?r mod ?n \<noteq> unat pos mod ?n" if "seqs ?r (hd_pos ?r mod ?n) = hd_pos ?r" using that busy p by auto
    moreover have "tl_pos ?r mod ?n \<noteq> unat pos mod ?n" if "seqs ?r (tl_pos ?r mod ?n) = tl_pos ?r + 1"
      using that busy window_inject [of "tl_pos ?r" "tl_pos ?r" ?n "unat pos"] p D(3) by auto
    ultimately show "pc_ok ?n (hd_pos ?r) (tl_pos ?r) ?S (?ths j)" using * by (cases "?ths j") auto
  qed (simp add: st)
  have 3: "storing \<circ> ?ths(i := pc') = storing \<circ> ?ths" by (rule same_upd) (simp add: pc st)
  have 4: "claim ?n (vals ?r) ((?ths(i := pc')) j) = claim ?n (vals ?r) (?ths j)" for j by (simp add: pc st)
  have "i \<in> qs_writers a" "qs_writers a - {i} = {j. writing ((?ths(i := pc')) j) \<noteq> None}"
    using items pc by (auto simp: st)
  then show ?thesis
    using shape items 1 2 3 4 ring by (simp add: step_ok_def system_parts represents_def st suc)
qed

lemma step_pop_cas:
  assumes ok: "system_ok k s" and a: "represents k s a" and h: "hd_pos (rs_ring s) < 2 ^ 62"
    and pc: "rs_threads s i = PopCas pos" and st: "pop_step (rs_ring s) (PopCas pos) = (r', pc', ev)"
  shows "step_ok k i a \<lparr>rs_ring = r', rs_threads = (rs_threads s)(i := pc')\<rparr> ev"
proof (cases "rb_tail (rs_ring s) = pos")
  case False
  then have st: "r' = rs_ring s" "pc' = PopLoad" "ev = None" using st by auto
  have "system_ok k \<lparr>rs_ring = r', rs_threads = (rs_threads s)(i := pc')\<rparr> \<and>
      represents k \<lparr>rs_ring = r', rs_threads = (rs_threads s)(i := pc')\<rparr> a"
    by (rule quiet_step [where i = i and pc = pc', OF ok a]) (simp_all add: st pc)
  then show ?thesis by (simp add: step_ok_def st)
next
  case True
  let ?r = "rs_ring s" and ?ths = "rs_threads s" and ?n = "2 ^ k :: nat"
  have slots: "slots_ok ?n (hd_pos ?r) (tl_pos ?r) (seqs ?r) (writing \<circ> ?ths) (reading \<circ> ?ths)"
    and shape: "ring_shape k ?r" using ok by (simp_all add: system_parts)
  have st: "r' = ?r\<lparr>rb_tail := pos + 1\<rparr>" "pc' = PopRead pos" "ev = Some Taken" using st True by auto
  have full: "seqs ?r (tl_pos ?r mod ?n) = tl_pos ?r + 1" using system_pc [OF ok, of i] pc True by simp
  note item = slots_item [OF slots full]
  have pos: "unat pos = tl_pos ?r" using True by simp
  have T: "unat (pos + 1) = tl_pos ?r + 1" unfolding pos [symmetric] using h item(1) pos by (intro unat_next) simp
  note items = a [unfolded represents_def Let_def]
  have 1: "slots_ok ?n (hd_pos ?r) (tl_pos ?r + 1) (seqs ?r) (writing \<circ> ?ths(i := pc')) (reading \<circ> ?ths(i := pc'))"
  proof -
    have "writing \<circ> ?ths(i := pc') = writing \<circ> ?ths" by (rule same_upd) (simp add: pc st)
    moreover have "reading \<circ> ?ths(i := pc') = (reading \<circ> ?ths)(i := Some (tl_pos ?r))" by (simp add: comp_upd st pos)
    ultimately show ?thesis using slots_claim_pop [OF slots full, of i] pc by simp
  qed
  have free: "(storing \<circ> ?ths) j \<noteq> Some (tl_pos ?r, x)" for j x
  proof
    assume "(storing \<circ> ?ths) j = Some (tl_pos ?r, x)"
    then have "(writing \<circ> ?ths) j = Some (tl_pos ?r)" by (cases "?ths j") simp_all
    with item(2) show False by (metis rangeI)
  qed
  obtain ys where ys: "qs_items a = vals ?r (tl_pos ?r mod ?n) # ys"
    "items_ok ?n (hd_pos ?r) (tl_pos ?r + 1) (vals ?r) (storing \<circ> ?ths) ys"
    by (rule items_pop [where f = "storing \<circ> ?ths", OF _ item(1) free]) (use items in blast)+
  have 2: "storing \<circ> ?ths(i := pc') = storing \<circ> ?ths" by (rule same_upd) (simp add: pc st)
  have 3: "pc_ok ?n (hd_pos ?r) (tl_pos ?r + 1) (seqs ?r) ((?ths(i := pc')) j)" for j
  proof (rule pcs_elsewhere [OF system_pc [OF ok]])
    fix j assume "pc_ok ?n (hd_pos ?r) (tl_pos ?r) (seqs ?r) (?ths j)"
    then show "pc_ok ?n (hd_pos ?r) (tl_pos ?r + 1) (seqs ?r) (?ths j)" by (cases "?ths j") auto
  qed (simp add: st)
  have 4: "(\<lambda>j. claim ?n (vals ?r) ((?ths(i := pc')) j)) = (qs_claims a)(i := claim ?n (vals ?r) pc')"
    using items by (intro claims_elsewhere) simp_all
  have "qs_claims a i = None" "writing ((?ths(i := pc')) j) = writing (?ths j)" for j using items pc by (simp_all add: st)
  then show ?thesis
    using 1 2 3 4 shape T ys items by (simp add: step_ok_def system_parts represents_def st pos)
qed

lemma step_pop_read:
  assumes ok: "system_ok k s" and a: "represents k s a"
    and pc: "rs_threads s i = PopRead pos" and st: "pop_step (rs_ring s) (PopRead pos) = (r', pc', ev)"
  shows "step_ok k i a \<lparr>rs_ring = r', rs_threads = (rs_threads s)(i := pc')\<rparr> ev"
proof -
  have st: "r' = rs_ring s" "pc' = PopRelease pos (load_val (rs_ring s) pos)" "ev = None" using st by auto
  have "ring_shape k (rs_ring s)" using ok by (simp add: system_parts)
  then have "load_val (rs_ring s) pos = vals (rs_ring s) (unat pos mod 2 ^ k)" by (rule ring_access(3))
  then have "system_ok k \<lparr>rs_ring = r', rs_threads = (rs_threads s)(i := pc')\<rparr> \<and>
      represents k \<lparr>rs_ring = r', rs_threads = (rs_threads s)(i := pc')\<rparr> a"
    by (intro quiet_step [where i = i and pc = pc', OF ok a]) (simp_all add: st pc)
  then show ?thesis by (simp add: step_ok_def st)
qed

lemma step_pop_release:
  assumes ok: "system_ok k s" and a: "represents k s a" and h: "hd_pos (rs_ring s) < 2 ^ 62"
    and pc: "rs_threads s i = PopRelease pos v" and st: "pop_step (rs_ring s) (PopRelease pos v) = (r', pc', ev)"
  shows "step_ok k i a \<lparr>rs_ring = r', rs_threads = (rs_threads s)(i := pc')\<rparr> ev"
proof -
  let ?r = "rs_ring s" and ?ths = "rs_threads s" and ?n = "2 ^ k :: nat"
  have slots: "slots_ok ?n (hd_pos ?r) (tl_pos ?r) (seqs ?r) (writing \<circ> ?ths) (reading \<circ> ?ths)"
    and shape: "ring_shape k ?r" using ok by (simp_all add: system_parts)
  have st: "r' = store_seq pos (pos + ucast (rb_cap ?r)) ?r" "pc' = PopDone (Some v)" "ev = Some (Returned v)"
    using st by simp_all
  note D = slots_okD [OF slots] and ring = ring_store [OF shape]
  note items = a [unfolded represents_def Let_def]
  have r: "(reading \<circ> ?ths) i = Some (unat pos)" using pc by simp
  note p = D(8,9) [OF r]
  have "unat (ucast (rb_cap ?r) :: 64 word) = ?n" and small: "?n < 2 ^ 32" using ring_capacity [OF shape] by simp_all
  moreover have "unat pos + ?n < 2 ^ 64" using p D(2) h small by simp
  ultimately have nxt: "unat (pos + ucast (rb_cap ?r)) = unat pos + ?n" by (subst unat_add_lem [THEN iffD1]) simp_all
  let ?S = "(seqs ?r)(unat pos mod ?n := unat pos + ?n)"
  have 1: "slots_ok ?n (hd_pos ?r) (tl_pos ?r) ?S (writing \<circ> ?ths(i := pc')) (reading \<circ> ?ths(i := pc'))"
  proof -
    have "writing \<circ> ?ths(i := pc') = writing \<circ> ?ths" by (rule same_upd) (simp add: pc st)
    moreover have "reading \<circ> ?ths(i := pc') = (reading \<circ> ?ths)(i := None)" by (simp add: comp_upd st)
    ultimately show ?thesis using slots_release [OF slots r] by (simp only:)
  qed
  have 2: "pc_ok ?n (hd_pos ?r) (tl_pos ?r) ?S ((?ths(i := pc')) j)" for j
  proof (rule pcs_elsewhere [OF system_pc [OF ok]])
    fix j assume *: "pc_ok ?n (hd_pos ?r) (tl_pos ?r) (seqs ?r) (?ths j)"
    have "unat pos + ?n = hd_pos ?r" if "hd_pos ?r mod ?n = unat pos mod ?n" "hd_pos ?r < tl_pos ?r + ?n"
      using window_inject [of "tl_pos ?r" "hd_pos ?r" ?n "unat pos + ?n"] that p D(2) by simp
    moreover have "hd_pos ?r < tl_pos ?r + ?n" if "seqs ?r (hd_pos ?r mod ?n) = hd_pos ?r"
      by (rule slots_room(1) [OF slots that])
    moreover have "tl_pos ?r mod ?n \<noteq> unat pos mod ?n" if "seqs ?r (tl_pos ?r mod ?n) = tl_pos ?r + 1"
      using window_inject [of "tl_pos ?r" "tl_pos ?r" ?n "unat pos + ?n"] slots_item(1) [OF slots that] p D(1,2) by auto
    ultimately show "pc_ok ?n (hd_pos ?r) (tl_pos ?r) ?S (?ths j)" using * by (cases "?ths j") auto
  qed (simp add: st)
  have 3: "storing \<circ> ?ths(i := pc') = storing \<circ> ?ths" by (rule same_upd) (simp add: pc st)
  have 4: "(\<lambda>j. claim ?n (vals ?r) ((?ths(i := pc')) j)) = (qs_claims a)(i := claim ?n (vals ?r) pc')"
    using items by (intro claims_elsewhere) simp_all
  have "qs_claims a i = Some v" "writing ((?ths(i := pc')) j) = writing (?ths j)" for j using items pc by (simp_all add: st)
  then show ?thesis
    using shape items 1 2 3 4 ring by (simp add: step_ok_def system_parts represents_def st nxt)
qed

lemma move_ok:
  assumes ok: "system_ok k s" and a: "represents k s a" and h: "hd_pos (rs_ring s) < 2 ^ 62"
    and busy: "\<not> at_rest (rs_threads s i)" and st: "thread_step (rs_ring s) (rs_threads s i) = (r', pc', ev)"
  shows "step_ok k i a \<lparr>rs_ring = r', rs_threads = (rs_threads s)(i := pc')\<rparr> ev"
proof (cases "rs_threads s i")
  case (PushLoad x)
  then have st: "r' = rs_ring s" "pc' = PushSeq x (rb_head (rs_ring s))" "ev = None"
    using st by (auto simp: thread_step_def is_push_def)
  have "system_ok k \<lparr>rs_ring = r', rs_threads = (rs_threads s)(i := pc')\<rparr> \<and>
      represents k \<lparr>rs_ring = r', rs_threads = (rs_threads s)(i := pc')\<rparr> a"
    by (rule quiet_step [where i = i and pc = pc', OF ok a]) (simp_all add: st PushLoad)
  then show ?thesis by (simp add: step_ok_def st)
next
  case PopLoad
  then have st: "r' = rs_ring s" "pc' = PopSeq (rb_tail (rs_ring s))" "ev = None"
    using st by (auto simp: thread_step_def is_push_def)
  have "system_ok k \<lparr>rs_ring = r', rs_threads = (rs_threads s)(i := pc')\<rparr> \<and>
      represents k \<lparr>rs_ring = r', rs_threads = (rs_threads s)(i := pc')\<rparr> a"
    by (rule quiet_step [where i = i and pc = pc', OF ok a]) (simp_all add: st PopLoad)
  then show ?thesis by (simp add: step_ok_def st)
next
  case (PushSeq x pos)
  then show ?thesis using step_push_seq [OF ok a h PushSeq] st by (simp add: thread_step_def is_push_def)
next
  case (PushCas x pos)
  then show ?thesis using step_push_cas [OF ok a h PushCas] st by (simp add: thread_step_def is_push_def)
next
  case (PushWrite x pos)
  then show ?thesis using step_push_write [OF ok a PushWrite] st by (simp add: thread_step_def is_push_def)
next
  case (PushPublish pos)
  then show ?thesis using step_push_publish [OF ok a h PushPublish] st by (simp add: thread_step_def is_push_def)
next
  case (PopSeq pos)
  then show ?thesis using step_pop_seq [OF ok a h PopSeq] st by (simp add: thread_step_def is_push_def)
next
  case (PopCas pos)
  then show ?thesis using step_pop_cas [OF ok a h PopCas] st by (simp add: thread_step_def is_push_def)
next
  case (PopRead pos)
  have "pop_step (rs_ring s) (PopRead pos) = (r', pc', ev)" using st PopRead by (auto simp: thread_step_def is_push_def)
  then show ?thesis by (rule step_pop_read [OF ok a PopRead])
next
  case (PopRelease pos v)
  then show ?thesis using step_pop_release [OF ok a h PopRelease] st by (simp add: thread_step_def is_push_def)
qed (use busy in \<open>simp_all add: at_rest_def\<close>)

text \<open>The head counts the pushes.\<close>

definition pushes :: "(nat \<times> 'a ring_event) list \<Rightarrow> nat" where
  "pushes evs = length (filter (\<lambda>e. \<exists>x. snd e = Pushed x) evs)"

lemma thread_step_head:
  assumes "thread_step r pc = (r', pc', ev)" "hd_pos r < 2 ^ 62"
  shows "hd_pos r' = hd_pos r + (if \<exists>x. ev = Some (Pushed x) then 1 else 0)"
proof -
  have "unat (rb_head r + 1) = hd_pos r + 1" using assms(2) by (intro unat_next) simp
  then show ?thesis
    using assms(1) by (cases pc) (auto simp: thread_step_def is_push_def Let_def store_seq_def store_val_def split: if_split_asm)
qed

lemma ring_step_ok:
  assumes "ring_step s ev s'" "system_ok k s" "represents k s a" "hd_pos (rs_ring s) < 2 ^ 62"
  shows "system_ok k s' \<and> hd_pos (rs_ring s') = hd_pos (rs_ring s) + (if \<exists>i x. ev = Some (i, Pushed x) then 1 else 0) \<and>
    (case ev of None \<Rightarrow> represents k s' a | Some e \<Rightarrow> \<exists>b. spec_step (2 ^ k) e a = Some b \<and> represents k s' b)"
  using assms(1)
proof cases
  case (call_push i x)
  have "system_ok k s' \<and> represents k s' a"
    by (rule quiet_step [where i = i and pc = "PushLoad x", OF assms(2,3) _ _ _ _ _ call_push(2)])
      (use call_push(3) in \<open>cases "rs_threads s i"; simp add: at_rest_def\<close>)+
  then show ?thesis using call_push by simp
next
  case (call_pop i)
  have "system_ok k s' \<and> represents k s' a"
    by (rule quiet_step [where i = i and pc = "PopLoad", OF assms(2,3) _ _ _ _ _ call_pop(2)])
      (use call_pop(3) in \<open>cases "rs_threads s i"; simp add: at_rest_def\<close>)+
  then show ?thesis using call_pop by simp
next
  case (move i r' pc' e)
  have "step_ok k i a s' e" unfolding move(2) by (rule move_ok [OF assms(2-4) move(3,4)])
  moreover have "hd_pos (rs_ring s') = hd_pos (rs_ring s) + (if \<exists>x. e = Some (Pushed x) then 1 else 0)"
    using thread_step_head [OF move(4) assms(4)] move(2) by simp
  ultimately show ?thesis unfolding move(1) step_ok_def by (cases e) auto
qed

subsection \<open>Capacity\<close>

lemma bits_Len64_bounds: "m < 2 ^ bits_Len64 m" "0 < m \<Longrightarrow> 2 ^ bits_Len64 m \<le> 2 * m"
proof (induction m rule: bits_Len64.induct)
  case (1 m)
  {
    case 1
    show ?case
    proof (cases "m = 0")
      case False
      then have "m div 2 < 2 ^ bits_Len64 (m div 2)" using "1.IH"(1) by blast
      then show ?thesis using False by (subst bits_Len64.simps) simp
    qed simp
  next
    case 2
    show ?case
    proof (cases "m = 1")
      case True
      then show ?thesis by (simp add: bits_Len64.simps)
    next
      case False
      with 2 have "2 ^ bits_Len64 (m div 2) \<le> 2 * (m div 2)" using "1.IH"(2) by simp
      then show ?thesis using 2 by (subst bits_Len64.simps) simp
    qed
  }
qed

definition rounded :: "int64 \<Rightarrow> nat" where
  "rounded capacity = bits_Len64 (nat (capacity - 1))"

lemma rounded_bounds:
  assumes "1 \<le> capacity"
  shows "nat capacity \<le> 2 ^ rounded capacity" "2 \<le> capacity \<Longrightarrow> 2 ^ rounded capacity < 2 * nat capacity"
proof -
  have "nat (capacity - 1) < 2 ^ rounded capacity" unfolding rounded_def by (rule bits_Len64_bounds)
  then show "nat capacity \<le> 2 ^ rounded capacity" using assms by linarith
  show "2 ^ rounded capacity < 2 * nat capacity" if "2 \<le> capacity"
    using bits_Len64_bounds(2) [of "nat (capacity - 1)"] that unfolding rounded_def by linarith
qed

lemma rounded_small:
  assumes "2 \<le> capacity" "capacity \<le> 2 ^ 31"
  shows "1 \<le> rounded capacity" "rounded capacity \<le> 31"
proof -
  have "rounded capacity \<noteq> 0"
  proof
    assume "rounded capacity = 0"
    with rounded_bounds(1) [of capacity] assms(1) show False by simp
  qed
  then show "1 \<le> rounded capacity" by simp
  have "nat capacity \<le> 2 ^ 31" using nat_mono [OF assms(2)] by simp
  then have "(2::nat) ^ rounded capacity < 2 ^ 32" using rounded_bounds(2) [of capacity] assms by simp
  then have "rounded capacity < 32" using power_less_imp_less_exp [of "2::nat" "rounded capacity" 32] by simp
  then show "rounded capacity \<le> 31" by simp
qed

definition fresh_system :: "'a RingBuffer \<Rightarrow> 'a ring_system" where
  "fresh_system r = \<lparr>rs_ring = r, rs_threads = \<lambda>i. Idle\<rparr>"

lemma fresh_ok:
  assumes new: "NewRingBuffer fits zero capacity = Inr r" and cap: "2 \<le> capacity" "capacity \<le> 2 ^ 31"
  shows "system_ok (rounded capacity) (fresh_system r)" "represents (rounded capacity) (fresh_system r) empty_queue"
    "rb_head r = 0"
proof -
  let ?n = "2 ^ rounded capacity :: nat"
  note small = rounded_small [OF cap]
  have r: "r = \<lparr>rb_cap = of_nat ?n, rb_mask = of_nat (?n - 1), rb_head = 0, rb_tail = 0,
      rb_cells = map (\<lambda>i. \<lparr>rc_seq = of_nat i, rc_val = zero\<rparr>) [0..<?n]\<rparr>"
    using new cap by (simp add: NewRingBuffer_def rounded_def Let_def split: if_split_asm)
  have n: "2 \<le> ?n" using power_increasing [OF small(1), of "2::nat"] by simp
  have "?n \<le> 2 ^ 31" by (rule power_increasing [OF small(2)]) simp
  then have seq: "seqs r j = j" if "j < ?n" for j
  proof -
    have "seqs r j = unat (of_nat j :: 64 word)" using that by (simp add: r seqs_def)
    also have "\<dots> = j mod 2 ^ 64" by (subst unat_of_nat) simp
    also have "\<dots> = j" using that \<open>?n \<le> 2 ^ 31\<close> by simp
    finally show ?thesis .
  qed
  have shape: "ring_shape (rounded capacity) r" using small by (simp add: ring_shape_def r)
  have slots: "slots_ok ?n 0 0 (seqs r) (\<lambda>i. None) (\<lambda>i. None)"
    by (rule slots_okI) (use n seq in auto)
  show "system_ok (rounded capacity) (fresh_system r)"
    using shape slots by (simp add: system_parts fresh_system_def comp_def) (simp add: r)
  show "represents (rounded capacity) (fresh_system r) empty_queue" "rb_head r = 0"
    by (simp_all add: represents_def fresh_system_def empty_queue_def items_ok_def comp_def r)
qed

lemma pushes_append [simp]: "pushes (es @ fs) = pushes es + pushes fs"
  by (simp add: pushes_def)

lemma run_refines:
  assumes "ring_run s0 evs s" "system_ok k s0" "represents k s0 a" "rb_head (rs_ring s0) = 0" "pushes evs < 2 ^ 62"
  shows "system_ok k s \<and> hd_pos (rs_ring s) = pushes evs \<and> (\<exists>b. spec_run (2 ^ k) evs a = Some b \<and> represents k s b)"
  using assms(1,5)
proof induction
  case start
  then show ?case using assms by (simp add: pushes_def)
next
  case (more evs s ev s')
  let ?es = "case ev of None \<Rightarrow> [] | Some e \<Rightarrow> [e]"
  have IH: "system_ok k s" "hd_pos (rs_ring s) = pushes evs"
    and "\<exists>b. spec_run (2 ^ k) evs a = Some b \<and> represents k s b" using more by simp_all
  then obtain b where b: "spec_run (2 ^ k) evs a = Some b" "represents k s b" by blast
  have "hd_pos (rs_ring s) < 2 ^ 62" using IH(2) more.prems by simp
  from ring_step_ok [OF more.hyps(2) IH(1) b(2) this]
  have step: "system_ok k s'" "hd_pos (rs_ring s') = pushes evs + (if \<exists>i x. ev = Some (i, Pushed x) then 1 else 0)"
    "case ev of None \<Rightarrow> represents k s' b | Some e \<Rightarrow> \<exists>c. spec_step (2 ^ k) e b = Some c \<and> represents k s' c"
    using IH(2) by simp_all
  have "pushes ?es = (if \<exists>i x. ev = Some (i, Pushed x) then 1 else 0)"
    by (auto simp: pushes_def split: option.splits)
  moreover have "\<exists>c. spec_run (2 ^ k) (evs @ ?es) a = Some c \<and> represents k s' c"
    using step(3) b(1) by (cases ev) (auto simp: spec_run_append)
  ultimately show ?case using step(1,2) by simp
qed

end
