(* ===== verification/Ring_Guarantees.thy ===== *)
theory Ring_Guarantees
  imports Ring_Refinement
begin

text \<open>
  What the ring promises: the refinement of the bounded queue along any interleaving, the return of
  every call whose thread runs, the behaviour of the sequential calls, and the ring of one slot, which
  breaks all three.
\<close>

text \<open>C2: the ring buffer refines a bounded queue. Whatever threads push and pop, and however their loads,
  compare-and-swaps and stores interleave, a ring of two or more slots behaves as one first-in
  first-out queue of its rounded capacity: every push that succeeds appends its item to a queue with
  room, every pop takes the oldest item and returns that very item, nothing is lost or returned twice,
  a push is refused only when the queue is full or a pop is under way, and a pop only when it is empty
  or a push is under way. The number of pushes must stay below the width of the positions.\<close>

theorem ring_refines_queue:
  assumes "NewRingBuffer fits zero capacity = Inr r" and "2 \<le> capacity" "capacity \<le> 2 ^ 31"
    and "ring_run (fresh_system r) evs s" and "pushes evs < 2 ^ 62"
  shows "\<exists>a. spec_run (2 ^ rounded capacity) evs empty_queue = Some a \<and> represents (rounded capacity) s a \<and>
    length (qs_items a) = unat (rb_head (rs_ring s)) - unat (rb_tail (rs_ring s))"
proof -
  note fresh = fresh_ok [OF assms(1-3)]
  have "rb_head (rs_ring (fresh_system r)) = 0" using fresh(3) by (simp add: fresh_system_def)
  from run_refines [OF assms(4) fresh(1,2) this assms(5)]
  obtain a where "spec_run (2 ^ rounded capacity) evs empty_queue = Some a" "represents (rounded capacity) s a" by blast
  then show ?thesis by (auto simp: represents_def items_ok_def Let_def)
qed

subsection \<open>One thread alone\<close>

lemma solo_rest [simp]: "at_rest pc \<Longrightarrow> solo m r pc = (r, pc, [])"
  by (cases m) simp_all

lemma solo_numeral: "solo (numeral m) r pc =
    (if at_rest pc then (r, pc, [])
     else case thread_step r pc of (r', pc', ev) \<Rightarrow>
       case solo (pred_numeral m) r' pc' of (r'', pc'', evs) \<Rightarrow> (r'', pc'', (case ev of None \<Rightarrow> evs | Some e \<Rightarrow> e # evs)))"
  by (simp add: numeral_eq_Suc)

lemmas pc_rules = thread_step_def is_push_def at_rest_def Let_def

text \<open>What a call does when nobody else moves.\<close>

lemma solo_push:
  assumes "unat (load_seq r (rb_head r)) \<le> hd_pos r" "hd_pos r < 2 ^ 62"
  shows "solo 5 r (PushLoad x) =
    (if load_seq r (rb_head r) = rb_head r
     then (store_seq (rb_head r) (rb_head r + 1) (store_val (rb_head r) x (r\<lparr>rb_head := rb_head r + 1\<rparr>)), PushDone True,
       [Pushed x, Published])
     else (r, PushDone False, [RefusedFull]))"
proof (cases "load_seq r (rb_head r) = rb_head r")
  case True
  then show ?thesis by (simp add: solo_numeral pc_rules)
next
  case False
  then have "unat (load_seq r (rb_head r)) \<noteq> hd_pos r" by (metis word_unat_eq_iff)
  then have "unat (load_seq r (rb_head r)) < hd_pos r" using assms(1) by simp
  then have "sint (load_seq r (rb_head r) - rb_head r) < 0" using sint_below assms(2) by simp
  with False show ?thesis by (simp add: solo_numeral pc_rules)
qed

lemma solo_pop:
  assumes "unat (load_seq r (rb_tail r)) \<le> tl_pos r + 1" "tl_pos r < 2 ^ 62"
  shows "solo 5 r PopLoad =
    (if load_seq r (rb_tail r) = rb_tail r + 1
     then (store_seq (rb_tail r) (rb_tail r + ucast (rb_cap r)) (r\<lparr>rb_tail := rb_tail r + 1\<rparr>),
       PopDone (Some (load_val (r\<lparr>rb_tail := rb_tail r + 1\<rparr>) (rb_tail r))),
       [Taken, Returned (load_val (r\<lparr>rb_tail := rb_tail r + 1\<rparr>) (rb_tail r))])
     else (r, PopDone None, [RefusedEmpty]))"
proof (cases "load_seq r (rb_tail r) = rb_tail r + 1")
  case True
  then show ?thesis by (simp add: solo_numeral pc_rules)
next
  case False
  have suc: "unat (rb_tail r + 1) = tl_pos r + 1" using assms(2) by (intro unat_next) simp
  then have "unat (load_seq r (rb_tail r)) \<noteq> tl_pos r + 1" using False by (metis word_unat_eq_iff)
  then have "unat (load_seq r (rb_tail r)) < unat (rb_tail r + 1)" using assms(1) suc by simp
  then have "sint (load_seq r (rb_tail r) - (rb_tail r + 1)) < 0" using sint_below suc assms(2) by simp
  with False show ?thesis by (simp add: solo_numeral pc_rules)
qed

lemma system_seq:
  assumes "system_ok k s"
  shows "unat (load_seq (rs_ring s) (rb_head (rs_ring s))) \<le> hd_pos (rs_ring s)"
    "unat (load_seq (rs_ring s) (rb_tail (rs_ring s))) \<le> tl_pos (rs_ring s) + 1"
    "tl_pos (rs_ring s) \<le> hd_pos (rs_ring s)"
proof -
  have shape: "ring_shape k (rs_ring s)" and slots: "slots_ok (2 ^ k) (hd_pos (rs_ring s)) (tl_pos (rs_ring s))
      (seqs (rs_ring s)) (writing \<circ> rs_threads s) (reading \<circ> rs_threads s)"
    using assms by (simp_all add: system_parts)
  show "unat (load_seq (rs_ring s) (rb_head (rs_ring s))) \<le> hd_pos (rs_ring s)"
    "unat (load_seq (rs_ring s) (rb_tail (rs_ring s))) \<le> tl_pos (rs_ring s) + 1"
    unfolding ring_access(2) [OF shape] using slots_ahead [OF slots] by simp_all
  show "tl_pos (rs_ring s) \<le> hd_pos (rs_ring s)" by (rule slots_okD(2) [OF slots])
qed

definition ends :: "nat \<Rightarrow> 'a RingBuffer \<Rightarrow> 'a pc \<Rightarrow> bool" where
  "ends m r pc \<longleftrightarrow> at_rest (fst (snd (solo m r pc)))"

lemma ends_Suc: "\<not> at_rest pc \<Longrightarrow> ends (Suc m) r pc = (case thread_step r pc of (r', pc', _) \<Rightarrow> ends m r' pc')"
  by (simp add: ends_def split: prod.splits)

lemma ends_rest [simp]: "at_rest pc \<Longrightarrow> ends m r pc"
  by (simp add: ends_def)

lemma ends_more: "ends m r pc \<Longrightarrow> ends (Suc m) r pc"
proof (induction m arbitrary: r pc)
  case 0
  then show ?case by (simp add: ends_def)
next
  case (Suc m)
  show ?case
  proof (cases "at_rest pc")
    case False
    with Suc.prems Suc.IH show ?thesis by (auto simp: ends_Suc split: prod.splits)
  qed simp
qed


subsection \<open>The sequential calls\<close>

text \<open>\<open>holds k q r\<close>: no call is under way and the ring holds the items \<open>q\<close>.\<close>

definition holds :: "nat \<Rightarrow> 'a list \<Rightarrow> 'a RingBuffer \<Rightarrow> bool" where
  "holds k q r \<longleftrightarrow> system_ok k (fresh_system r) \<and>
     represents k (fresh_system r) \<lparr>qs_items = q, qs_writers = {}, qs_claims = Map.empty\<rparr>"

lemma rested_fresh:
  assumes "system_ok k \<lparr>rs_ring = r, rs_threads = (\<lambda>j. Idle)(i := pc)\<rparr>" "represents k \<lparr>rs_ring = r, rs_threads = (\<lambda>j. Idle)(i := pc)\<rparr> a"
    "at_rest pc"
  shows "system_ok k (fresh_system r) \<and> represents k (fresh_system r) a"
  by (rule quiet_step [where i = i and pc = Idle, OF assms(1,2)])
    (use assms(3) in \<open>cases pc; simp add: fresh_system_def at_rest_def fun_upd_idem\<close>)+

lemma solo_ok:
  assumes "system_ok k \<lparr>rs_ring = r, rs_threads = (\<lambda>j. Idle)(i := pc)\<rparr>"
    "represents k \<lparr>rs_ring = r, rs_threads = (\<lambda>j. Idle)(i := pc)\<rparr> a" "hd_pos r + m < 2 ^ 62"
    "solo m r pc = (r', pc', evs)"
  shows "system_ok k \<lparr>rs_ring = r', rs_threads = (\<lambda>j. Idle)(i := pc')\<rparr> \<and> hd_pos r' \<le> hd_pos r + m \<and>
    (\<exists>b. spec_run (2 ^ k) (map (Pair i) evs) a = Some b \<and> represents k \<lparr>rs_ring = r', rs_threads = (\<lambda>j. Idle)(i := pc')\<rparr> b)"
  using assms
proof (induction m arbitrary: r pc a evs)
  case 0
  then show ?case by auto
next
  case (Suc m)
  show ?case
  proof (cases "at_rest pc")
    case True
    with Suc.prems show ?thesis by auto
  next
    case False
    let ?s = "\<lparr>rs_ring = r, rs_threads = (\<lambda>j. Idle)(i := pc)\<rparr>"
    obtain r1 pc1 ev where st: "thread_step r pc = (r1, pc1, ev)" by (cases "thread_step r pc")
    obtain evs1 where rest: "solo m r1 pc1 = (r', pc', evs1)" and evs: "evs = (case ev of None \<Rightarrow> evs1 | Some e \<Rightarrow> e # evs1)"
      using Suc.prems(4) False st by (auto split: prod.splits)
    have "step_ok k i a \<lparr>rs_ring = r1, rs_threads = (rs_threads ?s)(i := pc1)\<rparr> ev"
      by (rule move_ok [OF Suc.prems(1,2)]) (use Suc.prems(3) False st in simp_all)
    then have "step_ok k i a \<lparr>rs_ring = r1, rs_threads = (\<lambda>j. Idle)(i := pc1)\<rparr> ev"
      by (simp only: ring_system.select_convs fun_upd_upd)
    then have 1: "system_ok k \<lparr>rs_ring = r1, rs_threads = (\<lambda>j. Idle)(i := pc1)\<rparr>"
      and 2: "case ev of None \<Rightarrow> represents k \<lparr>rs_ring = r1, rs_threads = (\<lambda>j. Idle)(i := pc1)\<rparr> a
        | Some e \<Rightarrow> \<exists>b. spec_step (2 ^ k) (i, e) a = Some b \<and> represents k \<lparr>rs_ring = r1, rs_threads = (\<lambda>j. Idle)(i := pc1)\<rparr> b"
      by (simp_all add: step_ok_def)
    have "hd_pos r < 2 ^ 62" using Suc.prems(3) by simp
    from thread_step_head [OF st this] have 3: "hd_pos r1 \<le> hd_pos r + 1" by simp
    then have 4: "hd_pos r1 + m < 2 ^ 62" using Suc.prems(3) by simp
    show ?thesis
    proof (cases ev)
      case None
      with 2 have "represents k \<lparr>rs_ring = r1, rs_threads = (\<lambda>j. Idle)(i := pc1)\<rparr> a" by simp
      from Suc.IH [OF 1 this 4 rest] 3 None show ?thesis by (auto simp: evs)
    next
      case (Some e)
      with 2 obtain b where b: "spec_step (2 ^ k) (i, e) a = Some b"
        "represents k \<lparr>rs_ring = r1, rs_threads = (\<lambda>j. Idle)(i := pc1)\<rparr> b" by auto
      from Suc.IH [OF 1 b(2) 4 rest] 3 b(1) Some show ?thesis by (auto simp: evs)
    qed
  qed
qed

lemma holds_call:
  assumes "holds k q r" "hd_pos r + 5 < 2 ^ 62" "pc \<in> {PushLoad x, PopLoad}" "solo 5 r pc = (r', pc', evs)" "at_rest pc'"
  shows "hd_pos r' \<le> hd_pos r + 5 \<and> system_ok k (fresh_system r') \<and>
    (\<exists>b. spec_run (2 ^ k) (map (Pair 0) evs) \<lparr>qs_items = q, qs_writers = {}, qs_claims = Map.empty\<rparr> = Some b \<and>
       represents k (fresh_system r') b)"
proof -
  let ?a = "\<lparr>qs_items = q, qs_writers = {}, qs_claims = Map.empty\<rparr>"
  have "system_ok k \<lparr>rs_ring = r, rs_threads = (\<lambda>j. Idle)(0 := pc)\<rparr> \<and>
      represents k \<lparr>rs_ring = r, rs_threads = (\<lambda>j. Idle)(0 := pc)\<rparr> ?a"
    by (rule quiet_step [where i = 0 and pc = pc and s = "fresh_system r"])
      (use assms(1,3) in \<open>auto simp: holds_def fresh_system_def\<close>)
  then show ?thesis using solo_ok [OF _ _ assms(2,4)] rested_fresh [OF _ _ assms(5)] by blast
qed

lemma holds_length: "holds k q r \<Longrightarrow> length q = hd_pos r - tl_pos r \<and> tl_pos r \<le> hd_pos r \<and> length q \<le> 2 ^ k"
  using slots_okD(2,3) unfolding holds_def represents_def items_ok_def system_parts
  by (fastforce simp: fresh_system_def)

lemma TryPush_holds:
  assumes q: "holds k q r" and h: "hd_pos r + 5 < 2 ^ 62"
  obtains r' where "TryPush x r = (length q < 2 ^ k, r')" "hd_pos r' \<le> hd_pos r + 5"
    "holds k (if length q < 2 ^ k then q @ [x] else q) r'"
proof -
  have ok: "system_ok k (fresh_system r)" using q by (simp add: holds_def)
  have "hd_pos r < 2 ^ 62" using h by simp
  note solo = solo_push [OF system_seq(1) [OF ok, simplified fresh_system_def ring_system.select_convs] this, of x]
  show ?thesis
  proof (cases "load_seq r (rb_head r) = rb_head r")
    case True
    let ?r' = "store_seq (rb_head r) (rb_head r + 1) (store_val (rb_head r) x (r\<lparr>rb_head := rb_head r + 1\<rparr>))"
    have s: "solo 5 r (PushLoad x) = (?r', PushDone True, [Pushed x, Published])" using solo True by simp
    have *: "hd_pos ?r' \<le> hd_pos r + 5" "system_ok k (fresh_system ?r')" "length q < 2 ^ k"
      "represents k (fresh_system ?r') \<lparr>qs_items = q @ [x], qs_writers = {}, qs_claims = Map.empty\<rparr>"
      using holds_call [OF q h _ s] by (auto simp: at_rest_def split: if_split_asm)
    show ?thesis by (rule that [of ?r']) (use * s in \<open>auto simp: TryPush_def holds_def\<close>)
  next
    case False
    have s: "solo 5 r (PushLoad x) = (r, PushDone False, [RefusedFull])" using solo False by simp
    have "length q = 2 ^ k" using holds_call [OF q h _ s] by (auto simp: at_rest_def split: if_split_asm)
    then show ?thesis by (intro that [of r]) (use s q in \<open>auto simp: TryPush_def\<close>)
  qed
qed

lemma TryPop_holds:
  assumes q: "holds k q r" and h: "hd_pos r + 5 < 2 ^ 62"
  obtains r' where "TryPop r = ((case q of [] \<Rightarrow> None | x # _ \<Rightarrow> Some x), r')" "hd_pos r' \<le> hd_pos r + 5" "holds k (tl q) r'"
proof -
  have ok: "system_ok k (fresh_system r)" using q by (simp add: holds_def)
  have "tl_pos r < 2 ^ 62" using h holds_length [OF q] by simp
  note solo = solo_pop [OF system_seq(2) [OF ok, simplified fresh_system_def ring_system.select_convs] this]
  show ?thesis
  proof (cases "load_seq r (rb_tail r) = rb_tail r + 1")
    case True
    let ?r' = "store_seq (rb_tail r) (rb_tail r + ucast (rb_cap r)) (r\<lparr>rb_tail := rb_tail r + 1\<rparr>)"
      and ?v = "load_val (r\<lparr>rb_tail := rb_tail r + 1\<rparr>) (rb_tail r)"
    have s: "solo 5 r PopLoad = (?r', PopDone (Some ?v), [Taken, Returned ?v])" using solo True by simp
    have *: "hd_pos ?r' \<le> hd_pos r + 5" "system_ok k (fresh_system ?r')" "q = ?v # tl q"
      "represents k (fresh_system ?r') \<lparr>qs_items = tl q, qs_writers = {}, qs_claims = Map.empty\<rparr>"
      using holds_call [OF q h _ s] by (auto simp: at_rest_def fun_upd_idem split: list.splits if_split_asm)
    show ?thesis by (rule that [of ?r']) (use * s in \<open>auto simp: TryPop_def holds_def split: list.splits\<close>)
  next
    case False
    have s: "solo 5 r PopLoad = (r, PopDone None, [RefusedEmpty])" using solo False by simp
    have "q = []" using holds_call [OF q h _ s] by (auto simp: at_rest_def split: if_split_asm)
    then show ?thesis by (intro that [of r]) (use s q in \<open>auto simp: TryPop_def\<close>)
  qed
qed

lemma PushBatch_holds:
  assumes "holds k q r" "hd_pos r + 5 * length xs < 2 ^ 62"
  shows "\<exists>r'. PushBatch xs r = (min (length xs) (2 ^ k - length q), r') \<and>
    holds k (q @ take (2 ^ k - length q) xs) r' \<and> hd_pos r' \<le> hd_pos r + 5 * length xs"
  using assms
proof (induction xs arbitrary: q r)
  case Nil
  then show ?case by simp
next
  case (Cons x xs)
  have "hd_pos r + 5 < 2 ^ 62" using Cons.prems(2) by simp
  then obtain r1 where r1: "TryPush x r = (length q < 2 ^ k, r1)" "hd_pos r1 \<le> hd_pos r + 5"
    "holds k (if length q < 2 ^ k then q @ [x] else q) r1" by (rule TryPush_holds [OF Cons.prems(1)])
  show ?case
  proof (cases "length q < 2 ^ k")
    case True
    then have "holds k (q @ [x]) r1" "hd_pos r1 + 5 * length xs < 2 ^ 62" using r1 Cons.prems(2) by simp_all
    from Cons.IH [OF this] True r1 show ?thesis by (auto simp: take_Cons' min_def)
  next
    case False
    with r1 holds_length [OF Cons.prems(1)] show ?thesis by simp
  qed
qed

lemma PopBatch_holds:
  assumes "holds k q r" "hd_pos r + 5 * m < 2 ^ 62"
  shows "\<exists>r'. PopBatch m r = (take m q, r') \<and> holds k (drop m q) r'"
  using assms
proof (induction m arbitrary: q r)
  case 0
  then show ?case by simp
next
  case (Suc m)
  have "hd_pos r + 5 < 2 ^ 62" using Suc.prems(2) by simp
  then obtain r1 where r1: "TryPop r = ((case q of [] \<Rightarrow> None | x # _ \<Rightarrow> Some x), r1)" "hd_pos r1 \<le> hd_pos r + 5"
    "holds k (tl q) r1" by (rule TryPop_holds [OF Suc.prems(1)])
  show ?case
  proof (cases q)
    case Nil
    with r1 show ?thesis by simp
  next
    case (Cons x xs)
    then have "holds k xs r1" "hd_pos r1 + 5 * m < 2 ^ 62" using r1 Suc.prems(2) by simp_all
    from Suc.IH [OF this] Cons r1 show ?thesis by auto
  qed
qed

text \<open>On a ring that nobody else uses the calls are those of the queue. From a new ring of capacity two or
  more, pushing a batch takes as many items as there are slots, in order; popping a batch then returns
  the oldest of them in order; and the length, the test for empty and the test for full tell what is
  left, the capacity being at least the one asked for and less than twice it.\<close>

theorem ring_batches:
  assumes "NewRingBuffer fits zero capacity = Inr r" and "2 \<le> capacity" "capacity \<le> 2 ^ 31"
    and "5 * (length xs + m) < 2 ^ 61" and "PushBatch xs r = (n1, r1)" and "PopBatch m r1 = (out, r2)"
  shows "n1 = min (length xs) (2 ^ rounded capacity) \<and> out = take m (take n1 xs) \<and>
    ring_Len (rb_head r2) (rb_tail r2) (rb_cap r2) = n1 - m \<and> IsEmpty (rb_head r2) (rb_tail r2) = (n1 \<le> m) \<and>
    IsFull (rb_head r2) (rb_tail r2) (rb_cap r2) = (n1 - m = 2 ^ rounded capacity) \<and>
    nat capacity \<le> 2 ^ rounded capacity \<and> 2 ^ rounded capacity < 2 * nat capacity"
proof -
  let ?k = "rounded capacity"
  note fresh = fresh_ok [OF assms(1-3)]
  have "holds ?k [] r" using fresh by (simp add: holds_def empty_queue_def)
  moreover have "hd_pos r + 5 * length xs < 2 ^ 62" using assms(4) fresh(3) by simp
  ultimately have 1: "n1 = min (length xs) (2 ^ ?k)" "holds ?k (take (2 ^ ?k) xs) r1" "hd_pos r1 \<le> 5 * length xs"
    using PushBatch_holds [of ?k "[]" r xs] assms(5) fresh(3) by auto
  have "hd_pos r1 + 5 * m < 2 ^ 62" using assms(4) 1(3) by simp
  from PopBatch_holds [OF 1(2) this]
  have 2: "out = take m (take (2 ^ ?k) xs)" "holds ?k (drop m (take (2 ^ ?k) xs)) r2" using assms(6) by auto
  have len: "length (drop m (take (2 ^ ?k) xs)) = n1 - m" by (simp add: 1(1))
  have take: "take (2 ^ ?k) xs = take n1 xs" by (simp add: 1(1) min_def)
  note L = holds_length [OF 2(2), unfolded len]
  have shape: "ring_shape ?k r2" using 2(2) by (simp add: holds_def system_parts fresh_system_def)
  note cap = ring_capacity(1) [OF shape]
  have order: "\<not> rb_head r2 < rb_tail r2" "rb_tail r2 \<le> rb_head r2" using L by (simp_all add: word_less_nat_alt word_le_nat_alt)
  have diff: "unat (rb_head r2 - rb_tail r2) = n1 - m" using L by (simp add: unat_sub word_le_nat_alt)
  have "ring_Len (rb_head r2) (rb_tail r2) (rb_cap r2) = n1 - m"
    using L order diff cap by (simp add: ring_Len_def Let_def word_less_nat_alt)
  moreover have "IsEmpty (rb_head r2) (rb_tail r2) = (n1 \<le> m)"
    using L by (auto simp: IsEmpty_def word_unat_eq_iff)
  moreover have "IsFull (rb_head r2) (rb_tail r2) (rb_cap r2) = (n1 - m = 2 ^ ?k)"
    using L order(2) diff cap by (auto simp: IsFull_def word_le_nat_alt)
  ultimately show ?thesis
    using 1(1) 2(1) take rounded_bounds [of capacity] assms(2) by simp
qed

text \<open>C34: a ring of one slot is broken. \<open>NewRingBuffer(1)\<close> succeeds, but the sequence number of a published
  slot is then also that of the next free position: a second push is accepted and overwrites the first
  item, and from then on a pop, even alone, reloads its position for ever and never returns.\<close>

theorem ring_of_one_breaks:
  "\<exists>r r1 r2. NewRingBuffer (\<lambda>n. True) zero 1 = Inr r \<and> TryPush x r = (True, r1) \<and> TryPush y r1 = (True, r2) \<and>
    map rc_val (rb_cells r2) = [y] \<and> (\<forall>m. \<not> at_rest (fst (snd (solo m r2 PopLoad))))"
proof -
  define ring where "ring c s v = \<lparr>rb_cap = 1, rb_mask = 0, rb_head = c, rb_tail = 0,
    rb_cells = [\<lparr>rc_seq = s, rc_val = v\<rparr>]\<rparr>" for c s and v :: 'a
  have new: "NewRingBuffer (\<lambda>n. True) zero 1 = Inr (ring 0 0 zero)"
    by (simp add: NewRingBuffer_def bits_Len64.simps ring_def)
  have push: "TryPush v (ring w w u) = (True, ring (w + 1) (w + 1) v)" for u v w
    by (simp add: TryPush_def solo_numeral pc_rules ring_def load_seq_def store_seq_def store_val_def slot_def)
  have spin: "thread_step (ring 2 2 y) PopLoad = (ring 2 2 y, PopSeq 0, None)"
    "thread_step (ring 2 2 y) (PopSeq 0) = (ring 2 2 y, PopLoad, None)"
    by (simp_all add: pc_rules ring_def load_seq_def slot_def)
  have moving: "\<not> at_rest (PopLoad :: 'a pc)" "\<not> at_rest (PopSeq 0 :: 'a pc)" by (simp_all add: at_rest_def)
  have stuck: "fst (snd (solo m (ring 2 2 y) PopLoad)) \<in> {PopLoad, PopSeq 0} \<and>
      fst (snd (solo m (ring 2 2 y) (PopSeq 0))) \<in> {PopLoad, PopSeq 0}" for m
    by (induction m) (auto simp: spin moving split: prod.splits)
  have "\<not> at_rest (fst (snd (solo m (ring 2 2 y) PopLoad)))" for m
    using stuck [of m] moving by auto
  moreover have "map rc_val (rb_cells (ring 2 2 y)) = [y]" by (simp add: ring_def)
  ultimately show ?thesis using new push [of x 0 zero] push [of y 1 x] by auto
qed

subsection \<open>Witnesses\<close>

definition demo_ring :: "nat RingBuffer" where
  "demo_ring = \<lparr>rb_cap = 2, rb_mask = 1, rb_head = 0, rb_tail = 0,
     rb_cells = [\<lparr>rc_seq = 0, rc_val = 0\<rparr>, \<lparr>rc_seq = 1, rc_val = 0\<rparr>]\<rparr>"

lemma demo_ring_new: "NewRingBuffer (\<lambda>n. True) 0 2 = Inr demo_ring" "rounded 2 = 1"
proof -
  have "bits_Len64 1 = 1" by (subst bits_Len64.simps, subst bits_Len64.simps) simp
  moreover have "[0..<2] = [0, 1 :: nat]" by code_simp
  ultimately show "NewRingBuffer (\<lambda>n. True) 0 2 = Inr demo_ring" "rounded 2 = 1"
    by (simp_all add: NewRingBuffer_def rounded_def demo_ring_def)
qed

text \<open>A thread stops after it has claimed its slot; the other threads find the ring busy.\<close>

lemma demo_ring_run:
  "\<exists>s. ring_run (fresh_system demo_ring) [(0, Pushed 7)] s \<and> rs_threads s 1 = PopLoad"
proof -
  define sys where "sys r pc qc = \<lparr>rs_ring = r, rs_threads = (\<lambda>i. Idle)(0 := pc, 1 := qc)\<rparr>" for r :: "nat RingBuffer" and pc qc
  have "ring_run (fresh_system demo_ring) [] (sys demo_ring (PushLoad 7) Idle)"
    using more [OF start call_push [where i = 0 and x = 7], of "fresh_system demo_ring"]
    by (simp add: sys_def fresh_system_def at_rest_def fun_upd_idem)
  note more [OF this move [where i = 0]]
  then have "ring_run (fresh_system demo_ring) [] (sys demo_ring (PushSeq 7 0) Idle)"
    by (simp add: sys_def pc_rules demo_ring_def fun_upd_twist)
  note more [OF this move [where i = 0]]
  then have "ring_run (fresh_system demo_ring) [] (sys demo_ring (PushCas 7 0) Idle)"
    by (simp add: sys_def pc_rules demo_ring_def load_seq_def slot_def fun_upd_twist)
  note more [OF this move [where i = 0]]
  then have "ring_run (fresh_system demo_ring) [(0, Pushed 7)] (sys (demo_ring\<lparr>rb_head := 1\<rparr>) (PushWrite 7 0) Idle)"
    by (simp add: sys_def pc_rules demo_ring_def fun_upd_twist)
  from more [OF this call_pop [where i = 1]]
  have "ring_run (fresh_system demo_ring) [(0, Pushed 7)] (sys (demo_ring\<lparr>rb_head := 1\<rparr>) (PushWrite 7 0) PopLoad)"
    by (simp add: sys_def at_rest_def)
  then show ?thesis by (auto simp: sys_def)
qed

lemma ring_refines_queue_witness:
  "\<exists>s a. ring_run (fresh_system demo_ring) [(0, Pushed 7)] s \<and> spec_run 2 [(0, Pushed 7)] empty_queue = Some a \<and> represents 1 s a"
proof -
  obtain s where s: "ring_run (fresh_system demo_ring) [(0, Pushed 7)] s" using demo_ring_run by blast
  have "\<exists>a. spec_run (2 ^ rounded 2) [(0, Pushed 7)] empty_queue = Some a \<and> represents (rounded 2) s a \<and>
      length (qs_items a) = unat (rb_head (rs_ring s)) - unat (rb_tail (rs_ring s))"
    by (rule ring_refines_queue [OF demo_ring_new(1) _ _ s]) (simp_all add: pushes_def)
  with s show ?thesis by (auto simp: demo_ring_new(2) simp del: spec_run.simps)
qed


lemma ring_batches_witness:
  "fst (PushBatch [5, 6, 7] demo_ring) = 2 \<and> fst (PopBatch 1 (snd (PushBatch [5, 6, 7] demo_ring))) = [5]"
proof -
  obtain n1 r1 where 1: "PushBatch [5, 6, 7] demo_ring = (n1, r1)" by (cases "PushBatch [5, 6, 7] demo_ring")
  obtain out r2 where 2: "PopBatch 1 r1 = (out, r2)" by (cases "PopBatch 1 r1")
  from ring_batches [OF demo_ring_new(1) _ _ _ 1 2] have "n1 = 2 \<and> out = take 1 (take n1 [5, 6, 7])"
    by (simp add: demo_ring_new(2) min_def)
  with 1 2 show ?thesis by simp
qed

end
