(* ===== verification/Short_Link.thy ===== *)
theory Short_Link
  imports Postgres
begin

text \<open>
  Short links: \<open>internal/domain/shortlink/types.go\<close>, the service \<open>internal/shortlinksvc\<close> and the
  tables of \<open>internal/shortlinkpg/repository.go\<close> for links, secrets and scan events.

  \<^item> The tables are the lists of their rows. \<open>lk_reads\<close> and \<open>lk_admits\<close> of a session tell whether
    the database answers queries and accepts what a statement writes; the primary key of links and the
    unique index on custom domains are written out. A failing statement leaves the tables as they were.
  \<^item> HMAC-SHA256 is the argument \<open>mac\<close> with the key first; the random bytes of an attempt are \<open>rnd\<close>.
  \<^item> The organization column, which no statement here names, is one and the same for all rows. Rows that
    an \<open>ORDER BY\<close> finds equal come in the reverse order of their inserts. Deleting a link deletes its
    scan events.
  \<^item> What the service starts in the background (counting a scan) is an operation of its own here.
\<close>

subsection \<open>Data\<close>

datatype link_error =
    LkNotFound | LkRevoked | LkExpired | LkCodeCollision | LkHMACRequired | LkInvalidHMAC | LkSecretRef | LkDatabase
  | LkNoWebhook | LkDelivery string | LkCSV string

record ShortLink =
  sl_Code :: string
  sl_TargetURL :: string
  sl_CreatedAt :: gotime
  sl_ExpiresAt :: "gotime option"
  sl_RevokedAt :: "gotime option"
  sl_ScanCount :: int64
  sl_WebhookURL :: "string option"
  sl_CustomDomain :: "string option"
  sl_HMACSecretRef :: "string option"
  sl_HMACAlgorithm :: "string option"
  sl_HMACSignature :: "string option"

record HMACSecret =
  hs_TenantID :: string
  hs_Version :: int
  hs_Secret :: string
  hs_Algorithm :: string
  hs_CreatedAt :: gotime
  hs_RevokedAt :: "gotime option"

record ScanEvent =
  se_ShortLinkCode :: string
  se_Timestamp :: gotime
  se_IP :: string
  se_Country :: string
  se_Region :: string
  se_City :: string
  se_DeviceType :: string
  se_OS :: string
  se_Browser :: string
  se_Referrer :: string
  se_UTMSource :: string
  se_UTMMedium :: string
  se_UTMCampaign :: string
  se_UTMTerm :: string
  se_UTMContent :: string

record CreateRequest =
  rq_TargetURL :: string
  rq_TTL :: duration
  rq_WebhookURL :: "string option"
  rq_CustomDomain :: "string option"
  rq_HMACSecretRef :: "string option"
  rq_HMACAlgorithm :: "string option"

record LinkStore =
  ls_links :: "ShortLink list"
  ls_secrets :: "HMACSecret list"
  ls_events :: "ScanEvent list"

record link_session =
  lk_reads :: bool
  lk_admits :: "LinkStore \<Rightarrow> bool"

type_synonym hmac = "string \<Rightarrow> string \<Rightarrow> bytes"

definition link_commit :: "link_session \<Rightarrow> LinkStore \<Rightarrow> LinkStore \<Rightarrow> 'a \<Rightarrow> (link_error + 'a) \<times> LinkStore" where
  "link_commit sn old new x = (if lk_admits sn new then (Inr x, new) else (Inl LkDatabase, old))"

subsection \<open>Codes\<close>

definition b64_digit :: "nat \<Rightarrow> char" where
  "b64_digit d = char_of (if d < 26 then 65 + d else if d < 52 then 71 + d else if d < 62 then d - 4
     else if d = 62 then 45 else 95)"

text \<open>\<open>base64.RawURLEncoding\<close>.\<close>

fun b64_raw :: "bytes \<Rightarrow> string" where
  "b64_raw [] = []"
| "b64_raw [a] = (let x = of_char a in [b64_digit (x div 4), b64_digit (16 * (x mod 4))])"
| "b64_raw [a, b] =
     (let x = of_char a; y = of_char b in
      [b64_digit (x div 4), b64_digit (16 * (x mod 4) + y div 16), b64_digit (4 * (y mod 16))])"
| "b64_raw (a # b # c # rest) =
     (let x = of_char a; y = of_char b; z = of_char c in
      [b64_digit (x div 4), b64_digit (16 * (x mod 4) + y div 16), b64_digit (4 * (y mod 16) + z div 64), b64_digit (z mod 64)]
        @ b64_raw rest)"

text \<open>\<open>generateCode\<close> reads \<open>code_bytes length\<close> random bytes.\<close>

definition code_bytes :: "nat \<Rightarrow> nat" where
  "code_bytes len = (len * 3 + 3) div 4"

definition generateCode :: "nat \<Rightarrow> bytes \<Rightarrow> string" where
  "generateCode len bs = take len (b64_raw bs)"

definition signCode :: "hmac \<Rightarrow> string \<Rightarrow> string \<Rightarrow> string \<Rightarrow> string" where
  "signCode mac code secret algorithm = b64_raw (mac secret code)"

definition verifyCode :: "hmac \<Rightarrow> string \<Rightarrow> string \<Rightarrow> string \<Rightarrow> string \<Rightarrow> bool" where
  "verifyCode mac code signature secret algorithm \<longleftrightarrow> signCode mac code secret algorithm = signature"

text \<open>\<open>strings.SplitN(s, sep, 2)\<close> for a separator of one character.\<close>

definition split_at :: "char \<Rightarrow> string \<Rightarrow> (string \<times> string) option" where
  "split_at c s = (if c \<in> set s then Some (takeWhile (\<lambda>x. x \<noteq> c) s, tl (dropWhile (\<lambda>x. x \<noteq> c) s)) else None)"

definition splitCode :: "string \<Rightarrow> string \<times> string" where
  "splitCode code = (case split_at (CHR ''.'') code of Some p \<Rightarrow> p | None \<Rightarrow> (code, []))"

subsection \<open>Repository: links\<close>

definition repo_Create :: "link_session \<Rightarrow> gotime \<Rightarrow> ShortLink \<Rightarrow> LinkStore \<Rightarrow> (link_error + unit) \<times> LinkStore" where
  "repo_Create sn now l s =
     (let row = l\<lparr>sl_CreatedAt := pg_time now, sl_ExpiresAt := map_option pg_time (sl_ExpiresAt l), sl_RevokedAt := None,
            sl_ScanCount := 0\<rparr> in
      if list_ex (\<lambda>r. sl_Code r = sl_Code l) (ls_links s) then (Inl LkCodeCollision, s)
      else if sl_CustomDomain l \<noteq> None \<and> list_ex (\<lambda>r. sl_CustomDomain r = sl_CustomDomain l) (ls_links s)
      then (Inl LkDatabase, s)
      else link_commit sn s (s\<lparr>ls_links := ls_links s @ [row]\<rparr>) ())"

definition repo_Get :: "link_session \<Rightarrow> string \<Rightarrow> LinkStore \<Rightarrow> link_error + ShortLink" where
  "repo_Get sn code s =
     (if \<not> lk_reads sn then Inl LkDatabase
      else case List.find (\<lambda>l. sl_Code l = code) (ls_links s) of None \<Rightarrow> Inl LkNotFound | Some l \<Rightarrow> Inr l)"

definition update_links :: "link_session \<Rightarrow> (ShortLink \<Rightarrow> bool) \<Rightarrow> (ShortLink \<Rightarrow> ShortLink) \<Rightarrow> LinkStore \<Rightarrow>
    (link_error + unit) \<times> LinkStore" where
  "update_links sn hit f s = link_commit sn s (s\<lparr>ls_links := map (\<lambda>l. if hit l then f l else l) (ls_links s)\<rparr>) ()"

definition IncrementScanCount :: "link_session \<Rightarrow> string \<Rightarrow> LinkStore \<Rightarrow> (link_error + unit) \<times> LinkStore" where
  "IncrementScanCount sn code s =
     (if list_ex (\<lambda>l. sl_Code l = code \<and> sl_ScanCount l = max_int64) (ls_links s) then (Inl LkDatabase, s)
      else update_links sn (\<lambda>l. sl_Code l = code) (\<lambda>l. l\<lparr>sl_ScanCount := sl_ScanCount l + 1\<rparr>) s)"

definition repo_Revoke :: "link_session \<Rightarrow> gotime \<Rightarrow> string \<Rightarrow> LinkStore \<Rightarrow> (link_error + unit) \<times> LinkStore" where
  "repo_Revoke sn now code s =
     update_links sn (\<lambda>l. sl_Code l = code) (\<lambda>l. l\<lparr>sl_RevokedAt := Some (pg_time now)\<rparr>) s"

text \<open>The deletion takes the rows that expired first, up to its limit.\<close>

definition expired_before :: "gotime \<Rightarrow> ShortLink \<Rightarrow> bool" where
  "expired_before cutoff l \<longleftrightarrow> (case sl_ExpiresAt l of None \<Rightarrow> False | Some t \<Rightarrow> t < pg_time cutoff)"

definition DeleteExpiredShortLinks ::
    "link_session \<Rightarrow> gotime \<Rightarrow> duration \<Rightarrow> int64 \<Rightarrow> LinkStore \<Rightarrow> (link_error + int64) \<times> LinkStore" where
  "DeleteExpiredShortLinks sn now grace limit s =
     (let lim = (if limit \<le> 0 \<or> 10000 < limit then 1000 else limit);
          dead = take (nat lim) (sort_key (\<lambda>l. the (sl_ExpiresAt l)) (filter (expired_before (now - grace)) (ls_links s)));
          codes = map sl_Code dead in
      link_commit sn s (s\<lparr>ls_links := filter (\<lambda>l. sl_Code l \<notin> set codes) (ls_links s),
        ls_events := filter (\<lambda>e. se_ShortLinkCode e \<notin> set codes) (ls_events s)\<rparr>) (int (length dead)))"

definition repo_List :: "link_session \<Rightarrow> int64 \<Rightarrow> int64 \<Rightarrow> LinkStore \<Rightarrow> link_error + ShortLink list" where
  "repo_List sn limit offset s =
     (let lim = (if limit \<le> 0 \<or> 10000 < limit then 50 else limit); off = max offset 0 in
      if \<not> lk_reads sn then Inl LkDatabase
      else Inr (take (nat lim) (drop (nat off) (rev (sort_key sl_CreatedAt (ls_links s))))))"

definition GetByCodes :: "link_session \<Rightarrow> string list \<Rightarrow> LinkStore \<Rightarrow> link_error + ShortLink list" where
  "GetByCodes sn codes s =
     (if codes = [] then Inr []
      else if \<not> lk_reads sn then Inl LkDatabase
      else Inr (filter (\<lambda>l. sl_Code l \<in> set codes) (ls_links s)))"

subsection \<open>Repository: secrets\<close>

definition repo_GetHMACSecret :: "link_session \<Rightarrow> string \<Rightarrow> int \<Rightarrow> LinkStore \<Rightarrow> link_error + HMACSecret" where
  "repo_GetHMACSecret sn tenantID version s =
     (if \<not> lk_reads sn then Inl LkDatabase
      else case List.find (\<lambda>h. hs_TenantID h = tenantID \<and> hs_Version h = version) (ls_secrets s) of
        None \<Rightarrow> Inl LkNotFound
      | Some h \<Rightarrow> Inr h)"

definition secret_active :: "gotime \<Rightarrow> HMACSecret \<Rightarrow> bool" where
  "secret_active now h \<longleftrightarrow> (case hs_RevokedAt h of None \<Rightarrow> True | Some t \<Rightarrow> pg_time now < t)"

definition GetActiveHMACSecret :: "link_session \<Rightarrow> gotime \<Rightarrow> string \<Rightarrow> LinkStore \<Rightarrow> link_error + HMACSecret" where
  "GetActiveHMACSecret sn now tenantID s =
     (if \<not> lk_reads sn then Inl LkDatabase
      else case rev (sort_key hs_Version (filter (\<lambda>h. hs_TenantID h = tenantID \<and> secret_active now h) (ls_secrets s))) of
        [] \<Rightarrow> Inl LkNotFound
      | h # _ \<Rightarrow> Inr h)"

text \<open>The insert does not name the version, whose default is 1; version and tenant are unique.\<close>

definition CreateHMACSecret ::
    "link_session \<Rightarrow> gotime \<Rightarrow> string \<Rightarrow> string \<Rightarrow> string \<Rightarrow> LinkStore \<Rightarrow> (link_error + HMACSecret) \<times> LinkStore" where
  "CreateHMACSecret sn now tenantID secret algorithm s =
     (let h = \<lparr>hs_TenantID = tenantID, hs_Version = 1, hs_Secret = secret,
            hs_Algorithm = (if algorithm = [] then ''HS256'' else algorithm), hs_CreatedAt = pg_time now, hs_RevokedAt = None\<rparr> in
      if list_ex (\<lambda>r. hs_TenantID r = tenantID \<and> hs_Version r = 1) (ls_secrets s) then (Inl LkDatabase, s)
      else link_commit sn s (s\<lparr>ls_secrets := ls_secrets s @ [h]\<rparr>) h)"

definition RevokeHMACSecret ::
    "link_session \<Rightarrow> gotime \<Rightarrow> string \<Rightarrow> int \<Rightarrow> LinkStore \<Rightarrow> (link_error + unit) \<times> LinkStore" where
  "RevokeHMACSecret sn now tenantID version s =
     link_commit sn s (s\<lparr>ls_secrets := map (\<lambda>h. if hs_TenantID h = tenantID \<and> hs_Version h = version
       then h\<lparr>hs_RevokedAt := Some (pg_time now)\<rparr> else h) (ls_secrets s)\<rparr>) ()"

definition ListHMACSecrets :: "link_session \<Rightarrow> string \<Rightarrow> LinkStore \<Rightarrow> link_error + HMACSecret list" where
  "ListHMACSecrets sn tenantID s =
     (if \<not> lk_reads sn then Inl LkDatabase
      else Inr (rev (sort_key hs_Version (filter (\<lambda>h. hs_TenantID h = tenantID) (ls_secrets s)))))"

subsection \<open>Service\<close>

text \<open>\<open>fmt.Sscanf\<close> with the verb \<open>d\<close>: leading spaces, a sign and the digits; what does not read as a
  64-bit integer leaves the variable at 0.\<close>

definition scan_int :: "string \<Rightarrow> int" where
  "scan_int s =
     (let t = dropWhile (\<lambda>c. c = CHR '' '' \<or> c = CHR 0x09) s;
          neg = (t \<noteq> [] \<and> hd t = CHR ''-'');
          u = (if t \<noteq> [] \<and> hd t \<in> {CHR ''-'', CHR ''+''} then tl t else t);
          v = foldl (\<lambda>n d. 10 * n + (of_char d - 48)) (0 :: int) (takeWhile is_digit u);
          n = (if neg then - v else v) in
      if in_int64 n then n else 0)"

definition getHMACSecret :: "link_session \<Rightarrow> gotime \<Rightarrow> string \<Rightarrow> LinkStore \<Rightarrow> link_error + string" where
  "getHMACSecret sn now ref s =
     (case split_at (CHR '':'') ref of
        None \<Rightarrow> Inl LkSecretRef
      | Some (tenantID, v) \<Rightarrow>
          let version = (if v = ''latest'' then 0 else scan_int v) in
          case (if 0 < version then repo_GetHMACSecret sn tenantID version s else GetActiveHMACSecret sn now tenantID s) of
            Inl e \<Rightarrow> Inl e
          | Inr h \<Rightarrow> Inr (hs_Secret h))"

text \<open>The secret reference that a link is created with: the one of the request, else the service's.\<close>

definition effective_ref :: "string \<Rightarrow> CreateRequest \<Rightarrow> string option" where
  "effective_ref defaultHMAC req =
     (case rq_HMACSecretRef req of
        Some r \<Rightarrow> if r \<noteq> [] then Some r else if defaultHMAC \<noteq> [] then Some defaultHMAC else None
      | None \<Rightarrow> if defaultHMAC \<noteq> [] then Some defaultHMAC else None)"

definition effective_algorithm :: "CreateRequest \<Rightarrow> string" where
  "effective_algorithm req = (case rq_HMACAlgorithm req of Some a \<Rightarrow> if a \<noteq> [] then a else ''HS256'' | None \<Rightarrow> ''HS256'')"

definition new_link :: "hmac \<Rightarrow> string \<Rightarrow> gotime \<Rightarrow> CreateRequest \<Rightarrow> string \<Rightarrow> ShortLink" where
  "new_link mac defaultHMAC now req code =
     \<lparr>sl_Code = code, sl_TargetURL = rq_TargetURL req, sl_CreatedAt = now,
      sl_ExpiresAt = (if 0 < rq_TTL req then Some (now + rq_TTL req) else None), sl_RevokedAt = None, sl_ScanCount = 0,
      sl_WebhookURL = rq_WebhookURL req, sl_CustomDomain = rq_CustomDomain req,
      sl_HMACSecretRef = effective_ref defaultHMAC req, sl_HMACAlgorithm = Some (effective_algorithm req),
      sl_HMACSignature = map_option (\<lambda>r. signCode mac code r (effective_algorithm req)) (effective_ref defaultHMAC req)\<rparr>"

text \<open>The attempts to find a free code; each has its own random bytes.\<close>

fun create_loop ::
    "link_session \<Rightarrow> hmac \<Rightarrow> nat \<Rightarrow> string \<Rightarrow> gotime \<Rightarrow> CreateRequest \<Rightarrow> bytes list \<Rightarrow> LinkStore \<Rightarrow> (link_error + string) \<times> LinkStore" where
  "create_loop sn mac codeLen defaultHMAC now req [] s = (Inl LkCodeCollision, s)"
| "create_loop sn mac codeLen defaultHMAC now req (bs # rest) s =
     (let code = generateCode codeLen bs; l = new_link mac defaultHMAC now req code in
      case repo_Create sn now l s of
        (Inr _, s') \<Rightarrow> (Inr (case sl_HMACSignature l of Some sig \<Rightarrow> code @ ''.'' @ sig | None \<Rightarrow> code), s')
      | (Inl e, s') \<Rightarrow> if e = LkCodeCollision then create_loop sn mac codeLen defaultHMAC now req rest s' else (Inl e, s'))"

definition CreateShortLink ::
    "link_session \<Rightarrow> hmac \<Rightarrow> nat \<Rightarrow> string \<Rightarrow> gotime \<Rightarrow> (nat \<Rightarrow> bytes) \<Rightarrow> CreateRequest \<Rightarrow> LinkStore \<Rightarrow>
     (link_error + string) \<times> LinkStore" where
  "CreateShortLink sn mac codeLen defaultHMAC now rnd req s =
     create_loop sn mac codeLen defaultHMAC now req (map rnd [0..<5]) s"

definition signature_refusal ::
    "link_session \<Rightarrow> hmac \<Rightarrow> gotime \<Rightarrow> string \<Rightarrow> string \<Rightarrow> ShortLink \<Rightarrow> LinkStore \<Rightarrow> link_error option" where
  "signature_refusal sn mac now baseCode signature sl s =
     (case sl_HMACSecretRef sl of
        None \<Rightarrow> None
      | Some ref \<Rightarrow>
          if ref = [] then None
          else if signature = [] then Some LkHMACRequired
          else
            let algorithm = (case sl_HMACAlgorithm sl of Some a \<Rightarrow> if a \<noteq> [] then a else ''HS256'' | None \<Rightarrow> ''HS256'') in
            case getHMACSecret sn now ref s of
              Inl _ \<Rightarrow> Some LkInvalidHMAC
            | Inr secret \<Rightarrow> if verifyCode mac baseCode signature secret algorithm then None else Some LkInvalidHMAC)"

definition ResolveShortLink :: "link_session \<Rightarrow> hmac \<Rightarrow> gotime \<Rightarrow> string \<Rightarrow> LinkStore \<Rightarrow> link_error + string" where
  "ResolveShortLink sn mac now code s =
     (case splitCode code of (baseCode, signature) \<Rightarrow>
        case repo_Get sn baseCode s of
          Inl e \<Rightarrow> Inl e
        | Inr sl \<Rightarrow>
           (case signature_refusal sn mac now baseCode signature sl s of
              Some e \<Rightarrow> Inl e
            | None \<Rightarrow>
                if sl_RevokedAt sl \<noteq> None then Inl LkRevoked
                else case sl_ExpiresAt sl of
                  Some t \<Rightarrow> if t < now then Inl LkExpired else Inr (sl_TargetURL sl)
                | None \<Rightarrow> Inr (sl_TargetURL sl)))"

definition svc_List :: "link_session \<Rightarrow> int64 \<Rightarrow> int64 \<Rightarrow> LinkStore \<Rightarrow> link_error + ShortLink list" where
  "svc_List sn limit offset s =
     repo_List sn (if limit \<le> 0 \<or> 100 < limit then 50 else limit) (if offset < 0 then 0 else offset) s"

definition CleanupExpiredLinks :: "link_session \<Rightarrow> gotime \<Rightarrow> duration \<Rightarrow> int64 \<Rightarrow> LinkStore \<Rightarrow> (link_error + int64) \<times> LinkStore" where
  "CleanupExpiredLinks sn now grace limit s = DeleteExpiredShortLinks sn now grace limit s"

subsection \<open>Scans\<close>

definition contains :: "string \<Rightarrow> string \<Rightarrow> bool" where
  "contains s pat \<longleftrightarrow> list_ex (prefix pat) (suffixes s)"

text \<open>\<open>strings.ToLower\<close>, on the letters of ASCII.\<close>

definition lower :: "char \<Rightarrow> char" where
  "lower c = (let n = of_char c :: nat in if 65 \<le> n \<and> n \<le> 90 then char_of (n + 32) else c)"

definition ua_device :: "string \<Rightarrow> string" where
  "ua_device u =
     (if contains u ''mobile'' \<or> contains u ''android'' \<or> contains u ''iphone'' then ''Mobile''
      else if contains u ''tablet'' \<or> contains u ''ipad'' then ''Tablet''
      else ''Desktop'')"

definition ua_os :: "string \<Rightarrow> string" where
  "ua_os u =
     (if contains u ''windows'' then ''Windows''
      else if contains u ''macintosh'' \<or> contains u ''mac os'' then ''macOS''
      else if contains u ''linux'' then ''Linux''
      else if contains u ''android'' then ''Android''
      else if contains u ''iphone'' \<or> contains u ''ipad'' \<or> contains u ''ipod'' then ''iOS''
      else ''Unknown'')"

definition ua_browser :: "string \<Rightarrow> string" where
  "ua_browser u =
     (if contains u ''edg'' then ''Edge''
      else if contains u ''chrome'' \<and> \<not> contains u ''edg'' then ''Chrome''
      else if contains u ''firefox'' then ''Firefox''
      else if contains u ''safari'' \<and> \<not> contains u ''chrome'' then ''Safari''
      else if contains u ''opera'' \<or> contains u ''opr'' then ''Opera''
      else ''Unknown'')"

definition parseUserAgent :: "string \<Rightarrow> string \<times> string \<times> string" where
  "parseUserAgent ua =
     (if ua = [] then (''Unknown'', ''Unknown'', ''Unknown'')
      else let u = map lower ua in (ua_device u, ua_os u, ua_browser u))"

record ScanEventRequest =
  sr_Code :: string
  sr_IP :: string
  sr_UserAgent :: string
  sr_Referrer :: string
  sr_UTMSource :: string
  sr_UTMMedium :: string
  sr_UTMCampaign :: string
  sr_UTMTerm :: string
  sr_UTMContent :: string

definition lookupGeoIP :: "string \<Rightarrow> string \<times> string \<times> string" where
  "lookupGeoIP ip = ([], [], [])"

definition scan_event :: "gotime \<Rightarrow> ScanEventRequest \<Rightarrow> ScanEvent" where
  "scan_event now req =
     (case parseUserAgent (sr_UserAgent req) of (device, os, browser) \<Rightarrow>
      case lookupGeoIP (sr_IP req) of (country, region, city) \<Rightarrow>
        \<lparr>se_ShortLinkCode = sr_Code req, se_Timestamp = now, se_IP = sr_IP req, se_Country = country, se_Region = region,
         se_City = city, se_DeviceType = device, se_OS = os, se_Browser = browser, se_Referrer = sr_Referrer req,
         se_UTMSource = sr_UTMSource req, se_UTMMedium = sr_UTMMedium req, se_UTMCampaign = sr_UTMCampaign req,
         se_UTMTerm = sr_UTMTerm req, se_UTMContent = sr_UTMContent req\<rparr>)"

definition RecordScanEvent :: "link_session \<Rightarrow> ScanEvent \<Rightarrow> LinkStore \<Rightarrow> (link_error + unit) \<times> LinkStore" where
  "RecordScanEvent sn e s =
     (if \<not> list_ex (\<lambda>l. sl_Code l = se_ShortLinkCode e) (ls_links s) then (Inl LkDatabase, s)
      else link_commit sn s (s\<lparr>ls_events := ls_events s @ [e\<lparr>se_Timestamp := pg_time (se_Timestamp e)\<rparr>]\<rparr>) ())"

text \<open>What \<open>RecordScan\<close> does to links and events; an error of one step does not keep the next from running.\<close>

definition RecordScan :: "link_session \<Rightarrow> gotime \<Rightarrow> ScanEventRequest \<Rightarrow> LinkStore \<Rightarrow> LinkStore" where
  "RecordScan sn now req s =
     (let s1 = snd (IncrementScanCount sn (sr_Code req) s) in snd (RecordScanEvent sn (scan_event now req) s1))"

definition GetScanEvents :: "link_session \<Rightarrow> string \<Rightarrow> int64 \<Rightarrow> int64 \<Rightarrow> LinkStore \<Rightarrow> link_error + ScanEvent list" where
  "GetScanEvents sn code limit offset s =
     (let lim = (if limit \<le> 0 \<or> 100 < limit then 50 else limit); off = (if offset < 0 then 0 else offset) in
      if \<not> lk_reads sn then Inl LkDatabase
      else Inr (take (nat lim) (drop (nat off)
        (rev (sort_key se_Timestamp (filter (\<lambda>e. se_ShortLinkCode e = code) (ls_events s)))))))"

text \<open>One dimension of the statistics: a row for each value, stored under its key or the fallback.\<close>

definition scanBreakdown :: "(ScanEvent \<Rightarrow> string) \<Rightarrow> string \<Rightarrow> ScanEvent list \<Rightarrow> string \<rightharpoonup> int64" where
  "scanBreakdown dim fallback es =
     map_of (rev (map (\<lambda>k. (if k = [] then fallback else k, int (length (filter (\<lambda>e. dim e = k) es)))) (remdups (map dim es))))"

record ScanStats =
  ss_TotalScans :: int64
  ss_UniqueIPs :: int64
  ss_Countries :: "string \<rightharpoonup> int64"
  ss_Devices :: "string \<rightharpoonup> int64"
  ss_Browsers :: "string \<rightharpoonup> int64"
  ss_Referrers :: "string \<rightharpoonup> int64"
  ss_UTMSources :: "string \<rightharpoonup> int64"
  ss_UTMMedia :: "string \<rightharpoonup> int64"
  ss_UTMCampaigns :: "string \<rightharpoonup> int64"

definition scans_of :: "string \<Rightarrow> gotime option \<Rightarrow> ScanEvent list \<Rightarrow> ScanEvent list" where
  "scans_of code since = filter (\<lambda>e. se_ShortLinkCode e = code \<and>
     (case since of None \<Rightarrow> True | Some t \<Rightarrow> pg_time t \<le> se_Timestamp e))"

definition GetScanStats :: "link_session \<Rightarrow> string \<Rightarrow> gotime option \<Rightarrow> LinkStore \<Rightarrow> link_error + ScanStats" where
  "GetScanStats sn code since s =
     (let es = scans_of code since (ls_events s);
          named = (\<lambda>dim. scanBreakdown dim [] (filter (\<lambda>e. dim e \<noteq> []) es)) in
      if \<not> lk_reads sn then Inl LkDatabase
      else Inr \<lparr>ss_TotalScans = int (length es), ss_UniqueIPs = int (length (remdups (map se_IP es))),
        ss_Countries = scanBreakdown se_Country ''Unknown'' es, ss_Devices = scanBreakdown se_DeviceType ''Unknown'' es,
        ss_Browsers = scanBreakdown se_Browser ''Unknown'' es, ss_Referrers = scanBreakdown se_Referrer ''Direct'' es,
        ss_UTMSources = named se_UTMSource, ss_UTMMedia = named se_UTMMedium, ss_UTMCampaigns = named se_UTMCampaign\<rparr>)"

subsection \<open>Bulk creation and export\<close>

text \<open>The links of an export, before they are written as CSV or JSON.\<close>

definition export_wanted :: "string \<Rightarrow> gotime option \<Rightarrow> gotime option \<Rightarrow> ShortLink \<Rightarrow> bool" where
  "export_wanted codePrefix createdAfter createdBefore l \<longleftrightarrow>
     (codePrefix = [] \<or> prefix codePrefix (sl_Code l)) \<and>
     (case createdAfter of None \<Rightarrow> True | Some t \<Rightarrow> \<not> sl_CreatedAt l < t) \<and>
     (case createdBefore of None \<Rightarrow> True | Some t \<Rightarrow> \<not> t < sl_CreatedAt l)"

definition export_links ::
    "link_session \<Rightarrow> string \<Rightarrow> gotime option \<Rightarrow> gotime option \<Rightarrow> LinkStore \<Rightarrow> link_error + ShortLink list" where
  "export_links sn codePrefix createdAfter createdBefore s =
     (case repo_List sn 10000 0 s of
        Inl e \<Rightarrow> Inl e
      | Inr ls \<Rightarrow> Inr (filter (export_wanted codePrefix createdAfter createdBefore) ls))"

record BulkCreateItem =
  bi_TargetURL :: string
  bi_TTL :: duration
  bi_WebhookURL :: "string option"
  bi_CustomDomain :: "string option"

record BulkResult =
  br_Code :: string
  br_ShortURL :: string
  br_TargetURL :: string
  br_Error :: "link_error option"

record BulkCreateResponse =
  bc_Created :: int64
  bc_Failed :: int64
  bc_Results :: "BulkResult list"

definition item_request :: "BulkCreateItem \<Rightarrow> CreateRequest" where
  "item_request i = \<lparr>rq_TargetURL = bi_TargetURL i, rq_TTL = bi_TTL i, rq_WebhookURL = bi_WebhookURL i,
     rq_CustomDomain = bi_CustomDomain i, rq_HMACSecretRef = None, rq_HMACAlgorithm = None\<rparr>"

definition short_url :: "BulkCreateItem \<Rightarrow> string \<Rightarrow> string" where
  "short_url i code = (case bi_CustomDomain i of
     Some d \<Rightarrow> if d \<noteq> [] then ''https://'' @ d @ ''/'' @ code else ''/s/'' @ code
   | None \<Rightarrow> ''/s/'' @ code)"

text \<open>Every item has its own clock and random bytes.\<close>

fun bulk_loop ::
    "link_session \<Rightarrow> hmac \<Rightarrow> nat \<Rightarrow> string \<Rightarrow> (BulkCreateItem \<times> gotime \<times> (nat \<Rightarrow> bytes)) list \<Rightarrow> BulkCreateResponse \<Rightarrow> LinkStore \<Rightarrow>
     BulkCreateResponse \<times> LinkStore" where
  "bulk_loop sn mac codeLen defaultHMAC [] acc s = (acc, s)"
| "bulk_loop sn mac codeLen defaultHMAC ((i, now, rnd) # rest) acc s =
     (case CreateShortLink sn mac codeLen defaultHMAC now rnd (item_request i) s of
        (Inl e, s') \<Rightarrow> bulk_loop sn mac codeLen defaultHMAC rest
          (acc\<lparr>bc_Failed := bc_Failed acc + 1, bc_Results := bc_Results acc @
             [\<lparr>br_Code = [], br_ShortURL = [], br_TargetURL = bi_TargetURL i, br_Error = Some e\<rparr>]\<rparr>) s'
      | (Inr code, s') \<Rightarrow> bulk_loop sn mac codeLen defaultHMAC rest
          (acc\<lparr>bc_Results := bc_Results acc @
             [\<lparr>br_Code = code, br_ShortURL = short_url i code, br_TargetURL = bi_TargetURL i, br_Error = None\<rparr>]\<rparr>) s')"

definition BulkCreate ::
    "link_session \<Rightarrow> hmac \<Rightarrow> nat \<Rightarrow> string \<Rightarrow> (BulkCreateItem \<times> gotime \<times> (nat \<Rightarrow> bytes)) list \<Rightarrow> LinkStore \<Rightarrow>
     BulkCreateResponse \<times> LinkStore" where
  "BulkCreate sn mac codeLen defaultHMAC items s =
     bulk_loop sn mac codeLen defaultHMAC items \<lparr>bc_Created = 0, bc_Failed = 0, bc_Results = []\<rparr> s"

text \<open>
  The rows of an import, as \<open>encoding/csv\<close> reads them (every row as long as the header), with the
  function \<open>dur\<close> for \<open>time.ParseDuration\<close>. Of two columns of one name the last counts.
\<close>

definition column :: "string list \<Rightarrow> string \<Rightarrow> nat option" where
  "column header name = map_of (rev (zip header [0..<length header])) name"

definition cell :: "string list \<Rightarrow> string list \<Rightarrow> string \<Rightarrow> string option" where
  "cell header row name = (case column header name of
     Some i \<Rightarrow> if i < length row \<and> row ! i \<noteq> [] then Some (row ! i) else None
   | None \<Rightarrow> None)"

definition import_items :: "(string \<Rightarrow> duration option) \<Rightarrow> string list list \<Rightarrow> link_error + BulkCreateItem list" where
  "import_items dur records =
     (case records of
        header # row # rows \<Rightarrow>
          (case column header ''target_url'' of
             None \<Rightarrow> Inl (LkCSV ''required column missing: target_url'')
           | Some t \<Rightarrow> Inr (map (\<lambda>r. \<lparr>bi_TargetURL = r ! t,
               bi_TTL = (case cell header r ''ttl'' of Some v \<Rightarrow> (case dur v of Some d \<Rightarrow> d | None \<Rightarrow> 0) | None \<Rightarrow> 0),
               bi_WebhookURL = cell header r ''webhook_url'', bi_CustomDomain = cell header r ''custom_domain''\<rparr>)
               (filter (\<lambda>r. t < length r) (row # rows))))
      | _ \<Rightarrow> Inl (LkCSV ''CSV must have header and at least one data row''))"

end
