(* ===== verification/Link_Guarantees.thy ===== *)
theory Link_Guarantees
  imports Short_Link
begin

text \<open>
  What short links promise: a link leads to its target until it is revoked or expires, whatever else the
  service does; a revoked link never resolves again; a code has the length asked for and no dot. And
  what they do not: a link created with a secret resolves only by a collision of its signatures, and a
  bulk creation reports that it created nothing.
\<close>

subsection \<open>Codes\<close>

lemma b64_digit_no_dot [simp]: "b64_digit d \<noteq> CHR ''.''"
proof
  assume "b64_digit d = CHR ''.''"
  then have "(of_char (b64_digit d) :: nat) = 46" by simp
  then show False by (simp add: b64_digit_def split: if_split_asm)
qed

lemma b64_raw_no_dot: "CHR ''.'' \<notin> set (b64_raw bs)"
  by (induction bs rule: b64_raw.induct) (simp_all add: Let_def b64_digit_no_dot [symmetric])

lemma b64_raw_length: "4 * length bs \<le> 3 * length (b64_raw bs)"
  by (induction bs rule: b64_raw.induct) (simp_all add: Let_def)

lemma code_no_dot: "CHR ''.'' \<notin> set (generateCode len bs)"
  using b64_raw_no_dot in_set_takeD unfolding generateCode_def by metis

lemma code_length: "length bs = code_bytes len \<Longrightarrow> length (generateCode len bs) = len"
  using b64_raw_length [of bs] by (simp add: generateCode_def code_bytes_def)

lemma split_signed: "CHR ''.'' \<notin> set code \<Longrightarrow> splitCode (code @ ''.'' @ sig) = (code, sig)"
  by (induction code) (auto simp: splitCode_def split_at_def)

lemma split_plain: "CHR ''.'' \<notin> set code \<Longrightarrow> splitCode code = (code, [])"
  by (simp add: splitCode_def split_at_def)

subsection \<open>Creation\<close>

text \<open>A creation that succeeds has stored the link of one of its codes.\<close>

lemma create_loop_stores:
  "create_loop sn mac codeLen d now req rs s = (Inr token, s') \<Longrightarrow>
   \<exists>bs \<in> set rs. repo_Create sn now (new_link mac d now req (generateCode codeLen bs)) s = (Inr (), s') \<and>
     token = (case effective_ref d req of
       Some r \<Rightarrow> generateCode codeLen bs @ ''.'' @ signCode mac (generateCode codeLen bs) r (effective_algorithm req)
     | None \<Rightarrow> generateCode codeLen bs)"
proof (induction rs arbitrary: s)
  case Nil
  then show ?case by simp
next
  case (Cons bs rs)
  let ?code = "generateCode codeLen bs"
  obtain r t where r: "repo_Create sn now (new_link mac d now req ?code) s = (r, t)"
    by (cases "repo_Create sn now (new_link mac d now req ?code) s")
  show ?case
  proof (cases r)
    case (Inr u)
    then show ?thesis using Cons.prems r by (auto simp: Let_def new_link_def split: option.splits)
  next
    case (Inl e)
    have same: "t = s" using r Inl by (auto simp: repo_Create_def link_commit_def Let_def split: if_split_asm)
    have "e = LkCodeCollision" using Cons.prems r Inl by (simp add: Let_def split: if_split_asm)
    then have "create_loop sn mac codeLen d now req rs s = (Inr token, s')"
      using Cons.prems r Inl same by (simp add: Let_def)
    with Cons.IH show ?thesis by fastforce
  qed
qed

definition link_row :: "gotime \<Rightarrow> ShortLink \<Rightarrow> ShortLink" where
  "link_row now l = l\<lparr>sl_CreatedAt := pg_time now, sl_ExpiresAt := map_option pg_time (sl_ExpiresAt l), sl_RevokedAt := None,
     sl_ScanCount := 0\<rparr>"

lemma repo_Create_Inr:
  "repo_Create sn now l s = (Inr u, s') \<Longrightarrow>
    s' = s\<lparr>ls_links := ls_links s @ [link_row now l]\<rparr> \<and> sl_Code l \<notin> sl_Code ` set (ls_links s)"
  by (auto simp: repo_Create_def link_commit_def link_row_def Let_def list_ex_iff split: if_split_asm)

lemma create_stores:
  assumes "CreateShortLink sn mac codeLen d now rnd req s = (Inr token, s')"
  obtains code where "CHR ''.'' \<notin> set code" "sl_Code ` set (ls_links s') = insert code (sl_Code ` set (ls_links s))"
    "s' = s\<lparr>ls_links := ls_links s @ [link_row now (new_link mac d now req code)]\<rparr>" "code \<notin> sl_Code ` set (ls_links s)"
    "token = (case effective_ref d req of Some r \<Rightarrow> code @ ''.'' @ signCode mac code r (effective_algorithm req) | None \<Rightarrow> code)"
    "\<exists>bs. code = generateCode codeLen bs"
proof -
  obtain bs where bs:
    "repo_Create sn now (new_link mac d now req (generateCode codeLen bs)) s = (Inr (), s')"
    "token = (case effective_ref d req of
       Some r \<Rightarrow> generateCode codeLen bs @ ''.'' @ signCode mac (generateCode codeLen bs) r (effective_algorithm req)
     | None \<Rightarrow> generateCode codeLen bs)"
    using create_loop_stores [OF assms [unfolded CreateShortLink_def]] by blast
  note row = repo_Create_Inr [OF bs(1)]
  show ?thesis
  proof (rule that [of "generateCode codeLen bs"])
    show "sl_Code ` set (ls_links s') = insert (generateCode codeLen bs) (sl_Code ` set (ls_links s))"
      using row by (simp add: link_row_def new_link_def)
  qed (use row bs(2) code_no_dot in \<open>auto simp: new_link_def\<close>)
qed

text \<open>A link that is created with a secret does not resolve. The code is signed with the text of the
  secret reference, but checked with the secret that the reference names. Whatever happens to the
  tables in between, if the token that the creation returned resolves at all, then the secret found
  under the reference gives the code the same signature as the reference itself; a reference without
  a colon, the service's default among them, never resolves.\<close>

theorem signed_link_unresolvable:
  assumes "CreateShortLink sn mac codeLen d now rnd req s = (Inr token, s')" and "effective_ref d req = Some ref" and "ref \<noteq> []"
    and "\<forall>l \<in> set (ls_links t). \<forall>l' \<in> set (ls_links s'). sl_Code l = sl_Code l' \<longrightarrow> sl_HMACSecretRef l = sl_HMACSecretRef l'"
    and "ResolveShortLink sn' mac now' token t = Inr url"
  shows "\<exists>code secret. getHMACSecret sn' now' ref t = Inr secret \<and> b64_raw (mac secret code) = b64_raw (mac ref code) \<and>
    CHR '':'' \<in> set ref"
proof -
  from assms(1) obtain code where code: "CHR ''.'' \<notin> set code"
    "s' = s\<lparr>ls_links := ls_links s @ [link_row now (new_link mac d now req code)]\<rparr>"
    "token = code @ ''.'' @ signCode mac code ref (effective_algorithm req)"
    by (rule create_stores) (use assms(2) in auto)
  note split = split_signed [OF code(1)]
  from assms(5) obtain l where get: "repo_Get sn' code t = Inr l"
    unfolding ResolveShortLink_def code(3) split by (auto split: sum.splits)
  then have l: "l \<in> set (ls_links t)" "sl_Code l = code"
    by (auto simp: repo_Get_def find_Some_iff split: option.splits if_split_asm)
  have "link_row now (new_link mac d now req code) \<in> set (ls_links s')" by (simp add: code(2))
  then have "sl_HMACSecretRef l = Some ref"
    using assms(4) l by (simp add: link_row_def new_link_def assms(2))
  moreover have "signature_refusal sn' mac now' code (signCode mac code ref (effective_algorithm req)) l t = None"
    using assms(5) get unfolding ResolveShortLink_def code(3) split by (auto split: option.splits)
  ultimately obtain secret where "getHMACSecret sn' now' ref t = Inr secret"
    "b64_raw (mac secret code) = b64_raw (mac ref code)"
    using assms(3) by (auto simp: signature_refusal_def verifyCode_def signCode_def Let_def split: sum.splits if_split_asm)
  moreover have "CHR '':'' \<in> set ref"
    using \<open>getHMACSecret sn' now' ref t = Inr secret\<close> by (auto simp: getHMACSecret_def split_at_def split: if_split_asm)
  ultimately show ?thesis by blast
qed

subsection \<open>Runs\<close>

datatype link_op =
    LCreate link_session hmac nat string gotime "nat \<Rightarrow> bytes" CreateRequest
  | LCount link_session string
  | LRevoke link_session gotime string
  | LScan link_session gotime ScanEventRequest
  | LCleanup link_session gotime duration int64
  | LSecret link_session gotime string string string
  | LDropSecret link_session gotime string int

primrec link_next :: "link_op \<Rightarrow> LinkStore \<Rightarrow> LinkStore" where
  "link_next (LCreate sn mac codeLen d now rnd req) s = snd (CreateShortLink sn mac codeLen d now rnd req s)"
| "link_next (LCount sn code) s = snd (IncrementScanCount sn code s)"
| "link_next (LRevoke sn now code) s = snd (repo_Revoke sn now code s)"
| "link_next (LScan sn now req) s = RecordScan sn now req s"
| "link_next (LCleanup sn now grace limit) s = snd (CleanupExpiredLinks sn now grace limit s)"
| "link_next (LSecret sn now tenantID secret alg) s = snd (CreateHMACSecret sn now tenantID secret alg s)"
| "link_next (LDropSecret sn now tenantID version) s = snd (RevokeHMACSecret sn now tenantID version s)"

definition links_ok :: "LinkStore \<Rightarrow> bool" where
  "links_ok s \<longleftrightarrow> distinct (map sl_Code (ls_links s))"

text \<open>What a link keeps.\<close>

definition same_link :: "ShortLink \<Rightarrow> ShortLink \<Rightarrow> bool" where
  "same_link l l' \<longleftrightarrow> l' = l\<lparr>sl_RevokedAt := sl_RevokedAt l', sl_ScanCount := sl_ScanCount l'\<rparr> \<and>
     (sl_RevokedAt l \<noteq> None \<longrightarrow> sl_RevokedAt l' \<noteq> None)"

lemma same_link_fields:
  assumes "same_link l l'"
  shows "sl_Code l' = sl_Code l" "sl_TargetURL l' = sl_TargetURL l" "sl_ExpiresAt l' = sl_ExpiresAt l"
    "sl_HMACSecretRef l' = sl_HMACSecretRef l" "sl_RevokedAt l \<noteq> None \<Longrightarrow> sl_RevokedAt l' \<noteq> None"
proof -
  have eq: "l' = l\<lparr>sl_RevokedAt := sl_RevokedAt l', sl_ScanCount := sl_ScanCount l'\<rparr>" using assms by (simp add: same_link_def)
  show "sl_Code l' = sl_Code l" "sl_TargetURL l' = sl_TargetURL l" "sl_ExpiresAt l' = sl_ExpiresAt l"
    "sl_HMACSecretRef l' = sl_HMACSecretRef l"
    by (subst eq, simp)+
  show "sl_RevokedAt l \<noteq> None \<Longrightarrow> sl_RevokedAt l' \<noteq> None" using assms by (simp add: same_link_def)
qed

lemma same_link_refl [simp]: "same_link l l"
  by (simp add: same_link_def)

lemma same_link_trans: "same_link l m \<Longrightarrow> same_link m n \<Longrightarrow> same_link l n"
  by (cases l; cases m; cases n) (auto simp: same_link_def)

text \<open>How the links change in one step.\<close>

definition links_step :: "(ShortLink \<Rightarrow> bool) \<Rightarrow> (ShortLink \<Rightarrow> bool) \<Rightarrow> ShortLink list \<Rightarrow> ShortLink list \<Rightarrow> bool" where
  "links_step gone revoked ls ls' \<longleftrightarrow>
     (\<exists>f. ls' = map f ls \<and> (\<forall>l \<in> set ls. same_link l (f l) \<and> (sl_RevokedAt (f l) \<noteq> sl_RevokedAt l \<longrightarrow> revoked l))) \<or>
     (\<exists>l. ls' = ls @ [l] \<and> sl_Code l \<notin> sl_Code ` set ls) \<or>
     (\<exists>keep. ls' = filter keep ls \<and> (\<forall>l \<in> set ls. \<not> keep l \<longrightarrow> gone l))"

lemma links_same: "links_step gone revoked ls ls"
  unfolding links_step_def by (rule disjI1, rule exI [of _ "\<lambda>l. l"]) simp

lemma update_links_step:
  assumes "\<And>l. same_link l (f l)" "\<And>l. sl_RevokedAt (f l) \<noteq> sl_RevokedAt l \<Longrightarrow> hit l \<Longrightarrow> revoked l"
  shows "links_step gone revoked (ls_links s) (ls_links (snd (update_links sn hit f s)))"
proof (cases "lk_admits sn (s\<lparr>ls_links := map (\<lambda>l. if hit l then f l else l) (ls_links s)\<rparr>)")
  case True
  then have "ls_links (snd (update_links sn hit f s)) = map (\<lambda>l. if hit l then f l else l) (ls_links s)"
    by (simp add: update_links_def link_commit_def)
  then show ?thesis unfolding links_step_def using assms by (intro disjI1 exI [of _ "\<lambda>l. if hit l then f l else l"]) auto
next
  case False
  then show ?thesis by (simp add: update_links_def link_commit_def links_same)
qed

lemma count_step: "links_step gone revoked (ls_links s) (ls_links (snd (IncrementScanCount sn code s)))"
proof (cases "list_ex (\<lambda>l. sl_Code l = code \<and> sl_ScanCount l = max_int64) (ls_links s)")
  case True
  then show ?thesis by (simp add: IncrementScanCount_def links_same)
next
  case False
  have "links_step gone revoked (ls_links s) (ls_links (snd (update_links sn (\<lambda>l. sl_Code l = code)
      (\<lambda>l. l\<lparr>sl_ScanCount := sl_ScanCount l + 1\<rparr>) s)))"
    by (rule update_links_step) (simp_all add: same_link_def)
  with False show ?thesis by (simp add: IncrementScanCount_def)
qed

text \<open>The codes that a cleanup may take, and those that a revocation marks.\<close>

primrec op_gone :: "link_op \<Rightarrow> ShortLink \<Rightarrow> bool" where
  "op_gone (LCreate sn mac codeLen d now rnd req) l = False"
| "op_gone (LCount sn code) l = False"
| "op_gone (LRevoke sn now code) l = False"
| "op_gone (LScan sn now req) l = False"
| "op_gone (LCleanup sn now grace limit) l = expired_before (now - grace) l"
| "op_gone (LSecret sn now tenantID secret alg) l = False"
| "op_gone (LDropSecret sn now tenantID version) l = False"

primrec op_revokes :: "link_op \<Rightarrow> ShortLink \<Rightarrow> bool" where
  "op_revokes (LCreate sn mac codeLen d now rnd req) l = False"
| "op_revokes (LCount sn code) l = False"
| "op_revokes (LRevoke sn now code) l = (sl_Code l = code)"
| "op_revokes (LScan sn now req) l = False"
| "op_revokes (LCleanup sn now grace limit) l = False"
| "op_revokes (LSecret sn now tenantID secret alg) l = False"
| "op_revokes (LDropSecret sn now tenantID version) l = False"

lemma create_failed:
  assumes "CreateShortLink sn mac codeLen d now rnd req s = (Inl e, t)"
  shows "t = s"
proof -
  have "snd (create_loop sn mac codeLen d now req rs s) = s" if "fst (create_loop sn mac codeLen d now req rs s) = Inl e" for rs
    using that
  proof (induction rs)
    case (Cons bs rs)
    obtain r t' where r: "repo_Create sn now (new_link mac d now req (generateCode codeLen bs)) s = (r, t')"
      by (cases "repo_Create sn now (new_link mac d now req (generateCode codeLen bs)) s")
    then have "r = Inl e' \<Longrightarrow> t' = s" for e'
      by (auto simp: repo_Create_def link_commit_def Let_def split: if_split_asm)
    with r Cons show ?case by (cases r) (auto simp: Let_def split: if_split_asm)
  qed simp
  from this [of "map rnd [0..<5]"] assms show ?thesis by (simp add: CreateShortLink_def)
qed

lemma create_links:
  "ls_links (snd (CreateShortLink sn mac codeLen d now rnd req s)) = ls_links s \<or>
   (\<exists>l. ls_links (snd (CreateShortLink sn mac codeLen d now rnd req s)) = ls_links s @ [l] \<and> sl_Code l \<notin> sl_Code ` set (ls_links s))"
proof (cases "CreateShortLink sn mac codeLen d now rnd req s")
  case (Pair r t)
  show ?thesis
  proof (cases r)
    case (Inr token)
    from create_stores [OF Pair [unfolded Inr]] obtain code where
      "t = s\<lparr>ls_links := ls_links s @ [link_row now (new_link mac d now req code)]\<rparr>" "code \<notin> sl_Code ` set (ls_links s)"
      by metis
    then show ?thesis using Pair by (auto simp: link_row_def new_link_def)
  next
    case (Inl e)
    then show ?thesis using Pair create_failed by (metis snd_conv)
  qed
qed

lemma cleanup_links:
  assumes "links_ok s"
  shows "links_step (expired_before (now - grace)) revoked (ls_links s) (ls_links (snd (CleanupExpiredLinks sn now grace limit s)))"
proof -
  define lim where "lim = (if limit \<le> 0 \<or> 10000 < limit then 1000 else limit)"
  define dead where "dead = take (nat lim) (sort_key (\<lambda>l. the (sl_ExpiresAt l)) (filter (expired_before (now - grace)) (ls_links s)))"
  let ?keep = "\<lambda>l. sl_Code l \<notin> set (map sl_Code dead)"
  have dead: "m \<in> set (ls_links s)" "expired_before (now - grace) m" if "m \<in> set dead" for m
    using in_set_takeD [OF that [unfolded dead_def]] by simp_all
  have "expired_before (now - grace) l" if l: "l \<in> set (ls_links s)" "\<not> ?keep l" for l
  proof -
    obtain m where m: "m \<in> set dead" "sl_Code l = sl_Code m" using l(2) by auto
    have "l = m" using assms l(1) dead(1) [OF m(1)] m(2) unfolding links_ok_def distinct_map inj_on_def by blast
    with dead(2) [OF m(1)] show ?thesis by simp
  qed
  then have "links_step (expired_before (now - grace)) revoked (ls_links s) (filter ?keep (ls_links s))"
    unfolding links_step_def by blast
  then show ?thesis
    by (auto simp: CleanupExpiredLinks_def DeleteExpiredShortLinks_def link_commit_def Let_def links_same lim_def dead_def)
qed

lemma link_step:
  assumes "links_ok s"
  shows "links_step (op_gone op) (op_revokes op) (ls_links s) (ls_links (link_next op s))"
proof (cases op)
  case (LCreate sn mac codeLen d now rnd req)
  have "links_step (op_gone op) (op_revokes op) (ls_links s) (ls_links (snd (CreateShortLink sn mac codeLen d now rnd req s)))"
    using create_links [of sn mac codeLen d now rnd req s]
  proof
    assume "ls_links (snd (CreateShortLink sn mac codeLen d now rnd req s)) = ls_links s"
    then show ?thesis by (simp add: links_same)
  next
    assume "\<exists>l. ls_links (snd (CreateShortLink sn mac codeLen d now rnd req s)) = ls_links s @ [l] \<and> sl_Code l \<notin> sl_Code ` set (ls_links s)"
    then show ?thesis unfolding links_step_def by blast
  qed
  then show ?thesis by (simp add: LCreate)
next
  case (LRevoke sn now code)
  have "links_step (op_gone op) (op_revokes op) (ls_links s) (ls_links (snd (repo_Revoke sn now code s)))"
    unfolding repo_Revoke_def by (rule update_links_step) (simp_all add: same_link_def LRevoke)
  then show ?thesis by (simp add: LRevoke)
next
  case (LScan sn now req)
  have "ls_links (RecordScan sn now req s) = ls_links (snd (IncrementScanCount sn (sr_Code req) s))"
    by (simp add: RecordScan_def RecordScanEvent_def link_commit_def Let_def)
  then show ?thesis using count_step [of "op_gone op" "op_revokes op" s sn "sr_Code req"] LScan by simp
next
  case (LCleanup sn now grace limit)
  have "op_gone op = expired_before (now - grace)" by (simp add: LCleanup fun_eq_iff)
  with cleanup_links [OF assms] LCleanup show ?thesis by simp
qed (simp_all add: count_step CreateHMACSecret_def RevokeHMACSecret_def link_commit_def Let_def links_same)

lemma links_step_ok:
  assumes "links_step gone revoked ls ls'" "distinct (map sl_Code ls)"
  shows "distinct (map sl_Code ls')"
proof -
  consider (map) f where "ls' = map f ls" "\<And>l. l \<in> set ls \<Longrightarrow> same_link l (f l)"
    | (new) l where "ls' = ls @ [l]" "sl_Code l \<notin> sl_Code ` set ls" | (fewer) keep where "ls' = filter keep ls"
    using assms(1) unfolding links_step_def by blast
  then show ?thesis
  proof cases
    case map
    have "map sl_Code ls' = map sl_Code ls" unfolding map(1) by (rule map_map_keeps) (rule same_link_fields(1) [OF map(2)])
    with assms(2) show ?thesis by simp
  next
    case new
    with assms(2) show ?thesis by simp
  next
    case fewer
    with assms(2) show ?thesis by (simp add: distinct_map_filter)
  qed
qed

interpretation short_links: aggregate link_next links_ok
  by unfold_locales (use link_step links_step_ok in \<open>unfold links_ok_def, blast\<close>)

lemma links_step_keeps:
  assumes "links_step gone revoked ls ls'" "l \<in> set ls" "\<not> gone l"
  obtains l' where "l' \<in> set ls'" "same_link l l'" "sl_RevokedAt l' \<noteq> sl_RevokedAt l \<Longrightarrow> revoked l"
proof -
  consider (map) f where "ls' = map f ls" "same_link l (f l)" "sl_RevokedAt (f l) \<noteq> sl_RevokedAt l \<longrightarrow> revoked l"
    | (new) m where "ls' = ls @ [m]" | (fewer) keep where "ls' = filter keep ls" "keep l"
    using assms unfolding links_step_def by blast
  then show ?thesis
  proof cases
    case map
    then show ?thesis using that [of "f l"] assms(2) by auto
  next
    case new
    then show ?thesis using that [of l] assms(2) by auto
  next
    case fewer
    then show ?thesis using that [of l] assms(2) by auto
  qed
qed

lemma same_link_gone: "same_link l l' \<Longrightarrow> op_gone op l' = op_gone op l"
  using same_link_fields(3) by (cases op) (simp_all add: expired_before_def)

lemma same_link_revokes: "same_link l l' \<Longrightarrow> op_revokes op l' = op_revokes op l"
  using same_link_fields(1) by (cases op) simp_all

lemma link_run:
  assumes "links_ok s" "l \<in> set (ls_links s)" "\<forall>op \<in> set ops. \<not> op_gone op l"
  shows "\<exists>l' \<in> set (ls_links (run_ops link_next ops s)). same_link l l' \<and>
    (sl_RevokedAt l' \<noteq> sl_RevokedAt l \<longrightarrow> (\<exists>op \<in> set ops. op_revokes op l))"
  using assms
proof (induction ops arbitrary: s l)
  case Nil
  then show ?case by (auto intro: bexI [of _ l])
next
  case (Cons op ops)
  from links_step_keeps [OF link_step [OF Cons.prems(1)] Cons.prems(2), of op] Cons.prems(3)
  obtain m where m: "m \<in> set (ls_links (link_next op s))" "same_link l m" "sl_RevokedAt m \<noteq> sl_RevokedAt l \<longrightarrow> op_revokes op l"
    by auto
  have "\<forall>op \<in> set ops. \<not> op_gone op m" using Cons.prems(3) same_link_gone [OF m(2)] by simp
  from Cons.IH [OF short_links.step_inv [OF Cons.prems(1)] m(1) this]
  obtain l' where l': "l' \<in> set (ls_links (run_ops link_next ops (link_next op s)))" "same_link m l'"
    "sl_RevokedAt l' \<noteq> sl_RevokedAt m \<longrightarrow> (\<exists>op \<in> set ops. op_revokes op m)" by blast
  have "sl_RevokedAt l' \<noteq> sl_RevokedAt l \<longrightarrow> (\<exists>op \<in> set (op # ops). op_revokes op l)"
    using l'(3) m(3) same_link_revokes [OF m(2)] by auto
  with l'(1,2) m(2) show ?case using same_link_trans by (metis run_ops.simps(2))
qed

lemma link_found:
  assumes "links_ok s" "l \<in> set (ls_links s)" "lk_reads sn"
  shows "repo_Get sn (sl_Code l) s = Inr l"
proof -
  have "\<exists>m. List.find (\<lambda>m. sl_Code m = sl_Code l) (ls_links s) = Some m"
    using assms(2) by (metis (mono_tags) find_None_iff not_Some_eq)
  then obtain m where m: "List.find (\<lambda>m. sl_Code m = sl_Code l) (ls_links s) = Some m" ..
  then have "m \<in> set (ls_links s)" "sl_Code m = sl_Code l" by (auto simp: find_Some_iff)
  then have "m = l" using assms(1,2) unfolding links_ok_def distinct_map inj_on_def by blast
  with m assms(3) show ?thesis by (simp add: repo_Get_def)
qed


text \<open>A revocation is final. A link that has no expiry and was revoked never leads anywhere again: no run
  of creations, scans, further revocations, cleanups or changes of secrets makes a token of its code resolve.\<close>

theorem revoked_link_never_resolves:
  assumes "links_ok s" and "l \<in> set (ls_links s)" and "sl_ExpiresAt l = None"
    and "repo_Revoke sn now (sl_Code l) s = (Inr (), s')" and "fst (splitCode token) = sl_Code l"
  shows "ResolveShortLink sn' mac t token (run_ops link_next ops s') \<noteq> Inr url"
proof
  assume res: "ResolveShortLink sn' mac t token (run_ops link_next ops s') = Inr url"
  let ?r = "l\<lparr>sl_RevokedAt := Some (pg_time now)\<rparr>"
  have s': "ls_links s' = map (\<lambda>l'. if sl_Code l' = sl_Code l then l'\<lparr>sl_RevokedAt := Some (pg_time now)\<rparr> else l') (ls_links s)"
    using assms(4) by (auto simp: repo_Revoke_def update_links_def link_commit_def split: if_split_asm)
  then have r: "?r \<in> set (ls_links s')" using assms(2) by force
  have ok: "links_ok s'" using short_links.step_inv [OF assms(1), of "LRevoke sn now (sl_Code l)"] assms(4) by simp
  have "\<not> op_gone op ?r" for op using assms(3) by (cases op) (simp_all add: expired_before_def)
  with link_run [OF ok r] obtain l' where l': "l' \<in> set (ls_links (run_ops link_next ops s'))" "same_link ?r l'" by blast
  note f = same_link_fields [OF l'(2)]
  obtain m where m: "repo_Get sn' (sl_Code l) (run_ops link_next ops s') = Inr m" "sl_RevokedAt m = None"
    using res assms(5) by (auto simp: ResolveShortLink_def split: prod.splits sum.splits option.splits if_split_asm)
  then have "lk_reads sn'" by (simp add: repo_Get_def split: if_split_asm)
  from link_found [OF short_links.run_inv [OF ok] l'(1) this] m(1) f(1) have "m = l'" by simp
  with m(2) f(5) show False by simp
qed

subsection \<open>Bulk creation\<close>

lemma bulk_loop_counts:
  "bulk_loop sn mac codeLen d items acc s = (resp, s') \<Longrightarrow>
   bc_Created resp = bc_Created acc \<and> length (bc_Results resp) = length (bc_Results acc) + length items \<and>
   bc_Failed resp - bc_Failed acc = int (length (filter (\<lambda>r. br_Error r \<noteq> None) (bc_Results resp))) -
     int (length (filter (\<lambda>r. br_Error r \<noteq> None) (bc_Results acc))) \<and>
   length (ls_links s') + length (filter (\<lambda>r. br_Error r = None) (bc_Results acc)) =
     length (ls_links s) + length (filter (\<lambda>r. br_Error r = None) (bc_Results resp))"
proof (induction items arbitrary: acc s)
  case Nil
  then show ?case by simp
next
  case (Cons x items)
  obtain i now rnd where x: "x = (i, now, rnd)" by (cases x)
  obtain r t where r: "CreateShortLink sn mac codeLen d now rnd (item_request i) s = (r, t)"
    by (cases "CreateShortLink sn mac codeLen d now rnd (item_request i) s")
  show ?case
  proof (cases r)
    case (Inl e)
    have "t = s" by (rule create_failed [OF r [unfolded Inl]])
    then show ?thesis using Cons.IH [of _ t] Cons.prems x r Inl by fastforce
  next
    case (Inr code)
    have "length (ls_links t) = Suc (length (ls_links s))" using create_stores [OF r [unfolded Inr]] by fastforce
    then show ?thesis using Cons.IH [of _ t] Cons.prems x r Inr by fastforce
  qed
qed

text \<open>A bulk creation answers for every item, but reports that it created nothing. The response has one
  result for each item, the count of failures is the number of results with an error, and the table
  has grown by the number of results without one; the count of created links is 0 all the same,
  because nothing increments it.\<close>

theorem bulk_created_always_zero:
  assumes "BulkCreate sn mac codeLen d items s = (resp, s')"
  shows "bc_Created resp = 0 \<and> length (bc_Results resp) = length items \<and>
    bc_Failed resp = int (length (filter (\<lambda>r. br_Error r \<noteq> None) (bc_Results resp))) \<and>
    length (ls_links s') = length (ls_links s) + length (filter (\<lambda>r. br_Error r = None) (bc_Results resp))"
  using bulk_loop_counts [OF assms [unfolded BulkCreate_def]] by simp

text \<open>A phone that runs Android or iOS names Linux or Mac OS in its user agent, and is taken for one.\<close>

lemma android_is_linux:
  "parseUserAgent ''Mozilla/5.0 (Linux; Android 14) Chrome/120 Mobile Safari/537'' = (''Mobile'', ''Linux'', ''Chrome'')"
  by code_simp

lemma iphone_is_macos:
  "parseUserAgent ''Mozilla/5.0 (iPhone; CPU iPhone OS 17 like Mac OS X) Mobile Safari/604'' = (''Mobile'', ''macOS'', ''Safari'')"
  by code_simp

text \<open>The default version of a secret makes the second one of a tenant a duplicate.\<close>

lemma secret_never_rotated:
  "CreateHMACSecret sn now tenantID secret alg s = (Inr h, s') \<Longrightarrow>
   fst (CreateHMACSecret sn' now' tenantID secret' alg' s') = Inl LkDatabase"
  by (auto simp: CreateHMACSecret_def link_commit_def Let_def split: if_split_asm)

subsection \<open>Witnesses\<close>

definition demo_links :: link_session where
  "demo_links = \<lparr>lk_reads = True, lk_admits = \<lambda>s. True\<rparr>"

definition demo_request :: CreateRequest where
  "demo_request = \<lparr>rq_TargetURL = ''https://x.test/a'', rq_TTL = 0, rq_WebhookURL = None, rq_CustomDomain = None,
     rq_HMACSecretRef = None, rq_HMACAlgorithm = None\<rparr>"

definition no_links :: LinkStore where
  "no_links = \<lparr>ls_links = [], ls_secrets = [], ls_events = []\<rparr>"

definition demo_mac :: hmac where
  "demo_mac key msg = key @ msg"

definition demo_bytes :: "nat \<Rightarrow> bytes" where
  "demo_bytes n = ''abc''"

lemma demo_created:
  "\<exists>s'. CreateShortLink demo_links demo_mac 4 [] 5000 demo_bytes demo_request no_links = (Inr ''YWJj'', s')"
proof -
  have five: "[0..<5] = [0, 1, 2, 3, 4 :: nat]" by code_simp
  have code: "generateCode 4 ''abc'' = ''YWJj''" by code_simp
  show ?thesis
    by (simp add: CreateShortLink_def five demo_bytes_def code new_link_def effective_ref_def demo_request_def repo_Create_def
        link_commit_def demo_links_def no_links_def Let_def)
qed


definition demo_short_link :: ShortLink where
  "demo_short_link = \<lparr>sl_Code = ''abc'', sl_TargetURL = ''u'', sl_CreatedAt = 0, sl_ExpiresAt = None, sl_RevokedAt = None,
     sl_ScanCount = 0, sl_WebhookURL = None, sl_CustomDomain = None, sl_HMACSecretRef = None, sl_HMACAlgorithm = None,
     sl_HMACSignature = None\<rparr>"

lemma revoked_link_never_resolves_witness:
  "ResolveShortLink demo_links demo_mac 9000 ''abc''
     (run_ops link_next [] (no_links\<lparr>ls_links := [demo_short_link\<lparr>sl_RevokedAt := Some (pg_time 5)\<rparr>]\<rparr>)) \<noteq> Inr ''u''"
  by (rule revoked_link_never_resolves [of "no_links\<lparr>ls_links := [demo_short_link]\<rparr>" demo_short_link demo_links 5])
    (simp_all add: links_ok_def demo_short_link_def repo_Revoke_def update_links_def link_commit_def demo_links_def no_links_def
      splitCode_def split_at_def)

text \<open>Here the stored secret is the text of its own reference, so that the link does resolve.\<close>

lemma signed_link_unresolvable_witness:
  "\<exists>s'. fst (CreateShortLink demo_links demo_mac 4 ''t:latest'' 5000 demo_bytes demo_request
       (no_links\<lparr>ls_secrets := [\<lparr>hs_TenantID = ''t'', hs_Version = 1, hs_Secret = ''t:latest'', hs_Algorithm = ''HS256'',
          hs_CreatedAt = 0, hs_RevokedAt = None\<rparr>]\<rparr>)) = Inr s' \<and> CHR '':'' \<in> set ''t:latest''"
proof -
  let ?s = "no_links\<lparr>ls_secrets := [\<lparr>hs_TenantID = ''t'', hs_Version = 1, hs_Secret = ''t:latest'', hs_Algorithm = ''HS256'',
      hs_CreatedAt = 0, hs_RevokedAt = None\<rparr>]\<rparr>"
  have five: "[0..<5] = [0, 1, 2, 3, 4 :: nat]" by code_simp
  have code: "generateCode 4 ''abc'' = ''YWJj''" by code_simp
  let ?sig = "signCode demo_mac ''YWJj'' ''t:latest'' ''HS256''"
  obtain t where t: "CreateShortLink demo_links demo_mac 4 ''t:latest'' 5000 demo_bytes demo_request ?s = (Inr (''YWJj.'' @ ?sig), t)"
    and links: "ls_links t = [link_row 5000 (new_link demo_mac ''t:latest'' 5000 demo_request ''YWJj'')]" "ls_secrets t = ls_secrets ?s"
    by (simp add: CreateShortLink_def five demo_bytes_def code new_link_def effective_ref_def effective_algorithm_def
        demo_request_def repo_Create_def link_commit_def demo_links_def no_links_def link_row_def Let_def)
  have split: "splitCode (''YWJj.'' @ ?sig) = (''YWJj'', ?sig)" using split_signed [of "''YWJj''" ?sig] by simp
  have sig: "?sig \<noteq> []" by (simp add: signCode_def demo_mac_def Let_def)
  have "ResolveShortLink demo_links demo_mac 9000 (''YWJj.'' @ ?sig) t = Inr ''https://x.test/a''"
    unfolding ResolveShortLink_def split
    by (simp add: repo_Get_def links demo_links_def link_row_def new_link_def effective_ref_def effective_algorithm_def demo_request_def
        signature_refusal_def sig getHMACSecret_def split_at_def GetActiveHMACSecret_def secret_active_def no_links_def
        verifyCode_def)
  from signed_link_unresolvable [OF t _ _ _ this] t show ?thesis
    by (auto simp: effective_ref_def demo_request_def)
qed

lemma bulk_created_always_zero_witness:
  "bc_Created (fst (BulkCreate demo_links demo_mac 4 [] [(\<lparr>bi_TargetURL = ''u'', bi_TTL = 0, bi_WebhookURL = None,
     bi_CustomDomain = None\<rparr>, 5, demo_bytes)] no_links)) = 0"
  using bulk_created_always_zero [OF prod.collapse [symmetric]] by blast

end
