(* ===== verification/Webhook_Delivery.thy ===== *)
theory Webhook_Delivery
  imports Short_Link
begin

text \<open>
  Webhooks of short links: the deliveries table of \<open>internal/shortlinkpg/repository.go\<close> (migration
  0046) and the service around it in \<open>internal/shortlinksvc/service.go\<close>: the first attempt, retries,
  the sweep of the retry worker and the dead letters.

  \<^item> The column \<open>last_error\<close> may be NULL, and is so after an insert; reading a NULL into the string of
    \<open>WebhookDelivery\<close> fails in \<open>database/sql\<close>, after the statement has taken effect.
  \<^item> An insert takes the id \<open>fresh\<close> that the database gives it. The answer of the receiver is the
    argument \<open>http_answer\<close>; the payload, a JSON document of link and event, is a function of them.
  \<^item> An attempt loads a delivery and writes its outcome later, so that attempts overlap: loading and
    finishing are operations of their own, and the copies in flight are part of the state.
\<close>

subsection \<open>Data\<close>

record WebhookDelivery =
  wd_ID :: int64
  wd_ShortLinkCode :: string
  wd_Payload :: bytes
  wd_Status :: string
  wd_Attempt :: int64
  wd_MaxAttempts :: int64
  wd_NextRetryAt :: "gotime option"
  wd_LastError :: "string option"
  wd_CreatedAt :: gotime
  wd_UpdatedAt :: gotime
  wd_DeliveredAt :: "gotime option"

record WebhookStore =
  wh_links :: LinkStore
  wh_deliveries :: "WebhookDelivery list"

record webhook_session =
  wn_links :: link_session
  wn_admits :: "WebhookStore \<Rightarrow> bool"

datatype http_answer = RequestInvalid string | TransportError string | HttpStatus nat

definition minute :: duration where "minute = 60 * second"

definition DefaultWebhookMaxAttempts :: int64 where "DefaultWebhookMaxAttempts = 5"

definition DefaultWebhookRetryIntervals :: "duration list" where
  "DefaultWebhookRetryIntervals = [minute, 5 * minute, 15 * minute, 60 * minute, 360 * minute, 1440 * minute]"

text \<open>The intervals of the repository come from the environment, as \<open>time.ParseDuration\<close> (\<open>dur\<close>) reads them.\<close>

fun split_all :: "char \<Rightarrow> string \<Rightarrow> string list" where
  "split_all c [] = [[]]"
| "split_all c (x # xs) = (if x = c then [] # split_all c xs else case split_all c xs of p # ps \<Rightarrow> (x # p) # ps | [] \<Rightarrow> [[x]])"

definition getWebhookRetryIntervals :: "(string \<Rightarrow> duration option) \<Rightarrow> string \<Rightarrow> duration list" where
  "getWebhookRetryIntervals dur env =
     (let raw = TrimSpace env;
          parts = filter (\<lambda>p. p \<noteq> []) (map TrimSpace (split_all (CHR '','') raw));
          ds = map dur parts in
      if raw = [] \<or> ds = [] \<or> list_ex (\<lambda>d. case d of None \<Rightarrow> True | Some x \<Rightarrow> x \<le> 0) ds then DefaultWebhookRetryIntervals
      else map the ds)"

subsection \<open>Repository\<close>

definition hook_commit :: "webhook_session \<Rightarrow> WebhookStore \<Rightarrow> WebhookStore \<Rightarrow> (link_error + 'a) \<Rightarrow> (link_error + 'a) \<times> WebhookStore" where
  "hook_commit sn old new x = (if wn_admits sn new then (x, new) else (Inl LkDatabase, old))"

definition scan_delivery :: "WebhookDelivery \<Rightarrow> link_error + WebhookDelivery" where
  "scan_delivery d = (if wd_LastError d = None then Inl LkDatabase else Inr d)"

definition new_delivery :: "duration list \<Rightarrow> gotime \<Rightarrow> int64 \<Rightarrow> string \<Rightarrow> bytes \<Rightarrow> int64 \<Rightarrow> WebhookDelivery" where
  "new_delivery intervals now fresh code payload maxAttempts =
     (let m = (if maxAttempts \<le> 0 then DefaultWebhookMaxAttempts else maxAttempts) in
      \<lparr>wd_ID = fresh, wd_ShortLinkCode = code, wd_Payload = payload, wd_Status = ''pending'', wd_Attempt = 0, wd_MaxAttempts = m,
       wd_NextRetryAt = (if 1 < m then Some (pg_time (now + intervals ! 0)) else None), wd_LastError = None,
       wd_CreatedAt = pg_time now, wd_UpdatedAt = pg_time now, wd_DeliveredAt = None\<rparr>)"

definition CreateWebhookDelivery ::
    "webhook_session \<Rightarrow> duration list \<Rightarrow> gotime \<Rightarrow> int64 \<Rightarrow> string \<Rightarrow> bytes \<Rightarrow> int64 \<Rightarrow> WebhookStore \<Rightarrow>
     (link_error + WebhookDelivery) \<times> WebhookStore" where
  "CreateWebhookDelivery sn intervals now fresh code payload maxAttempts s =
     (let d = new_delivery intervals now fresh code payload maxAttempts in
      if \<not> list_ex (\<lambda>l. sl_Code l = code) (ls_links (wh_links s)) \<or> list_ex (\<lambda>r. wd_ID r = fresh) (wh_deliveries s)
      then (Inl LkDatabase, s)
      else hook_commit sn s (s\<lparr>wh_deliveries := wh_deliveries s @ [d]\<rparr>) (scan_delivery d))"

definition GetWebhookDelivery :: "webhook_session \<Rightarrow> int64 \<Rightarrow> WebhookStore \<Rightarrow> link_error + WebhookDelivery" where
  "GetWebhookDelivery sn ident s =
     (if \<not> lk_reads (wn_links sn) then Inl LkDatabase
      else case List.find (\<lambda>d. wd_ID d = ident) (wh_deliveries s) of None \<Rightarrow> Inl LkNotFound | Some d \<Rightarrow> scan_delivery d)"

definition update_deliveries ::
    "webhook_session \<Rightarrow> (WebhookDelivery \<Rightarrow> bool) \<Rightarrow> (WebhookDelivery \<Rightarrow> WebhookDelivery) \<Rightarrow> WebhookStore \<Rightarrow>
     (link_error + unit) \<times> WebhookStore" where
  "update_deliveries sn hit f s =
     hook_commit sn s (s\<lparr>wh_deliveries := map (\<lambda>d. if hit d then f d else d) (wh_deliveries s)\<rparr>) (Inr ())"

definition UpdateWebhookDeliveryStatus ::
    "webhook_session \<Rightarrow> gotime \<Rightarrow> int64 \<Rightarrow> string \<Rightarrow> int64 \<Rightarrow> string \<Rightarrow> gotime option \<Rightarrow> WebhookStore \<Rightarrow>
     (link_error + unit) \<times> WebhookStore" where
  "UpdateWebhookDeliveryStatus sn now ident status attempt lastError nextRetryAt s =
     (let set = (\<lambda>d. d\<lparr>wd_Status := status, wd_Attempt := attempt, wd_LastError := Some lastError,
            wd_NextRetryAt := map_option pg_time nextRetryAt, wd_UpdatedAt := pg_time now\<rparr>) in
      if status = ''delivered'' then
        update_deliveries sn (\<lambda>d. wd_ID d = ident) (\<lambda>d. (set d)\<lparr>wd_DeliveredAt := Some (pg_time now)\<rparr>) s
      else
        update_deliveries sn (\<lambda>d. wd_ID d = ident \<and> wd_Status d \<noteq> ''delivered'' \<and> wd_Status d \<noteq> ''dead_letter'') set s)"

definition claimable :: "gotime \<Rightarrow> WebhookDelivery \<Rightarrow> bool" where
  "claimable now d \<longleftrightarrow> wd_Status d = ''pending'' \<and> (case wd_NextRetryAt d of None \<Rightarrow> True | Some t \<Rightarrow> t \<le> pg_time now)"

definition claimed :: "gotime \<Rightarrow> int64 \<Rightarrow> WebhookStore \<Rightarrow> WebhookDelivery list" where
  "claimed now limit s = take (nat limit) (sort_key wd_CreatedAt (filter (claimable now) (wh_deliveries s)))"

definition reserve :: "gotime \<Rightarrow> WebhookDelivery \<Rightarrow> WebhookDelivery" where
  "reserve now d = d\<lparr>wd_NextRetryAt := Some (pg_time now + 2 * minute), wd_UpdatedAt := pg_time now\<rparr>"

definition GetPendingWebhookDeliveries ::
    "webhook_session \<Rightarrow> gotime \<Rightarrow> int64 \<Rightarrow> WebhookStore \<Rightarrow> (link_error + WebhookDelivery list) \<times> WebhookStore" where
  "GetPendingWebhookDeliveries sn now limit s =
     (let ds = claimed now (if limit \<le> 0 \<or> 1000 < limit then 100 else limit) s;
          ids = map wd_ID ds in
      hook_commit sn s (s\<lparr>wh_deliveries := map (\<lambda>d. if wd_ID d \<in> set ids then reserve now d else d) (wh_deliveries s)\<rparr>)
        (if list_ex (\<lambda>d. wd_LastError d = None) ds then Inl LkDatabase else Inr (map (reserve now) ds)))"

record DLQEntry =
  dq_DeliveryID :: int64
  dq_ShortLinkCode :: string
  dq_Payload :: bytes
  dq_Error :: "string option"
  dq_Attempts :: int64
  dq_CreatedAt :: gotime
  dq_ResolvedAt :: "gotime option"

definition dlq_entry :: "WebhookDelivery \<Rightarrow> DLQEntry" where
  "dlq_entry d = \<lparr>dq_DeliveryID = wd_ID d, dq_ShortLinkCode = wd_ShortLinkCode d, dq_Payload = wd_Payload d,
     dq_Error = wd_LastError d, dq_Attempts = wd_Attempt d, dq_CreatedAt = wd_CreatedAt d, dq_ResolvedAt = wd_DeliveredAt d\<rparr>"

definition GetDLQEntries ::
    "webhook_session \<Rightarrow> int64 \<Rightarrow> int64 \<Rightarrow> string option \<Rightarrow> WebhookStore \<Rightarrow> link_error + DLQEntry list \<times> nat" where
  "GetDLQEntries sn limit offset status s =
     (let lim = (if limit \<le> 0 \<or> 1000 < limit then 50 else limit); off = (if offset < 0 then 0 else offset);
          rows = filter (\<lambda>d. status = None \<or> status = Some (wd_Status d)) (wh_deliveries s);
          page = take (nat lim) (drop (nat off) (rev (sort_key wd_CreatedAt rows))) in
      if \<not> lk_reads (wn_links sn) \<or> list_ex (\<lambda>d. wd_LastError d = None) page then Inl LkDatabase
      else Inr (map dlq_entry page, length rows))"

definition CreateDLQEntry ::
    "webhook_session \<Rightarrow> gotime \<Rightarrow> WebhookDelivery \<Rightarrow> string \<Rightarrow> WebhookStore \<Rightarrow> (link_error + unit) \<times> WebhookStore" where
  "CreateDLQEntry sn now delivery errorMsg s =
     (let newAttempt = min (wd_Attempt delivery + 1) (wd_MaxAttempts delivery) in
      update_deliveries sn
        (\<lambda>d. wd_ID d = wd_ID delivery \<and> wd_Status d \<noteq> ''dead_letter'' \<and> wd_Status d \<noteq> ''delivered'')
        (\<lambda>d. d\<lparr>wd_Status := ''dead_letter'', wd_Attempt := newAttempt, wd_LastError := Some errorMsg,
           wd_UpdatedAt := pg_time now\<rparr>) s)"

definition requeue :: "duration list \<Rightarrow> gotime \<Rightarrow> WebhookDelivery \<Rightarrow> WebhookDelivery" where
  "requeue intervals now d = d\<lparr>wd_Status := ''pending'', wd_Attempt := 0, wd_NextRetryAt := Some (pg_time (now + intervals ! 0)),
     wd_LastError := Some [], wd_UpdatedAt := pg_time now\<rparr>"

definition repo_RetryDLQEntry ::
    "webhook_session \<Rightarrow> duration list \<Rightarrow> gotime \<Rightarrow> int64 \<Rightarrow> WebhookStore \<Rightarrow> (link_error + WebhookDelivery) \<times> WebhookStore" where
  "repo_RetryDLQEntry sn intervals now ident s =
     (let hit = (\<lambda>d. wd_ID d = ident \<and> wd_Status d = ''dead_letter'') in
      case List.find hit (wh_deliveries s) of
        None \<Rightarrow> (Inl LkNotFound, s)
      | Some d \<Rightarrow> hook_commit sn s
          (s\<lparr>wh_deliveries := map (\<lambda>d. if hit d then requeue intervals now d else d) (wh_deliveries s)\<rparr>)
          (Inr (requeue intervals now d)))"

definition ResolveDLQEntry :: "webhook_session \<Rightarrow> gotime \<Rightarrow> int64 \<Rightarrow> string \<Rightarrow> WebhookStore \<Rightarrow> (link_error + unit) \<times> WebhookStore" where
  "ResolveDLQEntry sn now ident resolvedBy s =
     (let hit = (\<lambda>d. wd_ID d = ident \<and> wd_Status d = ''dead_letter'') in
      if list_ex hit (wh_deliveries s) then
        update_deliveries sn hit (\<lambda>d. d\<lparr>wd_Status := ''delivered'', wd_DeliveredAt := Some (pg_time now), wd_UpdatedAt := pg_time now\<rparr>) s
      else (Inl LkNotFound, s))"

subsection \<open>Attempts\<close>

definition answer_error :: "http_answer \<Rightarrow> string option" where
  "answer_error ans = (case ans of
     RequestInvalid e \<Rightarrow> Some e
   | TransportError e \<Rightarrow> Some e
   | HttpStatus n \<Rightarrow> if 400 \<le> n then Some (''webhook delivery failed with status '' @ show_nat n) else None)"

definition idempotencyKey :: "(bytes \<Rightarrow> bytes) \<Rightarrow> WebhookDelivery \<Rightarrow> string" where
  "idempotencyKey sha d = ''integin-'' @ show_int (wd_ID d) @ ''-'' @ hex_encode (take 8 (sha (wd_Payload d)))"

definition calculateNextRetry :: "gotime \<Rightarrow> int64 \<Rightarrow> gotime" where
  "calculateNextRetry now attempt =
     (let n = length DefaultWebhookRetryIntervals; i = nat (attempt - 1) in
      now + DefaultWebhookRetryIntervals ! (if n \<le> i then n - 1 else i))"

definition handleDeliveryFailure :: "webhook_session \<Rightarrow> gotime \<Rightarrow> WebhookDelivery \<Rightarrow> string \<Rightarrow> WebhookStore \<Rightarrow> WebhookStore" where
  "handleDeliveryFailure sn now d lastError s =
     (let newAttempt = wd_Attempt d + 1 in
      if wd_MaxAttempts d \<le> newAttempt then
        snd (CreateDLQEntry sn now d (''Max retries ('' @ show_int (wd_MaxAttempts d) @ '') exceeded: '' @ lastError) s)
      else snd (UpdateWebhookDeliveryStatus sn now (wd_ID d) ''failed'' newAttempt lastError
        (Some (calculateNextRetry now newAttempt)) s))"

text \<open>The outcome of an attempt with the copy \<open>d\<close>.\<close>

definition attemptWebhookDelivery ::
    "webhook_session \<Rightarrow> gotime \<Rightarrow> WebhookDelivery \<Rightarrow> http_answer \<Rightarrow> WebhookStore \<Rightarrow> (link_error + unit) \<times> WebhookStore" where
  "attemptWebhookDelivery sn now d ans s =
     (case answer_error ans of
        Some e \<Rightarrow> (Inl (LkDelivery e), handleDeliveryFailure sn now d e s)
      | None \<Rightarrow> UpdateWebhookDeliveryStatus sn now (wd_ID d) ''delivered'' (wd_Attempt d) [] None s)"

definition webhook_url :: "ShortLink \<Rightarrow> string option" where
  "webhook_url l = (case sl_WebhookURL l of Some u \<Rightarrow> if u = [] then None else Some u | None \<Rightarrow> None)"

definition deliverWebhookDirect :: "http_answer \<Rightarrow> link_error + unit" where
  "deliverWebhookDirect ans = (case answer_error ans of Some e \<Rightarrow> Inl (LkDelivery e) | None \<Rightarrow> Inr ())"

definition DeliverWebhook ::
    "webhook_session \<Rightarrow> duration list \<Rightarrow> (ShortLink \<Rightarrow> ScanEvent \<Rightarrow> bytes) \<Rightarrow> gotime \<Rightarrow> int64 \<Rightarrow> string \<Rightarrow> ScanEvent \<Rightarrow> http_answer \<Rightarrow>
     WebhookStore \<Rightarrow> (link_error + unit) \<times> WebhookStore" where
  "DeliverWebhook sn intervals pay now fresh code event ans s =
     (case repo_Get (wn_links sn) code (wh_links s) of
        Inl e \<Rightarrow> (Inl e, s)
      | Inr sl \<Rightarrow>
          (case webhook_url sl of
             None \<Rightarrow> (Inr (), s)
           | Some _ \<Rightarrow>
               (case CreateWebhookDelivery sn intervals now fresh code (pay sl event) DefaultWebhookMaxAttempts s of
                  (Inl _, s') \<Rightarrow> (deliverWebhookDirect ans, s')
                | (Inr d, s') \<Rightarrow> attemptWebhookDelivery sn now d ans s')))"

text \<open>What a delivery that has been loaded is attempted at.\<close>

definition ready :: "webhook_session \<Rightarrow> WebhookDelivery \<Rightarrow> WebhookStore \<Rightarrow> link_error + WebhookDelivery" where
  "ready sn d s =
     (case repo_Get (wn_links sn) (wd_ShortLinkCode d) (wh_links s) of
        Inl e \<Rightarrow> Inl e
      | Inr sl \<Rightarrow> (case webhook_url sl of None \<Rightarrow> Inl LkNoWebhook | Some _ \<Rightarrow> Inr d))"

definition load_delivery :: "webhook_session \<Rightarrow> int64 \<Rightarrow> WebhookStore \<Rightarrow> link_error + WebhookDelivery" where
  "load_delivery sn ident s = (case GetWebhookDelivery sn ident s of Inl e \<Rightarrow> Inl e | Inr d \<Rightarrow> ready sn d s)"

definition DeliverWebhookByID ::
    "webhook_session \<Rightarrow> gotime \<Rightarrow> int64 \<Rightarrow> http_answer \<Rightarrow> WebhookStore \<Rightarrow> (link_error + unit) \<times> WebhookStore" where
  "DeliverWebhookByID sn now ident ans s =
     (case load_delivery sn ident s of Inl e \<Rightarrow> (Inl e, s) | Inr d \<Rightarrow> attemptWebhookDelivery sn now d ans s)"

definition svc_RetryDLQEntry ::
    "webhook_session \<Rightarrow> duration list \<Rightarrow> gotime \<Rightarrow> int64 \<Rightarrow> http_answer \<Rightarrow> WebhookStore \<Rightarrow> (link_error + unit) \<times> WebhookStore" where
  "svc_RetryDLQEntry sn intervals now ident ans s =
     (case repo_RetryDLQEntry sn intervals now ident s of
        (Inl e, s') \<Rightarrow> (Inl e, s')
      | (Inr d, s') \<Rightarrow> (case ready sn d s' of Inl e \<Rightarrow> (Inl e, s') | Inr d \<Rightarrow> attemptWebhookDelivery sn now d ans s'))"

subsection \<open>The sweep\<close>

text \<open>Which of the claimed deliveries are attempted; those whose link is gone or has no webhook become dead letters.\<close>

definition sweep_link :: "ShortLink list \<Rightarrow> WebhookDelivery \<Rightarrow> ShortLink option" where
  "sweep_link links d = List.find (\<lambda>l. sl_Code l = wd_ShortLinkCode d) links"

fun sweep_claimed :: "webhook_session \<Rightarrow> gotime \<Rightarrow> ShortLink list \<Rightarrow> WebhookDelivery list \<Rightarrow> WebhookStore \<Rightarrow> WebhookDelivery list \<times> WebhookStore" where
  "sweep_claimed sn now links [] s = ([], s)"
| "sweep_claimed sn now links (d # ds) s =
     (case sweep_link links d of
        None \<Rightarrow> sweep_claimed sn now links ds
          (snd (UpdateWebhookDeliveryStatus sn now (wd_ID d) ''dead_letter'' (wd_Attempt d) ''Short link not found'' None s))
      | Some l \<Rightarrow>
          (case webhook_url l of
             None \<Rightarrow> sweep_claimed sn now links ds
               (snd (UpdateWebhookDeliveryStatus sn now (wd_ID d) ''dead_letter'' (wd_Attempt d) ''Webhook URL not configured'' None s))
           | Some _ \<Rightarrow> (case sweep_claimed sn now links ds s of (todo, s') \<Rightarrow> (d # todo, s'))))"

definition start_sweep :: "webhook_session \<Rightarrow> gotime \<Rightarrow> WebhookStore \<Rightarrow> (link_error + WebhookDelivery list) \<times> WebhookStore" where
  "start_sweep sn now s =
     (case GetPendingWebhookDeliveries sn now 100 s of
        (Inl e, s') \<Rightarrow> (Inl e, s')
      | (Inr ds, s') \<Rightarrow>
          if ds = [] then (Inr [], s')
          else case GetByCodes (wn_links sn) (map wd_ShortLinkCode ds) (wh_links s') of
            Inl e \<Rightarrow> (Inl e, s')
          | Inr links \<Rightarrow> (case sweep_claimed sn now links ds s' of (todo, s'') \<Rightarrow> (Inr todo, s'')))"

text \<open>A whole sweep; the answers of those whose request the context let through.\<close>

definition ProcessWebhookRetries ::
    "webhook_session \<Rightarrow> gotime \<Rightarrow> (int64 \<Rightarrow> http_answer option) \<Rightarrow> WebhookStore \<Rightarrow> (link_error + unit) \<times> WebhookStore" where
  "ProcessWebhookRetries sn now ans s =
     (case start_sweep sn now s of
        (Inl e, s') \<Rightarrow> (Inl e, s')
      | (Inr todo, s') \<Rightarrow> (Inr (), foldl (\<lambda>t d. case ans (wd_ID d) of
          None \<Rightarrow> t
        | Some a \<Rightarrow> snd (attemptWebhookDelivery sn now d a t)) s' todo))"

subsection \<open>Overlapping attempts\<close>

record webhook_system =
  wy_store :: WebhookStore
  wy_flight :: "WebhookDelivery list"

datatype webhook_op =
    WCreate webhook_session "duration list" "ShortLink \<Rightarrow> ScanEvent \<Rightarrow> bytes" gotime int64 string ScanEvent http_answer
  | WLoad webhook_session int64
  | WSweep webhook_session gotime
  | WFinish webhook_session gotime nat http_answer
  | WRetry webhook_session "duration list" gotime int64
  | WResolve webhook_session gotime int64 string

definition fly :: "WebhookDelivery list \<Rightarrow> webhook_system \<Rightarrow> webhook_system" where
  "fly ds y = y\<lparr>wy_flight := wy_flight y @ ds\<rparr>"

primrec webhook_next :: "webhook_op \<Rightarrow> webhook_system \<Rightarrow> webhook_system" where
  "webhook_next (WCreate sn intervals pay now fresh code event ans) y =
     y\<lparr>wy_store := snd (DeliverWebhook sn intervals pay now fresh code event ans (wy_store y))\<rparr>"
| "webhook_next (WLoad sn ident) y = (case load_delivery sn ident (wy_store y) of Inl e \<Rightarrow> y | Inr d \<Rightarrow> fly [d] y)"
| "webhook_next (WSweep sn now) y =
     (case start_sweep sn now (wy_store y) of
        (Inl e, s') \<Rightarrow> y\<lparr>wy_store := s'\<rparr>
      | (Inr todo, s') \<Rightarrow> fly todo (y\<lparr>wy_store := s'\<rparr>))"
| "webhook_next (WFinish sn now n ans) y =
     (if n < length (wy_flight y)
      then y\<lparr>wy_store := snd (attemptWebhookDelivery sn now (wy_flight y ! n) ans (wy_store y)),
             wy_flight := take n (wy_flight y) @ drop (Suc n) (wy_flight y)\<rparr>
      else y)"
| "webhook_next (WRetry sn intervals now ident) y =
     (case repo_RetryDLQEntry sn intervals now ident (wy_store y) of
        (Inl e, s') \<Rightarrow> y\<lparr>wy_store := s'\<rparr>
      | (Inr d, s') \<Rightarrow> (case ready sn d s' of Inl e \<Rightarrow> y\<lparr>wy_store := s'\<rparr> | Inr d \<Rightarrow> fly [d] (y\<lparr>wy_store := s'\<rparr>)))"
| "webhook_next (WResolve sn now ident who) y = y\<lparr>wy_store := snd (ResolveDLQEntry sn now ident who (wy_store y))\<rparr>"

end
