(* ===== verification/Webhook_Guarantees.thy ===== *)
theory Webhook_Guarantees
  imports Webhook_Delivery
begin

text \<open>
  What the deliveries of webhooks promise under overlapping attempts, sweeps, retries and resolutions, and
  what they do not: a delivery that has failed once waits for a retry that no sweep makes, and a delivery
  that the service itself records is never attempted from its record.

  Every operation changes the rows one by one, as \<open>row_change\<close> lists: by an attempt at a copy in flight,
  by the reservation of a sweep, by a requeue or by a resolution. The properties are facts of these changes.
\<close>

subsection \<open>Changes of a row\<close>

definition final :: "WebhookDelivery \<Rightarrow> bool" where
  "final d \<longleftrightarrow> wd_Status d = ''delivered'' \<or> wd_Status d = ''dead_letter''"

text \<open>\<open>F\<close> are the copies at hand; \<open>q\<close> tells whether a requeue is among the operations.\<close>

inductive row_change :: "bool \<Rightarrow> WebhookDelivery set \<Rightarrow> WebhookDelivery \<Rightarrow> WebhookDelivery \<Rightarrow> bool" for q F where
  delivered: "c \<in> F \<Longrightarrow> wd_ID c = wd_ID d \<Longrightarrow>
    row_change q F d (d\<lparr>wd_Status := ''delivered'', wd_Attempt := wd_Attempt c, wd_LastError := Some e,
      wd_NextRetryAt := None, wd_UpdatedAt := t, wd_DeliveredAt := Some u\<rparr>)"
| failed: "c \<in> F \<Longrightarrow> wd_ID c = wd_ID d \<Longrightarrow> \<not> final d \<Longrightarrow> wd_Attempt c + 1 < wd_MaxAttempts c \<Longrightarrow>
    row_change q F d (d\<lparr>wd_Status := ''failed'', wd_Attempt := wd_Attempt c + 1, wd_LastError := Some e,
      wd_NextRetryAt := n, wd_UpdatedAt := t\<rparr>)"
| buried: "c \<in> F \<Longrightarrow> wd_ID c = wd_ID d \<Longrightarrow> \<not> final d \<Longrightarrow>
    a = wd_Attempt c \<or> a = min (wd_Attempt c + 1) (wd_MaxAttempts c) \<Longrightarrow>
    row_change q F d (d\<lparr>wd_Status := ''dead_letter'', wd_Attempt := a, wd_LastError := Some e,
      wd_NextRetryAt := n, wd_UpdatedAt := t\<rparr>)"
| reserved: "claimable now d \<Longrightarrow> row_change q F d (reserve now d)"
| requeued: "q \<Longrightarrow> wd_Status d = ''dead_letter'' \<Longrightarrow> row_change q F d (requeue iv now d)"
| resolved: "wd_Status d = ''dead_letter'' \<Longrightarrow>
    row_change q F d (d\<lparr>wd_Status := ''delivered'', wd_DeliveredAt := Some u, wd_UpdatedAt := t\<rparr>)"

inductive_cases row_changeE: "row_change q F d d'"

definition rows_change :: "bool \<Rightarrow> WebhookDelivery set \<Rightarrow> WebhookStore \<Rightarrow> WebhookStore \<Rightarrow> bool" where
  "rows_change q F s s' \<longleftrightarrow> (\<exists>f. wh_deliveries s' = map f (wh_deliveries s) \<and>
     (\<forall>d \<in> set (wh_deliveries s). (row_change q F)\<^sup>*\<^sup>* d (f d)))"

lemma rows_change_refl [simp]: "rows_change q F s s"
  unfolding rows_change_def by (rule exI [of _ id]) simp

lemma rows_change_trans:
  assumes "rows_change q F s t" "rows_change q F t u"
  shows "rows_change q F s u"
proof -
  obtain f g where f: "wh_deliveries t = map f (wh_deliveries s)" "\<forall>d \<in> set (wh_deliveries s). (row_change q F)\<^sup>*\<^sup>* d (f d)"
    and g: "wh_deliveries u = map g (wh_deliveries t)" "\<forall>d \<in> set (wh_deliveries t). (row_change q F)\<^sup>*\<^sup>* d (g d)"
    using assms unfolding rows_change_def by blast
  have "(row_change q F)\<^sup>*\<^sup>* d (g (f d))" if "d \<in> set (wh_deliveries s)" for d
    using f(2) g(2) f(1) that by (metis image_eqI list.set_map rtranclp_trans)
  then show ?thesis unfolding rows_change_def using f(1) g(1) by (intro exI [of _ "g \<circ> f"]) simp
qed

lemma row_change_mono: "row_change q F d d' \<Longrightarrow> (q \<Longrightarrow> q') \<Longrightarrow> F \<subseteq> G \<Longrightarrow> row_change q' G d d'"
  by (elim row_change.cases) (auto intro: row_change.intros)

lemma rows_change_mono: "rows_change q F s s' \<Longrightarrow> (q \<Longrightarrow> q') \<Longrightarrow> F \<subseteq> G \<Longrightarrow> rows_change q' G s s'"
  unfolding rows_change_def by (metis (no_types, lifting) mono_rtranclp row_change_mono)

lemma rows_change_map:
  "(\<And>d. d \<in> set (wh_deliveries s) \<Longrightarrow> hit d \<Longrightarrow> row_change q F d (f d)) \<Longrightarrow>
   rows_change q F s (s\<lparr>wh_deliveries := map (\<lambda>d. if hit d then f d else d) (wh_deliveries s)\<rparr>)"
  unfolding rows_change_def by (rule exI [of _ "\<lambda>d. if hit d then f d else d"]) auto

lemma rows_change_commit: "rows_change q F s t \<Longrightarrow> rows_change q F s (snd (hook_commit sn s t x))"
  by (simp add: hook_commit_def)

lemma rows_change_update:
  "(\<And>d. d \<in> set (wh_deliveries s) \<Longrightarrow> hit d \<Longrightarrow> row_change q F d (f d)) \<Longrightarrow>
   rows_change q F s (snd (update_deliveries sn hit f s))"
  unfolding update_deliveries_def by (intro rows_change_commit rows_change_map)

subsection \<open>Changes of the operations\<close>

lemma attempt_changes:
  assumes "c \<in> F"
  shows "rows_change q F s (snd (attemptWebhookDelivery sn now c ans s))"
proof (cases "answer_error ans")
  case None
  then show ?thesis using assms
    by (auto simp: attemptWebhookDelivery_def UpdateWebhookDeliveryStatus_def Let_def intro!: rows_change_update
        intro: row_change.delivered)
next
  case (Some e)
  show ?thesis
  proof (cases "wd_MaxAttempts c \<le> wd_Attempt c + 1")
    case True
    have "row_change q F d (d\<lparr>wd_Status := ''dead_letter'', wd_Attempt := min (wd_Attempt c + 1) (wd_MaxAttempts c),
        wd_LastError := Some x, wd_UpdatedAt := t\<rparr>)" if "wd_ID d = wd_ID c" "\<not> final d" for d x t
      using row_change.buried [OF assms, where d = d and e = x and n = "wd_NextRetryAt d" and t = t
          and a = "min (wd_Attempt c + 1) (wd_MaxAttempts c)" and q = q] that by (cases d) simp
    with True Some show ?thesis
      by (auto simp: attemptWebhookDelivery_def handleDeliveryFailure_def CreateDLQEntry_def Let_def final_def
          intro!: rows_change_update)
  next
    case False
    with Some assms show ?thesis
      by (auto simp: attemptWebhookDelivery_def handleDeliveryFailure_def UpdateWebhookDeliveryStatus_def Let_def final_def
          intro!: rows_change_update row_change.failed)
  qed
qed

lemma bury_changes:
  "c \<in> F \<Longrightarrow> rows_change q F s (snd (UpdateWebhookDeliveryStatus sn now (wd_ID c) ''dead_letter'' (wd_Attempt c) e n s))"
  by (auto simp: UpdateWebhookDeliveryStatus_def Let_def final_def intro!: rows_change_update row_change.buried)

lemma sweep_claimed_changes:
  "set ds \<subseteq> F \<Longrightarrow> sweep_claimed sn now links ds s = (todo, s') \<Longrightarrow> rows_change q F s s' \<and> set todo \<subseteq> set ds"
proof (induction ds arbitrary: s todo)
  case Nil
  then show ?case by simp
next
  case (Cons d ds)
  let ?bury = "\<lambda>e. snd (UpdateWebhookDeliveryStatus sn now (wd_ID d) ''dead_letter'' (wd_Attempt d) e None s)"
  have d: "d \<in> F" and ds: "set ds \<subseteq> F" using Cons.prems(1) by simp_all
  have bury: "rows_change q F s s' \<and> set todo \<subseteq> set (d # ds)"
    if "sweep_claimed sn now links ds (?bury e) = (todo, s')" for e
    using Cons.IH [OF ds that] bury_changes [OF d, of q s sn now e None] rows_change_trans by auto
  show ?case
  proof (cases "sweep_link links d")
    case None
    with Cons.prems(2) bury show ?thesis by simp
  next
    case (Some l)
    show ?thesis
    proof (cases "webhook_url l")
      case None
      with Some Cons.prems(2) bury show ?thesis by simp
    next
      case (Some u)
      obtain t where t: "sweep_claimed sn now links ds s = (t, s')" "todo = d # t"
        using Cons.prems(2) \<open>sweep_link links d = Some l\<close> Some by (auto split: prod.splits)
      with Cons.IH [OF ds t(1)] show ?thesis by auto
    qed
  qed
qed

lemma claimed_rows: "d \<in> set (claimed now limit s) \<Longrightarrow> d \<in> set (wh_deliveries s) \<and> claimable now d"
  unfolding claimed_def by (auto dest: in_set_takeD)

text \<open>Ids are unique, and copies in flight have the id and the limit of a row.\<close>

definition ids_unique :: "WebhookStore \<Rightarrow> bool" where
  "ids_unique s \<longleftrightarrow> distinct (map wd_ID (wh_deliveries s))"

lemma same_row: "ids_unique s \<Longrightarrow> d \<in> set (wh_deliveries s) \<Longrightarrow> e \<in> set (wh_deliveries s) \<Longrightarrow> wd_ID d = wd_ID e \<Longrightarrow> d = e"
  unfolding ids_unique_def by (metis distinct_map inj_onD)

lemma pending_changes:
  assumes "ids_unique s" "GetPendingWebhookDeliveries sn now limit s = (r, s')"
  shows "rows_change q F s s'"
proof -
  let ?ds = "claimed now (if limit \<le> 0 \<or> 1000 < limit then 100 else limit) s"
  have "row_change q F d (reserve now d)" if d: "d \<in> set (wh_deliveries s)" "wd_ID d \<in> set (map wd_ID ?ds)" for d
  proof -
    obtain e where e: "e \<in> set ?ds" "wd_ID d = wd_ID e" using d(2) by auto
    have "d = e" by (rule same_row [OF assms(1) d(1) _ e(2)]) (use claimed_rows [OF e(1)] in simp)
    then show ?thesis using claimed_rows [OF e(1)] by (intro row_change.reserved) simp
  qed
  then have "rows_change q F s (s\<lparr>wh_deliveries :=
      map (\<lambda>d. if wd_ID d \<in> set (map wd_ID ?ds) then reserve now d else d) (wh_deliveries s)\<rparr>)"
    by (rule rows_change_map)
  moreover have "s' = snd (GetPendingWebhookDeliveries sn now limit s)" using assms(2) by simp
  ultimately show ?thesis unfolding GetPendingWebhookDeliveries_def Let_def by (simp add: rows_change_commit)
qed

lemma pending_copies:
  assumes "GetPendingWebhookDeliveries sn now limit s = (Inr ds, s')" "c \<in> set ds"
  shows "\<exists>d \<in> set (wh_deliveries s). claimable now d \<and> wd_LastError d \<noteq> None \<and> c = reserve now d"
proof -
  let ?ds = "claimed now (if limit \<le> 0 \<or> 1000 < limit then 100 else limit) s"
  have "ds = map (reserve now) ?ds" "\<not> list_ex (\<lambda>d. wd_LastError d = None) ?ds"
    using assms(1) by (auto simp: GetPendingWebhookDeliveries_def Let_def hook_commit_def split: if_split_asm)
  then obtain d where "d \<in> set ?ds" "c = reserve now d" "wd_LastError d \<noteq> None" using assms(2) by (auto simp: list_ex_iff)
  with claimed_rows show ?thesis by blast
qed

text \<open>What a copy that enters the flight was made from.\<close>

definition copy_of :: "webhook_op \<Rightarrow> WebhookDelivery \<Rightarrow> WebhookDelivery \<Rightarrow> bool" where
  "copy_of p d c \<longleftrightarrow> wd_ID c = wd_ID d \<and> wd_MaxAttempts c = wd_MaxAttempts d \<and>
     (wd_Attempt c = wd_Attempt d \<or> wd_Attempt c = 0) \<and>
     ((\<exists>sn. p = WLoad sn (wd_ID d)) \<and> wd_LastError d \<noteq> None \<or>
      (\<exists>sn now. p = WSweep sn now) \<and> wd_Status d = ''pending'' \<and> wd_LastError d \<noteq> None \<or>
      wd_Status d = ''dead_letter'')"

definition is_retry :: "webhook_op \<Rightarrow> bool" where
  "is_retry p \<longleftrightarrow> (\<exists>sn iv now ident. p = WRetry sn iv now ident)"

lemma ready_same: "ready sn d s = Inr c \<Longrightarrow> c = d"
  by (auto simp: ready_def split: sum.splits option.splits)

lemma load_copy:
  assumes "load_delivery sn ident s = Inr c"
  shows "c \<in> set (wh_deliveries s) \<and> wd_ID c = ident \<and> wd_LastError c \<noteq> None"
proof -
  obtain d where d: "GetWebhookDelivery sn ident s = Inr d" and c: "c = d"
    using assms ready_same by (fastforce simp: load_delivery_def split: sum.splits)
  then obtain d' where d': "List.find (\<lambda>d. wd_ID d = ident) (wh_deliveries s) = Some d'" "scan_delivery d' = Inr d"
    by (auto simp: GetWebhookDelivery_def split: if_split_asm option.splits)
  then show ?thesis using c by (auto simp: find_Some_iff scan_delivery_def split: if_split_asm)
qed

lemma sweep_change:
  assumes "ids_unique s" "start_sweep sn now s = (r, s')"
  shows "\<exists>C. rows_change q (F \<union> C) s s' \<and> (\<forall>c \<in> C. \<exists>d \<in> set (wh_deliveries s). copy_of (WSweep sn now) d c) \<and>
    (case r of Inl _ \<Rightarrow> True | Inr todo \<Rightarrow> set todo \<subseteq> C)"
proof -
  obtain r1 s1 where g: "GetPendingWebhookDeliveries sn now 100 s = (r1, s1)" by fastforce
  have ch: "rows_change q G s s1" for G by (rule pending_changes [OF assms(1) g])
  show ?thesis
  proof (cases r1)
    case (Inl e)
    with assms(2) g ch show ?thesis by (intro exI [of _ "{}"]) (auto simp: start_sweep_def)
  next
    case (Inr ds)
    have copies: "\<forall>c \<in> set ds. \<exists>d \<in> set (wh_deliveries s). copy_of (WSweep sn now) d c"
      using pending_copies [OF g [unfolded Inr]] by (fastforce simp: copy_of_def reserve_def claimable_def)
    show ?thesis
    proof (cases "ds = [] \<or> (\<exists>e. GetByCodes (wn_links sn) (map wd_ShortLinkCode ds) (wh_links s1) = Inl e)")
      case True
      with assms(2) g Inr have "s' = s1 \<and> (case r of Inl _ \<Rightarrow> True | Inr todo \<Rightarrow> todo = [])"
        by (cases "ds = []") (auto simp: start_sweep_def)
      with ch show ?thesis by (intro exI [of _ "{}"]) (auto split: sum.splits)
    next
      case False
      then obtain links where links: "GetByCodes (wn_links sn) (map wd_ShortLinkCode ds) (wh_links s1) = Inr links"
        by (cases "GetByCodes (wn_links sn) (map wd_ShortLinkCode ds) (wh_links s1)") auto
      obtain todo where c: "sweep_claimed sn now links ds s1 = (todo, s')" "r = Inr todo"
        using assms(2) g Inr False links by (auto simp: start_sweep_def split: prod.splits)
      have "rows_change q (F \<union> set ds) s1 s' \<and> set todo \<subseteq> set ds"
        by (rule sweep_claimed_changes [OF _ c(1)]) simp
      with rows_change_trans [OF ch] copies c(2) show ?thesis by (intro exI [of _ "set ds"]) auto
    qed
  qed
qed

lemma retry_change:
  assumes "repo_RetryDLQEntry sn iv now ident s = (r, s')"
  shows "rows_change True F s s'"
    "r = Inr c \<Longrightarrow> \<exists>d \<in> set (wh_deliveries s). wd_Status d = ''dead_letter'' \<and> c = requeue iv now d \<and> wd_ID d = ident"
proof -
  show "rows_change True F s s'"
    using assms by (auto simp: repo_RetryDLQEntry_def Let_def hook_commit_def split: option.splits if_split_asm
        intro!: rows_change_map row_change.requeued)
  show "\<exists>d \<in> set (wh_deliveries s). wd_Status d = ''dead_letter'' \<and> c = requeue iv now d \<and> wd_ID d = ident" if "r = Inr c"
    using assms that by (auto simp: repo_RetryDLQEntry_def Let_def hook_commit_def find_Some_iff
        split: option.splits if_split_asm)
qed

subsection \<open>Steps\<close>

definition fresh_row :: "WebhookStore \<Rightarrow> WebhookDelivery \<Rightarrow> bool" where
  "fresh_row s n \<longleftrightarrow> wd_ID n \<notin> wd_ID ` set (wh_deliveries s) \<and> wd_Status n = ''pending'' \<and> wd_LastError n = None \<and>
     wd_Attempt n = 0 \<and> wd_MaxAttempts n = DefaultWebhookMaxAttempts"

definition inserts :: "WebhookStore \<Rightarrow> WebhookStore \<Rightarrow> bool" where
  "inserts s s' \<longleftrightarrow> (\<exists>n. wh_deliveries s' = wh_deliveries s @ [n] \<and> fresh_row s n)"

lemma create_inserts:
  assumes "CreateWebhookDelivery sn iv now fresh code payload DefaultWebhookMaxAttempts s = (r, s')"
  shows "s' = s \<or> inserts s s'" "\<exists>e. r = Inl e"
  using assms
  by (auto simp: CreateWebhookDelivery_def Let_def hook_commit_def inserts_def fresh_row_def new_delivery_def
      scan_delivery_def list_ex_iff DefaultWebhookMaxAttempts_def split: if_split_asm)

lemma deliver_inserts:
  "snd (DeliverWebhook sn iv pay now fresh code event ans s) = s \<or>
   inserts s (snd (DeliverWebhook sn iv pay now fresh code event ans s))"
proof (cases "repo_Get (wn_links sn) code (wh_links s)")
  case (Inl e)
  then show ?thesis by (simp add: DeliverWebhook_def)
next
  case (Inr sl)
  obtain r s' where c: "CreateWebhookDelivery sn iv now fresh code (pay sl event) DefaultWebhookMaxAttempts s = (r, s')"
    by fastforce
  obtain e where "r = Inl e" "s' = s \<or> inserts s s'" using create_inserts [OF c] by blast
  with Inr c show ?thesis by (auto simp: DeliverWebhook_def split: option.split)
qed

text \<open>One operation: rows change one by one and copies enter, or one fresh row is inserted.\<close>

definition flow :: "webhook_op \<Rightarrow> webhook_system \<Rightarrow> WebhookDelivery set \<Rightarrow> webhook_system \<Rightarrow> bool" where
  "flow p y C y' \<longleftrightarrow> rows_change (is_retry p) (set (wy_flight y) \<union> C) (wy_store y) (wy_store y') \<and>
     set (wy_flight y') \<subseteq> set (wy_flight y) \<union> C \<and>
     (\<forall>c \<in> C. \<exists>d \<in> set (wh_deliveries (wy_store y)). copy_of p d c)"

definition flows :: "webhook_op \<Rightarrow> webhook_system \<Rightarrow> webhook_system \<Rightarrow> bool" where
  "flows p y y' \<longleftrightarrow> (\<exists>C. flow p y C y')"

lemma flowsI: "flow p y C y' \<Longrightarrow> flows p y y'"
  by (auto simp: flows_def)

lemma finish_flows: "flows (WFinish sn now n ans) y (webhook_next (WFinish sn now n ans) y)"
proof (cases "n < length (wy_flight y)")
  case True
  then have "rows_change q (set (wy_flight y)) (wy_store y)
      (snd (attemptWebhookDelivery sn now (wy_flight y ! n) ans (wy_store y)))" for q
    by (intro attempt_changes) simp
  with True show ?thesis
    by (intro flowsI [of _ _ "{}"]) (auto simp: flow_def dest: in_set_takeD in_set_dropD)
qed (intro flowsI [of _ _ "{}"], simp add: flow_def)

lemma load_flows: "flows (WLoad sn ident) y (webhook_next (WLoad sn ident) y)"
proof (cases "load_delivery sn ident (wy_store y)")
  case (Inl e)
  then show ?thesis by (intro flowsI [of _ _ "{}"]) (simp add: flow_def)
next
  case (Inr c)
  from load_copy [OF Inr] have "\<exists>d \<in> set (wh_deliveries (wy_store y)). copy_of (WLoad sn ident) d c"
    by (auto simp: copy_of_def)
  with Inr show ?thesis by (intro flowsI [of _ _ "{c}"]) (simp add: flow_def fly_def)
qed

lemma sweep_flows:
  assumes "ids_unique (wy_store y)"
  shows "flows (WSweep sn now) y (webhook_next (WSweep sn now) y)"
proof -
  obtain r s' where s: "start_sweep sn now (wy_store y) = (r, s')" by fastforce
  let ?p = "WSweep sn now" and ?y = "webhook_next (WSweep sn now) y"
  obtain C where C: "rows_change (is_retry ?p) (set (wy_flight y) \<union> C) (wy_store y) s'"
    "\<forall>c \<in> C. \<exists>d \<in> set (wh_deliveries (wy_store y)). copy_of ?p d c" "case r of Inl _ \<Rightarrow> True | Inr todo \<Rightarrow> set todo \<subseteq> C"
    using sweep_change [OF assms s] by blast
  have "wy_store ?y = s'" "set (wy_flight ?y) \<subseteq> set (wy_flight y) \<union> C"
    using s C(3) by (auto simp: fly_def split: sum.splits)
  with C(1,2) show ?thesis by (intro flowsI [of _ _ C]) (simp add: flow_def)
qed

lemma retry_flows: "flows (WRetry sn iv now ident) y (webhook_next (WRetry sn iv now ident) y)"
proof -
  obtain r s' where s: "repo_RetryDLQEntry sn iv now ident (wy_store y) = (r, s')" by fastforce
  let ?p = "WRetry sn iv now ident"
  have ch: "rows_change (is_retry ?p) F (wy_store y) s'" for F
    using retry_change(1) [OF s] by (simp add: is_retry_def)
  show ?thesis
  proof (cases "\<exists>c. r = Inr c \<and> ready sn c s' = Inr c")
    case True
    then obtain c where c: "r = Inr c" "ready sn c s' = Inr c" by blast
    have "\<exists>d \<in> set (wh_deliveries (wy_store y)). copy_of ?p d c"
      using retry_change(2) [OF s c(1)] by (auto simp: copy_of_def requeue_def)
    with ch s c show ?thesis by (intro flowsI [of _ _ "{c}"]) (simp add: flow_def fly_def)
  next
    case False
    then have "webhook_next ?p y = y\<lparr>wy_store := s'\<rparr>"
      using s ready_same by (fastforce split: sum.splits)
    with ch show ?thesis by (intro flowsI [of _ _ "{}"]) (simp add: flow_def)
  qed
qed

lemma resolve_flows: "flows (WResolve sn now ident who) y (webhook_next (WResolve sn now ident who) y)"
  by (intro flowsI [of _ _ "{}"])
    (auto simp: flow_def ResolveDLQEntry_def Let_def intro!: rows_change_update row_change.resolved)

definition leads :: "webhook_op \<Rightarrow> webhook_system \<Rightarrow> webhook_system \<Rightarrow> bool" where
  "leads p y y' \<longleftrightarrow> flows p y y' \<or> wy_flight y' = wy_flight y \<and> inserts (wy_store y) (wy_store y')"

lemma webhook_leads:
  assumes "ids_unique (wy_store y)"
  shows "leads p y (webhook_next p y)"
proof (cases p)
  case (WCreate sn iv pay now fresh code event ans)
  have "flows p y y" by (intro flowsI [of _ _ "{}"]) (simp add: flow_def)
  moreover have "webhook_next p y = y \<or> wy_flight (webhook_next p y) = wy_flight y \<and>
      inserts (wy_store y) (wy_store (webhook_next p y))"
    using deliver_inserts [of sn iv pay now fresh code event ans "wy_store y"] WCreate by auto
  ultimately show ?thesis by (auto simp: leads_def)
qed (use assms finish_flows load_flows sweep_flows retry_flows resolve_flows in \<open>simp_all add: leads_def del: webhook_next.simps\<close>)

lemma row_change_id: "row_change q F d d' \<Longrightarrow> wd_ID d' = wd_ID d \<and> wd_MaxAttempts d' = wd_MaxAttempts d"
  by (elim row_change.cases) (auto simp: reserve_def requeue_def)

lemma row_changes_id: "(row_change q F)\<^sup>*\<^sup>* d d' \<Longrightarrow> wd_ID d' = wd_ID d \<and> wd_MaxAttempts d' = wd_MaxAttempts d"
  by (induction rule: rtranclp_induct) (auto dest: row_change_id)

lemma rows_change_ids: "rows_change q F s s' \<Longrightarrow> map wd_ID (wh_deliveries s') = map wd_ID (wh_deliveries s)"
  unfolding rows_change_def using row_changes_id by (metis map_map_keeps)

lemma leads_unique: "leads p y y' \<Longrightarrow> ids_unique (wy_store y) \<Longrightarrow> ids_unique (wy_store y')"
  by (auto simp: leads_def flows_def flow_def ids_unique_def inserts_def fresh_row_def dest!: rows_change_ids)

text \<open>How a fact of rows and copies is carried over a step.\<close>

lemma leads_induct:
  assumes "leads p y y'"
    and "\<forall>d \<in> set (wh_deliveries (wy_store y)). P d"
    and "\<And>n. fresh_row (wy_store y) n \<Longrightarrow> P n"
    and "\<And>C d d'. flow p y C y' \<Longrightarrow> d \<in> set (wh_deliveries (wy_store y)) \<Longrightarrow> P d \<Longrightarrow>
      (row_change (is_retry p) (set (wy_flight y) \<union> C))\<^sup>*\<^sup>* d d' \<Longrightarrow> P d'"
  shows "\<forall>d \<in> set (wh_deliveries (wy_store y')). P d"
proof (cases "flows p y y'")
  case True
  then obtain C where C: "flow p y C y'" by (auto simp: flows_def)
  then obtain f where f: "wh_deliveries (wy_store y') = map f (wh_deliveries (wy_store y))"
    "\<forall>d \<in> set (wh_deliveries (wy_store y)). (row_change (is_retry p) (set (wy_flight y) \<union> C))\<^sup>*\<^sup>* d (f d)"
    unfolding flow_def rows_change_def by blast
  show ?thesis unfolding f(1) using assms(2) assms(4) [OF C] f(2) by auto
next
  case False
  with assms(1-3) show ?thesis by (auto simp: leads_def inserts_def)
qed

subsection \<open>Attempts are counted and bounded\<close>

definition counted :: "WebhookDelivery \<Rightarrow> bool" where
  "counted d \<longleftrightarrow> 0 \<le> wd_Attempt d \<and> wd_Attempt d \<le> wd_MaxAttempts d"

definition backed :: "WebhookStore \<Rightarrow> WebhookDelivery \<Rightarrow> bool" where
  "backed s c \<longleftrightarrow> counted c \<and> (\<exists>d \<in> set (wh_deliveries s). wd_ID c = wd_ID d \<and> wd_MaxAttempts c = wd_MaxAttempts d)"

definition hooks_ok :: "webhook_system \<Rightarrow> bool" where
  "hooks_ok y \<longleftrightarrow> ids_unique (wy_store y) \<and> (\<forall>d \<in> set (wh_deliveries (wy_store y)). counted d) \<and>
     (\<forall>c \<in> set (wy_flight y). backed (wy_store y) c)"

lemma row_change_counted:
  assumes "row_change q F d d'" "counted d" "\<And>c. c \<in> F \<Longrightarrow> wd_ID c = wd_ID d \<Longrightarrow> counted c \<and> wd_MaxAttempts c = wd_MaxAttempts d"
  shows "counted d'"
  using assms(1)
proof cases
  case (delivered c e t u)
  with assms(3) [of c] show ?thesis by (auto simp: counted_def)
next
  case (failed c e n t)
  with assms(3) [of c] show ?thesis by (auto simp: counted_def)
next
  case (buried c a e n t)
  with assms(3) [of c] show ?thesis by (auto simp: counted_def)
qed (use assms(2) in \<open>auto simp: counted_def reserve_def requeue_def\<close>)

lemma row_changes_counted:
  assumes "(row_change q F)\<^sup>*\<^sup>* d d'" "counted d" "\<And>c. c \<in> F \<Longrightarrow> wd_ID c = wd_ID d \<Longrightarrow> counted c \<and> wd_MaxAttempts c = wd_MaxAttempts d"
  shows "counted d'"
  using assms(1)
proof (induction rule: rtranclp_induct)
  case base
  then show ?case using assms(2) .
next
  case (step e f)
  show ?case by (rule row_change_counted [OF step(2,3)]) (use assms(3) row_changes_id [OF step(1)] in auto)
qed

lemma backed_same: "backed s c \<Longrightarrow> ids_unique s \<Longrightarrow> d \<in> set (wh_deliveries s) \<Longrightarrow> wd_ID c = wd_ID d \<Longrightarrow>
  counted c \<and> wd_MaxAttempts c = wd_MaxAttempts d"
  unfolding backed_def by (metis same_row)

lemma copy_backed: "copy_of p d c \<Longrightarrow> d \<in> set (wh_deliveries s) \<Longrightarrow> counted d \<Longrightarrow> backed s c"
  unfolding backed_def copy_of_def counted_def by auto

lemma flow_backed: "hooks_ok y \<Longrightarrow> flow p y C y' \<Longrightarrow> c \<in> set (wy_flight y) \<union> C \<Longrightarrow> backed (wy_store y) c"
  unfolding hooks_ok_def flow_def using copy_backed by blast

lemma backed_kept:
  assumes "backed s c" "rows_change q F s s' \<or> inserts s s'"
  shows "backed s' c"
proof -
  obtain d where d: "counted c" "d \<in> set (wh_deliveries s)" "wd_ID c = wd_ID d" "wd_MaxAttempts c = wd_MaxAttempts d"
    using assms(1) by (auto simp: backed_def)
  show ?thesis
  proof (cases "inserts s s'")
    case True
    with d show ?thesis by (auto simp: backed_def inserts_def)
  next
    case False
    with assms(2) obtain f where f: "wh_deliveries s' = map f (wh_deliveries s)"
      "\<forall>d \<in> set (wh_deliveries s). (row_change q F)\<^sup>*\<^sup>* d (f d)" by (auto simp: rows_change_def)
    with d row_changes_id have "f d \<in> set (wh_deliveries s')" "wd_ID c = wd_ID (f d)" "wd_MaxAttempts c = wd_MaxAttempts (f d)"
      by auto
    with d(1) show ?thesis unfolding backed_def by blast
  qed
qed

lemma leads_ok:
  assumes "leads p y y'" "hooks_ok y"
  shows "hooks_ok y'"
proof -
  have u: "ids_unique (wy_store y)" "\<forall>d \<in> set (wh_deliveries (wy_store y)). counted d" using assms(2) by (simp_all add: hooks_ok_def)
  have "\<forall>d \<in> set (wh_deliveries (wy_store y')). counted d"
  proof (rule leads_induct [OF assms(1) u(2)])
    fix n
    assume "fresh_row (wy_store y) n"
    then show "counted n" by (simp add: fresh_row_def counted_def DefaultWebhookMaxAttempts_def)
  next
    fix C d d'
    assume f: "flow p y C y'" "d \<in> set (wh_deliveries (wy_store y))" "counted d"
      and s: "(row_change (is_retry p) (set (wy_flight y) \<union> C))\<^sup>*\<^sup>* d d'"
    show "counted d'"
      by (rule row_changes_counted [OF s f(3)]) (rule backed_same [OF flow_backed [OF assms(2) f(1)] u(1) f(2)])
  qed
  moreover have "backed (wy_store y') c" if "c \<in> set (wy_flight y')" for c
  proof (cases "flows p y y'")
    case True
    then obtain C where C: "flow p y C y'" by (auto simp: flows_def)
    with that have "backed (wy_store y) c" by (intro flow_backed [OF assms(2) C]) (auto simp: flow_def)
    with C show ?thesis unfolding flow_def using backed_kept by blast
  next
    case False
    with assms(1) have "c \<in> set (wy_flight y)" "inserts (wy_store y) (wy_store y')"
      using that by (auto simp: leads_def)
    with assms(2) show ?thesis using backed_kept unfolding hooks_ok_def by blast
  qed
  ultimately show ?thesis using leads_unique [OF assms(1) u(1)] by (simp add: hooks_ok_def)
qed

interpretation webhooks: aggregate webhook_next hooks_ok
proof unfold_locales
  fix y p
  assume y: "hooks_ok y"
  then have "leads p y (webhook_next p y)" by (intro webhook_leads) (simp add: hooks_ok_def)
  then show "hooks_ok (webhook_next p y)" using y by (rule leads_ok)
qed

lemma run_leads: "hooks_ok y \<Longrightarrow> leads p y (webhook_next p y)"
  by (rule webhook_leads) (simp add: hooks_ok_def)

text \<open>A fact that every step keeps holds along a run.\<close>

lemma run_keeps_fact:
  assumes "hooks_ok y" "P y" "\<And>p y. p \<in> set ps \<Longrightarrow> hooks_ok y \<Longrightarrow> P y \<Longrightarrow> leads p y (webhook_next p y) \<Longrightarrow> P (webhook_next p y)"
  shows "P (run_ops webhook_next ps y)"
  using assms
proof (induction ps arbitrary: y)
  case Nil
  then show ?case by simp
next
  case (Cons p ps)
  have "P (webhook_next p y)"
    by (rule Cons.prems(3) [OF _ Cons.prems(1,2) run_leads [OF Cons.prems(1)]]) simp
  then have "P (run_ops webhook_next ps (webhook_next p y))"
    using Cons.IH [OF webhooks.step_inv [OF Cons.prems(1)]] Cons.prems(3) by simp
  then show ?case by simp
qed

text \<open>C26: Attempts stay within their limit. Whatever attempts, sweeps, retries of dead letters, resolutions and
  creations interleave, with whatever answers and clocks, every delivery has between zero and its maximum
  of attempts, the limit and the id of a delivery never change, and every copy that is being attempted
  belongs to a delivery with its limit.\<close>

theorem webhook_attempts_bounded:
  assumes "hooks_ok y" "y' = run_ops webhook_next ps y"
  shows "(\<forall>d \<in> set (wh_deliveries (wy_store y')). 0 \<le> wd_Attempt d \<and> wd_Attempt d \<le> wd_MaxAttempts d) \<and>
    distinct (map wd_ID (wh_deliveries (wy_store y'))) \<and>
    (\<forall>c \<in> set (wy_flight y'). 0 \<le> wd_Attempt c \<and> wd_Attempt c \<le> wd_MaxAttempts c \<and>
       (\<exists>d \<in> set (wh_deliveries (wy_store y')). wd_ID c = wd_ID d \<and> wd_MaxAttempts c = wd_MaxAttempts d))"
proof -
  have "hooks_ok y'" unfolding assms(2) by (rule webhooks.run_inv [OF assms(1)])
  then show ?thesis by (auto simp: hooks_ok_def counted_def backed_def ids_unique_def)
qed

definition demo_row :: "int64 \<Rightarrow> string \<Rightarrow> string option \<Rightarrow> WebhookDelivery" where
  "demo_row i status err = \<lparr>wd_ID = i, wd_ShortLinkCode = ''abc'', wd_Payload = [], wd_Status = status, wd_Attempt = 1,
     wd_MaxAttempts = 5, wd_NextRetryAt = None, wd_LastError = err, wd_CreatedAt = 0, wd_UpdatedAt = 0, wd_DeliveredAt = None\<rparr>"

definition demo_hook_links :: LinkStore where
  "demo_hook_links = \<lparr>ls_links = [\<lparr>sl_Code = ''abc'', sl_TargetURL = ''u'', sl_CreatedAt = 0, sl_ExpiresAt = None,
       sl_RevokedAt = None, sl_ScanCount = 0, sl_WebhookURL = Some ''h'', sl_CustomDomain = None, sl_HMACSecretRef = None,
       sl_HMACAlgorithm = None, sl_HMACSignature = None\<rparr>], ls_secrets = [], ls_events = []\<rparr>"

definition demo_hooks :: "WebhookDelivery list \<Rightarrow> WebhookDelivery list \<Rightarrow> webhook_system" where
  "demo_hooks ds cs = \<lparr>wy_store = \<lparr>wh_links = demo_hook_links, wh_deliveries = ds\<rparr>, wy_flight = cs\<rparr>"

definition demo_webhook_session :: webhook_session where
  "demo_webhook_session = \<lparr>wn_links = \<lparr>lk_reads = True, lk_admits = \<lambda>_. True\<rparr>, wn_admits = \<lambda>_. True\<rparr>"

lemma webhook_attempts_bounded_witness:
  "\<not> (\<exists>d \<in> set (wh_deliveries (wy_store (run_ops webhook_next
      [WFinish demo_webhook_session 7 0 (HttpStatus 500), WFinish demo_webhook_session 9 0 (HttpStatus 200)]
      (demo_hooks [demo_row 1 ''pending'' (Some [])] [demo_row 1 ''pending'' (Some []), demo_row 1 ''pending'' (Some [])])))).
    wd_MaxAttempts d < wd_Attempt d)"
proof -
  let ?d = "demo_row 1 ''pending'' (Some [])"
  have "hooks_ok (demo_hooks [?d] [?d, ?d])"
    by (simp add: hooks_ok_def ids_unique_def backed_def counted_def demo_hooks_def demo_row_def)
  from webhook_attempts_bounded [OF this refl] show ?thesis by (meson not_less)
qed

subsection \<open>Delivered is final, failed is stuck\<close>

lemma row_change_delivered: "row_change q F d d' \<Longrightarrow> wd_Status d = ''delivered'' \<Longrightarrow> wd_Status d' = ''delivered''"
  by (elim row_change.cases) (simp_all add: final_def claimable_def)

lemma row_changes_delivered: "(row_change q F)\<^sup>*\<^sup>* d d' \<Longrightarrow> wd_Status d = ''delivered'' \<Longrightarrow> wd_Status d' = ''delivered''"
  by (induction rule: rtranclp_induct) (auto dest: row_change_delivered)

lemma leads_has:
  assumes "leads p y y'" "d \<in> set (wh_deliveries (wy_store y))"
  shows "\<exists>d' q F. d' \<in> set (wh_deliveries (wy_store y')) \<and> (row_change q F)\<^sup>*\<^sup>* d d'"
  using assms by (fastforce simp: leads_def flows_def flow_def rows_change_def inserts_def)

definition has_delivered :: "int64 \<Rightarrow> webhook_system \<Rightarrow> bool" where
  "has_delivered i y \<longleftrightarrow> (\<exists>d \<in> set (wh_deliveries (wy_store y)). wd_ID d = i \<and> wd_Status d = ''delivered'')"

lemma leads_delivered: "leads p y y' \<Longrightarrow> has_delivered i y \<Longrightarrow> has_delivered i y'"
  unfolding has_delivered_def by (metis leads_has row_changes_delivered row_changes_id)

text \<open>C7: A webhook that was delivered stays delivered. Whatever stale attempts, sweeps and retries finish
  later, with whatever answers, a delivery with the status \<open>delivered\<close> is there with that status at the
  end of every run, and a retry of it as a dead letter is refused.\<close>

theorem delivered_is_final:
  assumes "hooks_ok y" "d \<in> set (wh_deliveries (wy_store y))" "wd_Status d = ''delivered''"
    and "y' = run_ops webhook_next ps y"
  shows "(\<exists>d' \<in> set (wh_deliveries (wy_store y')). wd_ID d' = wd_ID d \<and> wd_Status d' = ''delivered'') \<and>
    repo_RetryDLQEntry sn iv now (wd_ID d) (wy_store y') = (Inl LkNotFound, wy_store y')"
proof -
  have "has_delivered (wd_ID d) y" using assms(2,3) by (auto simp: has_delivered_def)
  then have "has_delivered (wd_ID d) y'"
    unfolding assms(4) by (rule run_keeps_fact [OF assms(1)]) (rule leads_delivered)
  then obtain d' where d': "d' \<in> set (wh_deliveries (wy_store y'))" "wd_ID d' = wd_ID d" "wd_Status d' = ''delivered''"
    by (auto simp: has_delivered_def)
  have u: "ids_unique (wy_store y')" using webhooks.run_inv [OF assms(1), of ps] assms(4) by (simp add: hooks_ok_def)
  have "List.find (\<lambda>e. wd_ID e = wd_ID d \<and> wd_Status e = ''dead_letter'') (wh_deliveries (wy_store y')) = None"
    unfolding find_None_iff using same_row [OF u d'(1)] d' by force
  with d' show ?thesis by (auto simp: repo_RetryDLQEntry_def)
qed

lemma delivered_is_final_witness:
  "\<exists>d' \<in> set (wh_deliveries (wy_store (run_ops webhook_next [WFinish demo_webhook_session 7 0 (HttpStatus 500)]
      (demo_hooks [demo_row 1 ''delivered'' (Some [])] [demo_row 1 ''pending'' (Some [])])))).
    wd_ID d' = 1 \<and> wd_Status d' = ''delivered''"
proof -
  have "hooks_ok (demo_hooks [demo_row 1 ''delivered'' (Some [])] [demo_row 1 ''pending'' (Some [])])"
    by (simp add: hooks_ok_def ids_unique_def backed_def counted_def demo_hooks_def demo_row_def)
  from delivered_is_final [OF this _ _ refl, of "demo_row 1 ''delivered'' (Some [])"] show ?thesis
    by (simp add: demo_hooks_def demo_row_def del: run_ops.simps)
qed

definition stuck :: "int64 \<Rightarrow> WebhookDelivery \<Rightarrow> webhook_system \<Rightarrow> bool" where
  "stuck i d y \<longleftrightarrow> filter (\<lambda>e. wd_ID e = i) (wh_deliveries (wy_store y)) = [d] \<and> wd_Status d = ''failed'' \<and>
     (\<forall>c \<in> set (wy_flight y). wd_ID c \<noteq> i)"

lemma failed_row_unchanged:
  assumes "(row_change q F)\<^sup>*\<^sup>* d d'" "wd_Status d = ''failed''" "\<And>c. c \<in> F \<Longrightarrow> wd_ID c \<noteq> wd_ID d"
  shows "d' = d"
  using assms(1)
proof (induction rule: rtranclp_induct)
  case base
  show ?case ..
next
  case (step e f)
  from step(2) show ?case unfolding step(3) by cases (use assms(2,3) in \<open>auto simp: claimable_def\<close>)
qed

lemma filter_map_id:
  assumes "\<And>x. x \<in> set xs \<Longrightarrow> k (f x) = k x" "\<And>x. x \<in> set xs \<Longrightarrow> k x = i \<Longrightarrow> f x = x"
  shows "filter (\<lambda>x. k x = i) (map f xs) = filter (\<lambda>x. k x = i) xs"
  using assms by (induction xs) auto

lemma leads_stuck:
  assumes "leads p y y'" "stuck i d y" "\<And>sn. p \<noteq> WLoad sn i"
  shows "stuck i d y'"
proof -
  have f: "filter (\<lambda>e. wd_ID e = i) (wh_deliveries (wy_store y)) = [d]" "wd_Status d = ''failed''"
    "\<forall>c \<in> set (wy_flight y). wd_ID c \<noteq> i" using assms(2) by (simp_all add: stuck_def)
  have only: "e = d" if "e \<in> set (wh_deliveries (wy_store y))" "wd_ID e = i" for e
  proof -
    have "e \<in> set (filter (\<lambda>e. wd_ID e = i) (wh_deliveries (wy_store y)))" using that by simp
    then show ?thesis unfolding f(1) by simp
  qed
  have "d \<in> set (filter (\<lambda>e. wd_ID e = i) (wh_deliveries (wy_store y)))" unfolding f(1) by simp
  then have d: "d \<in> set (wh_deliveries (wy_store y))" "wd_ID d = i" by auto
  show ?thesis
  proof (cases "flows p y y'")
    case False
    with assms(1) obtain n where n: "wh_deliveries (wy_store y') = wh_deliveries (wy_store y) @ [n]"
      "wd_ID n \<notin> wd_ID ` set (wh_deliveries (wy_store y))" "wy_flight y' = wy_flight y"
      by (auto simp: leads_def inserts_def fresh_row_def)
    with d f show ?thesis by (auto simp: stuck_def)
  next
    case True
    then obtain C g where C: "flow p y C y'" and g: "wh_deliveries (wy_store y') = map g (wh_deliveries (wy_store y))"
      "\<forall>e \<in> set (wh_deliveries (wy_store y)). (row_change (is_retry p) (set (wy_flight y) \<union> C))\<^sup>*\<^sup>* e (g e)"
      by (auto simp: flows_def flow_def rows_change_def)
    have new: "wd_ID c \<noteq> i" if "c \<in> C" for c
    proof
      assume i: "wd_ID c = i"
      from C that obtain e where e: "e \<in> set (wh_deliveries (wy_store y))" "copy_of p e c" by (auto simp: flow_def)
      with i only have "e = d" by (auto simp: copy_of_def)
      with e(2) f(2) assms(3) i show False by (auto simp: copy_of_def)
    qed
    have none: "wd_ID c \<noteq> i" if "c \<in> set (wy_flight y) \<union> C" for c using that f(3) new by auto
    have "g d = d"
      by (rule failed_row_unchanged [OF g(2) [rule_format, OF d(1)] f(2)]) (use none d(2) in auto)
    then have "filter (\<lambda>e. wd_ID e = i) (map g (wh_deliveries (wy_store y))) = [d]"
      using filter_map_id [of "wh_deliveries (wy_store y)" wd_ID g i] g(2) row_changes_id only f(1) by metis
    then show ?thesis using none f(2) C g(1) by (auto simp: stuck_def flow_def)
  qed
qed

text \<open>C27: A failed attempt is never retried. A delivery whose first attempt failed has the status \<open>failed\<close> and a time
  for its retry; while nobody attempts it by its id, no sweep at any time, no creation and no attempt at
  another delivery ever touches it, so the retry that was scheduled is not made.\<close>

theorem failed_delivery_stuck:
  assumes "hooks_ok y" "d \<in> set (wh_deliveries (wy_store y))" "wd_Status d = ''failed''"
    and "\<forall>c \<in> set (wy_flight y). wd_ID c \<noteq> wd_ID d" and "\<forall>sn. WLoad sn (wd_ID d) \<notin> set ps"
  shows "d \<in> set (wh_deliveries (wy_store (run_ops webhook_next ps y)))"
proof -
  have u: "ids_unique (wy_store y)" using assms(1) by (simp add: hooks_ok_def)
  then have "filter (\<lambda>e. wd_ID e = wd_ID d) (wh_deliveries (wy_store y)) = [d]"
    using assms(2) unfolding ids_unique_def
  proof (induction "wh_deliveries (wy_store y)" arbitrary: y)
    case (Cons e es)
    from Cons.hyps(2) [symmetric] Cons.prems Cons.hyps(1) [of "y\<lparr>wy_store := (wy_store y)\<lparr>wh_deliveries := es\<rparr>\<rparr>"]
    show ?case by (auto simp: filter_empty_conv image_iff)
  qed simp
  then have "stuck (wd_ID d) d y" using assms(3,4) by (simp add: stuck_def)
  then have "stuck (wd_ID d) d (run_ops webhook_next ps y)"
    by (rule run_keeps_fact [OF assms(1)]) (use leads_stuck assms(5) in blast)
  then have "d \<in> set (filter (\<lambda>e. wd_ID e = wd_ID d) (wh_deliveries (wy_store (run_ops webhook_next ps y))))"
    unfolding stuck_def by simp
  then show ?thesis by simp
qed

lemma failed_delivery_stuck_witness:
  "demo_row 1 ''failed'' (Some ''e'') \<in> set (wh_deliveries (wy_store (run_ops webhook_next
     [WSweep demo_webhook_session 1000, WSweep demo_webhook_session 900000000000]
     (demo_hooks [demo_row 1 ''failed'' (Some ''e'')] []))))"
proof (rule failed_delivery_stuck)
  show "hooks_ok (demo_hooks [demo_row 1 ''failed'' (Some ''e'')] [])"
    by (simp add: hooks_ok_def ids_unique_def counted_def demo_hooks_def demo_row_def)
qed (simp_all add: demo_hooks_def demo_row_def)

subsection \<open>A recorded delivery is not attempted\<close>

definition untouched :: "WebhookDelivery \<Rightarrow> bool" where
  "untouched d \<longleftrightarrow> wd_Status d = ''pending'' \<and> wd_LastError d = None \<and> wd_Attempt d = 0"

lemma row_change_untouched: "row_change q {} d d' \<Longrightarrow> untouched d \<Longrightarrow> untouched d'"
  by (elim row_change.cases) (simp_all add: untouched_def reserve_def)

lemma row_changes_untouched: "(row_change q {})\<^sup>*\<^sup>* d d' \<Longrightarrow> untouched d \<Longrightarrow> untouched d'"
  by (induction rule: rtranclp_induct) (auto dest: row_change_untouched)

definition all_untouched :: "webhook_system \<Rightarrow> bool" where
  "all_untouched y \<longleftrightarrow> (\<forall>d \<in> set (wh_deliveries (wy_store y)). untouched d) \<and> wy_flight y = []"

lemma leads_untouched:
  assumes "leads p y y'" "all_untouched y"
  shows "all_untouched y'"
proof -
  have no_copy: "C = {}" if "flow p y C y'" for C
    using that assms(2) by (force simp: flow_def copy_of_def all_untouched_def untouched_def)
  have "\<forall>d \<in> set (wh_deliveries (wy_store y')). untouched d"
  proof (rule leads_induct [OF assms(1)])
    show "\<forall>d \<in> set (wh_deliveries (wy_store y)). untouched d" using assms(2) by (simp add: all_untouched_def)
    show "untouched n" if "fresh_row (wy_store y) n" for n using that by (simp add: fresh_row_def untouched_def)
    fix C d d'
    assume f: "flow p y C y'" and d: "untouched d" and c: "(row_change (is_retry p) (set (wy_flight y) \<union> C))\<^sup>*\<^sup>* d d'"
    have "set (wy_flight y) \<union> C = {}" using no_copy [OF f] assms(2) by (simp add: all_untouched_def)
    then show "untouched d'" using row_changes_untouched [OF c [unfolded \<open>set (wy_flight y) \<union> C = {}\<close>] d] by simp
  qed
  moreover have "wy_flight y' = []"
  proof (cases "flows p y y'")
    case True
    then obtain C where C: "flow p y C y'" by (auto simp: flows_def)
    with no_copy [OF C] assms(2) show ?thesis by (simp add: flow_def all_untouched_def)
  next
    case False
    with assms show ?thesis by (simp add: leads_def all_untouched_def)
  qed
  ultimately show ?thesis by (simp add: all_untouched_def)
qed



subsection \<open>Sweeps do not overlap\<close>

text \<open>\<open>held T I y\<close>: the ids of \<open>I\<close> exist, and their rows can be claimed at \<open>T\<close> at the earliest.\<close>

definition not_before :: "gotime \<Rightarrow> WebhookDelivery \<Rightarrow> bool" where
  "not_before T d \<longleftrightarrow> (wd_Status d = ''pending'' \<longrightarrow> (\<exists>t. wd_NextRetryAt d = Some t \<and> T \<le> t))"

definition held :: "gotime \<Rightarrow> int64 set \<Rightarrow> webhook_system \<Rightarrow> bool" where
  "held T I y \<longleftrightarrow> I \<subseteq> wd_ID ` set (wh_deliveries (wy_store y)) \<and>
     (\<forall>d \<in> set (wh_deliveries (wy_store y)). wd_ID d \<in> I \<longrightarrow> not_before T d)"

lemma row_change_not_before: "row_change False F d d' \<Longrightarrow> not_before T d \<Longrightarrow> not_before T d'"
  by (elim row_change.cases)
    (auto simp: not_before_def final_def claimable_def reserve_def minute_def second_def split: option.splits)

lemma row_changes_not_before: "(row_change False F)\<^sup>*\<^sup>* d d' \<Longrightarrow> not_before T d \<Longrightarrow> not_before T d'"
  by (induction rule: rtranclp_induct) (auto dest: row_change_not_before)

lemma leads_held:
  assumes "leads p y y'" "held T I y" "\<not> is_retry p"
  shows "held T I y'"
proof -
  have "\<forall>d \<in> set (wh_deliveries (wy_store y')). wd_ID d \<in> I \<longrightarrow> not_before T d"
  proof (rule leads_induct [OF assms(1)])
    show "\<forall>d \<in> set (wh_deliveries (wy_store y)). wd_ID d \<in> I \<longrightarrow> not_before T d" using assms(2) by (simp add: held_def)
    show "wd_ID n \<in> I \<longrightarrow> not_before T n" if "fresh_row (wy_store y) n" for n
      using that assms(2) by (auto simp: fresh_row_def held_def)
    fix C d d'
    assume "wd_ID d \<in> I \<longrightarrow> not_before T d" "(row_change (is_retry p) (set (wy_flight y) \<union> C))\<^sup>*\<^sup>* d d'"
    then show "wd_ID d' \<in> I \<longrightarrow> not_before T d'" using assms(3) row_changes_not_before row_changes_id by (auto dest: row_changes_not_before row_changes_id)
  qed
  moreover have "I \<subseteq> wd_ID ` set (wh_deliveries (wy_store y'))"
  proof
    fix i
    assume "i \<in> I"
    then obtain d where "d \<in> set (wh_deliveries (wy_store y))" "wd_ID d = i" using assms(2) by (auto simp: held_def)
    with leads_has [OF assms(1)] row_changes_id show "i \<in> wd_ID ` set (wh_deliveries (wy_store y'))" by (metis image_eqI)
  qed
  ultimately show ?thesis by (simp add: held_def)
qed

lemma sweep_splits:
  assumes "start_sweep sn now s = (Inr todo, s')"
  obtains ds s1 where "GetPendingWebhookDeliveries sn now 100 s = (Inr ds, s1)" "set todo \<subseteq> set ds" "rows_change False (set ds) s1 s'"
proof -
  obtain ds s1 where g: "GetPendingWebhookDeliveries sn now 100 s = (Inr ds, s1)"
    using assms by (auto simp: start_sweep_def split: prod.splits sum.splits)
  show thesis
  proof (cases "ds = []")
    case True
    with assms g that show thesis by (auto simp: start_sweep_def)
  next
    case False
    with assms g obtain links where "sweep_claimed sn now links ds s1 = (todo, s')"
      by (auto simp: start_sweep_def split: prod.splits sum.splits)
    then have "rows_change False (set ds) s1 s' \<and> set todo \<subseteq> set ds" by (rule sweep_claimed_changes [OF subset_refl])
    with g that show thesis by blast
  qed
qed

lemma pending_reserves:
  assumes "GetPendingWebhookDeliveries sn now 100 s = (Inr ds, s1)"
  shows "wd_ID ` set ds \<subseteq> wd_ID ` set (wh_deliveries s1)"
    "\<And>d. d \<in> set (wh_deliveries s1) \<Longrightarrow> wd_ID d \<in> wd_ID ` set ds \<Longrightarrow> not_before (pg_time now + 2 * minute) d"
proof -
  let ?cs = "claimed now 100 s"
  have ds: "ds = map (reserve now) ?cs"
    and s1: "wh_deliveries s1 = map (\<lambda>d. if wd_ID d \<in> wd_ID ` set ?cs then reserve now d else d) (wh_deliveries s)"
    using assms by (auto simp: GetPendingWebhookDeliveries_def Let_def hook_commit_def split: if_split_asm)
  have ids: "wd_ID ` set ds = wd_ID ` set ?cs" unfolding ds by (auto simp: reserve_def image_iff)
  have "map wd_ID (wh_deliveries s1) = map wd_ID (wh_deliveries s)" unfolding s1 by (simp add: reserve_def)
  then have "wd_ID ` set (wh_deliveries s1) = wd_ID ` set (wh_deliveries s)" by (metis list.set_map)
  then show "wd_ID ` set ds \<subseteq> wd_ID ` set (wh_deliveries s1)" unfolding ids using claimed_rows by blast
  show "not_before (pg_time now + 2 * minute) d" if "d \<in> set (wh_deliveries s1)" "wd_ID d \<in> wd_ID ` set ds" for d
  proof -
    from that(1) obtain e where e: "e \<in> set (wh_deliveries s)" "d = (if wd_ID e \<in> wd_ID ` set ?cs then reserve now e else e)"
      unfolding s1 by auto
    with that(2) ids have "d = reserve now e" by (auto simp: reserve_def split: if_split_asm)
    then show ?thesis by (simp add: not_before_def reserve_def)
  qed
qed

lemma disjoint_part: "A \<inter> B = {} \<Longrightarrow> C \<subseteq> A \<Longrightarrow> C \<inter> B = {}"
  by blast


definition demo_swept :: webhook_system where
  "demo_swept = demo_hooks [demo_row 1 ''pending'' (Some [])] []"

lemma demo_swept_ok: "hooks_ok demo_swept"
  by (simp add: demo_swept_def hooks_ok_def ids_unique_def counted_def demo_hooks_def demo_row_def)

lemmas demo_hook_defs = demo_swept_def demo_hooks_def demo_row_def demo_webhook_session_def demo_hook_links_def
  start_sweep_def GetPendingWebhookDeliveries_def claimed_def claimable_def hook_commit_def GetByCodes_def reserve_def
  fly_def minute_def second_def pg_time_def sweep_link_def webhook_url_def Let_def

lemma demo_sweep:
  "start_sweep demo_webhook_session 1000 (wy_store demo_swept) =
    (Inr [reserve 1000 (demo_row 1 ''pending'' (Some []))], snd (start_sweep demo_webhook_session 1000 (wy_store demo_swept)))"
  "start_sweep demo_webhook_session 60000001000 (wy_store (webhook_next (WSweep demo_webhook_session 1000) demo_swept)) =
    (Inr [], snd (start_sweep demo_webhook_session 60000001000
       (wy_store (webhook_next (WSweep demo_webhook_session 1000) demo_swept))))"
  by (simp_all add: demo_hook_defs)


end
