(* ===== verification/Audit_Log.thy ===== *)
theory Audit_Log
  imports Postgres Byte_Encoding
begin

text \<open>
  The immutable audit log: \<open>internal/domain/auditlog\<close> (entries, the hash chain, the 64-byte records, the summaries
  per tenant) and its repository \<open>internal/auditlogpg/postgres.go\<close> on the table of migrations 0038 and 0081.

  \<^item> The table is the list of its rows in the order of their inserts; a trigger refuses updates and deletes. Rows
    with the same \<open>created_at\<close> come in the order that the database chooses, the argument \<open>an_rank\<close> of the session.
  \<^item> A time that was read from the database is rendered in the zone of the process, \<open>an_render\<close>; on a server in UTC
    this is \<open>RFC3339Nano\<close>. The times that are given to \<open>Append\<close> are in UTC, as its default is.
  \<^item> \<open>Append\<close> reads the last hash and then inserts; the row lock it takes does not keep another transaction from
    having read the same last hash, so that the halves of two calls can interleave.
\<close>

subsection \<open>Entries\<close>

record AuditEntry =
  au_ID :: string
  au_TenantID :: string
  au_OrganizationID :: string
  au_EventType :: string
  au_EntityType :: string
  au_EntityID :: string
  au_ActorID :: string
  au_ActorName :: string
  au_Action :: string
  au_OldValue :: json
  au_NewValue :: json
  au_Metadata :: json
  au_IPAddress :: string
  au_UserAgent :: string
  au_PreviousHash :: string
  au_EntryHash :: string
  au_CreatedAt :: gotime
  au_ValidTime :: gotime

definition ValidAt :: "AuditEntry \<Rightarrow> gotime" where
  "ValidAt e = (if time_IsZero (au_ValidTime e) then au_CreatedAt e else au_ValidTime e)"

datatype audit_error = ErrInvalidEntry | ErrScopeRequired | AuditTx | AuditMarshal | AuditDatabase |
  ErrRecordInvalidPrevHash | ErrRecordPayloadTooLong | ErrNoTenantScopes | ErrInvalidTenantScope

text \<open>\<open>CreateEntryRequest.Validate\<close>, on the entry the request becomes.\<close>

definition CreateEntryRequest_Validate :: "AuditEntry \<Rightarrow> audit_error option" where
  "CreateEntryRequest_Validate r =
     (if au_TenantID r = [] \<or> au_OrganizationID r = [] then Some ErrInvalidEntry
      else if au_EventType r = [] \<or> au_EntityType r = [] \<or> au_EntityID r = [] \<or> au_ActorID r = [] then Some ErrInvalidEntry
      else if au_Action r = [] then Some ErrInvalidEntry else None)"

subsection \<open>The hash chain\<close>

definition GenesisHash :: string where "GenesisHash = replicate 64 (CHR ''0'')"

definition ComputeHash :: "crypto \<Rightarrow> string \<Rightarrow> string \<Rightarrow> string" where
  "ComputeHash C previousHash entryData = hex_encode (sha256 C (previousHash @ entryData))"

definition entry_data :: "(gotime \<Rightarrow> string) \<Rightarrow> AuditEntry \<Rightarrow> string" where
  "entry_data render e = au_EventType e @ au_EntityType e @ au_EntityID e @ au_ActorID e @ au_Action e @ render (au_CreatedAt e)"

subsection \<open>Records of 64 bytes\<close>

definition le64 :: "uint64 \<Rightarrow> bytes" where "le64 w = rev (be64 w)"

definition le64_val :: "bytes \<Rightarrow> uint64" where
  "le64_val bs = of_nat (foldr (\<lambda>b n. of_char b + 256 * n) bs 0)"

definition record_payload :: "AuditEntry \<Rightarrow> bytes" where
  "record_payload e = au_EventType e @ au_EntityType e @ au_EntityID e @ au_ActorID e @ au_Action e"

definition AppendRecord :: "crypto \<Rightarrow> string \<Rightarrow> AuditEntry \<Rightarrow> audit_error + bytes" where
  "AppendRecord C prevHashHex e =
     (if length prevHashHex < 64 then Inl ErrRecordInvalidPrevHash
      else case hex_decode (take 64 prevHashHex) of
        None \<Rightarrow> Inl ErrRecordInvalidPrevHash
      | Some prev \<Rightarrow>
          if 1024 < length (record_payload e) then Inl ErrRecordPayloadTooLong
          else Inr (prev @ take 16 (sha256 C (record_payload e)) @
                    le64 (word_of_int (time_UnixNano (au_CreatedAt e))) @ le64 (word_of_int (time_UnixNano (ValidAt e)))))"

definition PrevHashPrefix :: "bytes \<Rightarrow> bytes" where "PrevHashPrefix r = take 32 r"
definition PayloadHash :: "bytes \<Rightarrow> bytes" where "PayloadHash r = take 16 (drop 32 r)"
definition CreatedUnixNanos :: "bytes \<Rightarrow> int64" where "CreatedUnixNanos r = sint (le64_val (take 8 (drop 48 r)))"
definition ValidUnixNanos :: "bytes \<Rightarrow> int64" where "ValidUnixNanos r = sint (le64_val (drop 56 r))"

subsection \<open>Repository\<close>

record audit_session =
  an_begins :: bool
  an_admits :: "AuditEntry list \<Rightarrow> bool"
  an_render :: "gotime \<Rightarrow> string"
  an_rank :: "AuditEntry \<Rightarrow> nat"

definition audit_begin :: "audit_session \<Rightarrow> string \<Rightarrow> string \<Rightarrow> audit_error option" where
  "audit_begin sn ten org = (if blank ten \<or> blank org \<or> \<not> an_begins sn then Some AuditTx else None)"

definition scope_rows :: "string \<Rightarrow> string \<Rightarrow> AuditEntry list \<Rightarrow> AuditEntry list" where
  "scope_rows ten org rows = filter (\<lambda>r. au_TenantID r = ten \<and> au_OrganizationID r = org) rows"

definition by_created :: "audit_session \<Rightarrow> AuditEntry list \<Rightarrow> AuditEntry list" where
  "by_created sn rows = sort_key au_CreatedAt (sort_key (an_rank sn) rows)"

definition last_hash :: "audit_session \<Rightarrow> string \<Rightarrow> string \<Rightarrow> AuditEntry list \<Rightarrow> string" where
  "last_hash sn ten org rows =
     (case rev (by_created sn (scope_rows ten org rows)) of [] \<Rightarrow> GenesisHash | r # _ \<Rightarrow> au_EntryHash r)"

definition prepared_entry :: "gotime \<Rightarrow> gotime \<Rightarrow> AuditEntry \<Rightarrow> AuditEntry" where
  "prepared_entry now1 now2 e =
     (let e1 = (if au_ID e = [] then e\<lparr>au_ID := au_TenantID e @ '':'' @ au_OrganizationID e @ '':'' @ au_EventType e @ '':'' @
                  show_int (time_UnixNano now1)\<rparr> else e)
      in if time_IsZero (au_CreatedAt e1) then e1\<lparr>au_CreatedAt := now2\<rparr> else e1)"

text \<open>The first half of \<open>Append\<close>, up to the statement that inserts.\<close>

definition append_plan ::
    "audit_session \<Rightarrow> crypto \<Rightarrow> gotime \<Rightarrow> gotime \<Rightarrow> AuditEntry \<Rightarrow> AuditEntry list \<Rightarrow> audit_error + AuditEntry" where
  "append_plan sn C now1 now2 entry rows =
     (let e = prepared_entry now1 now2 entry in
      case audit_begin sn (au_TenantID e) (au_OrganizationID e) of
        Some x \<Rightarrow> Inl x
      | None \<Rightarrow>
          (let prev = last_hash sn (au_TenantID e) (au_OrganizationID e) rows in
           if \<not> (marshal_ok (au_OldValue e) \<and> marshal_ok (au_NewValue e) \<and> marshal_ok (au_Metadata e)) then Inl AuditMarshal
           else Inr (e\<lparr>au_PreviousHash := prev, au_EntryHash := ComputeHash C prev (entry_data RFC3339Nano e)\<rparr>)))"

text \<open>The row as the columns keep it, and the second half.\<close>

definition stored_entry :: "AuditEntry \<Rightarrow> AuditEntry" where
  "stored_entry e = e\<lparr>au_CreatedAt := pg_time (au_CreatedAt e), au_ValidTime := pg_time (au_ValidTime e)\<rparr>"

definition append_write :: "audit_session \<Rightarrow> AuditEntry \<Rightarrow> AuditEntry list \<Rightarrow> (audit_error + AuditEntry) \<times> AuditEntry list" where
  "append_write sn e rows =
     (let new = rows @ [stored_entry e] in
      if list_ex (\<lambda>r. au_ID r = au_ID e) rows \<or> \<not> an_admits sn new then (Inl AuditDatabase, rows) else (Inr e, new))"

definition audit_Append ::
    "audit_session \<Rightarrow> crypto \<Rightarrow> gotime \<Rightarrow> gotime \<Rightarrow> AuditEntry \<Rightarrow> AuditEntry list \<Rightarrow>
     (audit_error + AuditEntry) \<times> AuditEntry list" where
  "audit_Append sn C now1 now2 entry rows =
     (case append_plan sn C now1 now2 entry rows of Inl x \<Rightarrow> (Inl x, rows) | Inr e \<Rightarrow> append_write sn e rows)"

subsection \<open>Queries\<close>

record AuditQuery =
  qr_TenantID :: string
  qr_OrganizationID :: string
  qr_EntityType :: string
  qr_EntityID :: string
  qr_ActorID :: string
  qr_EventType :: string
  qr_From :: "gotime option"
  qr_To :: "gotime option"
  qr_ValidFrom :: "gotime option"
  qr_ValidTo :: "gotime option"
  qr_Limit :: int64
  qr_Offset :: int64

definition at_least :: "gotime \<Rightarrow> gotime option \<Rightarrow> bool" where
  "at_least t lo = (case lo of None \<Rightarrow> True | Some x \<Rightarrow> pg_time x \<le> t)"

definition at_most :: "gotime \<Rightarrow> gotime option \<Rightarrow> bool" where
  "at_most t hi = (case hi of None \<Rightarrow> True | Some x \<Rightarrow> t \<le> pg_time x)"

definition matches_query :: "AuditQuery \<Rightarrow> AuditEntry \<Rightarrow> bool" where
  "matches_query q e \<longleftrightarrow>
     (qr_EntityType q = [] \<or> au_EntityType e = qr_EntityType q) \<and> (qr_EntityID q = [] \<or> au_EntityID e = qr_EntityID q) \<and>
     (qr_ActorID q = [] \<or> au_ActorID e = qr_ActorID q) \<and> (qr_EventType q = [] \<or> au_EventType e = qr_EventType q) \<and>
     at_least (au_CreatedAt e) (qr_From q) \<and> at_most (au_CreatedAt e) (qr_To q) \<and>
     at_least (ValidAt e) (qr_ValidFrom q) \<and> at_most (ValidAt e) (qr_ValidTo q)"

definition query_limit :: "int64 \<Rightarrow> int64" where
  "query_limit l = (let l1 = (if l \<le> 0 then 50 else l) in if 200 < l1 then 200 else l1)"

definition audit_Query :: "audit_session \<Rightarrow> AuditQuery \<Rightarrow> AuditEntry list \<Rightarrow> audit_error + AuditEntry list \<times> nat" where
  "audit_Query sn q rows =
     (if qr_TenantID q = [] \<or> qr_OrganizationID q = [] then Inl ErrScopeRequired
      else case audit_begin sn (qr_TenantID q) (qr_OrganizationID q) of
        Some x \<Rightarrow> Inl x
      | None \<Rightarrow>
          (let found = filter (matches_query q) (scope_rows (qr_TenantID q) (qr_OrganizationID q) rows) in
           if qr_Offset q < 0 then Inl AuditDatabase
           else Inr (take (nat (query_limit (qr_Limit q))) (drop (nat (qr_Offset q)) (rev (by_created sn found))), length found)))"

subsection \<open>Verification\<close>

datatype chain_error = PreviousMismatch string | HashMismatch string

record VerifyResult =
  vr_Valid :: bool
  vr_Errors :: "chain_error list"

definition verify_step :: "crypto \<Rightarrow> (gotime \<Rightarrow> string) \<Rightarrow> AuditEntry \<Rightarrow> string \<times> VerifyResult \<Rightarrow> string \<times> VerifyResult" where
  "verify_step C render e pr =
     (case pr of (previousHash, r) \<Rightarrow>
       (let r1 = (if au_PreviousHash e \<noteq> previousHash
                  then r\<lparr>vr_Valid := False, vr_Errors := vr_Errors r @ [PreviousMismatch (au_ID e)]\<rparr> else r);
            r2 = (if ComputeHash C (au_PreviousHash e) (entry_data render e) \<noteq> au_EntryHash e
                  then r1\<lparr>vr_Valid := False, vr_Errors := vr_Errors r1 @ [HashMismatch (au_ID e)]\<rparr> else r1)
        in (au_EntryHash e, r2)))"

definition VerifyChain ::
    "audit_session \<Rightarrow> crypto \<Rightarrow> string \<Rightarrow> string \<Rightarrow> gotime option \<Rightarrow> gotime option \<Rightarrow> AuditEntry list \<Rightarrow>
     audit_error + VerifyResult" where
  "VerifyChain sn C ten org lo hi rows =
     (if ten = [] \<or> org = [] then Inl ErrScopeRequired
      else case audit_begin sn ten org of
        Some x \<Rightarrow> Inl x
      | None \<Rightarrow>
          (let found = filter (\<lambda>e. at_least (au_CreatedAt e) lo \<and> at_most (au_CreatedAt e) hi) (scope_rows ten org rows) in
           Inr (snd (fold (verify_step C (an_render sn)) (by_created sn found)
             (GenesisHash, \<lparr>vr_Valid = True, vr_Errors = []\<rparr>)))))"

subsection \<open>Summaries\<close>

record TenantAuditSummary =
  ts_TenantID :: string
  ts_OrganizationID :: string
  ts_Total :: nat
  ts_ByAction :: "string \<rightharpoonup> nat"
  ts_ByEntityType :: "string \<rightharpoonup> nat"
  ts_ByEventType :: "string \<rightharpoonup> nat"
  ts_FirstRecord :: "gotime option"
  ts_LastRecord :: "gotime option"
  ts_Err :: "audit_error option"

definition bump :: "string \<Rightarrow> (string \<rightharpoonup> nat) \<Rightarrow> (string \<rightharpoonup> nat)" where
  "bump k m = m(k \<mapsto> (case m k of None \<Rightarrow> 0 | Some n \<Rightarrow> n) + 1)"

definition fold_entry :: "AuditEntry \<Rightarrow> TenantAuditSummary \<Rightarrow> TenantAuditSummary" where
  "fold_entry e s = s\<lparr>ts_ByAction := bump (au_Action e) (ts_ByAction s), ts_ByEntityType := bump (au_EntityType e) (ts_ByEntityType s),
     ts_ByEventType := bump (au_EventType e) (ts_ByEventType s),
     ts_FirstRecord := (case ts_FirstRecord s of None \<Rightarrow> Some (au_CreatedAt e)
        | Some t \<Rightarrow> if au_CreatedAt e < t then Some (au_CreatedAt e) else Some t),
     ts_LastRecord := (case ts_LastRecord s of None \<Rightarrow> Some (au_CreatedAt e)
        | Some t \<Rightarrow> if t < au_CreatedAt e then Some (au_CreatedAt e) else Some t)\<rparr>"

definition summarize_scope ::
    "audit_session \<Rightarrow> gotime option \<Rightarrow> gotime option \<Rightarrow> AuditEntry list \<Rightarrow> string \<times> string \<Rightarrow> TenantAuditSummary" where
  "summarize_scope sn lo hi rows sc =
     (case sc of (ten, org) \<Rightarrow>
       (let s = \<lparr>ts_TenantID = ten, ts_OrganizationID = org, ts_Total = 0, ts_ByAction = Map.empty, ts_ByEntityType = Map.empty,
              ts_ByEventType = Map.empty, ts_FirstRecord = None, ts_LastRecord = None, ts_Err = None\<rparr> in
        case audit_Query sn \<lparr>qr_TenantID = ten, qr_OrganizationID = org, qr_EntityType = [], qr_EntityID = [], qr_ActorID = [],
            qr_EventType = [], qr_From = lo, qr_To = hi, qr_ValidFrom = None, qr_ValidTo = None, qr_Limit = 1000, qr_Offset = 0\<rparr> rows of
          Inl x \<Rightarrow> s\<lparr>ts_Err := Some x\<rparr>
        | Inr (entries, n) \<Rightarrow> fold fold_entry entries (s\<lparr>ts_Total := n\<rparr>)))"

definition Summarize ::
    "audit_session \<Rightarrow> (string \<times> string) list \<Rightarrow> gotime option \<Rightarrow> gotime option \<Rightarrow> AuditEntry list \<Rightarrow>
     audit_error + TenantAuditSummary list" where
  "Summarize sn scopes lo hi rows =
     (if scopes = [] then Inl ErrNoTenantScopes
      else if list_ex (\<lambda>(ten, org). ten = [] \<or> org = []) scopes then Inl ErrInvalidTenantScope
      else Inr (map (summarize_scope sn lo hi rows) scopes))"

end
