(* ===== verification/Audit_Guarantees.thy ===== *)
theory Audit_Guarantees
  imports Audit_Log "HOL-Library.Multiset"
begin

text \<open>
  What the audit log promises: appends one after the other, with a clock of whole microseconds, give a log
  that verifies; a log that verifies is sealed by its last hash. And what breaks it: a clock that is
  finer than the column, two appends that overlap, and a verification that starts in the middle.
\<close>

subsection \<open>The order of the rows\<close>

definition in_order :: "AuditEntry list \<Rightarrow> bool" where
  "in_order rows \<longleftrightarrow> sorted_wrt (\<lambda>a b. au_CreatedAt a < au_CreatedAt b) rows"

lemma in_order_sorted:
  assumes "in_order rows"
  shows "sorted (map au_CreatedAt rows)" "inj_on au_CreatedAt (set rows)"
proof -
  have "sorted_wrt (<) (map au_CreatedAt rows)" using assms by (simp add: in_order_def sorted_wrt_map)
  then have "sorted (map au_CreatedAt rows) \<and> distinct (map au_CreatedAt rows)" by (simp add: strict_sorted_iff)
  then show "sorted (map au_CreatedAt rows)" "inj_on au_CreatedAt (set rows)" by (simp_all add: distinct_map)
qed

lemma by_created_in_order:
  assumes "in_order rows"
  shows "by_created sn rows = rows"
  unfolding by_created_def
  by (rule sort_key_inj_key_eq) (use in_order_sorted [OF assms] in simp_all)

lemma in_order_filter: "in_order rows \<Longrightarrow> in_order (filter P rows)"
  by (simp add: in_order_def sorted_wrt_filter)

lemma in_order_snoc: "in_order (rows @ [e]) \<longleftrightarrow> in_order rows \<and> (\<forall>r \<in> set rows. au_CreatedAt r < au_CreatedAt e)"
  by (simp add: in_order_def sorted_wrt_append)

lemma last_hash_in_order:
  "in_order (scope_rows ten org rows) \<Longrightarrow>
   last_hash sn ten org rows = (case rev (scope_rows ten org rows) of [] \<Rightarrow> GenesisHash | r # _ \<Rightarrow> au_EntryHash r)"
  by (simp add: last_hash_def by_created_in_order)

text \<open>With an upper bound only, the rows that are verified are the first ones.\<close>

lemma filter_most_prefix: "in_order rows \<Longrightarrow> prefix (filter (\<lambda>e. at_most (au_CreatedAt e) hi) rows) rows"
proof (induction rows)
  case (Cons e rows)
  show ?case
  proof (cases "at_most (au_CreatedAt e) hi")
    case True
    with Cons show ?thesis by (simp add: in_order_def)
  next
    case False
    then have "filter (\<lambda>e. at_most (au_CreatedAt e) hi) rows = []"
      using Cons.prems by (force simp: in_order_def at_most_def filter_empty_conv split: option.splits)
    with False show ?thesis by simp
  qed
qed simp

subsection \<open>Chains\<close>

fun chained_from :: "crypto \<Rightarrow> (gotime \<Rightarrow> string) \<Rightarrow> string \<Rightarrow> AuditEntry list \<Rightarrow> bool" where
  "chained_from C render p [] \<longleftrightarrow> True"
| "chained_from C render p (e # es) \<longleftrightarrow> au_PreviousHash e = p \<and> au_EntryHash e = ComputeHash C p (entry_data render e) \<and>
     chained_from C render (au_EntryHash e) es"

definition chain_last :: "string \<Rightarrow> AuditEntry list \<Rightarrow> string" where
  "chain_last p rows = (case rev rows of [] \<Rightarrow> p | r # _ \<Rightarrow> au_EntryHash r)"

lemma chain_last_simps [simp]:
  "chain_last p [] = p" "chain_last p (rows @ [e]) = au_EntryHash e" "chain_last p (e # rows) = chain_last (au_EntryHash e) rows"
  by (simp_all add: chain_last_def split: list.split)

lemma chained_snoc:
  "chained_from C render p (rows @ [e]) \<longleftrightarrow> chained_from C render p rows \<and>
     au_PreviousHash e = chain_last p rows \<and> au_EntryHash e = ComputeHash C (chain_last p rows) (entry_data render e)"
  by (induction rows arbitrary: p) auto

lemma chained_prefix: "chained_from C render p rows \<Longrightarrow> prefix xs rows \<Longrightarrow> chained_from C render p xs"
proof (induction xs arbitrary: p rows)
  case (Cons x xs)
  then show ?case by (cases rows) auto
qed simp

text \<open>The fold of the verification finds no error exactly on a chain.\<close>

lemma verify_step_valid:
  "verify_step C render e (p, r) = (q, r') \<Longrightarrow> q = au_EntryHash e \<and>
     (vr_Valid r' \<longleftrightarrow> vr_Valid r \<and> au_PreviousHash e = p \<and> ComputeHash C p (entry_data render e) = au_EntryHash e)"
  by (auto simp: verify_step_def Let_def split: if_splits)

lemma verify_step_fine:
  "au_PreviousHash e = p \<Longrightarrow> au_EntryHash e = ComputeHash C p (entry_data render e) \<Longrightarrow>
   verify_step C render e (p, r) = (au_EntryHash e, r)"
  by (simp add: verify_step_def)

lemma verify_fold:
  "vr_Valid (snd (fold (verify_step C render) rows (p, r))) \<longleftrightarrow> vr_Valid r \<and> chained_from C render p rows"
proof (induction rows arbitrary: p r)
  case (Cons e rows)
  obtain q r' where s: "verify_step C render e (p, r) = (q, r')" by fastforce
  from verify_step_valid [OF s] show ?case by (simp add: s Cons.IH) auto
qed simp

lemma verify_fold_fine:
  "chained_from C render p rows \<Longrightarrow> snd (fold (verify_step C render) rows (p, r)) = r"
proof (induction rows arbitrary: p r)
  case (Cons e rows)
  have "verify_step C render e (p, r) = (au_EntryHash e, r)"
    by (rule verify_step_fine) (use Cons.prems in simp_all)
  moreover have "chained_from C render (au_EntryHash e) rows" using Cons.prems unfolding chained_from.simps by blast
  ultimately show ?case using Cons.IH by simp
qed simp

lemma VerifyChain_valid:
  assumes "VerifyChain sn C ten org lo hi rows = Inr v" "in_order (scope_rows ten org rows)"
  shows "vr_Valid v \<longleftrightarrow> chained_from C (an_render sn) GenesisHash
    (filter (\<lambda>e. at_least (au_CreatedAt e) lo \<and> at_most (au_CreatedAt e) hi) (scope_rows ten org rows))"
proof -
  let ?f = "filter (\<lambda>e. at_least (au_CreatedAt e) lo \<and> at_most (au_CreatedAt e) hi) (scope_rows ten org rows)"
  have "v = snd (fold (verify_step C (an_render sn)) (by_created sn ?f) (GenesisHash, \<lparr>vr_Valid = True, vr_Errors = []\<rparr>))"
    using assms(1) by (auto simp: VerifyChain_def Let_def split: if_split_asm option.splits)
  with by_created_in_order [OF in_order_filter [OF assms(2)]] show ?thesis by (simp add: verify_fold)
qed

subsection \<open>Appends\<close>

definition scope_ok :: "crypto \<Rightarrow> string \<Rightarrow> string \<Rightarrow> AuditEntry list \<Rightarrow> bool" where
  "scope_ok C ten org rows \<longleftrightarrow> in_order (scope_rows ten org rows) \<and>
     chained_from C RFC3339Nano GenesisHash (scope_rows ten org rows)"

lemma Append_rows:
  "snd (audit_Append sn C now1 now2 e rows) = rows \<or>
   snd (audit_Append sn C now1 now2 e rows) = rows @ [stored_entry ((prepared_entry now1 now2 e)\<lparr>
      au_PreviousHash := last_hash sn (au_TenantID e) (au_OrganizationID e) rows,
      au_EntryHash := ComputeHash C (last_hash sn (au_TenantID e) (au_OrganizationID e) rows)
        (entry_data RFC3339Nano (prepared_entry now1 now2 e))\<rparr>)]"
  by (auto simp: audit_Append_def append_plan_def append_write_def Let_def prepared_entry_def entry_data_def
      split: sum.splits option.splits if_splits)

lemma stored_simps [simp]:
  "au_TenantID (stored_entry e) = au_TenantID e" "au_OrganizationID (stored_entry e) = au_OrganizationID e"
  "au_PreviousHash (stored_entry e) = au_PreviousHash e" "au_EntryHash (stored_entry e) = au_EntryHash e"
  "au_CreatedAt (stored_entry e) = pg_time (au_CreatedAt e)"
  by (simp_all add: stored_entry_def)

lemma prepared_simps [simp]:
  "au_TenantID (prepared_entry n1 n2 e) = au_TenantID e" "au_OrganizationID (prepared_entry n1 n2 e) = au_OrganizationID e"
  "au_CreatedAt e = 0 \<Longrightarrow> au_CreatedAt (prepared_entry n1 n2 e) = n2"
  by (simp_all add: prepared_entry_def Let_def time_IsZero_def)

lemma entry_data_stored: "pg_time (au_CreatedAt e) = au_CreatedAt e \<Longrightarrow> entry_data render (stored_entry e) = entry_data render e"
  by (simp add: entry_data_def stored_entry_def)

lemma entry_data_hashes [simp]:
  "entry_data render (e\<lparr>au_PreviousHash := p, au_EntryHash := h\<rparr>) = entry_data render e"
  by (simp add: entry_data_def)

lemma last_hash_chain: "in_order (scope_rows ten org rows) \<Longrightarrow> last_hash sn ten org rows = chain_last GenesisHash (scope_rows ten org rows)"
  by (simp add: last_hash_in_order chain_last_def)

lemma Append_keeps:
  assumes "scope_ok C ten org rows" "au_CreatedAt e = 0" "pg_time now2 = now2" "\<forall>r \<in> set rows. au_CreatedAt r < now2"
  shows "scope_ok C ten org (snd (audit_Append sn C now1 now2 e rows))"
proof (cases "snd (audit_Append sn C now1 now2 e rows) = rows")
  case False
  let ?e = "prepared_entry now1 now2 e"
  let ?p = "last_hash sn (au_TenantID e) (au_OrganizationID e) rows"
  let ?n = "stored_entry (?e\<lparr>au_PreviousHash := ?p, au_EntryHash := ComputeHash C ?p (entry_data RFC3339Nano ?e)\<rparr>)"
  have rows: "snd (audit_Append sn C now1 now2 e rows) = rows @ [?n]" using False Append_rows by metis
  show ?thesis
  proof (cases "au_TenantID e = ten \<and> au_OrganizationID e = org")
    case False
    then have "scope_rows ten org (rows @ [?n]) = scope_rows ten org rows" by (simp add: scope_rows_def)
    with assms(1) show ?thesis unfolding rows scope_ok_def by simp
  next
    case True
    then have s: "scope_rows ten org (rows @ [?n]) = scope_rows ten org rows @ [?n]" by (simp add: scope_rows_def)
    have o: "in_order (scope_rows ten org rows)" and c: "chained_from C RFC3339Nano GenesisHash (scope_rows ten org rows)"
      using assms(1) by (simp_all add: scope_ok_def)
    have at: "au_CreatedAt ?e = now2" using assms(2) by simp
    have "in_order (scope_rows ten org rows @ [?n])"
      using o assms(3,4) at by (auto simp: in_order_snoc scope_rows_def)
    moreover have "?p = chain_last GenesisHash (scope_rows ten org rows)" using last_hash_chain [OF o] True by simp
    moreover have "entry_data RFC3339Nano ?n = entry_data RFC3339Nano ?e"
      using assms(3) at by (subst entry_data_stored) simp_all
    ultimately show ?thesis unfolding rows scope_ok_def s using c by (simp add: chained_snoc)
  qed
qed (use assms(1) in simp)

text \<open>One append: the session, the two readings of the clock and the entry.\<close>

type_synonym audit_op = "audit_session \<times> gotime \<times> gotime \<times> AuditEntry"

primrec audit_next :: "crypto \<Rightarrow> audit_op \<Rightarrow> AuditEntry list \<Rightarrow> AuditEntry list" where
  "audit_next C (sn, rest) rows = (case rest of (now1, now2, e) \<Rightarrow> snd (audit_Append sn C now1 now2 e rows))"

text \<open>The log is append-only.\<close>

interpretation audit_rows: trail "audit_next C" "\<lambda>rows. True" "\<lambda>rows. rows" for C
proof unfold_locales
  fix rows :: "AuditEntry list" and p :: audit_op
  obtain sn n1 n2 e where p: "p = (sn, n1, n2, e)" by (cases p)
  show "prefix rows (audit_next C p rows)" using Append_rows [of sn C n1 n2 e rows] p by auto
qed simp

definition op_time :: "audit_op \<Rightarrow> gotime" where
  "op_time p = fst (snd (snd p))"

lemma Append_times:
  assumes "au_CreatedAt e = 0" "pg_time now2 = now2" "r \<in> set (snd (audit_Append sn C now1 now2 e rows))"
  shows "r \<in> set rows \<or> au_CreatedAt r = now2"
  using assms Append_rows [of sn C now1 now2 e rows] by auto

lemma run_scope_ok:
  assumes "scope_ok C ten org rows" "\<forall>p \<in> set ps. au_CreatedAt (snd (snd (snd p))) = 0 \<and> pg_time (op_time p) = op_time p"
    and "sorted_wrt (<) (map op_time ps)" "\<forall>p \<in> set ps. \<forall>r \<in> set rows. au_CreatedAt r < op_time p"
  shows "scope_ok C ten org (run_ops (audit_next C) ps rows)"
  using assms
proof (induction ps arbitrary: rows)
  case Nil
  then show ?case by simp
next
  case (Cons p ps)
  obtain sn n1 n2 e where p: "p = (sn, n1, n2, e)" by (cases p)
  have e: "au_CreatedAt e = 0" "pg_time n2 = n2" using Cons.prems(2) p by (simp_all add: op_time_def)
  have "scope_ok C ten org (audit_next C p rows)"
    unfolding p audit_next.simps prod.case by (rule Append_keeps [OF Cons.prems(1) e]) (use Cons.prems(4) p in \<open>simp add: op_time_def\<close>)
  moreover have "au_CreatedAt r < op_time q" if q: "q \<in> set ps" and r: "r \<in> set (audit_next C p rows)" for q r
  proof -
    have "r \<in> set rows \<or> au_CreatedAt r = n2" using Append_times [OF e] r p by auto
    moreover have "n2 < op_time q" using Cons.prems(3) q p by (simp add: op_time_def)
    ultimately show ?thesis using Cons.prems(4) q by auto
  qed
  ultimately show ?case using Cons.IH Cons.prems(2,3) by simp
qed

text \<open>C10: A log that is written by one append at a time verifies. From an empty table, whatever tenants append
  whatever entries, with failed calls among them, if the clocks are read in whole microseconds and
  advance from one append to the next and times are read back in UTC, then the verification of every
  tenant and organization, of the whole log or up to any time, is valid and reports no errors.\<close>

theorem audit_chain_verifies:
  assumes "\<forall>p \<in> set ps. au_CreatedAt (snd (snd (snd p))) = 0 \<and> pg_time (op_time p) = op_time p"
    and "sorted_wrt (<) (map op_time ps)" "an_render sn = RFC3339Nano"
    and "VerifyChain sn C ten org None hi (run_ops (audit_next C) ps []) = Inr v"
  shows "v = \<lparr>vr_Valid = True, vr_Errors = []\<rparr>"
proof -
  let ?rows = "scope_rows ten org (run_ops (audit_next C) ps [])"
  have "scope_ok C ten org (run_ops (audit_next C) ps [])"
    by (rule run_scope_ok) (use assms(1,2) in \<open>simp_all add: scope_ok_def in_order_def scope_rows_def\<close>)
  then have o: "in_order ?rows" and c: "chained_from C RFC3339Nano GenesisHash ?rows" by (simp_all add: scope_ok_def)
  let ?f = "filter (\<lambda>e. at_most (au_CreatedAt e) hi) ?rows"
  have f: "chained_from C (an_render sn) GenesisHash ?f"
    unfolding assms(3) by (rule chained_prefix [OF c filter_most_prefix [OF o]])
  have "v = snd (fold (verify_step C (an_render sn)) (by_created sn ?f) (GenesisHash, \<lparr>vr_Valid = True, vr_Errors = []\<rparr>))"
    using assms(4) by (auto simp: VerifyChain_def Let_def at_least_def split: if_split_asm option.splits)
  then show ?thesis
    using verify_fold_fine [OF f] by (simp add: by_created_in_order [OF in_order_filter [OF o]])
qed

subsection \<open>A sealed log\<close>

definition hashed :: "(gotime \<Rightarrow> string) \<Rightarrow> AuditEntry list \<Rightarrow> bytes set" where
  "hashed render rows = (\<lambda>e. au_PreviousHash e @ entry_data render e) ` set rows"

lemma chained_lengths:
  assumes "chained_from C render p rows" "length p = 64" "\<forall>x. length (sha256 C x) = 32"
  shows "length (chain_last p rows) = 64"
  using assms(1,2)
proof (induction rows arbitrary: p)
  case (Cons e rows)
  have "length (au_EntryHash e) = 64" using Cons.prems(1) assms(3) by (auto simp: ComputeHash_def length_hex_encode)
  moreover have "chained_from C render (au_EntryHash e) rows" using Cons.prems(1) unfolding chained_from.simps by blast
  ultimately show ?case using Cons.IH by simp
qed simp

lemma length_GenesisHash: "length GenesisHash = 64"
  by (simp add: GenesisHash_def)

lemma hex_encode_inject: "hex_encode x = hex_encode y \<Longrightarrow> x = y"
  using hex_decode_encode by (metis option.inject)

lemma chains_agree:
  assumes "chained_from C render p xs" "chained_from C render p ys" "length xs = length ys" "chain_last p xs = chain_last p ys"
    and "length p = 64" "\<forall>x. length (sha256 C x) = 32" "inj_on (sha256 C) (hashed render xs \<union> hashed render ys)"
  shows "map (\<lambda>e. (au_PreviousHash e, entry_data render e)) xs = map (\<lambda>e. (au_PreviousHash e, entry_data render e)) ys"
  using assms(1-4,7)
proof (induction xs arbitrary: ys rule: rev_induct)
  case Nil
  then show ?case by simp
next
  case (snoc x xs)
  then obtain y ys' where ys: "ys = ys' @ [y]" by (cases ys rule: rev_cases) auto
  have x: "chained_from C render p xs" "au_PreviousHash x = chain_last p xs"
      "au_EntryHash x = ComputeHash C (chain_last p xs) (entry_data render x)"
    and y: "chained_from C render p ys'" "au_PreviousHash y = chain_last p ys'"
      "au_EntryHash y = ComputeHash C (chain_last p ys') (entry_data render y)"
    using snoc.prems(1,2) ys by (simp_all add: chained_snoc)
  have "au_EntryHash x = au_EntryHash y" using snoc.prems(4) ys by simp
  then have "sha256 C (chain_last p xs @ entry_data render x) = sha256 C (chain_last p ys' @ entry_data render y)"
    using x(3) y(3) hex_encode_inject unfolding ComputeHash_def by metis
  then have "chain_last p xs @ entry_data render x = chain_last p ys' @ entry_data render y"
    by (rule inj_onD [OF snoc.prems(5)]) (use x(2) y(2) ys in \<open>simp_all add: hashed_def\<close>)
  moreover have "length (chain_last p xs) = 64" "length (chain_last p ys') = 64"
    using chained_lengths [OF x(1) assms(5,6)] chained_lengths [OF y(1) assms(5,6)] by simp_all
  ultimately have same: "chain_last p xs = chain_last p ys'" "entry_data render x = entry_data render y" by simp_all
  have "inj_on (sha256 C) (hashed render xs \<union> hashed render ys')"
    by (rule inj_on_subset [OF snoc.prems(5)]) (auto simp: hashed_def ys)
  from snoc.IH [OF x(1) y(1) _ same(1) this] snoc.prems(3) ys same x(2) y(2) show ?case by simp
qed


subsection \<open>What breaks the chain\<close>

text \<open>The fractions of a second of a time and of what the column keeps of it are rendered differently.\<close>

lemma strip_zeros_pad: "strip_zeros s @ replicate (length s - length (strip_zeros s)) (CHR ''0'') = s"
proof (induction s)
  case (Cons c s)
  have l: "length (strip_zeros s) \<le> length s" by (metis Cons.IH le_add1 length_append)
  show ?case
  proof (cases "strip_zeros s")
    case Nil
    with Cons.IH show ?thesis by (simp add: replicate_append_same)
  next
    case (Cons d ds)
    with \<open>strip_zeros s @ _ = s\<close> l show ?thesis by (simp add: Suc_diff_le)
  qed
qed simp

lemma strip_zeros_inject: "length s = length t \<Longrightarrow> strip_zeros s = strip_zeros t \<Longrightarrow> s = t"
  using strip_zeros_pad by metis

lemma set_strip: "c \<in> set (strip_zeros s) \<Longrightarrow> c \<in> set s"
  using set_strip_zeros by blast

definition digits_val :: "string \<Rightarrow> nat" where
  "digits_val s = foldl (\<lambda>n c. 10 * n + (of_char c - 48)) 0 s"

lemma digits_val_zeros: "digits_val (replicate k (CHR ''0'') @ s) = digits_val s"
  by (induction k) (simp_all add: digits_val_def)

lemma digits_val_show: "digits_val (show_nat n) = n"
proof (induction n rule: show_nat.induct)
  case (1 n)
  show ?case
  proof (cases "n < 10")
    case True
    then have "show_nat n = [digit_char n]" by (simp add: show_nat.simps [of n])
    with True show ?thesis by (simp add: digits_val_def of_char_digit_char)
  next
    case False
    then have "show_nat n = show_nat (n div 10) @ [digit_char (n mod 10)]" by (simp add: show_nat.simps [of n])
    with 1 [OF False] show ?thesis by (simp add: digits_val_def of_char_digit_char)
  qed
qed

lemma show_padded_val: "0 \<le> i \<Longrightarrow> digits_val (show_padded w i) = nat i"
  by (simp add: show_padded_def pad_left_def digits_val_zeros digits_val_show)

lemma length_show_nat: "n < 10 ^ Suc k \<Longrightarrow> length (show_nat n) \<le> Suc k"
proof (induction k arbitrary: n)
  case 0
  then show ?case by (simp add: show_nat.simps [of n])
next
  case (Suc k)
  show ?case
  proof (cases "n < 10")
    case True
    then show ?thesis by (simp add: show_nat.simps [of n])
  next
    case False
    have "n div 10 < 10 ^ Suc k" using Suc.prems by (simp add: div_less_iff_less_mult)
    from Suc.IH [OF this] False show ?thesis by (simp add: show_nat.simps [of n])
  qed
qed

lemma length_show_padded: "0 \<le> i \<Longrightarrow> i < 10 ^ Suc k \<Longrightarrow> length (show_padded (Suc k) i) = Suc k"
proof -
  assume i: "0 \<le> i" "i < 10 ^ Suc k"
  then have "nat i < 10 ^ Suc k" by (simp add: nat_less_iff)
  from length_show_nat [OF this] i show ?thesis by (simp add: show_padded_def pad_left_def)
qed

lemma fraction_inject:
  assumes "0 \<le> i" "i < second" "0 \<le> j" "j < second" "strip_zeros (show_padded 9 i) = strip_zeros (show_padded 9 j)"
  shows "i = j"
proof -
  have "length (show_padded 9 i) = 9" "length (show_padded 9 j) = 9"
    using length_show_padded [of i 8] length_show_padded [of j 8] assms(1-4) by (simp_all add: second_def)
  then have "show_padded 9 i = show_padded 9 j" using strip_zeros_inject assms(5) by simp
  then have "nat i = nat j" using show_padded_val assms(1,3) by metis
  with assms(1,3) show ?thesis by simp
qed

lemma mod_div_int: "0 < a \<Longrightarrow> 0 \<le> b \<Longrightarrow> (t mod (a * b)) div a = t div a mod (b :: int)"
  by (simp add: zmod_zmult2_eq)

lemma pg_time_second: "pg_time t div second = t div second"
proof -
  have "pg_time t div second = pg_time t div 1000 div 1000000" by (simp add: second_def flip: zdiv_zmult2_eq)
  also have "\<dots> = t div 1000 div 1000000" by (simp add: pg_time_def)
  finally show ?thesis by (simp add: second_def flip: zdiv_zmult2_eq)
qed

lemma day_second: "t div day_ns = t div second div 86400" "(t mod day_ns) div second = t div second mod 86400"
proof -
  have d: "day_ns = second * 86400" by (simp add: day_ns_def second_def)
  show "t div day_ns = t div second div 86400" unfolding d by (rule zdiv_zmult2_eq) simp
  show "(t mod day_ns) div second = t div second mod 86400"
    unfolding d by (rule mod_div_int) (simp_all add: second_def)
qed

lemma fraction_tail:
  "(if f = [] then [] else CHR ''.'' # f) @ ''Z'' = (if g = [] then [] else CHR ''.'' # g) @ ''Z'' \<Longrightarrow> f = g"
  by (auto split: if_split_asm)

lemma RFC3339Nano_fine:
  assumes "pg_time t \<noteq> t"
  shows "RFC3339Nano (pg_time t) \<noteq> RFC3339Nano t"
proof
  assume eq: "RFC3339Nano (pg_time t) = RFC3339Nano t"
  obtain y m d where c: "civil_of_days (t div day_ns) = (y, m, d)" by (cases "civil_of_days (t div day_ns)")
  have same: "pg_time t div day_ns = t div day_ns" "(pg_time t mod day_ns) div second = (t mod day_ns) div second"
    by (simp_all add: day_second pg_time_second)
  have "strip_zeros (show_padded 9 (pg_time t mod second)) = strip_zeros (show_padded 9 (t mod second))"
    by (rule fraction_tail) (use eq in \<open>simp add: RFC3339Nano_def Let_def same c\<close>)
  then have "pg_time t mod second = t mod second" by (intro fraction_inject) (simp_all add: second_def)
  then have "pg_time t = t" using pg_time_second [of t] by (metis div_mult_mod_eq)
  with assms show False ..
qed

lemma valid_hashes:
  assumes "VerifyChain sn C ten org None None rows = Inr v" "vr_Valid v"
  shows "chained_from C (an_render sn) GenesisHash (by_created sn (scope_rows ten org rows))"
  using assms verify_fold by (auto simp: VerifyChain_def Let_def at_least_def at_most_def split: if_split_asm option.splits)

lemma chained_hash: "chained_from C render p xs \<Longrightarrow> e \<in> set xs \<Longrightarrow> au_EntryHash e = ComputeHash C (au_PreviousHash e) (entry_data render e)"
  by (induction xs arbitrary: p) auto

lemma set_by_created [simp]: "set (by_created sn rows) = set rows"
  by (simp add: by_created_def)

text \<open>C36: A clock finer than the column breaks the chain. An append whose clock is not in whole microseconds, as a
  nanosecond clock almost never is, hashes a time that the column does not keep: from then on the
  verification of that organization is invalid, whatever is appended before or after, unless SHA-256 collides on
  the two renderings.\<close>

theorem fine_clock_breaks_chain:
  assumes "audit_Append sn' C now1 now2 e rows = (Inr e', rows')" "au_CreatedAt e = 0" "pg_time now2 \<noteq> now2"
    and "set rows' \<subseteq> set rows''" "an_render sn = RFC3339Nano"
    and "VerifyChain sn C (au_TenantID e) (au_OrganizationID e) None None rows'' = Inr v"
    and "inj_on (sha256 C) {au_PreviousHash e' @ entry_data RFC3339Nano e', au_PreviousHash e' @ entry_data RFC3339Nano (stored_entry e')}"
  shows "\<not> vr_Valid v"
proof
  assume "vr_Valid v"
  have e': "au_EntryHash e' = ComputeHash C (au_PreviousHash e') (entry_data RFC3339Nano e')" "au_CreatedAt e' = now2"
    "stored_entry e' \<in> set rows'" "au_TenantID e' = au_TenantID e" "au_OrganizationID e' = au_OrganizationID e"
    using assms(1,2) by (auto simp: audit_Append_def append_plan_def append_write_def Let_def
        split: sum.splits option.splits if_split_asm)
  then have "stored_entry e' \<in> set (by_created sn (scope_rows (au_TenantID e) (au_OrganizationID e) rows''))"
    using assms(4) by (auto simp: scope_rows_def)
  then have "au_EntryHash e' = ComputeHash C (au_PreviousHash e') (entry_data RFC3339Nano (stored_entry e'))"
    using chained_hash [OF valid_hashes [OF assms(6) \<open>vr_Valid v\<close>]] assms(5) by fastforce
  then have "sha256 C (au_PreviousHash e' @ entry_data RFC3339Nano e') = sha256 C (au_PreviousHash e' @ entry_data RFC3339Nano (stored_entry e'))"
    using e'(1) hex_encode_inject unfolding ComputeHash_def by metis
  then have "au_PreviousHash e' @ entry_data RFC3339Nano e' = au_PreviousHash e' @ entry_data RFC3339Nano (stored_entry e')"
    by (rule inj_onD [OF assms(7)]) simp_all
  then have "RFC3339Nano (pg_time now2) = RFC3339Nano now2"
    using e'(2) by (simp add: entry_data_def stored_entry_def)
  with RFC3339Nano_fine [OF assms(3)] show False ..
qed

lemma audit_chained_append:
  "chained_from C render p (xs @ ys) \<longleftrightarrow> chained_from C render p xs \<and> chained_from C render (chain_last p xs) ys"
  by (induction xs arbitrary: p) (simp_all add: conj_assoc)

lemma chained_prev:
  "chained_from C render p xs \<Longrightarrow> y \<in> set xs \<Longrightarrow> au_PreviousHash y = p \<or> (\<exists>z \<in> set xs. au_PreviousHash y = au_EntryHash z)"
  by (induction xs arbitrary: p) fastforce+

lemma chain_last_cases: "chain_last p xs = p \<or> (\<exists>z \<in> set xs. chain_last p xs = au_EntryHash z)"
  by (cases xs rule: rev_cases) auto

lemma chained_distinct:
  assumes "chained_from C render GenesisHash xs" "inj_on (sha256 C) (hashed render xs)" "\<forall>x. length (sha256 C x) = 32"
    and "\<forall>e \<in> set xs. au_EntryHash e \<noteq> GenesisHash"
  shows "distinct (map au_PreviousHash xs)"
proof -
  have "distinct (map au_PreviousHash xs @ [chain_last GenesisHash xs])"
    using assms(1,2,4)
  proof (induction xs rule: rev_induct)
    case (snoc x xs)
    have c: "chained_from C render GenesisHash xs" and p: "au_PreviousHash x = chain_last GenesisHash xs"
      using snoc.prems(1) by (simp_all add: chained_snoc)
    have "inj_on (sha256 C) (hashed render xs)" by (rule inj_on_subset [OF snoc.prems(2)]) (auto simp: hashed_def)
    then have d: "distinct (map au_PreviousHash (xs @ [x]))" using snoc.IH [OF c] snoc.prems(3) p by simp
    have len: "length (au_PreviousHash z) = 64" if "z \<in> set (xs @ [x])" for z
    proof -
      have "au_PreviousHash z = GenesisHash \<or> (\<exists>w \<in> set (xs @ [x]). au_PreviousHash z = au_EntryHash w)"
        using chained_prev [OF snoc.prems(1) that] .
      then show ?thesis
        using chained_hash [OF snoc.prems(1)] assms(3) length_GenesisHash by (auto simp: ComputeHash_def length_hex_encode)
    qed
    have no: False if z: "z \<in> set xs" "au_EntryHash x = au_EntryHash z" for z
    proof -
      have "ComputeHash C (au_PreviousHash x) (entry_data render x) = ComputeHash C (au_PreviousHash z) (entry_data render z)"
        using z chained_hash [OF snoc.prems(1)] by simp
      then have "sha256 C (au_PreviousHash x @ entry_data render x) = sha256 C (au_PreviousHash z @ entry_data render z)"
        unfolding ComputeHash_def by (rule hex_encode_inject)
      then have "au_PreviousHash x @ entry_data render x = au_PreviousHash z @ entry_data render z"
        by (rule inj_onD [OF snoc.prems(2)]) (use z(1) in \<open>auto simp: hashed_def\<close>)
      then have "au_PreviousHash x = au_PreviousHash z" using len [of x] len [of z] z(1) by simp
      with d z(1) show False by auto
    qed
    have "au_EntryHash x \<noteq> au_PreviousHash y" if y: "y \<in> set (xs @ [x])" for y
    proof
      assume eq: "au_EntryHash x = au_PreviousHash y"
      have "au_PreviousHash y = GenesisHash \<or> (\<exists>z \<in> set xs. au_PreviousHash y = au_EntryHash z)"
        using y chained_prev [OF c] chain_last_cases [of GenesisHash xs] p by auto
      with eq no snoc.prems(3) show False by auto
    qed
    then have "au_EntryHash x \<notin> au_PreviousHash ` set (xs @ [x])" by blast
    with d show ?case by (simp add: eq_commute)
  qed simp
  then show ?thesis by simp
qed

lemma mset_by_created: "mset (by_created sn rows) = mset rows"
  by (simp add: by_created_def)

lemma plan_fields:
  assumes "append_plan sn C a b e rows = Inr x"
  shows "au_PreviousHash x = last_hash sn (au_TenantID e) (au_OrganizationID e) rows"
    "au_TenantID x = au_TenantID e" "au_OrganizationID x = au_OrganizationID e"
  using assms by (auto simp: append_plan_def Let_def split: if_split_asm option.splits)

lemma write_fields:
  assumes "append_write sn x rows = (Inr x', rows')"
  shows "rows' = rows @ [stored_entry x]" "x' = x"
  using assms by (auto simp: append_write_def Let_def split: if_split_asm)

text \<open>C23: Two appends that overlap fork the chain. If two calls for the same organization have both read the last hash
  before either has inserted, as the row lock permits, since it is the old last row that is locked and
  read again, then both inserts succeed and the verification is invalid from then on, whatever else is
  appended, unless SHA-256 collides on what was hashed or yields the genesis hash.\<close>

theorem overlapping_appends_fork:
  assumes "append_plan sn1 C a1 b1 e1 rows = Inr x" "append_plan sn2 C a2 b2 e2 rows = Inr y"
    and "au_TenantID e1 = au_TenantID e2" "au_OrganizationID e1 = au_OrganizationID e2" "an_rank sn1 = an_rank sn2"
    and "append_write sn1 x rows = (Inr x', rows1)" "append_write sn2 y rows1 = (Inr y', rows2)"
    and "VerifyChain sn C (au_TenantID e1) (au_OrganizationID e1) None None (rows2 @ later) = Inr v"
    and "inj_on (sha256 C) (hashed (an_render sn) (scope_rows (au_TenantID e1) (au_OrganizationID e1) (rows2 @ later)))"
    and "\<forall>x. length (sha256 C x) = 32" "\<forall>x. hex_encode (sha256 C x) \<noteq> GenesisHash"
  shows "\<not> vr_Valid v"
proof
  assume "vr_Valid v"
  let ?s = "scope_rows (au_TenantID e1) (au_OrganizationID e1)"
  have c: "chained_from C (an_render sn) GenesisHash (by_created sn (?s (rows2 @ later)))"
    by (rule valid_hashes [OF assms(8) \<open>vr_Valid v\<close>])
  have "\<forall>e \<in> set (by_created sn (?s (rows2 @ later))). au_EntryHash e \<noteq> GenesisHash"
    using chained_hash [OF c] assms(11) by (simp add: ComputeHash_def)
  then have "distinct (map au_PreviousHash (by_created sn (?s (rows2 @ later))))"
    using chained_distinct [OF c _ assms(10)] assms(9) by (simp add: hashed_def)
  then have "distinct (map au_PreviousHash (?s (rows2 @ later)))"
    using mset_by_created by (metis mset_eq_imp_distinct_iff mset_map)
  moreover have "au_PreviousHash x = au_PreviousHash y"
    using plan_fields(1) [OF assms(1)] plan_fields(1) [OF assms(2)] assms(3-5) by (simp add: last_hash_def by_created_def)
  moreover have "?s (rows2 @ later) = ?s rows @ [stored_entry x, stored_entry y] @ ?s later"
    using write_fields(1) [OF assms(6)] write_fields(1) [OF assms(7)] plan_fields(2,3) [OF assms(1)] plan_fields(2,3) [OF assms(2)] assms(3,4)
    by (simp add: scope_rows_def)
  ultimately show False by simp
qed

lemma late_suffix:
  "in_order rows \<Longrightarrow> \<exists>pre. rows = pre @ filter (\<lambda>e. at_least (au_CreatedAt e) lo) rows"
proof (induction rows)
  case (Cons e rows)
  show ?case
  proof (cases "at_least (au_CreatedAt e) lo")
    case True
    then have "filter (\<lambda>e. at_least (au_CreatedAt e) lo) rows = rows"
      using Cons.prems by (force simp: in_order_def at_least_def filter_id_conv split: option.splits)
    with True show ?thesis by (intro exI [of _ "[]"]) simp
  next
    case False
    from Cons.IH Cons.prems obtain pre where "rows = pre @ filter (\<lambda>e. at_least (au_CreatedAt e) lo) rows"
      by (auto simp: in_order_def)
    with False show ?thesis by (intro exI [of _ "e # pre"]) simp
  qed
qed simp

text \<open>A verification cannot begin in the middle. If the whole log of an organization verifies and the lower bound
  leaves out one of its rows and keeps another, the verification from there is invalid.\<close>

theorem verification_from_middle_fails:
  assumes "VerifyChain sn C ten org None None rows = Inr v" "vr_Valid v" "in_order (scope_rows ten org rows)"
    and "r \<in> set (scope_rows ten org rows)" "au_CreatedAt r < pg_time lo"
    and "r' \<in> set (scope_rows ten org rows)" "pg_time lo \<le> au_CreatedAt r'"
    and "VerifyChain sn C ten org (Some lo) None rows = Inr w" "\<forall>x. hex_encode (sha256 C x) \<noteq> GenesisHash"
  shows "\<not> vr_Valid w"
proof
  assume "vr_Valid w"
  let ?rows = "scope_rows ten org rows" and ?late = "\<lambda>e. at_least (au_CreatedAt e) (Some lo)"
  have c: "chained_from C (an_render sn) GenesisHash ?rows"
    using VerifyChain_valid [OF assms(1,3)] assms(2) by (simp add: at_least_def at_most_def)
  have d: "chained_from C (an_render sn) GenesisHash (filter ?late ?rows)"
    using VerifyChain_valid [OF assms(8,3)] \<open>vr_Valid w\<close> by (simp add: at_most_def)
  obtain pre suf where split: "?rows = pre @ suf" "filter ?late ?rows = suf" using late_suffix [OF assms(3)] by blast
  have "r \<notin> set suf" "r' \<in> set suf" using assms(5-7) by (auto simp: at_least_def simp flip: split(2))
  then obtain e es where suf: "suf = e # es" by (cases suf) auto
  from \<open>r \<notin> set suf\<close> assms(4) split(1) have "pre \<noteq> []" by auto
  then obtain q pre' where pre: "pre = pre' @ [q]" by (cases pre rule: rev_cases) auto
  have "au_PreviousHash e = au_EntryHash q"
    using c unfolding split(1) audit_chained_append pre by (simp add: suf)
  moreover have "au_PreviousHash e = GenesisHash" using d unfolding split(2) suf by simp
  moreover have "au_EntryHash q \<noteq> GenesisHash"
    using chained_hash [OF c, of q] assms(9) by (simp add: split(1) pre ComputeHash_def)
  ultimately show False by simp
qed

subsection \<open>Records\<close>

lemma le64_val_snoc: "length bs = n \<Longrightarrow> foldr (\<lambda>b m. of_char b + 256 * m) (bs @ [c]) 0 =
    foldr (\<lambda>b m. of_char b + 256 * m) bs 0 + 256 ^ n * (of_char c :: nat)"
  by (induction bs arbitrary: n) (auto simp: algebra_simps)

lemma le_bytes_val: "foldr (\<lambda>b m. of_char b + 256 * m) (rev (be_bytes n v)) 0 = v mod 256 ^ n" for v :: nat
proof (induction n)
  case (Suc n)
  have "foldr (\<lambda>b m. of_char b + 256 * m) (rev (be_bytes n v) @ [char_of (v div 256 ^ n mod 256)]) 0 =
      v mod 256 ^ n + 256 ^ n * (v div 256 ^ n mod 256)"
    by (subst le64_val_snoc [of _ n]) (simp_all add: Suc)
  moreover have "v mod 256 ^ Suc n = 256 ^ n * (v div 256 ^ n mod 256) + v mod 256 ^ n"
    by (metis mod_mult2_eq mult.commute power_Suc)
  ultimately show ?case by (simp only: be_bytes.simps rev.simps add.commute)
qed simp

lemma le64_roundtrip [simp]: "le64_val (le64 w) = w"
proof -
  have "unat w mod 256 ^ 8 = unat w" using unsigned_less [of w, where ?'a = nat] by simp
  then show ?thesis by (simp add: le64_val_def le64_def be64_def le_bytes_val)
qed

lemma length_le64 [simp]: "length (le64 w) = 8"
  by (simp add: le64_def)

lemma sint_int64: "in_int64 i \<Longrightarrow> sint (word_of_int i :: uint64) = i"
  by (simp add: sint_sbintrunc') (rule signed_take_bit_int_eq_self, simp_all add: in_int64_def min_int64_def max_int64_def)

lemma length_hex_decode: "hex_decode s = Some bs \<Longrightarrow> length s = 2 * length bs"
  by (induction s arbitrary: bs rule: hex_decode.induct) (auto split: option.splits)

text \<open>C30: A record of the hash chain reads back what it was made from. A record that is built has 64 bytes; its parts
  are the decoded previous hash, the first 16 bytes of the hash of the payload and both times in
  nanoseconds, with the time of the event defaulting to the time of the record. It is refused exactly when the
  previous hash has fewer than 64 characters or no hexadecimal digits in them, or the payload more than 1024 bytes.\<close>

theorem audit_record_roundtrip:
  assumes "\<forall>x. length (sha256 C x) = 32"
  shows "((\<exists>x. AppendRecord C prev e = Inl x) \<longleftrightarrow>
      length prev < 64 \<or> hex_decode (take 64 prev) = None \<or> 1024 < length (record_payload e)) \<and>
    (\<forall>r. AppendRecord C prev e = Inr r \<longrightarrow> length r = 64 \<and> hex_decode (take 64 prev) = Some (PrevHashPrefix r) \<and>
      PayloadHash r = take 16 (sha256 C (record_payload e)) \<and> CreatedUnixNanos r = time_UnixNano (au_CreatedAt e) \<and>
      ValidUnixNanos r = time_UnixNano (if au_ValidTime e = 0 then au_CreatedAt e else au_ValidTime e))"
proof (intro conjI allI impI)
  show "(\<exists>x. AppendRecord C prev e = Inl x) \<longleftrightarrow>
      length prev < 64 \<or> hex_decode (take 64 prev) = None \<or> 1024 < length (record_payload e)"
    by (auto simp: AppendRecord_def split: option.split)
  fix r
  assume ok: "AppendRecord C prev e = Inr r"
  let ?c = "time_UnixNano (au_CreatedAt e)" and ?v = "time_UnixNano (ValidAt e)"
  obtain h where h: "64 \<le> length prev" "hex_decode (take 64 prev) = Some h"
    and r: "r = h @ take 16 (sha256 C (record_payload e)) @ le64 (word_of_int ?c) @ le64 (word_of_int ?v)"
    using ok by (auto simp: AppendRecord_def split: if_split_asm option.splits)
  have "length h = 32" using length_hex_decode [OF h(2)] h(1) by simp
  moreover have "length (take 16 (sha256 C (record_payload e))) = 16" using assms by simp
  moreover have "in_int64 ?c" "in_int64 ?v" by (simp_all add: time_UnixNano_def in_int64_wrap64)
  ultimately have "length r = 64 \<and> hex_decode (take 64 prev) = Some (PrevHashPrefix r) \<and>
      PayloadHash r = take 16 (sha256 C (record_payload e)) \<and> CreatedUnixNanos r = ?c \<and>
      ValidUnixNanos r = time_UnixNano (if au_ValidTime e = 0 then au_CreatedAt e else au_ValidTime e)"
    unfolding r using h(2)
    by (simp add: PrevHashPrefix_def PayloadHash_def CreatedUnixNanos_def ValidUnixNanos_def sint_int64 ValidAt_def time_IsZero_def)
  then show "length r = 64" "hex_decode (take 64 prev) = Some (PrevHashPrefix r)"
    "PayloadHash r = take 16 (sha256 C (record_payload e))" "CreatedUnixNanos r = ?c"
    "ValidUnixNanos r = time_UnixNano (if au_ValidTime e = 0 then au_CreatedAt e else au_ValidTime e)" by blast+
qed

subsection \<open>Summaries\<close>

lemma fold_counts:
  "(case ts_ByAction (fold fold_entry es s) k of None \<Rightarrow> 0 | Some n \<Rightarrow> n) =
   (case ts_ByAction s k of None \<Rightarrow> 0 | Some n \<Rightarrow> n) + length (filter (\<lambda>e. au_Action e = k) es)"
  by (induction es arbitrary: s) (simp_all add: fold_entry_def bump_def)

lemma fold_total: "ts_Total (fold fold_entry es s) = ts_Total s" "ts_Err (fold fold_entry es s) = ts_Err s"
  by (induction es arbitrary: s) (simp_all add: fold_entry_def)

text \<open>The counters of a summary cover the newest 200 rows at most, although 1000 are asked for; \<open>Total\<close> counts them all.\<close>

lemma summary_capped:
  assumes "summarize_scope sn lo hi rows (ten, org) = s" "ts_Err s = None"
  shows "ts_Total s = length (filter (\<lambda>e. at_least (au_CreatedAt e) lo \<and> at_most (au_CreatedAt e) hi) (scope_rows ten org rows)) \<and>
    (case ts_ByAction s k of None \<Rightarrow> 0 | Some n \<Rightarrow> n) \<le> 200"
proof -
  let ?q = "\<lparr>qr_TenantID = ten, qr_OrganizationID = org, qr_EntityType = [], qr_EntityID = [], qr_ActorID = [],
    qr_EventType = [], qr_From = lo, qr_To = hi, qr_ValidFrom = None, qr_ValidTo = None, qr_Limit = 1000, qr_Offset = 0\<rparr>"
  obtain es n where q: "audit_Query sn ?q rows = Inr (es, n)"
    using assms by (auto simp: summarize_scope_def Let_def split: sum.splits)
  have s: "s = fold fold_entry es \<lparr>ts_TenantID = ten, ts_OrganizationID = org, ts_Total = n, ts_ByAction = Map.empty,
      ts_ByEntityType = Map.empty, ts_ByEventType = Map.empty, ts_FirstRecord = None, ts_LastRecord = None, ts_Err = None\<rparr>"
    using assms(1) q by (simp add: summarize_scope_def)
  have m: "matches_query ?q = (\<lambda>e. at_least (au_CreatedAt e) lo \<and> at_most (au_CreatedAt e) hi)"
    by (auto simp: fun_eq_iff matches_query_def at_least_def at_most_def)
  have "length es \<le> 200" "n = length (filter (\<lambda>e. at_least (au_CreatedAt e) lo \<and> at_most (au_CreatedAt e) hi) (scope_rows ten org rows))"
    using q m by (auto simp: audit_Query_def Let_def query_limit_def split: if_split_asm option.splits)
  moreover have "length (filter (\<lambda>e. au_Action e = k) es) \<le> 200"
    by (rule order_trans [OF length_filter_le \<open>length es \<le> 200\<close>])
  ultimately show ?thesis unfolding s fold_counts fold_total by simp
qed

subsection \<open>Witnesses\<close>

definition demo_audit_crypto :: crypto where
  "demo_audit_crypto = \<lparr>sha256 = \<lambda>x. CHR 0x01 # take 31 (rev x @ replicate 31 (CHR 0x00)), hmac_sha256 = \<lambda>k m. m, ed25519_verify = \<lambda>k m s. True\<rparr>"

definition demo_audit_session :: audit_session where
  "demo_audit_session = \<lparr>an_begins = True, an_admits = \<lambda>_. True, an_render = RFC3339Nano, an_rank = \<lambda>_. 0\<rparr>"

definition demo_audit_entry :: "string \<Rightarrow> AuditEntry" where
  "demo_audit_entry i = \<lparr>au_ID = i, au_TenantID = ''t1'', au_OrganizationID = ''o1'', au_EventType = ''e'', au_EntityType = ''asset'',
     au_EntityID = ''a1'', au_ActorID = ''u1'', au_ActorName = [], au_Action = ''create'', au_OldValue = JNull, au_NewValue = JNull,
     au_Metadata = JNull, au_IPAddress = [], au_UserAgent = [], au_PreviousHash = [], au_EntryHash = [], au_CreatedAt = 0, au_ValidTime = 0\<rparr>"

lemmas demo_audit_defs = demo_audit_crypto_def demo_audit_session_def demo_audit_entry_def

lemma demo_scope [simp]: "audit_begin demo_audit_session ''t1'' ''o1'' = None"
  by (simp add: audit_begin_def demo_audit_session_def not_blank_graphic graphic_code)

lemma demo_hash_length: "\<forall>x. length (sha256 demo_audit_crypto x) = 32"
  by (auto simp: demo_audit_crypto_def min_def)

lemma demo_hash_genesis: "\<forall>x. hex_encode (sha256 demo_audit_crypto x) \<noteq> GenesisHash"
proof
  fix x
  show "hex_encode (sha256 demo_audit_crypto x) \<noteq> GenesisHash"
  proof
    assume "hex_encode (sha256 demo_audit_crypto x) = GenesisHash"
    then have "hex_encode (sha256 demo_audit_crypto x) ! 1 = GenesisHash ! 1" by simp
    then have "char_of (49 :: nat) = CHR ''0''" by (simp add: demo_audit_crypto_def hex_encode_def GenesisHash_def hex_digit_def)
    then have "(of_char (char_of (49 :: nat)) :: nat) = of_char (CHR ''0'')" by simp
    then show False by simp
  qed
qed

lemma demo_verify: "\<exists>v. VerifyChain demo_audit_session demo_audit_crypto ''t1'' ''o1'' lo hi rows = Inr v"
  by (simp add: VerifyChain_def Let_def)

lemma audit_chain_verifies_witness:
  "VerifyChain demo_audit_session demo_audit_crypto ''t1'' ''o1'' None None (run_ops (audit_next demo_audit_crypto)
     [(demo_audit_session, 7, 1000, demo_audit_entry ''1''), (demo_audit_session, 7, 2000, demo_audit_entry ''2'')] []) =
   Inr \<lparr>vr_Valid = True, vr_Errors = []\<rparr>"
proof -
  let ?ps = "[(demo_audit_session, 7, 1000, demo_audit_entry ''1''), (demo_audit_session, 7, 2000, demo_audit_entry ''2'')]"
  obtain v where v: "VerifyChain demo_audit_session demo_audit_crypto ''t1'' ''o1'' None None (run_ops (audit_next demo_audit_crypto) ?ps []) = Inr v"
    using demo_verify by blast
  have "v = \<lparr>vr_Valid = True, vr_Errors = []\<rparr>"
    by (rule audit_chain_verifies [OF _ _ _ v]) (simp_all add: op_time_def pg_time_def demo_audit_entry_def demo_audit_session_def)
  with v show ?thesis by simp
qed

definition demo_row :: "json \<Rightarrow> AuditEntry" where
  "demo_row m = (demo_audit_entry ''1'')\<lparr>au_Metadata := m, au_CreatedAt := 1000, au_PreviousHash := GenesisHash,
     au_EntryHash := ComputeHash demo_audit_crypto GenesisHash (entry_data RFC3339Nano ((demo_audit_entry ''1'')\<lparr>au_CreatedAt := 1000\<rparr>))\<rparr>"

lemma demo_row_data: "entry_data RFC3339Nano (demo_row m) = entry_data RFC3339Nano ((demo_audit_entry ''1'')\<lparr>au_CreatedAt := 1000\<rparr>)"
  by (simp add: demo_row_def entry_data_def)

lemma demo_row_fields [simp]:
  "au_PreviousHash (demo_row m) = GenesisHash" "au_CreatedAt (demo_row m) = 1000" "au_Metadata (demo_row m) = m"
  "au_EntryHash (demo_row m) = ComputeHash demo_audit_crypto GenesisHash (entry_data RFC3339Nano ((demo_audit_entry ''1'')\<lparr>au_CreatedAt := 1000\<rparr>))"
  "au_TenantID (demo_row m) = ''t1''" "au_OrganizationID (demo_row m) = ''o1''"
  by (simp_all add: demo_row_def) (simp_all add: demo_audit_entry_def)

lemma demo_row_scope [simp]: "scope_rows ''t1'' ''o1'' [demo_row m] = [demo_row m]"
  by (simp add: scope_rows_def)

lemma demo_row_verifies:
  "VerifyChain demo_audit_session demo_audit_crypto ''t1'' ''o1'' None None [demo_row m] = Inr \<lparr>vr_Valid = True, vr_Errors = []\<rparr>"
proof -
  have "an_render demo_audit_session = RFC3339Nano" by (simp add: demo_audit_session_def)
  then show ?thesis
    by (simp add: VerifyChain_def by_created_def at_least_def at_most_def verify_step_def demo_row_data)
qed


lemma demo_times: "RFC3339Nano 1500 = ''0001-01-01T00:00:00.0000015Z''" "RFC3339Nano 1000 = ''0001-01-01T00:00:00.000001Z''"
  "RFC3339Nano 2000 = ''0001-01-01T00:00:00.000002Z''"
  by code_simp+

lemma demo_append:
  "\<exists>e' rows'. audit_Append demo_audit_session demo_audit_crypto 7 t (demo_audit_entry i) [] = (Inr e', rows') \<and>
     e' = (demo_audit_entry i)\<lparr>au_CreatedAt := t, au_PreviousHash := GenesisHash, au_EntryHash := ComputeHash demo_audit_crypto GenesisHash
       (entry_data RFC3339Nano ((demo_audit_entry i)\<lparr>au_CreatedAt := t\<rparr>))\<rparr> \<and> rows' = [stored_entry e']" if "i \<noteq> []"
  using that demo_scope
  by (simp add: audit_Append_def append_plan_def append_write_def prepared_entry_def Let_def demo_audit_entry_def time_IsZero_def
      last_hash_def scope_rows_def by_created_def marshal_ok.simps) (simp add: demo_audit_session_def)

lemma fine_clock_breaks_chain_witness:
  "\<exists>e' rows' v. audit_Append demo_audit_session demo_audit_crypto 7 1500 (demo_audit_entry ''1'') [] = (Inr e', rows') \<and>
     VerifyChain demo_audit_session demo_audit_crypto ''t1'' ''o1'' None None rows' = Inr v \<and> \<not> vr_Valid v"
proof -
  obtain e' rows' where a: "audit_Append demo_audit_session demo_audit_crypto 7 1500 (demo_audit_entry ''1'') [] = (Inr e', rows')"
    and e': "e' = (demo_audit_entry ''1'')\<lparr>au_CreatedAt := 1500, au_PreviousHash := GenesisHash, au_EntryHash := ComputeHash demo_audit_crypto GenesisHash
       (entry_data RFC3339Nano ((demo_audit_entry ''1'')\<lparr>au_CreatedAt := 1500\<rparr>))\<rparr>"
    using demo_append [of "''1''" 1500] by auto
  obtain v where v: "VerifyChain demo_audit_session demo_audit_crypto ''t1'' ''o1'' None None rows' = Inr v" using demo_verify by blast
  have d: "entry_data RFC3339Nano e' = ''easseta1u1create'' @ RFC3339Nano 1500"
    "entry_data RFC3339Nano (stored_entry e') = ''easseta1u1create'' @ RFC3339Nano 1000"
    unfolding e' by (simp_all add: entry_data_def demo_audit_entry_def stored_entry_def pg_time_def)
  have "\<not> vr_Valid v"
  proof (rule fine_clock_breaks_chain [OF a _ _ subset_refl])
    show "VerifyChain demo_audit_session demo_audit_crypto (au_TenantID (demo_audit_entry ''1''))
        (au_OrganizationID (demo_audit_entry ''1'')) None None rows' = Inr v"
      using v by (simp add: demo_audit_entry_def)
    show "inj_on (sha256 demo_audit_crypto) {au_PreviousHash e' @ entry_data RFC3339Nano e',
        au_PreviousHash e' @ entry_data RFC3339Nano (stored_entry e')}"
      unfolding d demo_times by (simp add: demo_audit_crypto_def)
  qed (simp_all add: demo_audit_entry_def demo_audit_session_def pg_time_def)
  with a v show ?thesis by blast
qed

definition planned :: "string \<Rightarrow> gotime \<Rightarrow> AuditEntry" where
  "planned i t = (demo_audit_entry i)\<lparr>au_CreatedAt := t, au_PreviousHash := GenesisHash, au_EntryHash :=
     ComputeHash demo_audit_crypto GenesisHash (entry_data RFC3339Nano ((demo_audit_entry i)\<lparr>au_CreatedAt := t\<rparr>))\<rparr>"

lemma demo_plan:
  "i \<noteq> [] \<Longrightarrow> append_plan demo_audit_session demo_audit_crypto 7 t (demo_audit_entry i) [] = Inr (planned i t)"
  using demo_scope
  by (simp add: append_plan_def prepared_entry_def Let_def demo_audit_entry_def time_IsZero_def planned_def
      last_hash_def scope_rows_def by_created_def)

lemma demo_planned_data:
  "pg_time t = t \<Longrightarrow> entry_data RFC3339Nano (stored_entry (planned i t)) = ''easseta1u1create'' @ RFC3339Nano t"
  "au_PreviousHash (stored_entry (planned i t)) = GenesisHash"
  by (simp_all add: entry_data_def demo_audit_entry_def stored_entry_def planned_def)

lemma overlapping_appends_fork_witness:
  "\<exists>v. append_write demo_audit_session (planned ''1'' 1000) [] = (Inr (planned ''1'' 1000), [stored_entry (planned ''1'' 1000)]) \<and>
     append_write demo_audit_session (planned ''2'' 2000) [stored_entry (planned ''1'' 1000)] =
       (Inr (planned ''2'' 2000), [stored_entry (planned ''1'' 1000), stored_entry (planned ''2'' 2000)]) \<and>
     VerifyChain demo_audit_session demo_audit_crypto ''t1'' ''o1'' None None
       [stored_entry (planned ''1'' 1000), stored_entry (planned ''2'' 2000)] = Inr v \<and> \<not> vr_Valid v"
proof -
  let ?rows = "[stored_entry (planned ''1'' 1000), stored_entry (planned ''2'' 2000)]"
  have w: "append_write demo_audit_session (planned ''1'' 1000) [] = (Inr (planned ''1'' 1000), [stored_entry (planned ''1'' 1000)])"
    "append_write demo_audit_session (planned ''2'' 2000) [stored_entry (planned ''1'' 1000)] = (Inr (planned ''2'' 2000), ?rows)"
    by (simp_all add: append_write_def demo_audit_session_def planned_def demo_audit_entry_def stored_entry_def)
  obtain v where v: "VerifyChain demo_audit_session demo_audit_crypto ''t1'' ''o1'' None None ?rows = Inr v"
    using demo_verify by blast
  have s: "scope_rows ''t1'' ''o1'' ?rows = ?rows"
    by (simp add: scope_rows_def planned_def demo_audit_entry_def)
  have scope: "au_TenantID (demo_audit_entry i) = ''t1''" "au_OrganizationID (demo_audit_entry i) = ''o1''" for i
    by (simp_all add: demo_audit_entry_def)
  have inj: "inj_on (sha256 demo_audit_crypto) (hashed RFC3339Nano ?rows)"
    by (simp add: hashed_def demo_planned_data pg_time_def demo_times) (simp add: demo_audit_crypto_def)
  have r: "an_render demo_audit_session = RFC3339Nano" by (simp add: demo_audit_session_def)
  have "\<not> vr_Valid v"
    using overlapping_appends_fork [OF demo_plan demo_plan _ _ refl w, of demo_audit_session "[]" v] v inj
      demo_hash_length demo_hash_genesis
    by (simp add: scope s r)
  with w v show ?thesis by blast
qed

definition linked_row :: AuditEntry where
  "linked_row = (let e = (demo_audit_entry ''2'')\<lparr>au_CreatedAt := 2000, au_PreviousHash := au_EntryHash (demo_row JNull)\<rparr> in
     e\<lparr>au_EntryHash := ComputeHash demo_audit_crypto (au_PreviousHash e) (entry_data RFC3339Nano e)\<rparr>)"

lemma verification_from_middle_fails_witness:
  "\<exists>v w. VerifyChain demo_audit_session demo_audit_crypto ''t1'' ''o1'' None None [demo_row JNull, linked_row] = Inr v \<and> vr_Valid v \<and>
     VerifyChain demo_audit_session demo_audit_crypto ''t1'' ''o1'' (Some 2000) None [demo_row JNull, linked_row] = Inr w \<and> \<not> vr_Valid w"
proof -
  let ?rows = "[demo_row JNull, linked_row]"
  obtain v where v: "VerifyChain demo_audit_session demo_audit_crypto ''t1'' ''o1'' None None ?rows = Inr v" using demo_verify by blast
  obtain w where w: "VerifyChain demo_audit_session demo_audit_crypto ''t1'' ''o1'' (Some 2000) None ?rows = Inr w" using demo_verify by blast
  have s: "scope_rows ''t1'' ''o1'' ?rows = ?rows"
    by (simp add: scope_rows_def demo_row_def linked_row_def demo_audit_entry_def Let_def)
  have o: "in_order ?rows" by (simp add: in_order_def demo_row_def linked_row_def Let_def)
  have data: "entry_data RFC3339Nano ((demo_audit_entry i)\<lparr>au_CreatedAt := t, au_PreviousHash := p\<rparr>) =
      entry_data RFC3339Nano ((demo_audit_entry i)\<lparr>au_CreatedAt := t\<rparr>)" for i t p by (simp add: entry_data_def)
  have "chained_from demo_audit_crypto RFC3339Nano GenesisHash ?rows"
    using demo_row_data [of JNull] by (simp add: linked_row_def Let_def data)
  then have valid: "vr_Valid v"
    using VerifyChain_valid [OF v] s o by (simp add: at_least_def at_most_def demo_audit_session_def)
  have "\<not> vr_Valid w"
    by (rule verification_from_middle_fails [OF v valid _ _ _ _ _ w demo_hash_genesis, of "demo_row JNull" linked_row])
      (simp_all only: s o, simp_all add: demo_row_def linked_row_def Let_def pg_time_def)
  with v w valid show ?thesis by blast
qed

lemma audit_record_roundtrip_witness:
  "\<exists>r. AppendRecord demo_audit_crypto GenesisHash (demo_row JNull) = Inr r \<and> length r = 64 \<and>
     CreatedUnixNanos r = time_UnixNano 1000"
proof -
  have "hex_decode (take 64 GenesisHash) \<noteq> None" unfolding GenesisHash_def by code_simp
  moreover have "length (record_payload (demo_row JNull)) \<le> 1024"
    by (simp add: record_payload_def demo_row_def demo_audit_entry_def)
  ultimately obtain r where "AppendRecord demo_audit_crypto GenesisHash (demo_row JNull) = Inr r"
    using length_GenesisHash by (auto simp: AppendRecord_def)
  with audit_record_roundtrip [OF demo_hash_length, of GenesisHash "demo_row JNull"] show ?thesis
    by (simp add: demo_row_def)
qed

end
