(* ===== verification/Idempotency.thy ===== *)
theory Idempotency
  imports Postgres
begin

text \<open>
  The idempotency guard in front of the sync and evidence endpoints, \<open>internal/idempotency\<close>: the middleware, its claims
  and the cache table of migration 0071, and what it guarantees under concurrent requests.

  \<^item> A claim is an open transaction that holds the advisory lock of its key; its row is not visible to others until
    it commits. A request whose lock is taken waits: its operation changes nothing and can be tried again.
    \<open>now()\<close> is the start of the transaction, kept in the claim.
  \<^item> What PostgreSQL computes is a parameter: \<open>hashtext\<close>, and \<open>jsonb\<close>, which reads a text as JSON and gives
    it back in its own form, or refuses it. Decoding the two fields of the request body and the outcome of the
    response body is \<open>encoding/json\<close> on unknown structure, parameters as well.
  \<^item> The handler behind the guard is an argument of the operation that ends a request.
\<close>

subsection \<open>Keys and scopes\<close>

record idem_scope =
  is_TenantID :: string
  is_OrganizationID :: string
  is_Endpoint :: string
  is_KeyHash :: string
  is_RequestHash :: string

record idem_db =
  id_hashtext :: "string \<Rightarrow> int"
  id_jsonb :: "bytes \<Rightarrow> bytes option"
  id_scope :: "bytes \<Rightarrow> (string \<times> string) option"
  id_outcome :: "bytes \<Rightarrow> string option"
  id_ttl_hours :: int

definition nul :: string where "nul = [CHR 0x00]"

definition HashKey :: "crypto \<Rightarrow> string \<Rightarrow> string \<Rightarrow> string \<Rightarrow> string" where
  "HashKey C org endpoint key = hex_encode (sha256 C (org @ nul @ endpoint @ nul @ key))"

definition HashRequest :: "crypto \<Rightarrow> bytes \<Rightarrow> string" where
  "HashRequest C body = hex_encode (sha256 C body)"

definition advisoryKey :: "crypto \<Rightarrow> idem_scope \<Rightarrow> string" where
  "advisoryKey C s = hex_encode (sha256 C (is_TenantID s @ nul @ is_OrganizationID s @ nul @ is_Endpoint s @ nul @ is_KeyHash s))"

definition key_char :: "char \<Rightarrow> bool" where
  "key_char c \<longleftrightarrow> (let n = of_char c :: nat in
     97 \<le> n \<and> n \<le> 122 \<or> 65 \<le> n \<and> n \<le> 90 \<or> 48 \<le> n \<and> n \<le> 57 \<or> c = CHR ''-'' \<or> c = CHR ''_'' \<or> c = CHR ''.'')"

definition validIdempotencyKey :: "string \<Rightarrow> bool" where
  "validIdempotencyKey key \<longleftrightarrow> \<not> (length key < 8 \<or> 128 < length key) \<and> list_all key_char key"

text \<open>\<open>SyncScopeResolver\<close> and \<open>EvidenceScopeResolver\<close>, which have the same body.\<close>

definition ScopeResolver :: "idem_db \<Rightarrow> bytes \<Rightarrow> (string \<times> string) option" where
  "ScopeResolver db body =
     (case id_scope db body of
        None \<Rightarrow> None
      | Some (t, g) \<Rightarrow> if TrimSpace t = [] \<or> TrimSpace g = [] then None else Some (TrimSpace t, TrimSpace g))"

subsection \<open>The store\<close>

record IdemRow =
  im_Endpoint :: string
  im_RequestHash :: string
  im_Status :: string
  im_Payload :: bytes
  im_HTTPStatus :: int
  im_ExpiresAt :: gotime

record IdemClaim =
  ic_scope :: idem_scope
  ic_now :: gotime

type_synonym row_key = "string \<times> string \<times> string"

definition row_key :: "idem_scope \<Rightarrow> row_key" where
  "row_key s = (is_TenantID s, is_OrganizationID s, is_KeyHash s)"

record idem_session =
  ie_begins :: bool
  ie_admits :: "IdemRow \<Rightarrow> bool"

definition hour :: duration where "hour = 3600 * second"

definition expiry :: "idem_db \<Rightarrow> gotime \<Rightarrow> gotime" where
  "expiry db now = pg_time now + id_ttl_hours db * hour"

definition readCached :: "gotime \<Rightarrow> idem_scope \<Rightarrow> (row_key \<rightharpoonup> IdemRow) \<Rightarrow> IdemRow option" where
  "readCached now s rows =
     (case rows (row_key s) of None \<Rightarrow> None | Some r \<Rightarrow> if pg_time now < im_ExpiresAt r then Some r else None)"

text \<open>The CHECK constraints on the columns that the insert fills.\<close>

definition spaces :: "string \<Rightarrow> bool" where
  "spaces s \<longleftrightarrow> list_all (\<lambda>c. c = CHR '' '') s"

definition insert_ok :: "idem_scope \<Rightarrow> bool" where
  "insert_ok s \<longleftrightarrow> \<not> spaces (is_KeyHash s) \<and> \<not> spaces (is_TenantID s) \<and> \<not> spaces (is_OrganizationID s) \<and>
     \<not> spaces (is_Endpoint s) \<and> \<not> spaces (is_RequestHash s)"

datatype acquire_result = Waits | AcquireFails | KeyConflict | Replays IdemRow | Leads IdemClaim

definition Acquire ::
    "idem_session \<Rightarrow> idem_db \<Rightarrow> crypto \<Rightarrow> gotime \<Rightarrow> idem_scope \<Rightarrow> (row_key \<rightharpoonup> IdemRow) \<Rightarrow> IdemClaim list \<Rightarrow> acquire_result" where
  "Acquire sn db C now s rows claims =
     (if \<not> ie_begins sn \<or> CHR 0x00 \<in> set (is_TenantID s) \<or> CHR 0x00 \<in> set (is_OrganizationID s) then AcquireFails
      else if list_ex (\<lambda>c. id_hashtext db (advisoryKey C (ic_scope c)) = id_hashtext db (advisoryKey C s)) claims then Waits
      else case readCached now s rows of
        Some r \<Rightarrow> if im_RequestHash r \<noteq> is_RequestHash s then KeyConflict else Replays r
      | None \<Rightarrow> if insert_ok s then Leads \<lparr>ic_scope = s, ic_now = now\<rparr> else AcquireFails)"

definition IdemStatuses :: "string list" where
  "IdemStatuses = [''IN_PROGRESS'', ''APPLIED'', ''DUPLICATE'', ''HELD'', ''CONFLICT'', ''REJECTED'', ''QUEUED'', ''SECURITY_FAILURE'']"

text \<open>\<open>Commit\<close>: whether it reports success, and the rows. A status above 499 is not kept.\<close>

definition claim_Commit ::
    "idem_session \<Rightarrow> idem_db \<Rightarrow> IdemClaim \<Rightarrow> string \<Rightarrow> int \<Rightarrow> bytes \<Rightarrow> (row_key \<rightharpoonup> IdemRow) \<Rightarrow> bool \<times> (row_key \<rightharpoonup> IdemRow)" where
  "claim_Commit sn db c status http payload rows =
     (if 499 < http then (True, rows)
      else case id_jsonb db payload of
        None \<Rightarrow> (False, rows)
      | Some p \<Rightarrow>
          (let s = ic_scope c;
               r = \<lparr>im_Endpoint = is_Endpoint s, im_RequestHash = is_RequestHash s, im_Status = status, im_Payload = p,
                    im_HTTPStatus = http, im_ExpiresAt = expiry db (ic_now c)\<rparr> in
           if status \<in> set IdemStatuses \<and> 200 \<le> http \<and> ie_admits sn r then (True, rows(row_key s \<mapsto> r)) else (False, rows)))"

subsection \<open>The middleware\<close>

definition deriveStatus :: "idem_db \<Rightarrow> bytes \<Rightarrow> int \<Rightarrow> string" where
  "deriveStatus db body http =
     (case (if body = [] then None else id_outcome db body) of
        Some (x # xs) \<Rightarrow> x # xs
      | _ \<Rightarrow> if http = 409 then ''CONFLICT'' else if 400 \<le> http \<and> http < 500 then ''REJECTED'' else ''APPLIED'')"

record idem_request =
  rq_endpoint :: string
  rq_key :: string
  rq_body :: "bytes option"

datatype refusal = KeyRequired | InvalidKey | UnreadableBody | ScopeUnresolved | ConflictRefusal | Unavailable | CommitFailed

datatype idem_response = Refused int refusal | Answered int bytes | Replayed int bytes

datatype handler_result = Answers int bytes | Panics

datatype wrap_result = Responds idem_response | Blocks | Serves IdemClaim

definition request_scope :: "crypto \<Rightarrow> idem_db \<Rightarrow> idem_request \<Rightarrow> refusal + idem_scope" where
  "request_scope C db q =
     (let key = TrimSpace (rq_key q) in
      if key = [] then Inl KeyRequired
      else if \<not> validIdempotencyKey key then Inl InvalidKey
      else case rq_body q of
        None \<Rightarrow> Inl UnreadableBody
      | Some body \<Rightarrow>
          (case ScopeResolver db body of
             None \<Rightarrow> Inl ScopeUnresolved
           | Some (t, g) \<Rightarrow> Inr \<lparr>is_TenantID = t, is_OrganizationID = g, is_Endpoint = rq_endpoint q,
               is_KeyHash = HashKey C g (rq_endpoint q) key, is_RequestHash = HashRequest C body\<rparr>))"

definition wrap_begin ::
    "idem_session \<Rightarrow> idem_db \<Rightarrow> crypto \<Rightarrow> gotime \<Rightarrow> idem_request \<Rightarrow> (row_key \<rightharpoonup> IdemRow) \<Rightarrow> IdemClaim list \<Rightarrow> wrap_result" where
  "wrap_begin sn db C now q rows claims =
     (case request_scope C db q of
        Inl e \<Rightarrow> Responds (Refused 400 e)
      | Inr s \<Rightarrow>
          (case Acquire sn db C now s rows claims of
             Waits \<Rightarrow> Blocks
           | AcquireFails \<Rightarrow> Responds (Refused 503 Unavailable)
           | KeyConflict \<Rightarrow> Responds (Refused 409 ConflictRefusal)
           | Replays r \<Rightarrow> Responds (Replayed (im_HTTPStatus r) (im_Payload r))
           | Leads c \<Rightarrow> Serves c))"

text \<open>After the handler: the response, if there is one, and the rows.\<close>

definition wrap_end ::
    "idem_session \<Rightarrow> idem_db \<Rightarrow> IdemClaim \<Rightarrow> handler_result \<Rightarrow> (row_key \<rightharpoonup> IdemRow) \<Rightarrow> idem_response option \<times> (row_key \<rightharpoonup> IdemRow)" where
  "wrap_end sn db c h rows =
     (case h of
        Panics \<Rightarrow> (None, rows)
      | Answers http body \<Rightarrow>
          (case claim_Commit sn db c (deriveStatus db body http) http body rows of
             (True, rows') \<Rightarrow> (Some (Answered http body), rows')
           | (False, rows') \<Rightarrow> (Some (Refused 500 CommitFailed), rows')))"

subsection \<open>Concurrent requests\<close>

record idem_system =
  iy_rows :: "row_key \<rightharpoonup> IdemRow"
  iy_claims :: "IdemClaim list"
  iy_served :: "idem_scope list"

datatype idem_op = IBegin idem_session gotime idem_request | IEnd idem_session nat handler_result

primrec idem_next :: "crypto \<Rightarrow> idem_db \<Rightarrow> idem_op \<Rightarrow> idem_system \<Rightarrow> idem_system" where
  "idem_next C db (IBegin sn now q) y =
     (case wrap_begin sn db C now q (iy_rows y) (iy_claims y) of
        Serves c \<Rightarrow> y\<lparr>iy_claims := iy_claims y @ [c], iy_served := iy_served y @ [ic_scope c]\<rparr>
      | _ \<Rightarrow> y)"
| "idem_next C db (IEnd sn n h) y =
     (if n < length (iy_claims y)
      then y\<lparr>iy_rows := snd (wrap_end sn db (iy_claims y ! n) h (iy_rows y)),
             iy_claims := take n (iy_claims y) @ drop (Suc n) (iy_claims y)\<rparr>
      else y)"

text \<open>Requests that are served hold different advisory locks.\<close>

definition lock_of :: "crypto \<Rightarrow> idem_db \<Rightarrow> IdemClaim \<Rightarrow> int" where
  "lock_of C db c = id_hashtext db (advisoryKey C (ic_scope c))"

definition idem_ok :: "crypto \<Rightarrow> idem_db \<Rightarrow> idem_system \<Rightarrow> bool" where
  "idem_ok C db y \<longleftrightarrow> distinct (map (lock_of C db) (iy_claims y)) \<and>
     (\<forall>c \<in> set (iy_claims y). ic_scope c \<in> set (iy_served y))"

lemma begin_Serves:
  assumes "wrap_begin sn db C now q rows claims = Serves c"
  shows "request_scope C db q = Inr (ic_scope c)" "ic_now c = now" "readCached now (ic_scope c) rows = None"
    "\<forall>d \<in> set claims. lock_of C db d \<noteq> lock_of C db c"
  using assms
  by (auto simp: wrap_begin_def Acquire_def lock_of_def list_ex_iff
      split: sum.splits acquire_result.splits if_split_asm option.splits)

lemma idem_ok_step: "idem_ok C db y \<Longrightarrow> idem_ok C db (idem_next C db p y)"
proof (cases p)
  case (IBegin sn now q)
  assume ok: "idem_ok C db y"
  show ?thesis
  proof (cases "wrap_begin sn db C now q (iy_rows y) (iy_claims y)")
    case (Serves c)
    from begin_Serves(4) [OF Serves] ok show ?thesis unfolding IBegin by (auto simp: Serves idem_ok_def)
  qed (use ok IBegin in simp_all)
next
  case (IEnd sn n h)
  assume ok: "idem_ok C db y"
  show ?thesis
  proof (cases "n < length (iy_claims y)")
    case True
    have sub: "set (take n (iy_claims y) @ drop (Suc n) (iy_claims y)) \<subseteq> set (iy_claims y)"
      by (auto dest: in_set_takeD in_set_dropD)
    have "iy_claims y = take n (iy_claims y) @ iy_claims y ! n # drop (Suc n) (iy_claims y)" by (rule id_take_nth_drop [OF True])
    then have "map (lock_of C db) (iy_claims y) =
        map (lock_of C db) (take n (iy_claims y)) @ lock_of C db (iy_claims y ! n) # map (lock_of C db) (drop (Suc n) (iy_claims y))"
      by (metis list.map(2) map_append)
    with ok sub True show ?thesis unfolding IEnd idem_ok_def by (auto simp: subset_iff)
  qed (use ok IEnd in simp)
qed

interpretation idempotency: aggregate "idem_next C db" "idem_ok C db" for C db
  by unfold_locales (rule idem_ok_step)

text \<open>C16: No two requests with the same key are served at the same time. In every state that concurrent requests reach
  from no claims, the claims that are held are for different tenants, organizations, endpoints or keys.\<close>

theorem requests_served_exclusively:
  assumes "iy_claims y = []" "y' = run_ops (idem_next C db) ps y"
    and "i < length (iy_claims y')" "j < length (iy_claims y')"
    and "row_key (ic_scope (iy_claims y' ! i)) = row_key (ic_scope (iy_claims y' ! j))"
    and "is_Endpoint (ic_scope (iy_claims y' ! i)) = is_Endpoint (ic_scope (iy_claims y' ! j))"
  shows "i = j"
proof -
  have "idem_ok C db y'" unfolding assms(2) by (rule idempotency.run_inv) (simp add: idem_ok_def assms(1))
  then have d: "distinct (map (lock_of C db) (iy_claims y'))" by (simp add: idem_ok_def)
  have "lock_of C db (iy_claims y' ! i) = lock_of C db (iy_claims y' ! j)"
    using assms(5,6) by (simp add: lock_of_def advisoryKey_def row_key_def)
  with d assms(3,4) show ?thesis by (simp add: distinct_conv_nth) (metis (no_types) nth_map)
qed

subsection \<open>Replay\<close>

definition starts_before :: "crypto \<Rightarrow> idem_db \<Rightarrow> row_key \<Rightarrow> gotime \<Rightarrow> idem_op \<Rightarrow> bool" where
  "starts_before C db k t p = (case p of IEnd sn n h \<Rightarrow> True | IBegin sn now q \<Rightarrow>
     (case request_scope C db q of Inl e \<Rightarrow> True | Inr s \<Rightarrow> row_key s \<noteq> k \<or> pg_time now < t))"

definition settled :: "row_key \<Rightarrow> IdemRow \<Rightarrow> idem_system \<Rightarrow> bool" where
  "settled k r y \<longleftrightarrow> iy_rows y k = Some r \<and> (\<forall>c \<in> set (iy_claims y). row_key (ic_scope c) \<noteq> k)"

lemma commit_other: "row_key (ic_scope c) \<noteq> k \<Longrightarrow> snd (wrap_end sn db c h rows) k = rows k"
  by (auto simp: wrap_end_def claim_Commit_def Let_def split: handler_result.splits option.splits bool.splits prod.splits)

lemma settled_step:
  assumes "settled k r y" "starts_before C db k (im_ExpiresAt r) p"
  shows "settled k r (idem_next C db p y) \<and>
    filter (\<lambda>s. row_key s = k) (iy_served (idem_next C db p y)) = filter (\<lambda>s. row_key s = k) (iy_served y)"
proof (cases p)
  case (IBegin sn now q)
  show ?thesis
  proof (cases "wrap_begin sn db C now q (iy_rows y) (iy_claims y)")
    case (Serves c)
    note b = begin_Serves [OF Serves]
    have "row_key (ic_scope c) \<noteq> k"
    proof
      assume k: "row_key (ic_scope c) = k"
      with assms(2) b(1) have "pg_time now < im_ExpiresAt r" by (simp add: IBegin starts_before_def)
      with assms(1) k b(3) show False by (simp add: settled_def readCached_def)
    qed
    with assms(1) Serves show ?thesis by (auto simp: IBegin settled_def)
  qed (use assms(1) IBegin in simp_all)
next
  case (IEnd sn n h)
  show ?thesis
  proof (cases "n < length (iy_claims y)")
    case True
    then have "row_key (ic_scope (iy_claims y ! n)) \<noteq> k" using assms(1) by (simp add: settled_def)
    from commit_other [OF this] assms(1) True show ?thesis
      by (auto simp: IEnd settled_def dest: in_set_takeD in_set_dropD)
  qed (use assms(1) IEnd in simp)
qed

lemma settled_run:
  assumes "settled k r y" "\<forall>p \<in> set ps. starts_before C db k (im_ExpiresAt r) p"
  shows "settled k r (run_ops (idem_next C db) ps y) \<and>
    filter (\<lambda>s. row_key s = k) (iy_served (run_ops (idem_next C db) ps y)) = filter (\<lambda>s. row_key s = k) (iy_served y)"
  using assms
proof (induction ps arbitrary: y)
  case (Cons p ps)
  have p: "starts_before C db k (im_ExpiresAt r) p" using Cons.prems(2) by simp
  note s = settled_step [OF Cons.prems(1) p]
  from Cons.IH [OF conjunct1 [OF s]] Cons.prems(2) s show ?case by simp
qed simp

text \<open>C8: A request is executed once and replayed from then on. Once the handler has answered a request with a status of at
  most 499, a body that is JSON and an outcome that the table knows, and no other claim has its key,
  then whatever requests follow, as long as those with its key start before the expiry, the handler is never
  run for that key again: a request with the same body gets the kept response, one with another body is
  refused with 409 (or waits for a lock, or finds the database unavailable).\<close>

theorem request_executed_once:
  assumes "n < length (iy_claims y)" "c = iy_claims y ! n" "k = row_key (ic_scope c)"
    and "\<forall>i < length (iy_claims y). i \<noteq> n \<longrightarrow> row_key (ic_scope (iy_claims y ! i)) \<noteq> k"
    and "wrap_end sn db c (Answers http body) (iy_rows y) = (Some (Answered http body), rows)" "http \<le> 499"
    and "y' = run_ops (idem_next C db) ps (idem_next C db (IEnd sn n (Answers http body)) y)"
    and "\<forall>p \<in> set ps. starts_before C db k (expiry db (ic_now c)) p"
    and "request_scope C db q = Inr s" "row_key s = k" "pg_time now < expiry db (ic_now c)"
  shows "(\<exists>p. id_jsonb db body = Some p \<and>
      wrap_begin sn' db C now q (iy_rows y') (iy_claims y') \<in> {Blocks, Responds (Refused 503 Unavailable),
        if is_RequestHash s = is_RequestHash (ic_scope c) then Responds (Replayed http p) else Responds (Refused 409 ConflictRefusal)}) \<and>
    filter (\<lambda>s. row_key s = k) (iy_served y') = filter (\<lambda>s. row_key s = k) (iy_served y)"
proof -
  obtain p where p: "id_jsonb db body = Some p"
    and rows: "rows = (iy_rows y)(k \<mapsto> \<lparr>im_Endpoint = is_Endpoint (ic_scope c), im_RequestHash = is_RequestHash (ic_scope c),
      im_Status = deriveStatus db body http, im_Payload = p, im_HTTPStatus = http, im_ExpiresAt = expiry db (ic_now c)\<rparr>)"
    using assms(5,6) unfolding assms(3)
    by (auto simp: wrap_end_def claim_Commit_def Let_def split: option.splits bool.splits prod.splits if_split_asm)
  let ?r = "\<lparr>im_Endpoint = is_Endpoint (ic_scope c), im_RequestHash = is_RequestHash (ic_scope c),
      im_Status = deriveStatus db body http, im_Payload = p, im_HTTPStatus = http, im_ExpiresAt = expiry db (ic_now c)\<rparr>"
  let ?y = "idem_next C db (IEnd sn n (Answers http body)) y"
  have y: "iy_rows ?y = rows" "iy_claims ?y = take n (iy_claims y) @ drop (Suc n) (iy_claims y)" "iy_served ?y = iy_served y"
    using assms(1,2,5) by simp_all
  have "row_key (ic_scope d) \<noteq> k" if "d \<in> set (take n (iy_claims y) @ drop (Suc n) (iy_claims y))" for d
  proof -
    from that obtain i where "i < length (iy_claims y)" "i \<noteq> n" "d = iy_claims y ! i"
      using assms(1) by (auto simp: in_set_conv_nth) (metis less_SucI less_add_Suc1 not_add_less1 order_less_trans less_diff_conv add.commute
          add_Suc_right neq_iff)+
    then show ?thesis using assms(4) by blast
  qed
  then have "settled k ?r ?y" unfolding settled_def y rows by simp
  then have s: "settled k ?r y'" "filter (\<lambda>s. row_key s = k) (iy_served y') = filter (\<lambda>s. row_key s = k) (iy_served y)"
    using settled_run [of k ?r ?y ps C db] assms(7,8) y(3) by simp_all
  have "readCached now s (iy_rows y') = Some ?r" using s(1) assms(10,11) by (simp add: settled_def readCached_def)
  then have "wrap_begin sn' db C now q (iy_rows y') (iy_claims y') \<in> {Blocks, Responds (Refused 503 Unavailable),
        if is_RequestHash s = is_RequestHash (ic_scope c) then Responds (Replayed http p) else Responds (Refused 409 ConflictRefusal)}"
    by (auto simp: wrap_begin_def assms(9) Acquire_def)
  with p s(2) show ?thesis by blast
qed

text \<open>C35: An answer that the cache cannot hold is executed again. If the handler has answered with a status of at most 499 but
  its body is not JSON, as an empty body, or names an outcome that the table does not know, the client is
  told of a failure, nothing is kept, and the same request at any later time with a free lock is served again.\<close>

theorem uncacheable_answer_reexecuted:
  assumes "n < length (iy_claims y)" "c = iy_claims y ! n" "http \<le> 499" "iy_rows y (row_key (ic_scope c)) = None"
    and "id_jsonb db body = None \<or> deriveStatus db body http \<notin> set IdemStatuses"
    and "y' = idem_next C db (IEnd sn n (Answers http body)) y"
    and "request_scope C db q = Inr (ic_scope c)" "insert_ok (ic_scope c)" "ie_begins sn'"
    and "CHR 0x00 \<notin> set (is_TenantID (ic_scope c))" "CHR 0x00 \<notin> set (is_OrganizationID (ic_scope c))"
    and "\<forall>d \<in> set (iy_claims y'). lock_of C db d \<noteq> lock_of C db c"
  shows "fst (wrap_end sn db c (Answers http body) (iy_rows y)) = Some (Refused 500 CommitFailed) \<and>
    wrap_begin sn' db C now q (iy_rows y') (iy_claims y') = Serves \<lparr>ic_scope = ic_scope c, ic_now = now\<rparr>"
proof -
  have e: "wrap_end sn db c (Answers http body) (iy_rows y) = (Some (Refused 500 CommitFailed), iy_rows y)"
    using assms(3,5) by (auto simp: wrap_end_def claim_Commit_def Let_def split: option.splits)
  then have "iy_rows y' = iy_rows y" using assms(1,2,6) by simp
  then have "readCached now (ic_scope c) (iy_rows y') = None" using assms(4) by (simp add: readCached_def)
  then have "Acquire sn' db C now (ic_scope c) (iy_rows y') (iy_claims y') = Leads \<lparr>ic_scope = ic_scope c, ic_now = now\<rparr>"
    using assms(8-12) by (auto simp: Acquire_def list_ex_iff lock_of_def)
  with e assms(7) show ?thesis by (simp add: wrap_begin_def)
qed

subsection \<open>Witnesses\<close>

definition demo_idem_crypto :: crypto where
  "demo_idem_crypto = \<lparr>sha256 = \<lambda>x. x, hmac_sha256 = \<lambda>k m. m, ed25519_verify = \<lambda>k m s. True\<rparr>"

definition demo_idem_db :: idem_db where
  "demo_idem_db = \<lparr>id_hashtext = \<lambda>s. int (length s), id_jsonb = \<lambda>b. if b = [] then None else Some b,
     id_scope = \<lambda>b. Some (''t1'', ''o1''), id_outcome = \<lambda>b. None, id_ttl_hours = 24\<rparr>"

definition demo_idem_session :: idem_session where
  "demo_idem_session = \<lparr>ie_begins = True, ie_admits = \<lambda>_. True\<rparr>"

definition demo_idem_request :: idem_request where
  "demo_idem_request = \<lparr>rq_endpoint = ''/sync'', rq_key = ''12345678'', rq_body = Some ''{}''\<rparr>"

definition demo_idem_scope :: idem_scope where
  "demo_idem_scope = \<lparr>is_TenantID = ''t1'', is_OrganizationID = ''o1'', is_Endpoint = ''/sync'',
     is_KeyHash = HashKey demo_idem_crypto ''o1'' ''/sync'' ''12345678'', is_RequestHash = HashRequest demo_idem_crypto ''{}''\<rparr>"

definition idle :: idem_system where
  "idle = \<lparr>iy_rows = Map.empty, iy_claims = [], iy_served = []\<rparr>"

definition serving :: idem_system where
  "serving = \<lparr>iy_rows = Map.empty, iy_claims = [\<lparr>ic_scope = demo_idem_scope, ic_now = 1000\<rparr>], iy_served = [demo_idem_scope]\<rparr>"

lemma demo_request_scope: "request_scope demo_idem_crypto demo_idem_db demo_idem_request = Inr demo_idem_scope"
  by code_simp

lemma demo_insert_ok: "insert_ok demo_idem_scope"
  by code_simp

lemma demo_serves: "idem_next demo_idem_crypto demo_idem_db (IBegin demo_idem_session 1000 demo_idem_request) idle = serving"
proof -
  have "Acquire demo_idem_session demo_idem_db demo_idem_crypto 1000 demo_idem_scope Map.empty [] =
      Leads \<lparr>ic_scope = demo_idem_scope, ic_now = 1000\<rparr>"
    using demo_insert_ok by (simp add: Acquire_def demo_idem_session_def readCached_def) (simp add: demo_idem_scope_def)
  then show ?thesis by (simp add: wrap_begin_def demo_request_scope idle_def serving_def)
qed

lemma demo_blocks: "idem_next demo_idem_crypto demo_idem_db (IBegin demo_idem_session 2000 demo_idem_request) serving = serving"
proof -
  have "Acquire demo_idem_session demo_idem_db demo_idem_crypto 2000 demo_idem_scope Map.empty
      [\<lparr>ic_scope = demo_idem_scope, ic_now = 1000\<rparr>] = Waits"
    by (simp add: Acquire_def demo_idem_session_def) (simp add: demo_idem_scope_def)
  then show ?thesis by (simp add: wrap_begin_def demo_request_scope serving_def)
qed

definition demo_requests :: "idem_op list" where
  "demo_requests = [IBegin demo_idem_session 1000 demo_idem_request, IBegin demo_idem_session 2000 demo_idem_request]"

lemma idem_demo_run: "run_ops (idem_next demo_idem_crypto demo_idem_db) demo_requests idle = serving"
  by (simp add: demo_requests_def demo_serves demo_blocks del: idem_next.simps)

lemma requests_served_exclusively_witness:
  "iy_claims (run_ops (idem_next demo_idem_crypto demo_idem_db) demo_requests idle) \<noteq> [] \<and>
   length (iy_claims (run_ops (idem_next demo_idem_crypto demo_idem_db) demo_requests idle)) - 1 = 0"
proof -
  have claims: "iy_claims serving = [\<lparr>ic_scope = demo_idem_scope, ic_now = 1000\<rparr>]" by (simp add: serving_def)
  have "length (iy_claims serving) - 1 = 0"
    by (rule requests_served_exclusively [OF _ idem_demo_run [symmetric]]) (simp_all add: claims idle_def)
  then show ?thesis unfolding idem_demo_run by (simp add: claims)
qed

lemma request_executed_once_witness:
  "\<exists>p. id_jsonb demo_idem_db ''{}'' = Some p \<and>
     wrap_begin demo_idem_session demo_idem_db demo_idem_crypto 9000 demo_idem_request
       (iy_rows (idem_next demo_idem_crypto demo_idem_db (IEnd demo_idem_session 0 (Answers 200 ''{}'')) serving))
       (iy_claims (idem_next demo_idem_crypto demo_idem_db (IEnd demo_idem_session 0 (Answers 200 ''{}'')) serving)) \<in>
     {Blocks, Responds (Refused 503 Unavailable), Responds (Replayed 200 p)}"
proof -
  let ?c = "\<lparr>ic_scope = demo_idem_scope, ic_now = 1000\<rparr>"
  obtain rows where e: "wrap_end demo_idem_session demo_idem_db ?c (Answers 200 ''{}'') (iy_rows serving) = (Some (Answered 200 ''{}''), rows)"
    by (simp add: wrap_end_def claim_Commit_def deriveStatus_def demo_idem_db_def demo_idem_session_def IdemStatuses_def Let_def)
  have c: "?c = iy_claims serving ! 0" "0 < length (iy_claims serving)" "length (iy_claims serving) = 1" by (simp_all add: serving_def)
  have t: "pg_time 9000 < expiry demo_idem_db (ic_now ?c)"
    by (simp add: expiry_def pg_time_def hour_def second_def demo_idem_db_def)
  have y: "idem_next demo_idem_crypto demo_idem_db (IEnd demo_idem_session 0 (Answers 200 ''{}'')) serving =
      run_ops (idem_next demo_idem_crypto demo_idem_db) [] (idem_next demo_idem_crypto demo_idem_db
        (IEnd demo_idem_session 0 (Answers 200 ''{}'')) serving)" by simp
  have s: "row_key demo_idem_scope = row_key (ic_scope ?c)" by simp
  have l: "(200 :: int) \<le> 499" by simp
  have others: "\<forall>i < length (iy_claims serving). i \<noteq> 0 \<longrightarrow> row_key (ic_scope (iy_claims serving ! i)) \<noteq> row_key (ic_scope ?c)"
    using c(3) by simp
  have none: "\<forall>p \<in> set []. starts_before demo_idem_crypto demo_idem_db (row_key (ic_scope ?c)) (expiry demo_idem_db (ic_now ?c)) p" by simp
  from request_executed_once [OF c(2,1) refl others e l y none demo_request_scope s t, of demo_idem_session]
  show ?thesis by (simp del: idem_next.simps)
qed

lemma uncacheable_answer_reexecuted_witness:
  "wrap_begin demo_idem_session demo_idem_db demo_idem_crypto 9000 demo_idem_request
     (iy_rows (idem_next demo_idem_crypto demo_idem_db (IEnd demo_idem_session 0 (Answers 204 [])) serving))
     (iy_claims (idem_next demo_idem_crypto demo_idem_db (IEnd demo_idem_session 0 (Answers 204 [])) serving)) =
   Serves \<lparr>ic_scope = demo_idem_scope, ic_now = 9000\<rparr>"
proof -
  let ?c = "\<lparr>ic_scope = demo_idem_scope, ic_now = 1000\<rparr>"
  have c: "?c = iy_claims serving ! 0" "0 < length (iy_claims serving)" by (simp_all add: serving_def)
  have s: "CHR 0x00 \<notin> set (is_TenantID demo_idem_scope)" "CHR 0x00 \<notin> set (is_OrganizationID demo_idem_scope)"
    by (simp_all add: demo_idem_scope_def)
  from uncacheable_answer_reexecuted [OF c(2,1) _ _ _ refl, where http = 204 and body = "[]" and db = demo_idem_db and C = demo_idem_crypto
      and q = demo_idem_request and sn = demo_idem_session and sn' = demo_idem_session and now = 9000] demo_request_scope demo_insert_ok s
  show ?thesis by (simp add: serving_def demo_idem_db_def demo_idem_session_def)
qed

end
