(* ===== verification/Licensing.thy ===== *)
theory Licensing
  imports Contracts
begin

text \<open>
  Licenses of the platform, \<open>pkg/licensing\<close>: tokens and their issue, validation by one key, by a quorum of a ring of
  keys, and revocation.

  \<^item> \<open>license_crypto\<close> holds \<open>crypto/sha256\<close>, \<open>crypto/ed25519\<close>, the JSON text of a payload (\<open>encoding/json\<close>, which
    fails only on times outside its years) and \<open>strings.ToUpper\<close>. Go's \<open>Verify\<close> is false for a signature that has
    not 64 bytes.
  \<^item> Validators and tokens are values: the checks for nil pointers are left out, except for the revocation cache.
  \<^item> The cache of revocations is a map; its lock makes every operation atomic.
\<close>

subsection \<open>Tokens\<close>

record PlatformCovenants =
  pv_MaxTenants :: int64
  pv_MaxInspectorsPerTenant :: int64
  pv_AllowedJurisdictions :: "string list"
  pv_EnabledModules :: "string list"
  pv_AirGapOfflineGraceDays :: int64
  pv_AllowSubcontractorPortal :: bool
  pv_AllowDynamicRulesAuthor :: bool

record LicensePayload =
  lp_LicenseID :: string
  lp_Issuer :: string
  lp_IssuedToOrg :: string
  lp_Tier :: string
  lp_Mode :: string
  lp_IssuedAt :: gotime
  lp_NotBefore :: gotime
  lp_ExpiresAt :: gotime
  lp_HardwareLockID :: string
  lp_Covenants :: PlatformCovenants

record SignedLicenseToken =
  lt_Payload :: LicensePayload
  lt_Signature :: string
  lt_PublicKey :: string
  lt_Signoffs :: "string list"

record license_crypto =
  lc_sha256 :: "bytes \<Rightarrow> bytes"
  lc_verify :: "bytes \<Rightarrow> bytes \<Rightarrow> bytes \<Rightarrow> bool"
  lc_sign :: "bytes \<Rightarrow> bytes \<Rightarrow> bytes"
  lc_public :: "bytes \<Rightarrow> bytes"
  lc_json :: "LicensePayload \<Rightarrow> bytes"
  lc_upper :: "string \<Rightarrow> string"

datatype license_error = LicNilPrivateKey | LicMarshal | LicInvalidSignature | LicExpired | LicNotYetValid |
  LicHardwareMismatch | LicJurisdictionDenied | LicInvalidKey | LicInvalidThreshold | LicThresholdExceedsRing | LicQuorumNotMet |
  LicRevoked string string gotime | LicRevocationCacheExpired | LicInvalidRevocationEntry

definition license_digest :: "license_crypto \<Rightarrow> LicensePayload \<Rightarrow> bytes option" where
  "license_digest C p = (if time_marshalable (lp_IssuedAt p) \<and> time_marshalable (lp_NotBefore p) \<and> time_marshalable (lp_ExpiresAt p)
     then Some (lc_sha256 C (lc_json C p)) else None)"

definition Verify :: "license_crypto \<Rightarrow> bytes \<Rightarrow> bytes \<Rightarrow> bytes \<Rightarrow> bool" where
  "Verify C pub digest sig \<longleftrightarrow> length sig = 64 \<and> lc_verify C pub digest sig"

subsection \<open>Issue\<close>

definition NewMasterLicenseIssuer :: "bytes \<Rightarrow> license_error + bytes" where
  "NewMasterLicenseIssuer priv = (if length priv \<noteq> 64 then Inl LicNilPrivateKey else Inr priv)"

definition IssueLicense :: "license_crypto \<Rightarrow> bytes \<Rightarrow> LicensePayload \<Rightarrow> license_error + SignedLicenseToken" where
  "IssueLicense C priv payload =
     (case license_digest C payload of
        None \<Rightarrow> Inl LicMarshal
      | Some digest \<Rightarrow> Inr \<lparr>lt_Payload = payload, lt_Signature = hex_encode (lc_sign C priv digest),
          lt_PublicKey = hex_encode (lc_public C priv), lt_Signoffs = []\<rparr>)"

definition AddSignoff :: "license_crypto \<Rightarrow> bytes \<Rightarrow> SignedLicenseToken \<Rightarrow> license_error + SignedLicenseToken" where
  "AddSignoff C priv token =
     (case license_digest C (lt_Payload token) of
        None \<Rightarrow> Inl LicMarshal
      | Some digest \<Rightarrow> Inr (token\<lparr>lt_Signoffs := lt_Signoffs token @ [hex_encode (lc_sign C priv digest)]\<rparr>))"

subsection \<open>Validation by one key\<close>

definition NewUniversalLicenseValidator :: "string \<Rightarrow> license_error + bytes" where
  "NewUniversalLicenseValidator keyHex =
     (case hex_decode (TrimSpace keyHex) of
        None \<Rightarrow> Inl LicInvalidKey
      | Some pub \<Rightarrow> if length pub \<noteq> 32 then Inl LicInvalidKey else Inr pub)"

definition checkLicenseWindow :: "LicensePayload \<Rightarrow> string \<Rightarrow> gotime \<Rightarrow> license_error option" where
  "checkLicenseWindow p hardware now =
     (if \<not> time_IsZero (lp_NotBefore p) \<and> now < lp_NotBefore p then Some LicNotYetValid
      else if \<not> time_IsZero (lp_ExpiresAt p) \<and> lp_ExpiresAt p < now then Some LicExpired
      else if lp_HardwareLockID p \<noteq> [] \<and> (hardware = [] \<or> TrimSpace (lp_HardwareLockID p) \<noteq> TrimSpace hardware)
      then Some LicHardwareMismatch else None)"

definition single_ValidateToken ::
    "license_crypto \<Rightarrow> bytes \<Rightarrow> SignedLicenseToken \<Rightarrow> string \<Rightarrow> gotime \<Rightarrow> license_error option" where
  "single_ValidateToken C root token hardware now =
     (case hex_decode (lt_Signature token) of
        None \<Rightarrow> Some LicInvalidSignature
      | Some sig \<Rightarrow>
          (case license_digest C (lt_Payload token) of
             None \<Rightarrow> Some LicMarshal
           | Some digest \<Rightarrow> if \<not> Verify C root digest sig then Some LicInvalidSignature
               else checkLicenseWindow (lt_Payload token) hardware now))"

definition CheckJurisdictionAllowed :: "license_crypto \<Rightarrow> SignedLicenseToken \<Rightarrow> string \<Rightarrow> license_error option" where
  "CheckJurisdictionAllowed C token isoCode =
     (if list_ex (\<lambda>a. a = ''GLOBAL'' \<or> lc_upper C (TrimSpace a) = lc_upper C (TrimSpace isoCode))
           (pv_AllowedJurisdictions (lp_Covenants (lt_Payload token)))
      then None else Some LicJurisdictionDenied)"

subsection \<open>Quorum\<close>

record ringKey =
  rk_hexID :: string
  rk_pub :: bytes

record MOfNValidator =
  mn_ring :: "ringKey list"
  mn_m :: int64

text \<open>\<open>strings.ToLower\<close> on hexadecimal digits.\<close>

definition lower_hex :: "char \<Rightarrow> char" where
  "lower_hex c = (let n = of_char c :: nat in if 65 \<le> n \<and> n \<le> 70 then char_of (n + 32) else c)"

fun build_ring :: "string list \<Rightarrow> ringKey list \<Rightarrow> license_error + ringKey list" where
  "build_ring [] ring = Inr ring"
| "build_ring (key # keys) ring =
     (case hex_decode (TrimSpace key) of
        None \<Rightarrow> Inl LicInvalidThreshold
      | Some pub \<Rightarrow>
          if length pub \<noteq> 32 then Inl LicInvalidThreshold
          else (let i = map lower_hex (TrimSpace key) in
            if list_ex (\<lambda>k. rk_hexID k = i) ring then Inl LicInvalidThreshold
            else build_ring keys (ring @ [\<lparr>rk_hexID = i, rk_pub = pub\<rparr>])))"

definition hex_order :: "string \<Rightarrow> nat list" where
  "hex_order s = map of_char s"

fun insert_ring :: "ringKey \<Rightarrow> ringKey list \<Rightarrow> ringKey list" where
  "insert_ring k [] = [k]"
| "insert_ring k (x # xs) = (if (hex_order (rk_hexID k), hex_order (rk_hexID x)) \<in> lexord {(a, b). a < b} then k # x # xs
     else x # insert_ring k xs)"

definition NewMOfNValidator :: "string list \<Rightarrow> int64 \<Rightarrow> license_error + MOfNValidator" where
  "NewMOfNValidator keys m =
     (if length keys < 1 \<or> m < 1 then Inl LicInvalidThreshold
      else if int (length keys) < m then Inl LicThresholdExceedsRing
      else case build_ring keys [] of
        Inl e \<Rightarrow> Inl e
      | Inr ring \<Rightarrow> Inr \<lparr>mn_ring = foldr insert_ring ring [], mn_m = m\<rparr>)"

fun signatures_loop :: "string list \<Rightarrow> string list \<Rightarrow> bytes list \<Rightarrow> bytes list" where
  "signatures_loop [] seen out = out"
| "signatures_loop (s # ss) seen out =
     (if s = [] then signatures_loop ss seen out
      else (let clean = TrimSpace s in
        if clean \<in> set seen then signatures_loop ss seen out
        else case hex_decode clean of
          None \<Rightarrow> signatures_loop ss seen (out @ [clean])
        | Some raw \<Rightarrow> signatures_loop ss (seen @ [clean]) (out @ [raw])))"

definition Signatures :: "SignedLicenseToken \<Rightarrow> bytes list" where
  "Signatures t = signatures_loop (lt_Signature t # lt_Signoffs t) [] []"

fun verified_keys :: "license_crypto \<Rightarrow> ringKey list \<Rightarrow> bytes \<Rightarrow> bytes \<Rightarrow> string list \<Rightarrow> string list" where
  "verified_keys C [] digest sig seen = seen"
| "verified_keys C (k # ks) digest sig seen =
     verified_keys C ks digest sig (if rk_hexID k \<notin> set seen \<and> Verify C (rk_pub k) digest sig then seen @ [rk_hexID k] else seen)"

fun count_loop :: "license_crypto \<Rightarrow> ringKey list \<Rightarrow> bytes \<Rightarrow> bytes list \<Rightarrow> string list \<Rightarrow> license_error + nat" where
  "count_loop C ring digest [] seen = Inr (length seen)"
| "count_loop C ring digest (sig # sigs) seen =
     (if length sig \<noteq> 64 then Inl LicInvalidSignature
      else count_loop C ring digest sigs (verified_keys C ring digest sig seen))"

definition countDistinctSigners :: "license_crypto \<Rightarrow> MOfNValidator \<Rightarrow> bytes \<Rightarrow> bytes list \<Rightarrow> license_error + nat" where
  "countDistinctSigners C v digest sigs = count_loop C (mn_ring v) digest sigs []"

definition quorum_ValidateToken ::
    "license_crypto \<Rightarrow> MOfNValidator \<Rightarrow> SignedLicenseToken \<Rightarrow> string \<Rightarrow> gotime \<Rightarrow> license_error option" where
  "quorum_ValidateToken C v token hardware now =
     (case license_digest C (lt_Payload token) of
        None \<Rightarrow> Some LicMarshal
      | Some digest \<Rightarrow>
          (case countDistinctSigners C v digest (Signatures token) of
             Inl e \<Rightarrow> Some e
           | Inr n \<Rightarrow> if int n < mn_m v then Some LicQuorumNotMet else checkLicenseWindow (lt_Payload token) hardware now))"

subsection \<open>Revocation\<close>

record RevocationEntry_lic =
  re_LicenseID :: string
  re_Reason :: string
  re_RevokedAt :: gotime
  re_ExpiresAt :: gotime

type_synonym RevocationCache = "string \<rightharpoonup> RevocationEntry_lic"

definition validateRevocationEntry :: "RevocationEntry_lic \<Rightarrow> bool" where
  "validateRevocationEntry e \<longleftrightarrow> \<not> blank (re_LicenseID e) \<and> \<not> time_IsZero (re_RevokedAt e) \<and> \<not> time_IsZero (re_ExpiresAt e) \<and>
     re_RevokedAt e < re_ExpiresAt e"

fun load_loop :: "RevocationEntry_lic list \<Rightarrow> RevocationCache \<Rightarrow> license_error + RevocationCache" where
  "load_loop [] m = Inr m"
| "load_loop (e # es) m =
     (if \<not> validateRevocationEntry e then Inl LicInvalidRevocationEntry
      else if m (TrimSpace (re_LicenseID e)) \<noteq> None then Inl LicInvalidRevocationEntry
      else load_loop es (m(TrimSpace (re_LicenseID e) \<mapsto> e)))"

definition Load :: "RevocationEntry_lic list \<Rightarrow> RevocationCache \<Rightarrow> license_error option \<times> RevocationCache" where
  "Load entries c = (case load_loop entries Map.empty of Inl e \<Rightarrow> (Some e, c) | Inr m \<Rightarrow> (None, m))"

definition CheckLicense :: "RevocationCache \<Rightarrow> string \<Rightarrow> gotime \<Rightarrow> license_error option" where
  "CheckLicense c licenseID at =
     (case c (TrimSpace licenseID) of
        None \<Rightarrow> None
      | Some e \<Rightarrow> if re_ExpiresAt e < at then Some LicRevocationCacheExpired
          else Some (LicRevoked (re_LicenseID e) (re_Reason e) (re_RevokedAt e)))"

text \<open>\<open>ValidateWithRevocation\<close> of both validators, over the result of \<open>ValidateToken\<close>; the clock is read twice.\<close>

definition with_revocation ::
    "(gotime \<Rightarrow> license_error option) \<Rightarrow> SignedLicenseToken \<Rightarrow> RevocationCache option \<Rightarrow> gotime \<Rightarrow> gotime \<Rightarrow> license_error option" where
  "with_revocation validate token cache now1 now2 =
     (case cache of
        None \<Rightarrow> Some LicRevocationCacheExpired
      | Some c \<Rightarrow> (case validate now1 of Some e \<Rightarrow> Some e | None \<Rightarrow> CheckLicense c (lp_LicenseID (lt_Payload token)) now2))"

subsection \<open>The ring\<close>

definition ring_ok :: "ringKey list \<Rightarrow> bool" where
  "ring_ok ring \<longleftrightarrow> distinct (map rk_hexID ring) \<and> (\<forall>k \<in> set ring. hex_decode (rk_hexID k) = Some (rk_pub k) \<and>
     rk_hexID k = map lower_hex (rk_hexID k))"

lemma lower_hex_val: "hex_val (lower_hex c) = hex_val c"
  by (auto simp: lower_hex_def hex_val_def Let_def)

lemma lower_hex_idem: "lower_hex (lower_hex c) = lower_hex c"
  by (auto simp: lower_hex_def Let_def)

lemma hex_decode_lower: "hex_decode (map lower_hex s) = hex_decode s"
  by (induction s rule: hex_decode.induct) (simp_all add: lower_hex_val)

lemma lower_hex_fixed:
  assumes "lower_hex c = c"
  shows "\<not> (65 \<le> (of_char c :: nat) \<and> (of_char c :: nat) \<le> 70)"
proof
  assume n: "65 \<le> (of_char c :: nat) \<and> (of_char c :: nat) \<le> 70"
  then have "(of_char (char_of ((of_char c :: nat) + 32) :: char) :: nat) = of_char c"
    using assms by (simp add: lower_hex_def)
  with n show False by simp
qed

lemma hex_val_code: "hex_val c = Some x \<Longrightarrow> lower_hex c = c \<Longrightarrow> (of_char c :: nat) = (if x < 10 then x + 48 else x + 87)"
  using lower_hex_fixed [of c] by (auto simp: hex_val_def Let_def split: if_split_asm)

lemma hex_val_lower_inject:
  assumes "hex_val c = Some x" "hex_val d = Some x" "lower_hex c = c" "lower_hex d = d"
  shows "c = d"
proof -
  have "(of_char c :: nat) = of_char d" using hex_val_code [OF assms(1,3)] hex_val_code [OF assms(2,4)] by metis
  then show ?thesis by simp
qed

lemma hex_val_less: "hex_val c = Some x \<Longrightarrow> x < 16"
  by (auto simp: hex_val_def Let_def split: if_split_asm)

lemma hex_decode_lower_inject:
  "hex_decode s = Some b \<Longrightarrow> hex_decode t = Some b \<Longrightarrow> map lower_hex s = s \<Longrightarrow> map lower_hex t = t \<Longrightarrow> s = t"
proof (induction s arbitrary: t b rule: hex_decode.induct)
  case 1
  then show ?case by (cases t rule: hex_decode.cases) (auto split: option.splits)
next
  case (2 c)
  then show ?case by simp
next
  case (3 a b cs t bs)
  obtain x y zs where xy: "hex_val a = Some x" "hex_val b = Some y" "hex_decode cs = Some zs" "bs = char_of (16 * x + y) # zs"
    using "3.prems"(1) by (auto split: option.splits)
  obtain a' b' cs' where t: "t = a' # b' # cs'"
    using "3.prems"(2) xy(4) by (cases t rule: hex_decode.cases) auto
  obtain x' y' where xy': "hex_val a' = Some x'" "hex_val b' = Some y'" "hex_decode cs' = Some zs" "char_of (16 * x' + y') = (char_of (16 * x + y) :: char)"
    using "3.prems"(2) xy(4) t by (auto split: option.splits)
  have lt: "x < 16" "y < 16" "x' < 16" "y' < 16"
    using hex_val_less xy(1,2) xy'(1,2) by blast+
  have "(of_char (char_of (16 * x' + y') :: char) :: nat) = of_char (char_of (16 * x + y) :: char)" using xy'(4) by simp
  then have "(16 * x' + y') mod 256 = (16 * x + y) mod 256" by simp
  moreover have "16 * x' + y' < 256" "16 * x + y < 256" using lt by linarith+
  ultimately have sum: "16 * x' + y' = 16 * x + y" by (metis mod_less)
  have "x' = x" using sum lt by linarith
  then have "y' = y" using sum by simp
  note xs = xy'(1) [unfolded \<open>x' = x\<close>] xy'(2) [unfolded \<open>y' = y\<close>]
  have low: "lower_hex a = a" "lower_hex b = b" "map lower_hex cs = cs" using "3.prems"(3) by simp_all
  have low': "lower_hex a' = a'" "lower_hex b' = b'" "map lower_hex cs' = cs'" using "3.prems"(4) unfolding t by simp_all
  have "a = a'" by (rule hex_val_lower_inject [OF xy(1) xs(1) low(1) low'(1)])
  moreover have "b = b'" by (rule hex_val_lower_inject [OF xy(2) xs(2) low(2) low'(2)])
  moreover have "cs = cs'" by (rule "3.IH" [OF xy(3) xy'(3) low(3) low'(3)])
  ultimately show ?case unfolding t by blast
qed

lemma ring_keys_distinct: "ring_ok ring \<Longrightarrow> distinct (map rk_pub ring)"
proof -
  assume ok: "ring_ok ring"
  have "inj_on rk_pub (set ring)"
  proof (rule inj_onI)
    fix k l
    assume kl: "k \<in> set ring" "l \<in> set ring" "rk_pub k = rk_pub l"
    then have "rk_hexID k = rk_hexID l" using ok hex_decode_lower_inject unfolding ring_ok_def by metis
    then show "k = l" using ok kl(1,2) unfolding ring_ok_def distinct_map inj_on_def by blast
  qed
  moreover have "distinct ring" using ok by (simp add: ring_ok_def distinct_map)
  ultimately show ?thesis by (simp add: distinct_map)
qed

lemma build_ring_ok: "build_ring keys ring = Inr r \<Longrightarrow> ring_ok ring \<Longrightarrow> ring_ok r \<and> length r = length ring + length keys"
proof (induction keys arbitrary: ring)
  case (Cons key keys)
  obtain pub where p: "hex_decode (TrimSpace key) = Some pub" "length pub = 32"
    "\<forall>k \<in> set ring. rk_hexID k \<noteq> map lower_hex (TrimSpace key)"
    "build_ring keys (ring @ [\<lparr>rk_hexID = map lower_hex (TrimSpace key), rk_pub = pub\<rparr>]) = Inr r"
    using Cons.prems(1) by (auto simp: Let_def list_ex_iff split: option.splits if_split_asm)
  have "ring_ok (ring @ [\<lparr>rk_hexID = map lower_hex (TrimSpace key), rk_pub = pub\<rparr>])"
    using Cons.prems(2) p(1,3) by (auto simp: ring_ok_def hex_decode_lower lower_hex_idem comp_def)
  from Cons.IH [OF p(4) this] show ?case by simp
qed simp

lemma set_insert_ring: "set (insert_ring k xs) = insert k (set xs)" "length (insert_ring k xs) = Suc (length xs)"
  by (induction xs) auto

lemma distinct_insert_ring: "distinct (map rk_hexID (insert_ring k xs)) \<longleftrightarrow> rk_hexID k \<notin> rk_hexID ` set xs \<and> distinct (map rk_hexID xs)"
  by (induction xs) (auto simp: set_insert_ring)

lemma sorted_ring: "set (foldr insert_ring xs []) = set xs" "length (foldr insert_ring xs []) = length xs"
  "distinct (map rk_hexID (foldr insert_ring xs [])) \<longleftrightarrow> distinct (map rk_hexID xs)"
  by (induction xs) (simp_all add: set_insert_ring distinct_insert_ring)

lemma validator_ok:
  assumes "NewMOfNValidator keys m = Inr v"
  shows "ring_ok (mn_ring v)" "length (mn_ring v) = length keys" "mn_m v = m" "1 \<le> m" "m \<le> int (length keys)"
proof -
  obtain ring where r: "build_ring keys [] = Inr ring" and v: "v = \<lparr>mn_ring = foldr insert_ring ring [], mn_m = m\<rparr>"
    using assms by (auto simp: NewMOfNValidator_def split: if_split_asm)
  have "ring_ok []" by (simp add: ring_ok_def)
  from build_ring_ok [OF r this] have "ring_ok ring" "length ring = length keys" by simp_all
  then show "ring_ok (mn_ring v)" "length (mn_ring v) = length keys" by (simp_all add: v ring_ok_def sorted_ring)
  show "mn_m v = m" "1 \<le> m" "m \<le> int (length keys)" using assms v by (auto simp: NewMOfNValidator_def split: if_split_asm)
qed

subsection \<open>Counting\<close>

lemma verified_keys_set:
  "distinct seen \<Longrightarrow> distinct (map rk_hexID ring) \<Longrightarrow>
   distinct (verified_keys C ring digest sig seen) \<and>
   set (verified_keys C ring digest sig seen) = set seen \<union> rk_hexID ` {k \<in> set ring. Verify C (rk_pub k) digest sig}"
proof (induction ring arbitrary: seen)
  case (Cons k ring)
  let ?s = "if rk_hexID k \<notin> set seen \<and> Verify C (rk_pub k) digest sig then seen @ [rk_hexID k] else seen"
  have "distinct ?s" using Cons.prems(1) by simp
  from Cons.IH [OF this] Cons.prems(2) show ?case by auto
qed simp

lemma count_loop_result:
  assumes "distinct seen" "distinct (map rk_hexID ring)"
  shows "count_loop C ring digest sigs seen =
    (if \<forall>s \<in> set sigs. length s = 64
     then Inr (card (set seen \<union> rk_hexID ` {k \<in> set ring. \<exists>s \<in> set sigs. Verify C (rk_pub k) digest s})) else Inl LicInvalidSignature)"
  using assms(1)
proof (induction sigs arbitrary: seen)
  case Nil
  then show ?case by (simp add: distinct_card)
next
  case (Cons sig sigs)
  note v = verified_keys_set [OF Cons.prems assms(2), of C digest sig]
  have "set (verified_keys C ring digest sig seen) \<union> rk_hexID ` {k \<in> set ring. \<exists>s \<in> set sigs. Verify C (rk_pub k) digest s} =
      set seen \<union> rk_hexID ` {k \<in> set ring. \<exists>s \<in> set (sig # sigs). Verify C (rk_pub k) digest s}" using v by auto
  then show ?case using Cons.IH [OF conjunct1 [OF v]] by simp
qed

lemma count_signers:
  assumes "ring_ok (mn_ring v)"
  shows "countDistinctSigners C v digest sigs =
    (if \<forall>s \<in> set sigs. length s = 64
     then Inr (card {k \<in> set (map rk_pub (mn_ring v)). \<exists>s \<in> set sigs. Verify C k digest s}) else Inl LicInvalidSignature)"
proof -
  let ?K = "{k \<in> set (mn_ring v). \<exists>s \<in> set sigs. Verify C (rk_pub k) digest s}"
  have d: "distinct (map rk_hexID (mn_ring v))" using assms by (simp add: ring_ok_def)
  have "inj_on rk_hexID (set (mn_ring v))" "inj_on rk_pub (set (mn_ring v))"
    using d ring_keys_distinct [OF assms] by (simp_all add: distinct_map)
  then have "card (rk_hexID ` ?K) = card ?K" "card (rk_pub ` ?K) = card ?K"
    by (auto intro!: card_image elim: inj_on_subset)
  moreover have "rk_pub ` ?K = {k \<in> set (map rk_pub (mn_ring v)). \<exists>s \<in> set sigs. Verify C k digest s}" by auto
  ultimately have "card (rk_hexID ` ?K) = card {k \<in> set (map rk_pub (mn_ring v)). \<exists>s \<in> set sigs. Verify C k digest s}" by argo
  then show ?thesis unfolding countDistinctSigners_def using count_loop_result [OF _ d, of "[]" C digest sigs] by simp
qed

lemma quorum_decides:
  assumes "NewMOfNValidator keys m = Inr v" "license_digest C (lt_Payload token) = Some digest"
  shows "quorum_ValidateToken C v token hardware now = None \<longleftrightarrow>
    (\<forall>s \<in> set (Signatures token). length s = 64) \<and>
    m \<le> int (card {k \<in> set (map rk_pub (mn_ring v)). \<exists>s \<in> set (Signatures token). Verify C k digest s}) \<and>
    checkLicenseWindow (lt_Payload token) hardware now = None"
proof -
  note v = validator_ok [OF assms(1)]
  show ?thesis
    using v(3) assms(2) by (auto simp: quorum_ValidateToken_def count_signers [OF v(1)])
qed

subsection \<open>Guarantees\<close>

text \<open>C9: A license is accepted by a quorum exactly if enough keys have signed it. For a validator that was built from its keys, a
  token is accepted exactly if its payload can be rendered, every signature on it has 64 bytes, at least \<open>m\<close>
  different public keys of the ring verify one of the signatures on the digest of the payload, and the window
  and the hardware lock fit; one key is never counted twice, whatever signatures it gave and however its text was
  written, and a single signature of a wrong length rejects the whole token.\<close>

theorem quorum_exact:
  assumes "NewMOfNValidator keys m = Inr v" "license_digest C (lt_Payload token) = Some digest"
  shows "quorum_ValidateToken C v token hardware now = None \<longleftrightarrow>
    (\<forall>s \<in> set (Signatures token). length s = 64) \<and>
    m \<le> int (card {k \<in> set (map rk_pub (mn_ring v)). \<exists>s \<in> set (Signatures token). Verify C k digest s}) \<and>
    checkLicenseWindow (lt_Payload token) hardware now = None"
  using assms by (rule quorum_decides)

text \<open>What the signatures of a token are: one for every text that is not empty, twice for none that decodes.\<close>

lemma signatures_loop_set:
  "set (signatures_loop ss seen out) = set out \<union> {x. \<exists>s \<in> set ss. s \<noteq> [] \<and> TrimSpace s \<notin> set seen \<and>
     x = (case hex_decode (TrimSpace s) of None \<Rightarrow> TrimSpace s | Some raw \<Rightarrow> raw)}"
  by (induction ss arbitrary: seen out) (auto simp: Let_def split: option.splits)

lemma Signatures_set: "set (Signatures t) = {x. \<exists>s \<in> set (lt_Signature t # lt_Signoffs t). s \<noteq> [] \<and>
     x = (case hex_decode (TrimSpace s) of None \<Rightarrow> TrimSpace s | Some raw \<Rightarrow> raw)}"
  unfolding Signatures_def signatures_loop_set by simp

lemma hex_digit_graphic: "d < 16 \<Longrightarrow> graphic (hex_digit d)"
  by (simp add: hex_digit_def graphic_def)

lemma rspace_graphic:
  assumes "graphic (last s)" "s \<noteq> []"
  shows "rspace_len s = 0"
proof -
  obtain t c where s: "s = t @ [c]" using assms(2) by (cases s rule: rev_cases) auto
  have c: "(of_char c :: nat) < 127" "33 \<le> (of_char c :: nat)" using assms(1) s by (simp_all add: graphic_def)
  have d: "last (byte_vals (drop (length s - n) s)) = of_char c" if "0 < n" for n
    using that by (simp add: s byte_vals_def last_map)
  have "\<not> space2 (byte_vals (drop (length s - 2) s))" using d [of 2] c by (auto simp: space2_def)
  moreover have "\<not> space3 (byte_vals (drop (length s - 3) s))"
  proof
    assume sp: "space3 (byte_vals (drop (length s - 3) s))"
    let ?b = "byte_vals (drop (length s - 3) s)"
    have "length ?b = 3" using sp by (auto simp: space3_def)
    then have "?b ! 2 = of_char c" using d [of 3] by (cases ?b rule: rev_cases) (auto simp: nth_append)
    with sp c show False by (auto simp: space3_def)
  qed
  ultimately show ?thesis using c s by (auto simp: rspace_len_def ascii_space_def)
qed

lemma hex_encode_graphic: "c \<in> set (hex_encode bs) \<Longrightarrow> graphic c"
  by (auto simp: hex_encode_def intro!: hex_digit_graphic div_less_iff_less_mult [THEN iffD2] nat_of_char_less_256)

lemma TrimSpace_hex [simp]: "TrimSpace (hex_encode bs) = hex_encode bs"
proof (cases "hex_encode bs")
  case Nil
  then show ?thesis by (simp add: TrimSpace_def trim_left.simps [of "[]"] trim_right.simps [of "[]"] lspace_len_def rspace_len_def
        space2_def space3_def byte_vals_def)
next
  case (Cons c cs)
  then have "graphic c" "graphic (last (c # cs))" using hex_encode_graphic [of _ bs] last_in_set [of "c # cs"] by auto
  then show ?thesis unfolding Cons TrimSpace_def
    by (simp add: trim_left_graphic trim_right.simps [of "c # cs"] rspace_graphic)
qed

fun add_signoffs :: "license_crypto \<Rightarrow> bytes list \<Rightarrow> SignedLicenseToken \<Rightarrow> license_error + SignedLicenseToken" where
  "add_signoffs C [] token = Inr token"
| "add_signoffs C (p # ps) token = (case AddSignoff C p token of Inl e \<Rightarrow> Inl e | Inr t \<Rightarrow> add_signoffs C ps t)"

lemma add_signoffs_result:
  assumes "license_digest C (lt_Payload token) = Some digest"
  shows "add_signoffs C ps token = Inr (token\<lparr>lt_Signoffs := lt_Signoffs token @ map (\<lambda>p. hex_encode (lc_sign C p digest)) ps\<rparr>)"
  using assms by (induction ps arbitrary: token) (simp_all add: AddSignoff_def)

lemma hex_encode_Nil: "hex_encode bs = [] \<longleftrightarrow> bs = []"
  by (simp add: hex_encode_def)


lemma load_loop_result:
  "load_loop es m = Inr c \<Longrightarrow> dom c = dom m \<union> (\<lambda>e. TrimSpace (re_LicenseID e)) ` set es"
proof (induction es arbitrary: m)
  case (Cons e es)
  from Cons.prems have "load_loop es (m(TrimSpace (re_LicenseID e) \<mapsto> e)) = Inr c" by (auto split: if_split_asm)
  from Cons.IH [OF this] show ?case by auto
qed simp

text \<open>C29: A revocation list is loaded as a whole or not at all, and what it lists is never accepted. A load that fails leaves the
  cache as it was; after one that succeeds, a license is accepted exactly if the token is valid and the trimmed id is
  on no entry, at whatever time, so that an entry denies also after its freshness has run out, and a
  license that is not listed is accepted however old the list has become; without a cache nothing is accepted.\<close>

theorem revocation_exact:
  assumes "Load entries c = (r, c')"
  shows "(r \<noteq> None \<longrightarrow> c' = c) \<and>
    (r = None \<longrightarrow> (\<forall>token now1 now2. with_revocation validate token (Some c') now1 now2 = None \<longleftrightarrow>
       validate now1 = None \<and> TrimSpace (lp_LicenseID (lt_Payload token)) \<notin> (\<lambda>e. TrimSpace (re_LicenseID e)) ` set entries)) \<and>
    with_revocation validate token None now1 now2 \<noteq> None"
proof -
  have "with_revocation validate token (Some c') now1 now2 = None \<longleftrightarrow>
       validate now1 = None \<and> TrimSpace (lp_LicenseID (lt_Payload token)) \<notin> dom c'" for token now1 now2
    by (auto simp: with_revocation_def CheckLicense_def split: option.splits)
  then show ?thesis
    using assms load_loop_result [of entries Map.empty c']
    by (auto simp: Load_def with_revocation_def split: sum.splits)
qed

subsection \<open>Witnesses\<close>

definition demo_license_crypto :: license_crypto where
  "demo_license_crypto = \<lparr>lc_sha256 = \<lambda>x. x, lc_verify = \<lambda>pub d s. s = pub @ pub, lc_sign = \<lambda>priv d. priv,
     lc_public = \<lambda>priv. take 32 priv, lc_json = \<lambda>p. lp_LicenseID p, lc_upper = \<lambda>s. s\<rparr>"

definition demo_covenants :: PlatformCovenants where
  "demo_covenants = \<lparr>pv_MaxTenants = 1, pv_MaxInspectorsPerTenant = 1, pv_AllowedJurisdictions = [''SA''], pv_EnabledModules = [],
     pv_AirGapOfflineGraceDays = 0, pv_AllowSubcontractorPortal = False, pv_AllowDynamicRulesAuthor = False\<rparr>"

definition demo_payload :: LicensePayload where
  "demo_payload = \<lparr>lp_LicenseID = ''L1'', lp_Issuer = ''i'', lp_IssuedToOrg = ''o'', lp_Tier = ''ENTERPRISE'', lp_Mode = ''ON_PREMISE'',
     lp_IssuedAt = 0, lp_NotBefore = 0, lp_ExpiresAt = 0, lp_HardwareLockID = [], lp_Covenants = demo_covenants\<rparr>"

definition demo_priv :: "char \<Rightarrow> bytes" where
  "demo_priv c = replicate 64 c"

definition demo_hex_key :: "char \<Rightarrow> string" where
  "demo_hex_key c = hex_encode (replicate 32 c)"

lemma demo_digest: "license_digest demo_license_crypto demo_payload = Some ''L1''"
  by (simp add: license_digest_def demo_payload_def demo_license_crypto_def time_marshalable_def)

lemma demo_window: "checkLicenseWindow demo_payload [] 5 = None"
  by (simp add: checkLicenseWindow_def demo_payload_def time_IsZero_def)

definition demo_ring :: "ringKey list" where
  "demo_ring = [\<lparr>rk_hexID = demo_hex_key (CHR 0x01), rk_pub = replicate 32 (CHR 0x01)\<rparr>,
     \<lparr>rk_hexID = demo_hex_key (CHR 0x02), rk_pub = replicate 32 (CHR 0x02)\<rparr>]"

lemma demo_validator: "NewMOfNValidator [demo_hex_key (CHR 0x01), demo_hex_key (CHR 0x02)] 2 = Inr \<lparr>mn_ring = demo_ring, mn_m = 2\<rparr>"
  by code_simp

definition demo_token :: SignedLicenseToken where
  "demo_token = \<lparr>lt_Payload = demo_payload, lt_Signature = hex_encode (demo_priv (CHR 0x01)),
     lt_PublicKey = hex_encode (take 32 (demo_priv (CHR 0x01))), lt_Signoffs = [hex_encode (demo_priv (CHR 0x02))]\<rparr>"

lemma demo_issue:
  "IssueLicense demo_license_crypto (demo_priv (CHR 0x01)) demo_payload = Inr (demo_token\<lparr>lt_Signoffs := []\<rparr>)"
  "add_signoffs demo_license_crypto [demo_priv (CHR 0x02)] (demo_token\<lparr>lt_Signoffs := []\<rparr>) = Inr demo_token"
  by (simp_all add: IssueLicense_def AddSignoff_def demo_digest demo_token_def) (simp_all add: demo_license_crypto_def)

lemma demo_half: "demo_priv c = replicate 32 c @ replicate 32 c" "take 32 (demo_priv c) = replicate 32 c"
  by (simp_all add: demo_priv_def flip: replicate_add)


lemma quorum_exact_witness:
  "quorum_ValidateToken demo_license_crypto \<lparr>mn_ring = demo_ring, mn_m = 2\<rparr> (demo_token\<lparr>lt_Signoffs := [''zz'']\<rparr>) [] 5 \<noteq> None"
proof -
  have "license_digest demo_license_crypto (lt_Payload (demo_token\<lparr>lt_Signoffs := [''zz'']\<rparr>)) = Some ''L1''"
    using demo_digest by (simp add: demo_token_def)
  note q = quorum_exact [OF demo_validator this, of "[]" 5]
  have "TrimSpace ''zz'' = ''zz''" "hex_decode ''zz'' = None" by code_simp+
  then have "''zz'' \<in> set (Signatures (demo_token\<lparr>lt_Signoffs := [''zz'']\<rparr>))" unfolding Signatures_set by force
  with q show ?thesis by fastforce
qed

lemma revocation_exact_witness:
  "\<exists>c'. Load [\<lparr>re_LicenseID = ''L1'', re_Reason = ''r'', re_RevokedAt = 5, re_ExpiresAt = 9\<rparr>] Map.empty = (None, c') \<and>
     with_revocation (\<lambda>t. None) demo_token (Some c') 7 700 \<noteq> None"
proof -
  let ?e = "\<lparr>re_LicenseID = ''L1'', re_Reason = ''r'', re_RevokedAt = 5, re_ExpiresAt = 9\<rparr>"
  obtain c' where l: "Load [?e] Map.empty = (None, c')"
    by (simp add: Load_def validateRevocationEntry_def time_IsZero_def not_blank_graphic graphic_code)
  from revocation_exact [OF l, of "\<lambda>t. None"] have "with_revocation (\<lambda>t. None) demo_token (Some c') 7 700 \<noteq> None"
    by (simp add: demo_token_def demo_payload_def)
  with l show ?thesis by blast
qed

end
