(* ===== verification/Spec2Isabelle.thy ===== *)
theory Spec2Isabelle
  imports Inspection Certificate Work_Order_Store Sync_Guarantees Transparency Edge_Guarantees Asset_Guarantees
    Custody_Handover Ring_Guarantees Link_Guarantees Webhook_Guarantees Audit_Guarantees Idempotency Licensing
begin

text \<open>
  INTEGIN, a Go system for inspections in the field: inspectors work offline on registered devices,
  their submissions are signed, checked against authority packages and applied once when the device is
  online again, and lead to certificates that separate duties. All paths below are under
  \<open>src/integin-pilot-source/\<close>; \<open>internal/\<close> holds the server, \<open>pkg/\<close> the shared packages.

  How the parts interact. A work order assigns scope to inspectors (\<open>Work_Order\<close>, through the commands of
  \<open>Work_Order_Service\<close>, kept by \<open>Work_Order_Store\<close>). A device is enrolled and given an authority package
  (\<open>Device_Trust\<close>); what it submits goes through the sync processor (\<open>Sync_Processor\<close>) into the durable state
  (\<open>Sync_State\<close>, \<open>Sync_Store\<close>), after its schema epoch has been agreed on (\<open>Schema_Versioning\<close>). At a site
  without a network the edge appliance leases authority and seals what happened (\<open>Edge_Coordinator\<close>,
  \<open>Field_Trust\<close>). Findings become an inspection (\<open>Inspection\<close>) and a certificate (\<open>Certificate\<close>). Assets have
  entitlements, tags and offline packages (\<open>Asset_Entitlement\<close>) and a chain of custody (\<open>Custody_Handover\<close>).
  Published facts stand in a Merkle log (\<open>Transparency\<close>); links to them are short (\<open>Short_Link\<close>) and call
  webhooks (\<open>Webhook_Delivery\<close>). Everything that is stored goes through scoped transactions (\<open>Postgres\<close>);
  work items pass through a lock-free ring (\<open>Ring_Buffer\<close>).

  Conventions. A struct is a record with the field names of the code after a short prefix; an enum is a datatype,
  a string type with open values a \<open>string\<close>; a Go string and a \<open>[]byte\<close> are lists of bytes; \<open>uint64\<close> and \<open>uint32\<close>
  are words, \<open>int64\<close>, \<open>time.Time\<close> and \<open>time.Duration\<close> integers with the saturation and wrap-around written out where
  the code depends on it. An operation that returns \<open>(T, error)\<close> returns \<open>error + T\<close>, with the new state beside it
  where the code changes state before it fails. A table is a list of rows or a map from its key; the
  session gives what the database decides (row-level security, foreign keys, whether a commit goes
  through). Clocks, random bytes, hashes, signature checks, map-iteration orders and everything not under
  \<open>src/\<close> are arguments. \<open>Go_Prelude\<close> holds these and \<open>Byte_Encoding\<close> the fixed-width encodings.

  \<open>Contracts\<close> has the interfaces as locales, each interpreted on the model's own definitions in the theory of
  the component: status machines that climb (\<open>graded\<close>, \<open>lifecycle\<close>, \<open>strict_lifecycle\<close>), aggregates whose operations
  keep an invariant (\<open>aggregate\<close>), append-only trails (\<open>trail\<close>) and numbered event trails (\<open>audited\<close>). A property
  over all runs of a component is an instance of \<open>run_inv\<close>, \<open>run_prefix\<close> or \<open>run_ids_distinct\<close>.

  Which theory models what, and what its lemmas show.
  \<^item> \<open>Shared_Kernel\<close>: \<open>internal/shared/types\<close>, \<open>internal/shared/events\<close>; tenant contexts, verdicts and event
    envelopes, with the round trip of an envelope through its JSON form.
  \<^item> \<open>Inspection\<close>: \<open>internal/domain/inspection\<close>; an approved inspection was reviewed by someone else than its
    inspector, and its event history only grows.
  \<^item> \<open>Certificate\<close>: \<open>internal/domain/certificate\<close>; the states of a certificate, signature acts, the separation of
    duties between inspector, reviewer and approver, and what signatures seal.
  \<^item> \<open>Device_Trust\<close>: \<open>internal/domain/device_trust\<close> and enrollment; epochs of devices grow, stale packages are refused.
  \<^item> \<open>Work_Order\<close>, \<open>Work_Order_Service\<close>, \<open>Work_Order_Store\<close>: \<open>internal/domain/workorder\<close>, \<open>internal/workorderpg\<close>; the
    execution machine, close-out and commercial release, commands with their validation and role checks, and the
    repository: a command is applied once per idempotency key, revisions grow by one per change.
  \<^item> \<open>Sync_State\<close>, \<open>Sync_Store\<close>, \<open>Sync_Processor\<close>, \<open>Sync_Guarantees\<close>: \<open>internal/syncstate\<close>, \<open>internal/domain/sync\<close>; a transaction
    is applied at most once over any run with restarts, accepted numbers have no gaps, the drain of held
    transactions ends, a revoked device is refused, the signed form of a transaction is injective.
  \<^item> \<open>Schema_Versioning\<close>: \<open>internal/domain/sync/versioning.go\<close>; a tablet that follows its catch-up plan reaches the
    epoch of the server, also in parts.
  \<^item> \<open>Transparency\<close>: \<open>pkg/verification/transparency.go\<close>; inclusion and consistency proofs verify exactly for the
    leaves and prefixes of the log, for any hash that is injective on what it is asked.
  \<^item> \<open>Field_Trust\<close>: \<open>pkg/domain/fieldtrust.go\<close>; horizon tokens bound the execution time, seals bind a submission.
  \<^item> \<open>Edge_Coordinator\<close>, \<open>Edge_Guarantees\<close>: \<open>pkg/edgecoordinator\<close>; the tables refine an abstract lease machine, an overrun
    leaves its evidence, the override log is a hash chain.
  \<^item> \<open>Postgres\<close>: \<open>internal/shared/pgtx\<close>; the circuit breaker opens after the configured failures and recovers.
  \<^item> \<open>Asset_Entitlement\<close>, \<open>Asset_Guarantees\<close>: \<open>internal/domain/assetentitlement\<close> and its repositories; revisions of
    entitlements, tags that point to one asset, and packages, which are never generated.
  \<^item> \<open>Custody_Handover\<close>: \<open>internal/domain/custodyhandover\<close> and its repository; interleaved updates are serialised.
  \<^item> \<open>Ring_Buffer\<close>, \<open>Ring_Refinement\<close>, \<open>Ring_Guarantees\<close>: \<open>pkg/perf/ring\<close>; any interleaving of atomic steps of any
    number of threads refines a bounded queue.
  \<^item> \<open>Short_Link\<close>, \<open>Link_Guarantees\<close>, \<open>Webhook_Delivery\<close>, \<open>Webhook_Guarantees\<close>: \<open>internal/domain/shortlink\<close>,
    \<open>internal/shortlinksvc\<close>, \<open>internal/shortlinkpg\<close>; links lead to their target until they end, deliveries under
    overlapping attempts and sweeps.
  \<^item> \<open>Audit_Log\<close>, \<open>Audit_Guarantees\<close>: \<open>internal/domain/auditlog\<close>, \<open>internal/auditlogpg\<close>; the hash chain verifies after appends one
    after the other and is sealed by its last hash, and what breaks it.
  \<^item> \<open>Idempotency\<close>: \<open>internal/idempotency\<close>; the guard in front of the sync and evidence endpoints: exclusive claims, one
    execution per key and window, replay.
  \<^item> \<open>Licensing\<close>: \<open>pkg/licensing\<close>; quorum validation counts distinct keys exactly, what is issued is accepted, revocation.
  Bounds and fuel. The drain of held transactions is a \<open>partial_function\<close>; it is proved to end, after at most as
  many rounds as there are distinct held numbers. Recursions over Merkle trees go to a smaller power of two;
  a range outside the tree ends at once. The ring is correct for capacities from 2 to \<open>2^31\<close> and fewer than
  \<open>2^62\<close> pushes, beyond which the positions could pass half of their width; a thread that runs alone
  returns in seven steps. The creation of a short link tries five codes, as the code does. Nothing else needs
  fuel: all other loops are structural recursions over lists.

  Not modelled. The HTTP handlers, start-up and operator commands (decoding and wiring around the services);
  rendering of documents, CAD, simulation and numerical packages (floating point, judged by the eye); ASN.1, OIDC
  and key storage over third-party packages; object storage, mail and monitoring (input and output); of the
  work-order repository the SQL text of the queries, of the sync processor its HTTP adapters; of the short links
  the anomaly rules, the analytics queries and the archive of QR images. The remaining domain packages are
  listed as such in the manifest.
\<close>

end
